(* ===== verification/Chorrent_Prelude.thy ===== *)
theory Chorrent_Prelude
  imports Main "HOL-Library.Word" "HOL-Library.Monad_Syntax"
begin

text \<open>
  What the components of the development share: the machine integers of the
  Rust source, indexed access and checked arithmetic (a Rust panic is
  \<open>None\<close>), the collections of rewrite rules, and generic lemmas on lists,
  maps and words.

  A \<open>u8\<close>, \<open>u32\<close> or \<open>u64\<close> of the source is a word of that width. A
  \<open>usize\<close> is a natural number: the 64-bit platforms the program is released
  for give it the range of a \<open>u64\<close>, and the places where a count could leave
  that range are written out with their wrap-around.
\<close>

unbundle bit_operations_syntax

type_synonym u8 = "8 word"
type_synonym u32 = "32 word"
type_synonym u64 = "64 word"
type_synonym bytes = "u8 list"
type_synonym ('e, 'a) result = "'e + 'a"

named_theorems panic_simps \<open>rewrite rules for operations that may panic\<close>
named_theorems inv_intros \<open>preservation of the components' invariants\<close>

subsection \<open>Indexing and checked arithmetic\<close>

text \<open>Indexing a slice panics when the index is out of range.\<close>

definition idx :: "'a list \<Rightarrow> nat \<Rightarrow> 'a option" where
  "idx xs i = (if i < length xs then Some (xs ! i) else None)"

text \<open>
  Checked addition and subtraction of one: with overflow checks on, the
  source panics where these give \<open>None\<close>; without, it would wrap. Every
  theorem that an operation does not give \<open>None\<close> holds for both builds.
\<close>

definition checked_inc :: "'a::len word \<Rightarrow> 'a word option" where
  "checked_inc a = (if a = - 1 then None else Some (a + 1))"

definition checked_dec :: "'a::len word \<Rightarrow> 'a word option" where
  "checked_dec a = (if a = 0 then None else Some (a - 1))"

definition checked_pred :: "nat \<Rightarrow> nat option" where
  "checked_pred n = (if n = 0 then None else Some (n - 1))"

text \<open>\<open>u64::div_ceil\<close> as the standard library computes it: no intermediate sum.\<close>

definition div_ceil :: "nat \<Rightarrow> nat \<Rightarrow> nat" where
  "div_ceil a b = (if a mod b = 0 then a div b else a div b + 1)"

lemma idx_Some [panic_simps]: "i < length xs \<Longrightarrow> idx xs i = Some (xs ! i)"
  by (simp add: idx_def)

lemma idx_eq_Some [simp]: "idx xs i = Some x \<longleftrightarrow> i < length xs \<and> x = xs ! i"
  by (auto simp: idx_def)

lemma idx_eq_None [simp]: "idx xs i = None \<longleftrightarrow> length xs \<le> i"
  by (auto simp: idx_def)

lemma unat_inc:
  fixes a :: "'a::len word"
  assumes "Suc (unat a) < 2 ^ LENGTH('a)"
  shows "unat (a + 1) = Suc (unat a)"
  using assms by (simp add: unat_word_ariths)

lemma unat_dec: "a \<noteq> 0 \<Longrightarrow> unat (a - 1) = unat a - 1"
  by (metis unat_minus_one)

lemma checked_inc_Some [panic_simps]:
  assumes "Suc (unat (a :: 'a::len word)) < 2 ^ LENGTH('a)"
  shows "checked_inc a = Some (a + 1)"
proof -
  have "a \<noteq> - 1" using assms by (auto simp: unsigned_minus_1_eq_mask mask_eq_exp_minus_1)
  then show ?thesis by (simp add: checked_inc_def)
qed

lemma checked_dec_Some [panic_simps]: "a \<noteq> 0 \<Longrightarrow> checked_dec a = Some (a - 1)"
  by (simp add: checked_dec_def)

lemma checked_pred_Some [panic_simps]: "0 < n \<Longrightarrow> checked_pred n = Some (n - 1)"
  by (simp add: checked_pred_def)

lemma div_ceil_0 [simp]: "div_ceil 0 b = 0"
  by (simp add: div_ceil_def)

lemma div_ceil_bounds:
  assumes "0 < b"
  shows "a \<le> div_ceil a b * b" and "0 < a \<Longrightarrow> (div_ceil a b - 1) * b < a"
proof -
  have eq: "a = a div b * b + a mod b" by simp
  have lt: "a mod b < b" using assms by simp
  have "a \<le> (a div b + 1) * b"
    using lt by (simp add: dividend_less_times_div less_imp_le distrib_right add.commute)
       (metis add.commute add_le_cancel_left div_mult_mod_eq less_imp_le)
  then show "a \<le> div_ceil a b * b"
    using eq by (cases "a mod b = 0") (auto simp: div_ceil_def)
  show "(div_ceil a b - 1) * b < a" if "0 < a"
  proof (cases "a mod b = 0")
    case True
    with eq that have "0 < a div b" by (metis add_0_right gr0I mult_0)
    then have "(a div b - 1) * b < a div b * b" using assms by simp
    with True eq show ?thesis by (simp add: div_ceil_def)
  next
    case False
    then have "a div b * b < a" using eq by linarith
    with False show ?thesis by (simp add: div_ceil_def)
  qed
qed

lemma div_ceil_pos: "0 < b \<Longrightarrow> 0 < a \<Longrightarrow> 0 < div_ceil a b"
  using div_ceil_bounds(1)[of b a] by (cases "div_ceil a b") auto

lemma less_div_ceil_iff:
  assumes "0 < b"
  shows "k < div_ceil a b \<longleftrightarrow> k * b < a"
proof
  assume lt: "k < div_ceil a b"
  then have "0 < a" by (cases a) auto
  from lt have "k * b \<le> (div_ceil a b - 1) * b" by (intro mult_le_mono1) linarith
  also have "\<dots> < a" using div_ceil_bounds(2)[OF assms \<open>0 < a\<close>] .
  finally show "k * b < a" .
next
  assume "k * b < a"
  also have "a \<le> div_ceil a b * b" by (rule div_ceil_bounds(1)[OF assms])
  finally show "k < div_ceil a b" using assms by simp
qed

subsection \<open>Lists and finite maps\<close>

lemma bind_assert_Some [panic_simps]: "Option.bind (Some x) f = f x"
  by simp

lemma enumerate_zip: "List.enumerate 0 xs = zip [0..<length xs] xs"
  by (simp add: enumerate_eq_zip)

lemma length_filter_update:
  assumes "i < length xs"
  shows "length (filter P (xs[i := y])) + (if P (xs ! i) then 1 else 0)
       = length (filter P xs) + (if P y then 1 else 0)"
  using assms
proof (induction xs arbitrary: i)
  case Nil
  then show ?case by simp
next
  case (Cons x xs)
  then show ?case by (cases i) auto
qed

lemma length_filter_all: "length (filter P xs) = length xs \<longleftrightarrow> (\<forall>x \<in> set xs. P x)"
proof
  assume "length (filter P xs) = length xs"
  then show "\<forall>x \<in> set xs. P x"
    by (metis length_filter_less less_irrefl)
next
  assume "\<forall>x \<in> set xs. P x"
  then show "length (filter P xs) = length xs" by simp
qed

lemma length_filter_pos: "0 < length (filter P xs) \<longleftrightarrow> (\<exists>i < length xs. P (xs ! i))"
  by (simp add: filter_empty_conv) (metis in_set_conv_nth)

lemma finite_holders: "finite (dom m) \<Longrightarrow> finite {p. \<exists>b. m p = Some b \<and> P b}"
  by (rule finite_subset [of _ "dom m"]) auto

lemma card_le_dom: "finite (dom m) \<Longrightarrow> card {p. \<exists>b. m p = Some b \<and> P b} \<le> card (dom m)"
  by (rule card_mono) auto

subsection \<open>Sequences of operations that may panic\<close>

text \<open>
  Runs of a component: a list of calls performed in order, \<open>None\<close> as soon as
  one panics. The locale is the contract several components share: under an
  invariant (which may bound how many calls are still to come) a permitted
  call does not panic, keeps the invariant, and adds exactly its \<open>effect\<close> to
  a monotone set of marks (pieces done, pieces held).
\<close>

fun run_ops :: "('op \<Rightarrow> 's \<Rightarrow> 's option) \<Rightarrow> 'op list \<Rightarrow> 's \<Rightarrow> 's option" where
  "run_ops exec [] s = Some s"
| "run_ops exec (x # xs) s = do { s' \<leftarrow> exec x s; run_ops exec xs s' }"

text \<open>
  The weakest such contract: a permitted call does not panic, keeps the
  invariant, and relates the state to the next one by an order \<open>kept\<close>.
\<close>

locale safe_ops =
  fixes exec :: "'op \<Rightarrow> 's \<Rightarrow> 's option"
    and ok :: "'s \<Rightarrow> 'op \<Rightarrow> bool"
    and invar :: "nat \<Rightarrow> 's \<Rightarrow> bool"
    and kept :: "'s \<Rightarrow> 's \<Rightarrow> bool"
  assumes step: "invar (Suc k) s \<Longrightarrow> ok s x \<Longrightarrow> \<exists>s'. exec x s = Some s' \<and> invar k s' \<and> kept s s'"
    and ok_kept: "kept s s' \<Longrightarrow> ok s x \<Longrightarrow> ok s' x"
    and kept_refl: "kept s s"
    and kept_trans: "kept s s1 \<Longrightarrow> kept s1 s2 \<Longrightarrow> kept s s2"
begin

lemma run_safe:
  assumes "invar (length xs + k) s" and "\<forall>x \<in> set xs. ok s x"
  shows "\<exists>s'. run_ops exec xs s = Some s' \<and> invar k s' \<and> kept s s'"
  using assms
proof (induction xs arbitrary: s)
  case Nil
  then show ?case by (simp add: kept_refl)
next
  case (Cons x xs)
  then obtain s1 where s1: "exec x s = Some s1" "invar (length xs + k) s1" "kept s s1"
    using step [of "length xs + k" s x] by auto
  with Cons.IH [of s1] Cons.prems(2) ok_kept kept_trans show ?case by fastforce
qed

end

locale marked_ops =
  fixes exec :: "'op \<Rightarrow> 's \<Rightarrow> 's option"
    and ok :: "nat \<Rightarrow> 'op \<Rightarrow> bool"
    and invar :: "nat \<Rightarrow> 's \<Rightarrow> bool"
    and count :: "'s \<Rightarrow> nat"
    and marks :: "'s \<Rightarrow> nat set"
    and effect :: "'op \<Rightarrow> nat set"
  assumes exec_ok: "invar (Suc k) s \<Longrightarrow> ok (count s) x \<Longrightarrow>
    \<exists>s'. exec x s = Some s' \<and> invar k s' \<and> count s' = count s \<and> marks s' = marks s \<union> effect x"
begin

lemma run_ok:
  assumes "invar (length xs + k) s" and "\<forall>x \<in> set xs. ok (count s) x"
  shows "\<exists>s'. run_ops exec xs s = Some s' \<and> invar k s' \<and> count s' = count s \<and>
    marks s' = marks s \<union> (\<Union>x \<in> set xs. effect x)"
  using assms
proof (induction xs arbitrary: s)
  case Nil
  then show ?case by simp
next
  case (Cons x xs)
  then obtain s1 where s1: "exec x s = Some s1" "invar (length xs + k) s1" "count s1 = count s"
    "marks s1 = marks s \<union> effect x"
    using exec_ok [of "length xs + k" s x] by auto
  with Cons.IH [of s1] Cons.prems(2) show ?case by auto
qed

end

sublocale marked_ops \<subseteq> safe_ops exec "\<lambda>s. ok (count s)" invar "\<lambda>s s'. count s' = count s \<and> marks s \<subseteq> marks s'"
proof unfold_locales
  fix k s x assume "invar (Suc k) s" "ok (count s) x"
  from exec_ok [OF this] show "\<exists>s'. exec x s = Some s' \<and> invar k s' \<and> count s' = count s \<and> marks s \<subseteq> marks s'" by auto
qed auto

end
