(* ===== verification/Scheduler.thy ===== *)
theory Scheduler
  imports Chorrent_Prelude
begin

text \<open>
  The piece scheduler of \<open>src/crates/chorrent/src/scheduler.rs\<close>: which piece to
  ask which peer for next. A peer is a value of any type \<open>'k\<close> (the program
  uses endpoint ids). Every operation that could panic gives an \<open>option\<close>;
  \<open>sched_inv\<close> is what the operations keep of the state, and under it none of
  them panics.
\<close>

subsection \<open>State\<close>

definition ENDGAME_DUPLICATES :: nat where
  "ENDGAME_DUPLICATES = 3"

definition RAREST_SAMPLE :: nat where
  "RAREST_SAMPLE = 64"

datatype 'k piece = Missing | InFlight "'k list" | Done

record 'k scheduler =
  pieces :: "'k piece list"
  availability :: "u32 list"
  peers :: "'k \<rightharpoonup> bool list"
  urgent_window :: nat
  first_not_done :: nat
  missing :: nat
  done_count :: nat

subsection \<open>Operations\<close>

text \<open>The loop of \<open>advance_playhead\<close>.\<close>

function playhead_from :: "'k piece list \<Rightarrow> nat \<Rightarrow> nat" where
  "playhead_from ps i =
     (if i < length ps \<and> ps ! i = Done then playhead_from ps (i + 1) else i)"
  by pat_completeness auto
termination
  by (relation "measure (\<lambda>(ps, i). length ps - i)") auto

declare playhead_from.simps [simp del]

definition advance_playhead :: "'k scheduler \<Rightarrow> 'k scheduler" where
  "advance_playhead s =
     s\<lparr>first_not_done := playhead_from (pieces s) (first_not_done s)\<rparr>"

definition sched_new :: "bool list \<Rightarrow> nat \<Rightarrow> 'k scheduler" where
  "sched_new have window =
     (let ps = map (\<lambda>h. if h then Done else Missing) have;
          done = length (filter (\<lambda>h. h) have)
      in advance_playhead
           \<lparr>pieces = ps, availability = replicate (length ps) 0, peers = Map.empty,
            urgent_window = window, first_not_done = 0,
            missing = length ps - done, done_count = done\<rparr>)"

definition sched_is_done :: "'k scheduler \<Rightarrow> bool" where
  "sched_is_done s \<longleftrightarrow> done_count s = length (pieces s)"

text \<open>The loops that count a peer's bitfield in and out of \<open>availability\<close>.\<close>

fun count_in :: "(nat \<times> bool) list \<Rightarrow> u32 list \<Rightarrow> u32 list option" where
  "count_in [] av = Some av"
| "count_in ((i, h) # r) av =
     (if h then do { a \<leftarrow> idx av i; a' \<leftarrow> checked_inc a; count_in r (av[i := a']) }
      else count_in r av)"

fun count_out :: "(nat \<times> bool) list \<Rightarrow> u32 list \<Rightarrow> u32 list option" where
  "count_out [] av = Some av"
| "count_out ((i, h) # r) av =
     (if h then do { a \<leftarrow> idx av i; a' \<leftarrow> checked_dec a; count_out r (av[i := a']) }
      else count_out r av)"

definition drop_request :: "nat \<Rightarrow> 'k \<Rightarrow> 'k scheduler \<Rightarrow> 'k scheduler option" where
  "drop_request piece peer s = do {
     p \<leftarrow> idx (pieces s) piece;
     (case p of
        InFlight by \<Rightarrow>
          (let by' = filter (\<lambda>q. q \<noteq> peer) by
           in if by' = [] then
                Some (s\<lparr>pieces := (pieces s)[piece := Missing], missing := missing s + 1\<rparr>)
              else Some (s\<lparr>pieces := (pieces s)[piece := InFlight by']\<rparr>))
      | _ \<Rightarrow> Some s) }"

fun drop_requests :: "nat list \<Rightarrow> 'k \<Rightarrow> 'k scheduler \<Rightarrow> 'k scheduler option" where
  "drop_requests [] peer s = Some s"
| "drop_requests (i # is) peer s = do { s' \<leftarrow> drop_request i peer s; drop_requests is peer s' }"

definition remove_peer :: "'k \<Rightarrow> 'k scheduler \<Rightarrow> 'k scheduler option" where
  "remove_peer peer s =
     (case peers s peer of
        None \<Rightarrow> Some s
      | Some bits \<Rightarrow> do {
          av \<leftarrow> count_out (List.enumerate 0 bits) (availability s);
          drop_requests [0..<length (pieces s)] peer
            (s\<lparr>peers := (peers s)(peer := None), availability := av\<rparr>) })"

definition add_peer :: "'k \<Rightarrow> bool list \<Rightarrow> 'k scheduler \<Rightarrow> 'k scheduler option" where
  "add_peer peer have s = do {
     s1 \<leftarrow> remove_peer peer s;
     av \<leftarrow> count_in (take (length (pieces s1)) (List.enumerate 0 have)) (availability s1);
     Some (s1\<lparr>availability := av, peers := (peers s1)(peer \<mapsto> have)\<rparr>) }"

definition set_peer_has :: "'k \<Rightarrow> nat \<Rightarrow> 'k scheduler \<Rightarrow> 'k scheduler option" where
  "set_peer_has peer piece s =
     (case peers s peer of
        None \<Rightarrow> Some s
      | Some bits \<Rightarrow>
          if piece < length bits \<and> \<not> bits ! piece then do {
            a \<leftarrow> idx (availability s) piece;
            a' \<leftarrow> checked_inc a;
            Some (s\<lparr>peers := (peers s)(peer \<mapsto> bits[piece := True]),
                    availability := (availability s)[piece := a']\<rparr>) }
          else Some s)"

text \<open>
  \<open>pick\<close>. The closure \<open>wanted\<close> indexes the peer's bits and, only when the bit
  is set, the pieces; the three searches run over lists of piece numbers and
  stop where the source's iterators stop.
\<close>

definition wanted :: "'k scheduler \<Rightarrow> bool list \<Rightarrow> nat \<Rightarrow> bool option" where
  "wanted s bits i = do {
     b \<leftarrow> idx bits i;
     if b then do { p \<leftarrow> idx (pieces s) i; Some (case p of Missing \<Rightarrow> True | _ \<Rightarrow> False) }
     else Some False }"

fun find_first :: "(nat \<Rightarrow> bool option) \<Rightarrow> nat list \<Rightarrow> nat option option" where
  "find_first w [] = Some None"
| "find_first w (i # is) = do { b \<leftarrow> w i; if b then Some (Some i) else find_first w is }"

fun rarest :: "(nat \<Rightarrow> bool option) \<Rightarrow> u32 list \<Rightarrow> nat list \<Rightarrow> (nat \<times> u32) option \<Rightarrow> nat
    \<Rightarrow> (nat \<times> u32) option option" where
  "rarest w av [] best seen = Some best"
| "rarest w av (i # is) best seen = do {
     b \<leftarrow> w i;
     if \<not> b then rarest w av is best seen
     else do {
       rarity \<leftarrow> idx av i;
       let best' = (case best of
                      None \<Rightarrow> Some (i, rarity)
                    | Some (j, r) \<Rightarrow> if rarity < r then Some (i, rarity) else Some (j, r));
       let seen' = seen + 1;
       if RAREST_SAMPLE \<le> seen' \<or> rarity \<le> 1 then Some best'
       else rarest w av is best' seen' } }"

text \<open>The candidates of the endgame: piece number and how many peers fetch it.\<close>

fun endgame :: "'k scheduler \<Rightarrow> bool list \<Rightarrow> 'k \<Rightarrow> nat list \<Rightarrow> (nat \<times> nat) list option" where
  "endgame s bits peer [] = Some []"
| "endgame s bits peer (i # is) = do {
     b \<leftarrow> idx bits i;
     if \<not> b then endgame s bits peer is
     else do {
       p \<leftarrow> idx (pieces s) i;
       r \<leftarrow> endgame s bits peer is;
       Some (case p of
               InFlight by \<Rightarrow>
                 if length by < ENDGAME_DUPLICATES \<and> peer \<notin> set by then (i, length by) # r else r
             | _ \<Rightarrow> r) } }"

text \<open>\<open>Iterator::min_by_key\<close>: the first of the least elements.\<close>

fun min_by_snd :: "(nat \<times> nat) list \<Rightarrow> nat option" where
  "min_by_snd [] = None"
| "min_by_snd ((i, n) # r) =
     (if \<forall>x \<in> set r. n \<le> snd x then Some i else min_by_snd r)"

definition pick_choice :: "'k scheduler \<Rightarrow> bool list \<Rightarrow> 'k \<Rightarrow> nat option option" where
  "pick_choice s bits peer = (let total = length (pieces s); start = first_not_done s in do {
     c1 \<leftarrow> find_first (wanted s bits) [start..<min (start + urgent_window s) total];
     c2 \<leftarrow> (if c1 = None \<and> 0 < missing s \<and> 0 < total then do {
              best \<leftarrow> rarest (wanted s bits) (availability s) ([start..<total] @ [0..<start]) None 0;
              Some (map_option fst best) }
            else Some c1);
     (if c2 = None \<and> missing s = 0 then do {
        cs \<leftarrow> endgame s bits peer [start..<total];
        Some (min_by_snd cs) }
      else Some c2) })"

definition pick :: "'k \<Rightarrow> 'k scheduler \<Rightarrow> (nat option \<times> 'k scheduler) option" where
  "pick peer s =
     (case peers s peer of
        None \<Rightarrow> Some (None, s)
      | Some bits \<Rightarrow> do {
          choice \<leftarrow> pick_choice s bits peer;
          (case choice of
             None \<Rightarrow> Some (None, s)
           | Some i \<Rightarrow> do {
               p \<leftarrow> idx (pieces s) i;
               (case p of
                  Missing \<Rightarrow> do {
                    m \<leftarrow> checked_pred (missing s);
                    Some (Some i, s\<lparr>pieces := (pieces s)[i := InFlight [peer]], missing := m\<rparr>) }
                | InFlight by \<Rightarrow>
                    Some (Some i, s\<lparr>pieces := (pieces s)[i := InFlight (by @ [peer])]\<rparr>)
                | Done \<Rightarrow> None) }) })"

definition complete_piece :: "nat \<Rightarrow> 'k scheduler \<Rightarrow> (bool \<times> 'k scheduler) option" where
  "complete_piece piece s = do {
     p \<leftarrow> idx (pieces s) piece;
     let s1 = s\<lparr>pieces := (pieces s)[piece := Done]\<rparr>;
     (case p of
        Done \<Rightarrow> Some (False, s1)
      | Missing \<Rightarrow> do {
          m \<leftarrow> checked_pred (missing s1);
          Some (True, advance_playhead (s1\<lparr>missing := m, done_count := done_count s1 + 1\<rparr>)) }
      | InFlight _ \<Rightarrow>
          Some (True, advance_playhead (s1\<lparr>done_count := done_count s1 + 1\<rparr>))) }"

definition failed :: "nat \<Rightarrow> 'k \<Rightarrow> bool \<Rightarrow> 'k scheduler \<Rightarrow> 'k scheduler option" where
  "failed piece peer peer_lacks_it s = do {
     s1 \<leftarrow> drop_request piece peer s;
     (if peer_lacks_it then
        (case peers s1 peer of
           None \<Rightarrow> Some s1
         | Some bits \<Rightarrow> do {
             b \<leftarrow> idx bits piece;
             if b then do {
               a \<leftarrow> idx (availability s1) piece;
               a' \<leftarrow> checked_dec a;
               Some (s1\<lparr>peers := (peers s1)(peer \<mapsto> bits[piece := False]),
                        availability := (availability s1)[piece := a']\<rparr>) }
             else Some s1 })
      else Some s1) }"

subsection \<open>The invariant\<close>

definition holders :: "('k \<rightharpoonup> bool list) \<Rightarrow> nat \<Rightarrow> 'k set" where
  "holders m i = {p. \<exists>bits. m p = Some bits \<and> i < length bits \<and> bits ! i}"

definition is_missing :: "'k piece \<Rightarrow> bool" where
  "is_missing p \<longleftrightarrow> p = Missing"

definition is_done_piece :: "'k piece \<Rightarrow> bool" where
  "is_done_piece p \<longleftrightarrow> p = Done"

definition requesters :: "'k piece \<Rightarrow> 'k list" where
  "requesters p = (case p of InFlight by \<Rightarrow> by | _ \<Rightarrow> [])"

definition piece_ok :: "('k \<rightharpoonup> bool list) \<Rightarrow> 'k piece \<Rightarrow> bool" where
  "piece_ok m p = (case p of
     InFlight by \<Rightarrow> by \<noteq> [] \<and> distinct by \<and> set by \<subseteq> dom m \<and> length by \<le> ENDGAME_DUPLICATES
   | _ \<Rightarrow> True)"

text \<open>Counters, bit lengths and availability.\<close>

definition counts_ok :: "'k scheduler \<Rightarrow> bool" where
  "counts_ok s \<longleftrightarrow>
     missing s = length (filter is_missing (pieces s)) \<and>
     done_count s = length (filter is_done_piece (pieces s))"

definition peers_ok :: "nat \<Rightarrow> ('k \<rightharpoonup> bool list) \<Rightarrow> u32 list \<Rightarrow> bool" where
  "peers_ok n m av \<longleftrightarrow>
     length av = n \<and> finite (dom m) \<and>
     (\<forall>p bits. m p = Some bits \<longrightarrow> length bits = n) \<and>
     (\<forall>i < n. unat (av ! i) = card (holders m i))"

definition playhead_ok :: "'k piece list \<Rightarrow> nat \<Rightarrow> bool" where
  "playhead_ok ps k \<longleftrightarrow> k \<le> length ps \<and> (\<forall>i < k. ps ! i = Done) \<and>
     (k < length ps \<longrightarrow> ps ! k \<noteq> Done)"

definition sched_inv :: "'k scheduler \<Rightarrow> bool" where
  "sched_inv s \<longleftrightarrow>
     counts_ok s \<and> peers_ok (length (pieces s)) (peers s) (availability s) \<and>
     playhead_ok (pieces s) (first_not_done s) \<and>
     (\<forall>p \<in> set (pieces s). piece_ok (peers s) p)"

end
