(* ===== verification/Scheduler_Inv.thy ===== *)
theory Scheduler_Inv
  imports Scheduler
begin

lemma playhead_from_ok:
  "i \<le> length ps \<Longrightarrow> \<forall>j < i. ps ! j = Done \<Longrightarrow> playhead_ok ps (playhead_from ps i)"
proof (induction ps i rule: playhead_from.induct)
  case (1 ps i)
  show ?case
  proof (cases "i < length ps \<and> ps ! i = Done")
    case True
    then have "\<forall>j < i + 1. ps ! j = Done" using "1.prems"(2) by (auto simp: less_Suc_eq)
    with True show ?thesis
      using "1.IH" by (subst playhead_from.simps) auto
  next
    case False
    then have "playhead_from ps i = i" by (auto simp: playhead_from.simps [of ps i])
    with False "1.prems" show ?thesis by (auto simp: playhead_ok_def)
  qed
qed

lemma counts_playhead [simp]: "counts_ok (advance_playhead s) = counts_ok s"
  by (simp add: counts_ok_def advance_playhead_def)

lemma advance_playhead_fields [simp]:
  "pieces (advance_playhead s) = pieces s"
  "availability (advance_playhead s) = availability s"
  "peers (advance_playhead s) = peers s"
  "urgent_window (advance_playhead s) = urgent_window s"
  "missing (advance_playhead s) = missing s"
  "done_count (advance_playhead s) = done_count s"
  by (simp_all add: advance_playhead_def)

lemma advance_playhead_ok:
  assumes "first_not_done s \<le> length (pieces s)" and "\<forall>j < first_not_done s. pieces s ! j = Done"
  shows "playhead_ok (pieces s) (first_not_done (advance_playhead s))"
  using playhead_from_ok [OF assms] by (simp add: advance_playhead_def)

lemma holders_empty [simp]: "holders Map.empty i = {}"
  by (simp add: holders_def)

lemma finite_holders_dom: "finite (dom m) \<Longrightarrow> finite (holders m i)"
  by (rule finite_subset [of _ "dom m"]) (auto simp: holders_def)

lemma holders_sub_dom: "holders m i \<subseteq> dom m"
  by (auto simp: holders_def)

lemma holders_upd: 
  "holders (m(p \<mapsto> bits)) i =
     (if i < length bits \<and> bits ! i then insert p (holders m i) else holders m i - {p})"
  by (auto simp: holders_def)

lemma holders_del: "holders (m(p := None)) i = holders m i - {p}"
  by (auto simp: holders_def)

lemma sched_new_inv: "sched_inv (sched_new have window :: 'k scheduler)"
proof -
  let ?ps = "map (\<lambda>h. if h then Done else Missing) have :: 'k piece list"
  have f: "length (filter is_missing ?ps) = length have - length (filter (\<lambda>h. h) have)"
          "length (filter is_done_piece ?ps) = length (filter (\<lambda>h. h) have)"
    by (induction "have") (auto simp: is_missing_def is_done_piece_def Suc_diff_le)
  then show ?thesis
    unfolding sched_new_def Let_def sched_inv_def
    by (intro conjI ballI advance_playhead_ok)
       (auto simp: counts_ok_def peers_ok_def piece_ok_def advance_playhead_def
             intro: playhead_from_ok)
qed

subsection \<open>Counting bitfields in and out\<close>

lemma count_in_Some:
  assumes "distinct (map fst l)"
    and "\<forall>(i, h) \<in> set l. i < length av \<and> Suc (unat (av ! i)) < 2 ^ 32"
  shows "\<exists>av'. count_in l av = Some av' \<and> length av' = length av \<and>
     (\<forall>i < length av. unat (av' ! i) = unat (av ! i) + (if (i, True) \<in> set l then 1 else 0))"
  using assms
proof (induction l av rule: count_in.induct)
  case (1 av)
  then show ?case by simp
next
  case (2 i h r av)
  show ?case
  proof (cases h)
    case True
    from "2.prems" have i: "i < length av" "Suc (unat (av ! i)) < 2 ^ 32" by auto
    let ?av = "av[i := av ! i + 1]"
    have inc: "checked_inc (av ! i) = Some (av ! i + 1)" "unat (av ! i + 1) = Suc (unat (av ! i))"
      using i by (simp_all add: panic_simps unat_inc)
    have "\<forall>(j, h) \<in> set r. j < length ?av \<and> Suc (unat (?av ! j)) < 2 ^ 32"
      using "2.prems" by (force simp: nth_list_update)
    then obtain av' where av': "count_in r ?av = Some av'" "length av' = length av"
      "\<forall>j < length av. unat (av' ! j) = unat (?av ! j) + (if (j, True) \<in> set r then 1 else 0)"
      using "2.IH"(1)[OF True, of "av ! i" "av ! i + 1"] "2.prems"(1) i inc by auto
    have "(i, True) \<notin> set r" using "2.prems"(1) by force
    then have "\<forall>j < length av. unat (av' ! j) = unat (av ! j) + (if (j, True) \<in> set ((i, h) # r) then 1 else 0)"
      using av'(3) inc i True by (auto simp: nth_list_update)
    with av' inc i True show ?thesis by (simp add: panic_simps)
  next
    case False
    with "2.IH"(2) "2.prems" show ?thesis by auto
  qed
qed

lemma count_out_Some:
  assumes "distinct (map fst l)"
    and "\<forall>(i, h) \<in> set l. h \<longrightarrow> i < length av \<and> 0 < unat (av ! i)"
  shows "\<exists>av'. count_out l av = Some av' \<and> length av' = length av \<and>
     (\<forall>i < length av. unat (av' ! i) = unat (av ! i) - (if (i, True) \<in> set l then 1 else 0))"
  using assms
proof (induction l av rule: count_out.induct)
  case (1 av)
  then show ?case by simp
next
  case (2 i h r av)
  show ?case
  proof (cases h)
    case True
    from "2.prems" True have i: "i < length av" "0 < unat (av ! i)" by auto
    then have ne: "av ! i \<noteq> 0" by auto
    let ?av = "av[i := av ! i - 1]"
    have dec: "checked_dec (av ! i) = Some (av ! i - 1)" "unat (av ! i - 1) = unat (av ! i) - 1"
      using ne by (simp_all add: panic_simps unat_dec)
    have "j < length ?av \<and> 0 < unat (?av ! j)" if j: "(j, True) \<in> set r" for j
    proof -
      from j "2.prems"(1) have "j \<noteq> i" by force
      with j "2.prems"(2) show ?thesis by auto
    qed
    then have "\<forall>(j, h) \<in> set r. h \<longrightarrow> j < length ?av \<and> 0 < unat (?av ! j)" by auto
    then obtain av' where av': "count_out r ?av = Some av'" "length av' = length av"
      "\<forall>j < length av. unat (av' ! j) = unat (?av ! j) - (if (j, True) \<in> set r then 1 else 0)"
      using "2.IH"(1)[OF True, of "av ! i" "av ! i - 1"] "2.prems"(1) i dec by auto
    have "(i, True) \<notin> set r" using "2.prems"(1) by force
    then have "\<forall>j < length av. unat (av' ! j) = unat (av ! j) - (if (j, True) \<in> set ((i, h) # r) then 1 else 0)"
      using av'(3) dec i True by (auto simp: nth_list_update)
    with av' dec i True show ?thesis by (simp add: panic_simps)
  next
    case False
    with "2.IH"(2) "2.prems" show ?thesis by auto
  qed
qed

lemma set_enumerate_bits: "(i, b) \<in> set (List.enumerate 0 bits) \<longleftrightarrow> i < length bits \<and> bits ! i = b"
  by (auto simp: in_set_enumerate_eq)

subsection \<open>Dropping requests\<close>

definition drop_piece :: "'k \<Rightarrow> 'k piece \<Rightarrow> 'k piece" where
  "drop_piece peer p = (case p of
     InFlight by \<Rightarrow>
       (let by' = filter (\<lambda>q. q \<noteq> peer) by in if by' = [] then Missing else InFlight by')
   | _ \<Rightarrow> p)"

lemma drop_piece_simps [simp]:
  "drop_piece peer Missing = Missing"
  "drop_piece peer Done = Done"
  by (simp_all add: drop_piece_def)

lemma drop_piece_eq_Done [simp]: "drop_piece peer p = Done \<longleftrightarrow> p = Done"
  by (auto simp: drop_piece_def Let_def split: piece.splits)

lemma drop_piece_idem [simp]: "drop_piece peer (drop_piece peer p) = drop_piece peer p"
  by (auto simp: drop_piece_def Let_def split: piece.splits)

lemma requesters_drop: "piece_ok m p \<Longrightarrow> requesters (drop_piece peer p) = filter (\<lambda>q. q \<noteq> peer) (requesters p)"
  by (auto simp: drop_piece_def Let_def requesters_def filter_empty_conv split: piece.splits)

lemma piece_ok_drop: "piece_ok m p \<Longrightarrow> piece_ok (m(peer := None)) (drop_piece peer p)"
  by (auto simp: drop_piece_def Let_def piece_ok_def split: piece.splits
           intro: le_trans [OF length_filter_le])

lemma piece_ok_drop': "piece_ok m p \<Longrightarrow> piece_ok m (drop_piece peer p)"
  by (auto simp: drop_piece_def Let_def piece_ok_def split: piece.splits
           intro: le_trans [OF length_filter_le])

lemma drop_request_Some:
  assumes "i < length (pieces s)" and "counts_ok s" and "\<forall>p \<in> set (pieces s). piece_ok m p"
  shows "\<exists>n. drop_request i peer s =
     Some (s\<lparr>pieces := (pieces s)[i := drop_piece peer (pieces s ! i)], missing := n\<rparr>) \<and>
     counts_ok (s\<lparr>pieces := (pieces s)[i := drop_piece peer (pieces s ! i)], missing := n\<rparr>)"
proof (cases "pieces s ! i")
  case (InFlight l)
  have by_ne: "l \<noteq> []" using assms InFlight by (force simp: piece_ok_def dest: nth_mem)
  have lf: "length (filter P ((pieces s)[i := y])) + (if P (pieces s ! i) then 1 else 0)
       = length (filter P (pieces s)) + (if P y then 1 else 0)" for P y
    using assms(1) by (rule length_filter_update)
  show ?thesis
    using InFlight assms(1,2) lf [of is_missing] lf [of is_done_piece]
    by (auto simp: drop_request_def drop_piece_def counts_ok_def Let_def panic_simps
                   is_missing_def is_done_piece_def)
next
  case Missing
  then have "(pieces s)[i := drop_piece peer (pieces s ! i)] = pieces s"
    by (metis drop_piece_simps(1) list_update_id)
  with Missing assms show ?thesis
    by (intro exI [of _ "missing s"]) (simp add: drop_request_def panic_simps)
next
  case Done
  then have "(pieces s)[i := drop_piece peer (pieces s ! i)] = pieces s"
    by (metis drop_piece_simps(2) list_update_id)
  with Done assms show ?thesis
    by (intro exI [of _ "missing s"]) (simp add: drop_request_def panic_simps)
qed


lemma drop_requests_Some:
  assumes "\<forall>i \<in> set is. i < length (pieces s)" and "counts_ok s"
    and "\<forall>p \<in> set (pieces s). piece_ok m p"
  shows "\<exists>ps n. drop_requests is peer s = Some (s\<lparr>pieces := ps, missing := n\<rparr>) \<and>
     length ps = length (pieces s) \<and>
     (\<forall>j < length (pieces s). ps ! j = (if j \<in> set is then drop_piece peer (pieces s ! j) else pieces s ! j)) \<and>
     counts_ok (s\<lparr>pieces := ps, missing := n\<rparr>)"
  using assms
proof (induction "is" arbitrary: s)
  case Nil
  then show ?case
    by (intro exI [of _ "pieces s"] exI [of _ "missing s"]) simp
next
  case (Cons i "is")
  from Cons.prems have i: "i < length (pieces s)" by simp
  let ?ps = "(pieces s)[i := drop_piece peer (pieces s ! i)]"
  obtain n where n: "drop_request i peer s = Some (s\<lparr>pieces := ?ps, missing := n\<rparr>)"
    "counts_ok (s\<lparr>pieces := ?ps, missing := n\<rparr>)"
    using drop_request_Some [OF i Cons.prems(2,3)] by blast
  let ?s = "s\<lparr>pieces := ?ps, missing := n\<rparr>"
  have ok: "\<forall>p \<in> set (pieces ?s). piece_ok m p"
    using Cons.prems(3) i by (auto dest!: set_update_subset_insert [THEN subsetD] simp: piece_ok_drop')
  have rng: "\<forall>i \<in> set is. i < length (pieces ?s)" using Cons.prems by simp
  obtain ps n' where r: "drop_requests is peer ?s = Some (?s\<lparr>pieces := ps, missing := n'\<rparr>)"
    "length ps = length (pieces s)"
    "\<forall>j < length (pieces s). ps ! j = (if j \<in> set is then drop_piece peer (?ps ! j) else ?ps ! j)"
    "counts_ok (?s\<lparr>pieces := ps, missing := n'\<rparr>)"
    using Cons.IH [OF rng n(2) ok] by auto
  have all: "\<forall>j < length (pieces s). ps ! j =
     (if j \<in> set (i # is) then drop_piece peer (pieces s ! j) else pieces s ! j)"
    using r(3) i by (auto simp: nth_list_update)
  have run: "drop_requests (i # is) peer s = Some (s\<lparr>pieces := ps, missing := n'\<rparr>)"
    using n r by simp
  show ?case
    using r by (intro exI [of _ ps] exI [of _ n'] conjI run all) simp_all
qed

lemma playhead_drop:
  assumes "playhead_ok ps k" and "length qs = length ps" and "\<forall>j < length ps. qs ! j = Done \<longleftrightarrow> ps ! j = Done"
  shows "playhead_ok qs k"
  using assms by (auto simp: playhead_ok_def)

text \<open>What \<open>remove_peer\<close> computes for a known peer.\<close>

lemma remove_peer_Some:
  assumes inv: "sched_inv s" and known: "peers s peer = Some bits"
  shows "\<exists>av n. remove_peer peer s =
     Some (s\<lparr>peers := (peers s)(peer := None), availability := av,
             pieces := map (drop_piece peer) (pieces s), missing := n\<rparr>) \<and>
     sched_inv (s\<lparr>peers := (peers s)(peer := None), availability := av,
             pieces := map (drop_piece peer) (pieces s), missing := n\<rparr>)"
proof -
  let ?n = "length (pieces s)"
  from inv have co: "counts_ok s" and po: "peers_ok ?n (peers s) (availability s)"
    and ph: "playhead_ok (pieces s) (first_not_done s)"
    and pk: "\<forall>p \<in> set (pieces s). piece_ok (peers s) p"
    by (simp_all add: sched_inv_def)
  from po known have bl: "length bits = ?n" and fin: "finite (dom (peers s))"
    and av_len: "length (availability s) = ?n"
    and av: "\<forall>i < ?n. unat (availability s ! i) = card (holders (peers s) i)"
    by (auto simp: peers_ok_def)
  have in_h: "peer \<in> holders (peers s) i" if "i < ?n" "bits ! i" for i
    using known bl that by (simp add: holders_def)
  have pos: "0 < unat (availability s ! i)" if "i < ?n" "bits ! i" for i
    using in_h [OF that] av that(1) finite_holders_dom [OF fin, of i] by (auto simp: card_gt_0_iff)
  have "\<forall>(i, h) \<in> set (List.enumerate 0 bits). h \<longrightarrow> i < length (availability s) \<and> 0 < unat (availability s ! i)"
    using pos bl av_len by (auto simp: set_enumerate_bits)
  then obtain av' where av': "count_out (List.enumerate 0 bits) (availability s) = Some av'"
    "length av' = ?n"
    "\<forall>i < ?n. unat (av' ! i) = unat (availability s ! i) - (if bits ! i then 1 else 0)"
    using count_out_Some [of "List.enumerate 0 bits" "availability s"] av_len bl
    by (auto simp: set_enumerate_bits)
  let ?s = "s\<lparr>peers := (peers s)(peer := None), availability := av'\<rparr>"
  have pk': "\<forall>p \<in> set (pieces ?s). piece_ok (peers s) p" and co': "counts_ok ?s"
    using pk co by (simp_all add: counts_ok_def)
  obtain ps n where d: "drop_requests [0..<?n] peer ?s = Some (?s\<lparr>pieces := ps, missing := n\<rparr>)"
    "length ps = ?n" "\<forall>j < ?n. ps ! j = drop_piece peer (pieces s ! j)"
    "counts_ok (?s\<lparr>pieces := ps, missing := n\<rparr>)"
    using drop_requests_Some [of "[0..<?n]" ?s "peers s" peer, OF _ co' pk'] by auto
  have ps: "ps = map (drop_piece peer) (pieces s)"
    using d by (auto intro: nth_equalityI)
  have "unat (av' ! i) = card (holders ((peers s)(peer := None)) i)" if i: "i < ?n" for i
  proof (cases "bits ! i")
    case True
    then show ?thesis
      using av' av i in_h [OF i True] by (simp add: holders_del)
  next
    case False
    then have "peer \<notin> holders (peers s) i" using known by (auto simp: holders_def)
    with False av' av i show ?thesis by (simp add: holders_del)
  qed
  then have "peers_ok ?n ((peers s)(peer := None)) av'"
    using po av'(2) by (auto simp: peers_ok_def split: if_splits)
  then have "sched_inv (?s\<lparr>pieces := ps, missing := n\<rparr>)"
    using d ps pk ph
    by (auto simp: sched_inv_def piece_ok_drop intro: playhead_drop)
  with av' d ps known show ?thesis
    by (auto simp: remove_peer_def)
qed

lemma remove_peer_unknown: "peers s peer = None \<Longrightarrow> remove_peer peer s = Some s"
  by (simp add: remove_peer_def)

lemma remove_peer_inv [inv_intros]:
  "sched_inv s \<Longrightarrow> \<exists>s'. remove_peer peer s = Some s' \<and> sched_inv s' \<and> peers s' = (peers s)(peer := None)
     \<and> pieces s' = (if peers s peer = None then pieces s else map (drop_piece peer) (pieces s))
     \<and> urgent_window s' = urgent_window s \<and> first_not_done s' = first_not_done s \<and> done_count s' = done_count s"
  using remove_peer_Some [of s peer] remove_peer_unknown [of s peer]
  by (cases "peers s peer") (auto simp: fun_upd_idem)

text \<open>What \<open>add_peer\<close> computes.\<close>

lemma add_peer_inv [inv_intros]:
  assumes inv: "sched_inv s" and bl: "length bits = length (pieces s)"
    and few: "Suc (card (dom (peers s))) < 2 ^ 32"
  shows "\<exists>s'. add_peer peer bits s = Some s' \<and> sched_inv s' \<and> peers s' = (peers s)(peer \<mapsto> bits)
     \<and> pieces s' = (if peers s peer = None then pieces s else map (drop_piece peer) (pieces s))
     \<and> urgent_window s' = urgent_window s \<and> first_not_done s' = first_not_done s \<and> done_count s' = done_count s"
proof -
  obtain s1 where s1: "remove_peer peer s = Some s1" "sched_inv s1" "peers s1 = (peers s)(peer := None)"
    "pieces s1 = (if peers s peer = None then pieces s else map (drop_piece peer) (pieces s))"
    "urgent_window s1 = urgent_window s" "first_not_done s1 = first_not_done s" "done_count s1 = done_count s"
    using remove_peer_inv [OF inv] by blast
  let ?n = "length (pieces s1)"
  have n: "?n = length (pieces s)" using s1(4) by simp
  from s1(2) have po: "peers_ok ?n (peers s1) (availability s1)" by (simp add: sched_inv_def)
  then have fin: "finite (dom (peers s1))" and avl: "length (availability s1) = ?n"
    and av: "\<forall>i < ?n. unat (availability s1 ! i) = card (holders (peers s1) i)"
    by (auto simp: peers_ok_def)
  have fin0: "finite (dom (peers s))" using inv by (simp add: sched_inv_def peers_ok_def)
  have le: "card (holders (peers s1) i) \<le> card (dom (peers s))" for i
    using s1(3) fin0 by (intro card_mono) (auto simp: holders_def split: if_splits)
  have tk: "take ?n (List.enumerate 0 bits) = List.enumerate 0 bits" using bl n by simp
  have "\<forall>(i, h) \<in> set (List.enumerate 0 bits). i < length (availability s1) \<and> Suc (unat (availability s1 ! i)) < 2 ^ 32"
    using av avl bl n few le by (auto simp: set_enumerate_bits) (metis Suc_le_mono le_less_trans)
  then obtain av' where av': "count_in (List.enumerate 0 bits) (availability s1) = Some av'"
    "length av' = ?n"
    "\<forall>i < ?n. unat (av' ! i) = unat (availability s1 ! i) + (if bits ! i then 1 else 0)"
    using count_in_Some [of "List.enumerate 0 bits" "availability s1"] avl bl n
    by (auto simp: set_enumerate_bits)
  let ?m = "(peers s1)(peer \<mapsto> bits)"
  have np: "peer \<notin> holders (peers s1) i" for i using s1(3) by (simp add: holders_def)
  have "unat (av' ! i) = card (holders ?m i)" if i: "i < ?n" for i
    using av' av i np [of i] bl n finite_holders_dom [OF fin, of i] by (simp add: holders_upd)
  then have "peers_ok ?n ?m av'"
    using po av'(2) bl n by (auto simp: peers_ok_def)
  moreover have "\<forall>p \<in> set (pieces s1). piece_ok ?m p"
    using s1(2) by (fastforce simp: sched_inv_def piece_ok_def split: piece.splits)
  ultimately have "sched_inv (s1\<lparr>availability := av', peers := ?m\<rparr>)"
    using s1(2) by (simp add: sched_inv_def counts_ok_def)
  with s1 av' tk show ?thesis
    by (auto simp: add_peer_def)
qed


lemma inv_bits:
  assumes "sched_inv s" and "peers s peer = Some bits"
  shows "length bits = length (pieces s)"
  using assms by (auto simp: sched_inv_def peers_ok_def)

lemma inv_availability: "sched_inv s \<Longrightarrow> length (availability s) = length (pieces s)"
  by (auto simp: sched_inv_def peers_ok_def)

lemma inv_holders: "sched_inv s \<Longrightarrow> i < length (pieces s) \<Longrightarrow>
    unat (availability s ! i) = card (holders (peers s) i)"
  by (auto simp: sched_inv_def peers_ok_def)

lemma inv_finite: "sched_inv s \<Longrightarrow> finite (dom (peers s))"
  by (auto simp: sched_inv_def peers_ok_def)

lemma inv_piece: "sched_inv s \<Longrightarrow> i < length (pieces s) \<Longrightarrow> piece_ok (peers s) (pieces s ! i)"
  by (auto simp: sched_inv_def)

lemma inv_playhead: "sched_inv s \<Longrightarrow> playhead_ok (pieces s) (first_not_done s)"
  by (auto simp: sched_inv_def)

lemma inv_missing: "sched_inv s \<Longrightarrow> missing s = length (filter is_missing (pieces s))"
  by (auto simp: sched_inv_def counts_ok_def)

lemma inv_done: "sched_inv s \<Longrightarrow> done_count s = length (filter is_done_piece (pieces s))"
  by (auto simp: sched_inv_def counts_ok_def)

lemma missing_pos: "sched_inv s \<Longrightarrow> 0 < missing s \<longleftrightarrow> (\<exists>i < length (pieces s). pieces s ! i = Missing)"
  by (simp only: inv_missing length_filter_pos is_missing_def)

lemma missing_zero: "sched_inv s \<Longrightarrow> missing s = 0 \<longleftrightarrow> (\<forall>i < length (pieces s). pieces s ! i \<noteq> Missing)"
  using missing_pos [of s] by auto

lemma is_done_iff: "sched_inv s \<Longrightarrow> sched_is_done s \<longleftrightarrow> (\<forall>p \<in> set (pieces s). p = Done)"
  by (simp only: sched_is_done_def inv_done length_filter_all is_done_piece_def)

subsection \<open>The three searches of \<open>pick\<close>\<close>

definition wants :: "'k scheduler \<Rightarrow> bool list \<Rightarrow> nat \<Rightarrow> bool" where
  "wants s bits i \<longleftrightarrow> bits ! i \<and> pieces s ! i = Missing"

definition endgame_ok :: "'k scheduler \<Rightarrow> bool list \<Rightarrow> 'k \<Rightarrow> nat \<Rightarrow> bool" where
  "endgame_ok s bits peer i \<longleftrightarrow> bits ! i \<and> (case pieces s ! i of
     InFlight by \<Rightarrow> length by < ENDGAME_DUPLICATES \<and> peer \<notin> set by | _ \<Rightarrow> False)"

lemma wanted_Some [panic_simps]:
  "i < length bits \<Longrightarrow> i < length (pieces s) \<Longrightarrow> wanted s bits i = Some (wants s bits i)"
  by (auto simp: wanted_def wants_def panic_simps split: piece.splits)

lemma find_first_Some:
  "\<forall>i \<in> set is. w i = Some (P i) \<Longrightarrow> find_first w is = Some (find P is)"
  by (induction "is") auto

definition rarest_of :: "u32 list \<Rightarrow> nat list \<Rightarrow> nat \<Rightarrow> bool" where
  "rarest_of av cs i \<longleftrightarrow> (\<exists>xs ys. cs = xs @ i # ys \<and> (\<forall>j \<in> set xs. av ! i < av ! j) \<and>
     (\<forall>j \<in> set ys. av ! i \<le> av ! j \<or> av ! i \<le> 1))"

definition best_of :: "u32 list \<Rightarrow> nat list \<Rightarrow> (nat \<times> u32) option \<Rightarrow> bool" where
  "best_of av cs best \<longleftrightarrow> (case best of
     None \<Rightarrow> cs = []
   | Some (i, r) \<Rightarrow> r = av ! i \<and> (\<exists>xs ys. cs = xs @ i # ys \<and> (\<forall>j \<in> set xs. av ! i < av ! j) \<and>
       (\<forall>j \<in> set ys. av ! i \<le> av ! j)))"

lemma best_of_step:
  assumes "best_of av pre best" and "r = av ! i"
  shows "best_of av (pre @ [i]) (case best of None \<Rightarrow> Some (i, r)
     | Some (j, q) \<Rightarrow> if r < q then Some (i, r) else Some (j, q))"
proof (cases best)
  case None
  with assms have "pre @ [i] = [] @ i # []" and "r = av ! i" by (auto simp: best_of_def)
  with None show ?thesis
    by (simp add: best_of_def) (metis append_Nil empty_iff list.set(1))
next
  case (Some p)
  obtain j q where p: "p = (j, q)" by (cases p)
  from assms(1) Some p obtain xs ys where pre: "q = av ! j" "pre = xs @ j # ys"
    "\<forall>k \<in> set xs. av ! j < av ! k" "\<forall>k \<in> set ys. av ! j \<le> av ! k"
    by (auto simp: best_of_def)
  show ?thesis
  proof (cases "r < q")
    case True
    then have "\<forall>k \<in> set pre. av ! i < av ! k"
      using pre assms(2) by (auto dest: less_trans less_le_trans)
    then show ?thesis using True Some p assms(2)
      by (simp add: best_of_def) (intro exI [of _ pre] exI [of _ "[]"], simp)
  next
    case False
    then have ge: "av ! j \<le> av ! i" using assms(2) pre(1) by (simp add: not_less)
    show ?thesis using False Some p assms(2) pre ge
      by (simp add: best_of_def) (intro exI [of _ xs] exI [of _ "ys @ [i]"], auto)
  qed
qed

lemma best_of_rarest: "best_of av cs (Some (i, r)) \<Longrightarrow> rarest_of av cs i"
  by (fastforce simp: best_of_def rarest_of_def)

lemma best_of_rarest_more:
  assumes "best_of av cs (Some (i, r))" and "r \<le> 1"
  shows "rarest_of av (cs @ ds) i"
proof -
  from assms obtain xs ys where "r = av ! i" "cs = xs @ i # ys" "\<forall>j \<in> set xs. av ! i < av ! j"
    by (auto simp: best_of_def)
  with assms(2) show ?thesis
    unfolding rarest_of_def by (intro exI [of _ xs] exI [of _ "ys @ ds"]) simp
qed

lemma rarest_Some:
  assumes "\<forall>i \<in> set is. w i = Some (P i) \<and> i < length av"
    and "best_of av pre best" and "length pre = seen" and "seen < RAREST_SAMPLE"
  shows "\<exists>r. rarest w av is best seen = Some r \<and>
     (case r of None \<Rightarrow> pre @ filter P is = []
      | Some (i, q) \<Rightarrow> rarest_of av (take RAREST_SAMPLE (pre @ filter P is)) i)"
  using assms
proof (induction "is" arbitrary: pre best seen)
  case Nil
  then show ?case
    by (cases best) (auto dest: best_of_rarest simp: best_of_def [of _ _ None])
next
  case (Cons i "is")
  show ?case
  proof (cases "P i")
    case False
    then have app: "filter P (i # is) = filter P is" by simp
    from False Cons.prems Cons.IH [of pre best seen] show ?thesis unfolding app by auto
  next
    case True
    let ?r = "av ! i"
    let ?best = "case best of None \<Rightarrow> Some (i, ?r)
       | Some (j, q) \<Rightarrow> if ?r < q then Some (i, ?r) else Some (j, q)"
    have b: "best_of av (pre @ [i]) ?best" using Cons.prems(2) by (rule best_of_step) simp
    have "?best \<noteq> None" by (auto split: option.splits)
    then obtain k q where kq: "?best = Some (k, q)" by fastforce
    have q_le: "q \<le> ?r" using kq by (cases best) (auto simp: not_less split: if_splits)
    have run: "rarest w av (i # is) best seen =
       (if RAREST_SAMPLE \<le> seen + 1 \<or> ?r \<le> 1 then Some ?best
        else rarest w av is ?best (seen + 1))"
      using Cons.prems(1) True by (simp add: panic_simps Let_def)
    have app: "pre @ filter P (i # is) = (pre @ [i]) @ filter P is" using True by simp
    consider (full) "RAREST_SAMPLE \<le> seen + 1" | (rare) "\<not> RAREST_SAMPLE \<le> seen + 1" "?r \<le> 1"
      | (go) "\<not> RAREST_SAMPLE \<le> seen + 1" "\<not> ?r \<le> 1" by blast
    then show ?thesis
    proof cases
      case full
      then have "take RAREST_SAMPLE (pre @ filter P (i # is)) = pre @ [i]"
        using Cons.prems(3,4) unfolding app take_append by simp
      with full run kq b show ?thesis by (auto dest: best_of_rarest)
    next
      case rare
      then have "take RAREST_SAMPLE (pre @ filter P (i # is))
          = (pre @ [i]) @ take (RAREST_SAMPLE - (seen + 1)) (filter P is)"
        using Cons.prems(3,4) unfolding app take_append by simp
      moreover have "q \<le> 1" using q_le rare(2) by (rule order_trans)
      ultimately show ?thesis
        using run rare(2) kq b best_of_rarest_more [of av "pre @ [i]" k q] by simp
    next
      case go
      then show ?thesis
        using Cons.IH [of "pre @ [i]" ?best "seen + 1"] Cons.prems b unfolding run app by simp
    qed
  qed
qed

lemma endgame_Some:
  "\<forall>i \<in> set is. i < length bits \<and> i < length (pieces s) \<Longrightarrow>
   endgame s bits peer is =
     Some (map (\<lambda>i. (i, length (requesters (pieces s ! i)))) (filter (endgame_ok s bits peer) is))"
  by (induction "is") (auto simp: panic_simps endgame_ok_def requesters_def split: piece.splits)

lemma min_by_snd_None: "min_by_snd l = None \<longleftrightarrow> l = []"
proof (induction l rule: min_by_snd.induct)
  case (2 i n r)
  then show ?case by (cases "r = []") auto
qed simp

lemma min_by_snd_Some:
  "min_by_snd l = Some i \<Longrightarrow> \<exists>n. (i, n) \<in> set l \<and> (\<forall>x \<in> set l. n \<le> snd x)"
proof (induction l rule: min_by_snd.induct)
  case 1
  then show ?case by simp
next
  case (2 i' n' r)
  show ?case
  proof (cases "\<forall>x \<in> set r. n' \<le> snd x")
    case True
    with "2.prems" show ?thesis by auto
  next
    case False
    with "2" obtain n where n: "(i, n) \<in> set r" "\<forall>x \<in> set r. n \<le> snd x" by auto
    with False have "n \<le> n'" by force
    with n show ?thesis by auto
  qed
qed


lemma wants_missing: "wants s bits i \<Longrightarrow> i < length (pieces s) \<Longrightarrow> sched_inv s \<Longrightarrow> 0 < missing s"
  by (auto simp: wants_def missing_pos)

text \<open>The piece \<open>pick\<close> settles on, by the three rules in their order.\<close>

definition chosen_by :: "'k scheduler \<Rightarrow> bool list \<Rightarrow> 'k \<Rightarrow> nat option \<Rightarrow> bool" where
  "chosen_by s bits peer c \<longleftrightarrow>
     (let n = length (pieces s); start = first_not_done s;
          window = [start..<min (start + urgent_window s) n];
          scan = [start..<n] @ [0..<start] in
      case find (wants s bits) window of
        Some i \<Rightarrow> c = Some i
      | None \<Rightarrow>
          (if 0 < missing s then
             (case c of None \<Rightarrow> filter (wants s bits) scan = []
              | Some i \<Rightarrow> rarest_of (availability s) (take RAREST_SAMPLE (filter (wants s bits) scan)) i)
           else
             (case c of None \<Rightarrow> filter (endgame_ok s bits peer) [start..<n] = []
              | Some i \<Rightarrow> i \<in> set (filter (endgame_ok s bits peer) [start..<n]) \<and>
                  (\<forall>j \<in> set (filter (endgame_ok s bits peer) [start..<n]).
                     length (requesters (pieces s ! i)) \<le> length (requesters (pieces s ! j))))))"

lemma pick_choice_Some:
  assumes inv: "sched_inv s" and known: "peers s peer = Some bits"
  shows "\<exists>c. pick_choice s bits peer = Some c \<and> chosen_by s bits peer c"
proof -
  let ?n = "length (pieces s)" and ?start = "first_not_done s"
  let ?window = "[?start..<min (?start + urgent_window s) ?n]" and ?scan = "[?start..<?n] @ [0..<?start]"
  let ?eg = "filter (endgame_ok s bits peer) [?start..<?n]"
  have bl: "length bits = ?n" and avl: "length (availability s) = ?n"
    and sn: "?start \<le> ?n"
    using inv_bits [OF inv known] inv_availability [OF inv] inv_playhead [OF inv]
    by (auto simp: playhead_ok_def)
  have w: "wanted s bits i = Some (wants s bits i)" if "i < ?n" for i
    using that bl by (simp add: panic_simps)
  have f1: "find_first (wanted s bits) ?window = Some (find (wants s bits) ?window)"
    by (rule find_first_Some) (auto simp: w)
  have "\<forall>i \<in> set ?scan. wanted s bits i = Some (wants s bits i) \<and> i < length (availability s)"
    using avl sn w by auto
  then obtain r where r: "rarest (wanted s bits) (availability s) ?scan None 0 = Some r"
    "case r of None \<Rightarrow> filter (wants s bits) ?scan = []
     | Some (i, q) \<Rightarrow> rarest_of (availability s) (take RAREST_SAMPLE (filter (wants s bits) ?scan)) i"
    using rarest_Some [of ?scan "wanted s bits" "wants s bits" "availability s" "[]" None 0,
        unfolded append_Nil] by (auto simp: best_of_def RAREST_SAMPLE_def)
  have e: "endgame s bits peer [?start..<?n] =
      Some (map (\<lambda>i. (i, length (requesters (pieces s ! i)))) ?eg)"
    using bl by (intro endgame_Some) auto
  show ?thesis
  proof (cases "find (wants s bits) ?window")
    case (Some i)
    then show ?thesis using f1
      by (intro exI [of _ "Some i"]) (simp add: pick_choice_def chosen_by_def Let_def)
  next
    case None
    show ?thesis
    proof (cases "0 < missing s")
      case True
      then have "0 < ?n" using inv by (auto simp: missing_pos)
      then show ?thesis
        using None True f1 r
        by (intro exI [of _ "map_option fst r"])
           (auto simp: pick_choice_def chosen_by_def Let_def split: option.splits)
    next
      case False
      let ?c = "min_by_snd (map (\<lambda>i. (i, length (requesters (pieces s ! i)))) ?eg)"
      have "pick_choice s bits peer = Some ?c"
        using None False f1 e by (simp add: pick_choice_def Let_def)
      moreover have "chosen_by s bits peer ?c"
      proof (cases ?c)
        case None
        then show ?thesis
          using \<open>find (wants s bits) ?window = None\<close> False
          by (simp add: chosen_by_def Let_def min_by_snd_None)
      next
        case (Some i)
        then show ?thesis
          using None False min_by_snd_Some [OF Some] by (fastforce simp: chosen_by_def Let_def)
      qed
      ultimately show ?thesis by blast
    qed
  qed
qed

lemma find_wants: "find P xs = Some i \<Longrightarrow> i \<in> set xs \<and> P i"
  by (auto simp: find_Some_iff)

lemma rarest_of_mem: "rarest_of av (take k cs) i \<Longrightarrow> i \<in> set cs"
  by (force simp: rarest_of_def dest: arg_cong [of _ _ set] in_set_takeD)

lemma chosen_by_sound:
  assumes inv: "sched_inv s" and "chosen_by s bits peer (Some i)"
  shows "i < length (pieces s)"
    and "wants s bits i \<or> missing s = 0 \<and> endgame_ok s bits peer i"
proof -
  have sn: "first_not_done s \<le> length (pieces s)"
    using inv_playhead [OF inv] by (simp add: playhead_ok_def)
  have "i < length (pieces s) \<and> (wants s bits i \<or> missing s = 0 \<and> endgame_ok s bits peer i)"
  proof (cases "find (wants s bits)
      [first_not_done s..<min (first_not_done s + urgent_window s) (length (pieces s))]")
    case None
    show ?thesis
    proof (cases "0 < missing s")
      case True
      with None assms(2) have "i \<in> set (filter (wants s bits)
          ([first_not_done s..<length (pieces s)] @ [0..<first_not_done s]))"
        unfolding chosen_by_def Let_def by (intro rarest_of_mem) (simp only: option.case if_True)
      with sn show ?thesis by auto
    next
      case False
      with None assms(2) show ?thesis by (simp add: chosen_by_def Let_def)
    qed
  next
    case (Some j)
    then show ?thesis
      using assms(2) find_wants [OF Some] by (simp add: chosen_by_def Let_def)
  qed
  then show "i < length (pieces s)" and "wants s bits i \<or> missing s = 0 \<and> endgame_ok s bits peer i"
    by simp_all
qed

text \<open>Replacing one piece that is not done by another that is not done.\<close>

lemma playhead_update:
  assumes "playhead_ok ps k" and "i < length ps" and "ps ! i \<noteq> Done" and "p \<noteq> Done"
  shows "playhead_ok (ps[i := p]) k"
  using assms by (auto simp: playhead_ok_def nth_list_update)

lemma counts_update:
  assumes "counts_ok s" and "i < length (pieces s)"
    and "m + (if pieces s ! i = Missing then 1 else 0) = missing s + (if p = Missing then 1 else 0)"
    and "d + (if pieces s ! i = Done then 1 else 0) = done_count s + (if p = Done then 1 else 0)"
  shows "counts_ok (s\<lparr>pieces := (pieces s)[i := p], missing := m, done_count := d\<rparr>)"
  using assms length_filter_update [OF assms(2), of is_missing p]
    length_filter_update [OF assms(2), of is_done_piece p]
  by (auto simp: counts_ok_def is_missing_def is_done_piece_def split: if_splits)

definition picked :: "'k \<Rightarrow> nat \<Rightarrow> 'k scheduler \<Rightarrow> 'k scheduler" where
  "picked peer i s = s\<lparr>pieces := (pieces s)[i := InFlight (requesters (pieces s ! i) @ [peer])],
     missing := (if pieces s ! i = Missing then missing s - 1 else missing s)\<rparr>"

lemma picked_inv:
  assumes inv: "sched_inv s" and known: "peers s peer = Some bits"
    and c: "chosen_by s bits peer (Some i)"
  shows "sched_inv (picked peer i s)"
proof -
  note i = chosen_by_sound [OF inv c]
  let ?p = "InFlight (requesters (pieces s ! i) @ [peer])"
  have nd: "pieces s ! i \<noteq> Done"
    using i(2) by (auto simp: wants_def endgame_ok_def)
  have ok: "piece_ok (peers s) ?p"
    using i(2) inv_piece [OF inv i(1)] known
    by (auto simp: wants_def endgame_ok_def piece_ok_def requesters_def ENDGAME_DUPLICATES_def
             split: piece.splits)
  let ?m = "if pieces s ! i = Missing then missing s - 1 else missing s"
  have pos: "pieces s ! i = Missing \<Longrightarrow> 0 < missing s" using inv i(1) by (auto simp: missing_pos)
  have co: "counts_ok s" using inv by (simp add: sched_inv_def)
  have "counts_ok (s\<lparr>pieces := (pieces s)[i := ?p], missing := ?m, done_count := done_count s\<rparr>)"
    using nd pos by (intro counts_update [OF co i(1)]) auto
  moreover have "\<forall>p \<in> set ((pieces s)[i := ?p]). piece_ok (peers s) p"
    using inv ok by (auto simp: sched_inv_def dest!: set_update_subset_insert [THEN subsetD])
  ultimately show ?thesis
    using inv nd i(1) by (simp add: sched_inv_def picked_def playhead_update)
qed

text \<open>The result of \<open>pick\<close> in a state that satisfies the invariant.\<close>

lemma pick_Some:
  assumes inv: "sched_inv s" and known: "peers s peer = Some bits"
  shows "\<exists>c. chosen_by s bits peer c \<and>
     pick peer s = Some (c, case c of None \<Rightarrow> s | Some i \<Rightarrow> picked peer i s)"
proof -
  obtain c where c: "pick_choice s bits peer = Some c" "chosen_by s bits peer c"
    using pick_choice_Some [OF assms] by blast
  show ?thesis
  proof (cases c)
    case None
    with c known show ?thesis by (auto simp: pick_def)
  next
    case (Some i)
    note i = chosen_by_sound [OF inv c(2) [unfolded Some]]
    have "pick peer s = Some (Some i, picked peer i s)"
    proof (cases "pieces s ! i")
      case Missing
      then have "0 < missing s" using inv i(1) by (auto simp: missing_pos)
      with Missing c Some i known show ?thesis
        by (simp add: pick_def picked_def panic_simps requesters_def)
    next
      case (InFlight b)
      with c Some i known show ?thesis
        by (simp add: pick_def picked_def panic_simps requesters_def)
    next
      case Done
      with i(2) show ?thesis by (auto simp: wants_def endgame_ok_def)
    qed
    with c Some show ?thesis by auto
  qed
qed

lemma pick_unknown: "peers s peer = None \<Longrightarrow> pick peer s = Some (None, s)"
  by (simp add: pick_def)

lemma pick_inv [inv_intros]:
  assumes "sched_inv s"
  shows "\<exists>c s'. pick peer s = Some (c, s') \<and> sched_inv s' \<and> peers s' = peers s \<and>
     length (pieces s') = length (pieces s)"
proof (cases "peers s peer")
  case None
  with assms show ?thesis by (simp add: pick_unknown)
next
  case (Some bits)
  obtain c where "chosen_by s bits peer c"
    "pick peer s = Some (c, case c of None \<Rightarrow> s | Some i \<Rightarrow> picked peer i s)"
    using pick_Some [OF assms Some] by blast
  then show ?thesis
    using assms picked_inv [OF assms Some] by (cases c) (auto simp: picked_def)
qed


subsection \<open>Completing, failing and learning\<close>

definition completed :: "nat \<Rightarrow> 'k scheduler \<Rightarrow> 'k scheduler" where
  "completed i s = (if pieces s ! i = Done then s else
     advance_playhead (s\<lparr>pieces := (pieces s)[i := Done],
       missing := (if pieces s ! i = Missing then missing s - 1 else missing s),
       done_count := done_count s + 1\<rparr>))"

lemma playhead_le_done: "playhead_ok ps k \<Longrightarrow> \<forall>j < k. ps[i := Done] ! j = Done"
  unfolding playhead_ok_def by (metis nth_list_update_eq nth_list_update_neq order.strict_trans2)

lemma complete_Some:
  assumes inv: "sched_inv s" and i: "i < length (pieces s)"
  shows "complete_piece i s = Some (pieces s ! i \<noteq> Done, completed i s)"
    and "sched_inv (completed i s)"
proof -
  have pos: "pieces s ! i = Missing \<Longrightarrow> 0 < missing s" using inv i by (auto simp: missing_pos)
  show "complete_piece i s = Some (pieces s ! i \<noteq> Done, completed i s)"
  proof (cases "pieces s ! i")
    case Missing
    with i pos show ?thesis
      by (simp add: complete_piece_def completed_def panic_simps)
  next
    case (InFlight b)
    with i show ?thesis by (simp add: complete_piece_def completed_def panic_simps)
  next
    case Done
    then have "(pieces s)[i := Done] = pieces s" by (metis list_update_id)
    with Done i show ?thesis by (simp add: complete_piece_def completed_def panic_simps)
  qed
  show "sched_inv (completed i s)"
  proof (cases "pieces s ! i = Done")
    case True
    with inv show ?thesis by (simp add: completed_def)
  next
    case False
    let ?m = "if pieces s ! i = Missing then missing s - 1 else missing s"
    let ?s = "s\<lparr>pieces := (pieces s)[i := Done], missing := ?m, done_count := done_count s + 1\<rparr>"
    have co: "counts_ok s" using inv by (simp add: sched_inv_def)
    have "counts_ok ?s"
      using pos False by (intro counts_update [OF co i]) auto
    moreover have "playhead_ok (pieces ?s) (first_not_done (advance_playhead ?s))"
      using inv_playhead [OF inv] playhead_le_done [OF inv_playhead [OF inv], of i]
      by (intro advance_playhead_ok) (auto simp: playhead_ok_def)
    moreover have "\<forall>p \<in> set ((pieces s)[i := Done]). piece_ok (peers s) p"
      using inv by (auto simp: sched_inv_def piece_ok_def dest!: set_update_subset_insert [THEN subsetD])
    ultimately show ?thesis
      using inv False by (simp add: completed_def sched_inv_def)
  qed
qed

lemma completed_fields [simp]:
  "peers (completed i s) = peers s"
  "availability (completed i s) = availability s"
  "length (pieces (completed i s)) = length (pieces s)"
  by (simp_all add: completed_def)

lemma completed_pieces: "i < length (pieces s) \<Longrightarrow> pieces (completed i s) = (pieces s)[i := Done]"
  by (simp add: completed_def) (metis list_update_id)

lemma holders_set:
  assumes "m p = Some bits" and "i < length bits"
  shows "holders (m(p \<mapsto> bits[i := b])) j =
     (if j = i then (if b then insert p (holders m i) else holders m i - {p}) else holders m j)"
  using assms by (auto simp: holders_def nth_list_update)

lemma availability_update:
  assumes po: "peers_ok n m av" and known: "m p = Some bits" and i: "i < n"
    and new: "unat a = card (holders (m(p \<mapsto> bits[i := b])) i)"
  shows "peers_ok n (m(p \<mapsto> bits[i := b])) (av[i := a])"
proof -
  have bl: "length bits = n" using po known by (auto simp: peers_ok_def)
  have "unat (av[i := a] ! j) = card (holders (m(p \<mapsto> bits[i := b])) j)" if "j < n" for j
    using that po new i bl holders_set [of m p bits i b j] known
    by (cases "j = i") (auto simp: peers_ok_def nth_list_update)
  with po bl show ?thesis by (auto simp: peers_ok_def)
qed

lemma piece_ok_dom: "dom m \<subseteq> dom m' \<Longrightarrow> piece_ok m p \<Longrightarrow> piece_ok m' p"
proof (cases p)
  case (InFlight l)
  assume "dom m \<subseteq> dom m'" and "piece_ok m p"
  with InFlight have "set l \<subseteq> dom m'" by (simp add: piece_ok_def) (rule subset_trans, auto)
  with InFlight \<open>piece_ok m p\<close> show ?thesis by (simp add: piece_ok_def)
qed (simp_all add: piece_ok_def)

lemma set_peer_has_inv [inv_intros]:
  assumes inv: "sched_inv s" and few: "Suc (card (dom (peers s))) < 2 ^ 32"
  shows "\<exists>s'. set_peer_has peer i s = Some s' \<and> sched_inv s' \<and> pieces s' = pieces s \<and>
     peers s' = (case peers s peer of Some bits \<Rightarrow> (peers s)(peer \<mapsto> bits[i := True]) | None \<Rightarrow> peers s) \<and>
     urgent_window s' = urgent_window s \<and> first_not_done s' = first_not_done s \<and> done_count s' = done_count s"
proof (cases "\<exists>bits. peers s peer = Some bits \<and> i < length bits \<and> \<not> bits ! i")
  case False
  then have "set_peer_has peer i s = Some s"
    by (auto simp: set_peer_has_def split: option.splits)
  moreover have "peers s = (case peers s peer of Some bits \<Rightarrow> (peers s)(peer \<mapsto> bits[i := True]) | None \<Rightarrow> peers s)"
  proof (cases "peers s peer")
    case (Some bits)
    with False have "bits[i := True] = bits"
      by (cases "i < length bits") (auto simp: list_update_same_conv list_update_beyond)
    with Some show ?thesis by (simp add: fun_upd_idem)
  qed simp
  ultimately show ?thesis using inv by simp
next
  case True
  then obtain bits where b: "peers s peer = Some bits" "i < length bits" "\<not> bits ! i" by blast
  let ?n = "length (pieces s)"
  have bl: "length bits = ?n" and fin: "finite (dom (peers s))"
    and avl: "length (availability s) = ?n" and po: "peers_ok ?n (peers s) (availability s)"
    using inv_bits [OF inv b(1)] inv_finite [OF inv] inv_availability [OF inv] inv
    by (simp_all add: sched_inv_def)
  let ?a = "availability s ! i"
  have hc: "unat ?a = card (holders (peers s) i)" using inv_holders [OF inv] b bl by simp
  also have "\<dots> \<le> card (dom (peers s))" by (rule card_mono [OF fin holders_sub_dom])
  finally have sm: "Suc (unat ?a) < 2 ^ 32" using few by linarith
  have ni: "peer \<notin> holders (peers s) i" using b by (auto simp: holders_def)
  have ua: "unat (?a + 1) = card (holders ((peers s)(peer \<mapsto> bits[i := True])) i)"
    using sm hc ni finite_holders_dom [OF fin] holders_set [of "peers s" peer bits i True i] b by (simp add: unat_inc)
  have "peers_ok ?n ((peers s)(peer \<mapsto> bits[i := True])) ((availability s)[i := ?a + 1])"
    using b bl by (intro availability_update [OF po b(1) _ ua]) simp
  moreover have "\<forall>p \<in> set (pieces s). piece_ok ((peers s)(peer \<mapsto> bits[i := True])) p"
    using inv by (auto simp: sched_inv_def intro: piece_ok_dom [of "peers s"])
  ultimately have "sched_inv (s\<lparr>peers := (peers s)(peer \<mapsto> bits[i := True]), availability := (availability s)[i := ?a + 1]\<rparr>)"
    using inv by (simp add: sched_inv_def counts_ok_def)
  then show ?thesis
    using b bl avl sm by (auto simp: set_peer_has_def panic_simps)
qed

lemma failed_inv [inv_intros]:
  assumes inv: "sched_inv s" and i: "i < length (pieces s)"
  shows "\<exists>s'. failed i peer lacks s = Some s' \<and> sched_inv s' \<and>
     pieces s' = (pieces s)[i := drop_piece peer (pieces s ! i)] \<and>
     peers s' = (case peers s peer of
        Some bits \<Rightarrow> if lacks then (peers s)(peer \<mapsto> bits[i := False]) else peers s | None \<Rightarrow> peers s) \<and>
     urgent_window s' = urgent_window s \<and> first_not_done s' = first_not_done s \<and> done_count s' = done_count s"
proof -
  let ?n = "length (pieces s)" and ?ps = "(pieces s)[i := drop_piece peer (pieces s ! i)]"
  have pk: "\<forall>p \<in> set (pieces s). piece_ok (peers s) p" and co: "counts_ok s"
    and po: "peers_ok ?n (peers s) (availability s)" using inv by (simp_all add: sched_inv_def)
  obtain m where m: "drop_request i peer s = Some (s\<lparr>pieces := ?ps, missing := m\<rparr>)"
    "counts_ok (s\<lparr>pieces := ?ps, missing := m\<rparr>)"
    using drop_request_Some [OF i co pk] by blast
  let ?s = "s\<lparr>pieces := ?ps, missing := m\<rparr>"
  have ph: "playhead_ok ?ps (first_not_done s)"
    using i by (intro playhead_drop [OF inv_playhead [OF inv]]) (auto simp: nth_list_update)
  have pk': "\<forall>p \<in> set ?ps. piece_ok (peers s) p"
    using pk i by (auto dest!: set_update_subset_insert [THEN subsetD] simp: piece_ok_drop')
  have inv1: "sched_inv ?s" using inv m(2) ph pk' by (simp add: sched_inv_def)
  show ?thesis
  proof (cases "lacks \<and> (\<exists>bits. peers s peer = Some bits \<and> bits ! i)")
    case False
    have "failed i peer lacks s = Some ?s"
    proof (cases "peers s peer")
      case (Some bits)
      then have "i < length bits" using inv_bits [OF inv Some] i by simp
      with False Some m show ?thesis by (simp add: failed_def panic_simps)
    qed (use m in \<open>simp add: failed_def\<close>)
    moreover have "peers s = (case peers s peer of
        Some bits \<Rightarrow> if lacks then (peers s)(peer \<mapsto> bits[i := False]) else peers s | None \<Rightarrow> peers s)"
    proof (cases "peers s peer")
      case (Some bits)
      have "i < length bits" using inv_bits [OF inv Some] i by simp
      with False Some have "lacks \<Longrightarrow> bits[i := False] = bits" by (auto simp: list_update_same_conv)
      with Some show ?thesis by (auto simp: fun_upd_idem)
    qed simp
    ultimately show ?thesis using inv1 by simp
  next
    case True
    then obtain bits where b: "lacks" "peers s peer = Some bits" "bits ! i" by blast
    have bl: "length bits = ?n" and avl: "length (availability s) = ?n"
      and fin: "finite (dom (peers s))"
      using inv_bits [OF inv b(2)] inv_finite [OF inv] inv_availability [OF inv] by simp_all
    let ?a = "availability s ! i"
    have hc: "unat ?a = card (holders (peers s) i)" using inv_holders [OF inv i] .
    have ih: "peer \<in> holders (peers s) i" using b bl i by (simp add: holders_def)
    then have "0 < unat ?a" using hc finite_holders_dom [OF fin, of i] by (auto simp: card_gt_0_iff)
    then have ne: "?a \<noteq> 0" by auto
    have il: "i < length bits" using i bl by simp
    have ua: "unat (?a - 1) = card (holders ((peers s)(peer \<mapsto> bits[i := False])) i)"
      using hc ih holders_set [of "peers s" peer bits i False i] b(2) il by (simp add: unat_dec [OF ne])
    have "peers_ok ?n ((peers s)(peer \<mapsto> bits[i := False])) ((availability s)[i := ?a - 1])"
      by (intro availability_update [OF po b(2) i ua])
    moreover have "\<forall>p \<in> set ?ps. piece_ok ((peers s)(peer \<mapsto> bits[i := False])) p"
      using pk' by (auto intro: piece_ok_dom [of "peers s"])
    ultimately have "sched_inv (?s\<lparr>peers := (peers s)(peer \<mapsto> bits[i := False]),
        availability := (availability s)[i := ?a - 1]\<rparr>)"
      using inv1 by (simp add: sched_inv_def counts_ok_def)
    then show ?thesis
      using b bl avl i m ne by (auto simp: failed_def panic_simps)
  qed
qed

end
