(* ===== verification/Scheduler_Contract.thy ===== *)
theory Scheduler_Contract
  imports Scheduler_Inv
begin

text \<open>
  What the scheduler promises to the download engine. \<open>sched_op\<close> lists the
  calls the engine makes and \<open>sched_exec\<close> performs one; the locale
  \<open>marked_ops\<close> is the part of the contract the engine's safety rests on
  (which pieces count as done), interpreted here on the scheduler. The
  properties of the single operations follow.
\<close>

subsection \<open>Sequences of calls\<close>

datatype 'k sched_op =
    AddPeer 'k "bool list"
  | PeerHas 'k nat
  | RemovePeer 'k
  | Pick 'k
  | Complete nat
  | Failed nat 'k bool

fun sched_exec :: "'k sched_op \<Rightarrow> 'k scheduler \<Rightarrow> 'k scheduler option" where
  "sched_exec (AddPeer p bits) s = add_peer p bits s"
| "sched_exec (PeerHas p i) s = set_peer_has p i s"
| "sched_exec (RemovePeer p) s = remove_peer p s"
| "sched_exec (Pick p) s = map_option snd (pick p s)"
| "sched_exec (Complete i) s = map_option snd (complete_piece i s)"
| "sched_exec (Failed i p lacks) s = failed i p lacks s"

text \<open>
  The engine unpacks every bitfield to exactly one bit per piece and completes
  or fails only pieces it picked; a \<open>Have\<close> message may name any number.
\<close>

fun op_ok :: "nat \<Rightarrow> 'k sched_op \<Rightarrow> bool" where
  "op_ok n (AddPeer p bits) = (length bits = n)"
| "op_ok n (Complete i) = (i < n)"
| "op_ok n (Failed i p lacks) = (i < n)"
| "op_ok n _ = True"

definition done_set :: "'k scheduler \<Rightarrow> nat set" where
  "done_set s = {i. i < length (pieces s) \<and> pieces s ! i = Done}"

fun done_effect :: "'k sched_op \<Rightarrow> nat set" where
  "done_effect (Complete i) = {i}"
| "done_effect _ = {}"

lemma done_set_drop:
  "done_set (s\<lparr>pieces := map (drop_piece p) ps\<rparr>) = done_set (s\<lparr>pieces := ps\<rparr>)"
  by (auto simp: done_set_def)

lemma done_set_cong:
  assumes "length (pieces s) = length (pieces t)"
    and "\<And>i. i < length (pieces t) \<Longrightarrow> pieces s ! i = Done \<longleftrightarrow> pieces t ! i = Done"
  shows "done_set s = done_set t"
  using assms by (auto simp: done_set_def)

lemma picked_done:
  assumes "sched_inv s" and "chosen_by s bits p (Some i)"
  shows "done_set (picked p i s) = done_set s"
proof -
  have "pieces s ! i \<noteq> Done"
    using chosen_by_sound(2) [OF assms] by (auto simp: wants_def endgame_ok_def)
  then show ?thesis
    using chosen_by_sound(1) [OF assms] by (auto simp: done_set_def picked_def nth_list_update)
qed

text \<open>One call: no panic, the invariant is kept, and only \<open>complete\<close> marks a piece done.\<close>

lemma sched_exec_ok:
  assumes inv: "sched_inv s" and ok: "op_ok (length (pieces s)) x"
    and few: "Suc (card (dom (peers s))) < 2 ^ 32"
  shows "\<exists>s'. sched_exec x s = Some s' \<and> sched_inv s' \<and> length (pieces s') = length (pieces s) \<and>
     done_set s' = done_set s \<union> done_effect x \<and> card (dom (peers s')) \<le> Suc (card (dom (peers s)))"
proof (cases x)
  case (AddPeer p bits)
  with ok add_peer_inv [OF inv _ few, of bits p] inv_finite [OF inv] show ?thesis
    by (auto simp: card_insert_if done_set_def)
next
  case (PeerHas p i)
  obtain s' where s': "set_peer_has p i s = Some s'" "sched_inv s'" "pieces s' = pieces s"
    "peers s' = (case peers s p of Some bits \<Rightarrow> (peers s)(p \<mapsto> bits[i := True]) | None \<Rightarrow> peers s)"
    using set_peer_has_inv [OF inv few] by blast
  have "dom (peers s') = dom (peers s)" using s'(4) by (auto split: option.splits if_splits)
  with PeerHas s' show ?thesis by (simp add: done_set_def)
next
  case (RemovePeer p)
  obtain s' where s': "remove_peer p s = Some s'" "sched_inv s'" "peers s' = (peers s)(p := None)"
    "pieces s' = (if peers s p = None then pieces s else map (drop_piece p) (pieces s))"
    using remove_peer_inv [OF inv] by blast
  have "card (dom (peers s')) \<le> card (dom (peers s))"
    using s'(3) inv_finite [OF inv] by (intro card_mono) auto
  with RemovePeer s' show ?thesis by (auto simp: done_set_def)
next
  case (Pick p)
  show ?thesis
  proof (cases "peers s p")
    case None
    with Pick inv show ?thesis by (simp add: pick_unknown)
  next
    case (Some bits)
    obtain c where c: "chosen_by s bits p c"
      "pick p s = Some (c, case c of None \<Rightarrow> s | Some i \<Rightarrow> picked p i s)"
      using pick_Some [OF inv Some] by blast
    then show ?thesis
      using Pick inv picked_inv [OF inv Some] picked_done [OF inv]
      by (cases c) (auto simp: picked_def)
  qed
next
  case (Complete i)
  with ok have i: "i < length (pieces s)" by simp
  have "done_set (completed i s) = done_set s \<union> {i}"
    using i by (auto simp: done_set_def completed_pieces nth_list_update)
  with Complete complete_Some [OF inv i] show ?thesis by simp
next
  case (Failed i p lacks)
  with ok have i: "i < length (pieces s)" by simp
  obtain s' where s': "failed i p lacks s = Some s'" "sched_inv s'"
    "pieces s' = (pieces s)[i := drop_piece p (pieces s ! i)]"
    "peers s' = (case peers s p of Some bits \<Rightarrow> if lacks then (peers s)(p \<mapsto> bits[i := False]) else peers s
       | None \<Rightarrow> peers s)"
    using failed_inv [OF inv i] by blast
  have "dom (peers s') = dom (peers s)" using s'(4) by (auto split: option.splits if_splits)
  moreover have "done_set s' = done_set s"
    by (rule done_set_cong) (use s'(3) i in \<open>auto simp: nth_list_update split: if_splits\<close>)
  ultimately show ?thesis using Failed s' by simp
qed

definition sched_room :: "nat \<Rightarrow> 'k scheduler \<Rightarrow> bool" where
  "sched_room k s \<longleftrightarrow> sched_inv s \<and> card (dom (peers s)) + k < 2 ^ 32"

interpretation sched: marked_ops sched_exec op_ok sched_room "\<lambda>s. length (pieces s)" done_set done_effect
proof (unfold_locales, goal_cases)
  case (1 k s x)
  then obtain s' where "sched_exec x s = Some s'" "sched_inv s'" "length (pieces s') = length (pieces s)"
    "done_set s' = done_set s \<union> done_effect x" "card (dom (peers s')) \<le> Suc (card (dom (peers s)))"
    using sched_exec_ok [of s x] by (auto simp: sched_room_def)
  with 1 show ?case by (auto simp: sched_room_def)
qed

lemma done_set_new: "done_set (sched_new have w :: 'k scheduler) = {i. i < length have \<and> have ! i}"
  by (auto simp: done_set_def sched_new_def Let_def split: if_splits)

lemma length_pieces_new [simp]: "length (pieces (sched_new have w)) = length have"
  by (simp add: sched_new_def Let_def)

lemma peers_new [simp]: "peers (sched_new have w) = Map.empty"
  by (simp add: sched_new_def Let_def)

lemma is_done_set: "sched_inv s \<Longrightarrow> sched_is_done s \<longleftrightarrow> done_set s = {..<length (pieces s)}"
  by (auto simp: is_done_iff done_set_def set_conv_nth)


subsection \<open>Properties\<close>

lemma new_room: "length xs < 2 ^ 32 \<Longrightarrow> sched_room (length xs + 0) (sched_new have w)"
  by (simp add: sched_room_def sched_new_inv)

text \<open>C32: whatever calls the download engine makes, in whatever order, the
  scheduler never panics (no index out of range, no counter under- or
  overflow), keeps its invariant, and reports that it is done exactly when
  every piece was on disk at the start or has been completed.\<close>

theorem sched_run_safe:
  assumes "\<forall>x \<in> set xs. op_ok (length have) x" and "length xs < 2 ^ 32"
  shows "\<exists>s. run_ops sched_exec xs (sched_new have w) = Some s \<and> sched_inv s \<and>
    length (pieces s) = length have \<and>
    (sched_is_done s \<longleftrightarrow> (\<forall>i < length have. have ! i \<or> Complete i \<in> set xs))"
proof -
  have room: "sched_room (length xs + 0) (sched_new have w :: 'a scheduler)"
    by (rule new_room [OF assms(2)])
  obtain s where s: "run_ops sched_exec xs (sched_new have w) = Some s" "sched_room 0 s"
    "length (pieces s) = length have"
    "done_set s = done_set (sched_new have w :: 'a scheduler) \<union> (\<Union>x \<in> set xs. done_effect x)"
    using sched.run_ok [OF room] assms(1) by auto
  have "i \<in> done_effect x \<longleftrightarrow> x = Complete i" for i and x :: "'a sched_op" by (cases x) auto
  then have eff: "(\<Union>x \<in> set xs. done_effect x) = {i. Complete i \<in> set xs}" by auto
  have rng: "Complete i \<in> set xs \<Longrightarrow> i < length have" for i using assms(1) by force
  have "sched_is_done s \<longleftrightarrow> (\<forall>i < length have. have ! i \<or> Complete i \<in> set xs)"
    using s(2-4) rng unfolding eff by (auto simp: is_done_set sched_room_def done_set_new set_eq_iff)
  with s show ?thesis by (auto simp: sched_room_def)
qed

theorem sched_run_safe_witness:
  "\<exists>s. run_ops sched_exec [AddPeer (7::nat) [True, True], Pick 7, Complete 0, PeerHas 7 9, RemovePeer 7]
      (sched_new [False, True] 3) = Some s \<and> sched_is_done s"
proof -
  have a: "\<forall>x \<in> set [AddPeer (7::nat) [True, True], Pick 7, Complete 0, PeerHas 7 9, RemovePeer 7].
     op_ok (length [False, True]) x" by simp
  show ?thesis using sched_run_safe [OF a, of 3] by (auto simp: less_Suc_eq nth_Cons')
qed

text \<open>The state the witnesses below use: two pieces, peer 7 holds both, peer 8 the first.\<close>

definition two_pieces :: "nat scheduler" where
  "two_pieces = \<lparr>pieces = [Missing, Missing], availability = [2, 1],
     peers = [7 \<mapsto> [True, True], 8 \<mapsto> [True, False]], urgent_window = 0,
     first_not_done = 0, missing = 2, done_count = 0\<rparr>"

lemma two_pieces_inv: "sched_inv two_pieces"
proof -
  have h: "holders (peers two_pieces) 0 = {7, 8}" "holders (peers two_pieces) (Suc 0) = {7}"
    by (auto simp: holders_def two_pieces_def split: if_splits)
  have "\<forall>i < 2. unat (availability two_pieces ! i) = card (holders (peers two_pieces) i)"
    using h by (auto simp: less_2_cases_iff) (simp_all add: two_pieces_def)
  then show ?thesis
    by (auto simp: sched_inv_def counts_ok_def peers_ok_def playhead_ok_def piece_ok_def two_pieces_def
          is_missing_def is_done_piece_def split: if_splits)
qed

text \<open>A piece handed out by \<open>pick\<close> exists, is held by the peer and not yet
  done; the peer was not already fetching it and is recorded as fetching it
  now; never more than three peers fetch a piece at once, and a second one
  only in the endgame, when no piece is missing.\<close>

theorem pick_sound:
  assumes inv: "sched_inv s" and run: "pick peer s = Some (Some i, s')"
  shows "i < length (pieces s) \<and> peer \<in> holders (peers s) i \<and> pieces s ! i \<noteq> Done \<and>
    peer \<notin> set (requesters (pieces s ! i)) \<and>
    requesters (pieces s' ! i) = requesters (pieces s ! i) @ [peer] \<and>
    length (requesters (pieces s' ! i)) \<le> ENDGAME_DUPLICATES \<and>
    (requesters (pieces s ! i) \<noteq> [] \<longrightarrow> Missing \<notin> set (pieces s)) \<and>
    (\<forall>j. j \<noteq> i \<longrightarrow> pieces s' ! j = pieces s ! j)"
proof -
  obtain bits where b: "peers s peer = Some bits"
    using run by (cases "peers s peer") (auto simp: pick_unknown)
  obtain c where "chosen_by s bits peer c"
    "pick peer s = Some (c, case c of None \<Rightarrow> s | Some i \<Rightarrow> picked peer i s)"
    using pick_Some [OF inv b] by blast
  with run have c: "chosen_by s bits peer (Some i)" "s' = picked peer i s" by auto
  note i = chosen_by_sound [OF inv c(1)]
  have bl: "length bits = length (pieces s)" by (rule inv_bits [OF inv b])
  have mz: "missing s = 0 \<Longrightarrow> Missing \<notin> set (pieces s)"
    using missing_zero [OF inv] by (auto simp: in_set_conv_nth)
  show ?thesis
    using i bl b c(2) mz
    by (auto simp: wants_def endgame_ok_def picked_def requesters_def holders_def
          ENDGAME_DUPLICATES_def split: piece.splits)
qed

theorem pick_sound_witness:
  "\<exists>s'. pick 7 two_pieces = Some (Some 1, s') \<and> requesters (pieces s' ! 1) = [7]"
proof -
  have "map_option fst (pick 7 two_pieces) = Some (Some 1)" by code_simp
  then obtain s' where run: "pick 7 two_pieces = Some (Some 1, s')" by auto
  show ?thesis using pick_sound [OF two_pieces_inv run] run
    by (auto simp: two_pieces_def requesters_def)
qed

lemma in_scan: "first_not_done s \<le> n \<Longrightarrow> i < n \<Longrightarrow> i \<in> set ([first_not_done s..<n] @ [0..<first_not_done s])"
  by auto

text \<open>When \<open>pick\<close> finds nothing, the peer has nothing to do.\<close>

lemma pick_idle:
  assumes inv: "sched_inv s" and known: "peers s peer = Some bits"
    and run: "pick peer s = Some (None, s')"
  shows "s' = s \<and> (\<forall>i < length (pieces s). bits ! i \<longrightarrow> (case pieces s ! i of
      Missing \<Rightarrow> False
    | Done \<Rightarrow> True
    | InFlight by \<Rightarrow> Missing \<in> set (pieces s) \<or> peer \<in> set by \<or> ENDGAME_DUPLICATES \<le> length by))"
proof -
  let ?n = "length (pieces s)"
  obtain c where "chosen_by s bits peer c"
    "pick peer s = Some (c, case c of None \<Rightarrow> s | Some i \<Rightarrow> picked peer i s)"
    using pick_Some [OF inv known] by blast
  with run have c: "chosen_by s bits peer None" "s' = s" by auto
  have sn: "first_not_done s \<le> ?n" and before: "\<forall>i < first_not_done s. pieces s ! i = Done"
    using inv_playhead [OF inv] by (auto simp: playhead_ok_def)
  have nw: "\<not> wants s bits i" if "i < ?n" for i
  proof (cases "0 < missing s")
    case True
    with c(1) have "filter (wants s bits) ([first_not_done s..<?n] @ [0..<first_not_done s]) = []"
      unfolding chosen_by_def Let_def
      by (cases "find (wants s bits) [first_not_done s..<min (first_not_done s + urgent_window s) ?n]")
         (simp_all only: option.case if_True option.distinct)
    with in_scan [OF sn that] show ?thesis by (metis filter_empty_conv)
  next
    case False
    with that show ?thesis using missing_zero [OF inv] by (auto simp: wants_def)
  qed
  have eg: "\<not> endgame_ok s bits peer i" if "i < ?n" "Missing \<notin> set (pieces s)" for i
  proof (cases "i < first_not_done s")
    case True
    with before show ?thesis by (simp add: endgame_ok_def)
  next
    case False
    have "missing s = 0" using that(2) missing_zero [OF inv] by (metis nth_mem)
    with c(1) have "filter (endgame_ok s bits peer) [first_not_done s..<?n] = []"
      by (auto simp: chosen_by_def Let_def split: option.splits)
    with False that(1) show ?thesis by (auto simp: filter_empty_conv)
  qed
  show ?thesis
  proof (intro conjI allI impI)
    fix i assume i: "i < length (pieces s)" "bits ! i"
    show "case pieces s ! i of Missing \<Rightarrow> False | Done \<Rightarrow> True
      | InFlight by \<Rightarrow> Missing \<in> set (pieces s) \<or> peer \<in> set by \<or> ENDGAME_DUPLICATES \<le> length by"
      using i nw [OF i(1)] eg [OF i(1)]
      by (cases "pieces s ! i") (auto simp: wants_def endgame_ok_def)
  qed (rule c(2))
qed

text \<open>
  The pieces a peer can be asked for: those it holds that are missing; once
  none is missing, those in flight it holds, is not fetching and fewer than
  three peers fetch.
\<close>

definition offered :: "'k scheduler \<Rightarrow> bool list \<Rightarrow> 'k \<Rightarrow> nat \<Rightarrow> bool" where
  "offered s bits peer i \<longleftrightarrow> i < length (pieces s) \<and> bits ! i \<and>
     (case pieces s ! i of
        Missing \<Rightarrow> True
      | InFlight by \<Rightarrow> Missing \<notin> set (pieces s) \<and> peer \<notin> set by \<and> length by < 3
      | Done \<Rightarrow> False)"

lemma offered_chosen:
  assumes "sched_inv s" and "chosen_by s bits peer (Some i)"
  shows "offered s bits peer i"
  using chosen_by_sound [OF assms] missing_zero [OF assms(1)]
  by (auto simp: offered_def wants_def endgame_ok_def in_set_conv_nth ENDGAME_DUPLICATES_def split: piece.splits)

text \<open>C33: for a connected peer \<open>pick\<close> returns a piece exactly when there is one
  the peer can be asked for: a missing piece it holds or, once nothing is
  missing, one in flight it holds, is not yet fetching and fewer than three
  peers fetch. It never panics; the piece is one of those, the peer is recorded
  last among those fetching it, and nothing else changes.\<close>

theorem pick_complete:
  assumes inv: "sched_inv s" and known: "peers s peer = Some bits"
  shows "case pick peer s of
      None \<Rightarrow> False
    | Some (None, s') \<Rightarrow> s' = s \<and> (\<forall>i. \<not> offered s bits peer i)
    | Some (Some i, s') \<Rightarrow> offered s bits peer i \<and>
        s' = s\<lparr>pieces := (pieces s)[i := InFlight (requesters (pieces s ! i) @ [peer])],
               missing := (if pieces s ! i = Missing then missing s - 1 else missing s)\<rparr>"
proof -
  obtain c where c: "chosen_by s bits peer c" "pick peer s = Some (c, case c of None \<Rightarrow> s | Some i \<Rightarrow> picked peer i s)"
    using pick_Some [OF inv known] by blast
  show ?thesis
  proof (cases c)
    case None
    with c(2) have run: "pick peer s = Some (None, s)" by simp
    have "\<not> offered s bits peer i" for i
      using pick_idle [OF inv known run] by (auto simp: offered_def ENDGAME_DUPLICATES_def split: piece.splits)
    with run show ?thesis by simp
  next
    case (Some i)
    show ?thesis using c Some offered_chosen [OF inv c(1) [unfolded Some]] by (simp add: picked_def)
  qed
qed

theorem pick_complete_witness:
  "(\<exists>s'. pick 7 two_pieces = Some (Some 1, s') \<and> offered two_pieces [True, True] 7 1 \<and> pieces s' = [Missing, InFlight [7]]) \<and>
   pick 8 (two_pieces\<lparr>pieces := [InFlight [7], Missing], missing := 1\<rparr>)
     = Some (None, two_pieces\<lparr>pieces := [InFlight [7], Missing], missing := 1\<rparr>)"
proof
  have k: "peers two_pieces 7 = Some [True, True]" by (simp add: two_pieces_def)
  have "map_option fst (pick 7 two_pieces) = Some (Some 1)" by code_simp
  then obtain s' where run: "pick 7 two_pieces = Some (Some 1, s')" by auto
  from pick_complete [OF two_pieces_inv k, unfolded run] have "offered two_pieces [True, True] 7 1"
    and s': "s' = two_pieces\<lparr>pieces := (pieces two_pieces)[1 := InFlight (requesters (pieces two_pieces ! 1) @ [7])],
      missing := (if pieces two_pieces ! 1 = Missing then missing two_pieces - 1 else missing two_pieces)\<rparr>"
    by simp_all
  then show "\<exists>s'. pick 7 two_pieces = Some (Some 1, s') \<and> offered two_pieces [True, True] 7 1 \<and> pieces s' = [Missing, InFlight [7]]"
    unfolding run s' by (simp add: two_pieces_def requesters_def)
next
  let ?s = "two_pieces\<lparr>pieces := [InFlight [7], Missing], missing := 1\<rparr>"
  have inv: "sched_inv ?s"
    using two_pieces_inv by (auto simp: sched_inv_def counts_ok_def peers_ok_def playhead_ok_def piece_ok_def
        two_pieces_def is_missing_def is_done_piece_def ENDGAME_DUPLICATES_def)
  have "map_option fst (pick 8 ?s) = Some None" by code_simp
  then obtain s' where run: "pick 8 ?s = Some (None, s')" by auto
  have k: "peers ?s 8 = Some [True, False]" by (simp add: two_pieces_def)
  show "pick 8 ?s = Some (None, ?s)" using pick_complete [OF inv k] run by simp
qed

text \<open>While the peer holds missing pieces of the urgent window (the pieces
  right after the first one not done), \<open>pick\<close> hands out the first of them,
  strictly in order.\<close>

theorem pick_urgent:
  assumes inv: "sched_inv s" and known: "peers s peer = Some bits"
    and win: "first_not_done s \<le> i" "i < first_not_done s + urgent_window s" "i < length (pieces s)"
    and i: "bits ! i" "pieces s ! i = Missing"
    and first: "\<forall>j. first_not_done s \<le> j \<and> j < i \<longrightarrow> \<not> (bits ! j \<and> pieces s ! j = Missing)"
  shows "pick peer s = Some (Some i, s\<lparr>pieces := (pieces s)[i := InFlight [peer]], missing := missing s - 1\<rparr>)"
proof -
  let ?w = "[first_not_done s..<min (first_not_done s + urgent_window s) (length (pieces s))]"
  have at: "?w ! j = first_not_done s + j" if "j \<le> i - first_not_done s" for j
    using that win by (intro nth_upt) auto
  have "find (wants s bits) ?w = Some i"
    unfolding find_Some_iff using win i first
    by (intro exI [of _ "i - first_not_done s"]) (auto simp: wants_def at)
  then have "chosen_by s bits peer c \<Longrightarrow> c = Some i" for c
    by (simp add: chosen_by_def Let_def)
  with pick_Some [OF inv known] have "pick peer s = Some (Some i, picked peer i s)" by fastforce
  with i show ?thesis by (simp add: picked_def requesters_def)
qed

theorem pick_urgent_witness:
  "pick 7 (two_pieces\<lparr>urgent_window := 3\<rparr>)
     = Some (Some 0, two_pieces\<lparr>urgent_window := 3, pieces := [InFlight [7], Missing], missing := 1\<rparr>)"
proof -
  let ?s = "two_pieces\<lparr>urgent_window := 3\<rparr>"
  have inv: "sched_inv ?s"
    using two_pieces_inv by (simp add: sched_inv_def counts_ok_def)
  show ?thesis
    using pick_urgent [OF inv, of 7 "[True, True]" 0] by (simp add: two_pieces_def)
qed


text \<open>Outside the urgent window \<open>pick\<close> is rarest-first: the piece is
  one of the first 64 missing pieces the peer holds, counted from the first
  piece not done and wrapping around, none of these has fewer holders among
  the connected peers, and among equally rare ones it is the first.\<close>

theorem pick_rarest:
  assumes inv: "sched_inv s" and known: "peers s peer = Some bits"
    and run: "pick peer s = Some (Some i, s')" and some: "Missing \<in> set (pieces s)"
    and window: "\<forall>j. first_not_done s \<le> j \<and> j < first_not_done s + urgent_window s \<and> j < length (pieces s)
      \<longrightarrow> \<not> (bits ! j \<and> pieces s ! j = Missing)"
  shows "\<exists>before after. take RAREST_SAMPLE (filter (\<lambda>j. bits ! j \<and> pieces s ! j = Missing)
        ([first_not_done s..<length (pieces s)] @ [0..<first_not_done s])) = before @ i # after \<and>
      (\<forall>j \<in> set before. card (holders (peers s) i) < card (holders (peers s) j)) \<and>
      (\<forall>j \<in> set after. card (holders (peers s) i) \<le> card (holders (peers s) j))"
proof -
  let ?n = "length (pieces s)" and ?w = "wants s bits"
  let ?scan = "[first_not_done s..<?n] @ [0..<first_not_done s]"
  let ?cs = "take RAREST_SAMPLE (filter ?w ?scan)"
  obtain c where "chosen_by s bits peer c"
    "pick peer s = Some (c, case c of None \<Rightarrow> s | Some i \<Rightarrow> picked peer i s)"
    using pick_Some [OF inv known] by blast
  with run have c: "chosen_by s bits peer (Some i)" by auto
  have sn: "first_not_done s \<le> ?n" using inv_playhead [OF inv] by (simp add: playhead_ok_def)
  have pos: "0 < missing s" using some missing_pos [OF inv] by (auto simp: in_set_conv_nth)
  have "find ?w [first_not_done s..<min (first_not_done s + urgent_window s) ?n] = None"
    using window by (auto simp: find_None_iff wants_def)
  with c pos have r: "rarest_of (availability s) ?cs i"
    unfolding chosen_by_def Let_def by (simp only: option.case if_True)
  have bl: "length bits = ?n" by (rule inv_bits [OF inv known])
  have cs: "j < ?n \<and> bits ! j" if "j \<in> set ?cs" for j
    using that sn by (auto dest!: in_set_takeD simp: wants_def)
  have av: "unat (availability s ! j) = card (holders (peers s) j)" if "j \<in> set ?cs" for j
    using cs [OF that] inv_holders [OF inv] by simp
  have ge1: "1 \<le> unat (availability s ! j)" if "j \<in> set ?cs" for j
  proof -
    have "peer \<in> holders (peers s) j" using cs [OF that] known bl by (simp add: holders_def)
    then show ?thesis
      using av [OF that] finite_holders_dom [OF inv_finite [OF inv], of j] by (auto simp: card_gt_0_iff Suc_le_eq)
  qed
  from r obtain xs ys where sp: "?cs = xs @ i # ys" "\<forall>j \<in> set xs. availability s ! i < availability s ! j"
    "\<forall>j \<in> set ys. availability s ! i \<le> availability s ! j \<or> availability s ! i \<le> 1"
    unfolding rarest_of_def by blast
  have mem: "set ?cs = set xs \<union> {i} \<union> set ys" by (simp only: sp(1)) auto
  have ic: "i \<in> set ?cs" unfolding mem by simp
  have "\<forall>j \<in> set xs. card (holders (peers s) i) < card (holders (peers s) j)"
    using sp(2) mem av by (auto simp: word_less_nat_alt)
  moreover have "\<forall>j \<in> set ys. card (holders (peers s) i) \<le> card (holders (peers s) j)"
  proof
    fix j assume j: "j \<in> set ys"
    then have jc: "j \<in> set ?cs" unfolding mem by simp
    have "unat (availability s ! i) \<le> unat (availability s ! j)"
    proof (cases "availability s ! i \<le> availability s ! j")
      case True
      then show ?thesis by (simp add: word_le_nat_alt)
    next
      case False
      with sp(3) j have "availability s ! i \<le> 1" by blast
      then have "unat (availability s ! i) \<le> 1" by (simp add: word_le_nat_alt)
      with ge1 [OF jc] show ?thesis by linarith
    qed
    then show "card (holders (peers s) i) \<le> card (holders (peers s) j)" using av [OF jc] av [OF ic] by simp
  qed
  ultimately show ?thesis using sp(1) unfolding wants_def by blast
qed

theorem pick_rarest_witness:
  "\<exists>s' after. pick 7 two_pieces = Some (Some 1, s') \<and> card (holders (peers two_pieces) 1) \<le> 1"
proof -
  have "map_option fst (pick 7 two_pieces) = Some (Some 1)" by code_simp
  then obtain s' where run: "pick 7 two_pieces = Some (Some 1, s')" by auto
  have k: "peers two_pieces 7 = Some [True, True]" by (simp add: two_pieces_def)
  have m: "Missing \<in> set (pieces two_pieces)" by (simp add: two_pieces_def)
  obtain xs ys where "take RAREST_SAMPLE (filter (\<lambda>j. [True, True] ! j \<and> pieces two_pieces ! j = Missing)
      ([first_not_done two_pieces..<length (pieces two_pieces)] @ [0..<first_not_done two_pieces])) = xs @ 1 # ys"
    "\<forall>j \<in> set xs. card (holders (peers two_pieces) 1) < card (holders (peers two_pieces) j)"
    using pick_rarest [OF two_pieces_inv k run m] by (auto simp: two_pieces_def)
  moreover have "holders (peers two_pieces) 1 = {7}"
    by (auto simp: holders_def two_pieces_def split: if_splits)
  ultimately show ?thesis using run by simp
qed

text \<open>Each piece is completed once: \<open>complete\<close> answers that the piece is
  new exactly when it was not done, and after that, whatever else happens, it
  never answers so again for that piece.\<close>

theorem complete_once:
  assumes inv: "sched_inv s" and i: "i < length (pieces s)"
    and ok: "\<forall>x \<in> set xs. op_ok (length (pieces s)) x"
    and room: "card (dom (peers s)) + length xs < 2 ^ 32"
  shows "\<exists>s1 s2 s3. complete_piece i s = Some (pieces s ! i \<noteq> Done, s1) \<and>
     run_ops sched_exec xs s1 = Some s2 \<and> complete_piece i s2 = Some (False, s3)"
proof -
  note c = complete_Some [OF inv i]
  have rm: "sched_room (length xs + 0) (completed i s)" using c(2) room by (simp add: sched_room_def)
  then obtain s2 where s2: "run_ops sched_exec xs (completed i s) = Some s2" "sched_room 0 s2"
    "length (pieces s2) = length (pieces s)" "done_set (completed i s) \<subseteq> done_set s2"
    using sched.run_ok [OF rm] ok by auto
  have "i \<in> done_set (completed i s)" using i by (simp add: done_set_def completed_pieces)
  with s2 have "i < length (pieces s2)" "pieces s2 ! i = Done" by (auto simp: done_set_def)
  with complete_Some [of s2 i] s2 c(1) show ?thesis by (auto simp: sched_room_def)
qed

theorem complete_once_witness:
  "\<exists>s1 s2 s3. complete_piece 0 two_pieces = Some (True, s1) \<and>
     run_ops sched_exec [RemovePeer 7, Pick 8] s1 = Some s2 \<and> complete_piece 0 s2 = Some (False, s3)"
proof -
  have "card (dom (peers two_pieces)) = 2"
  proof -
    have "dom (peers two_pieces) = {7, 8}" by (auto simp: two_pieces_def)
    then show ?thesis by simp
  qed
  then show ?thesis
    using complete_once [OF two_pieces_inv, of 0 "[RemovePeer 7, Pick 8]"] by (simp add: two_pieces_def)
qed

text \<open>When a peer leaves, the scheduler forgets it entirely: it is no longer
  counted as holding or fetching anything, a piece only it was fetching is
  missing again, and every other request stays as it was.\<close>

theorem remove_peer_forgets:
  assumes inv: "sched_inv s"
  shows "\<exists>s'. remove_peer peer s = Some s' \<and> sched_inv s' \<and> peers s' peer = None \<and>
    (\<forall>i < length (pieces s). holders (peers s') i = holders (peers s) i - {peer} \<and>
       requesters (pieces s' ! i) = filter (\<lambda>q. q \<noteq> peer) (requesters (pieces s ! i)) \<and>
       (pieces s' ! i = Missing \<longleftrightarrow> pieces s ! i = Missing \<or> requesters (pieces s ! i) = [peer]) \<and>
       (pieces s' ! i = Done \<longleftrightarrow> pieces s ! i = Done))"
proof -
  obtain s' where s': "remove_peer peer s = Some s'" "sched_inv s'" "peers s' = (peers s)(peer := None)"
    "pieces s' = (if peers s peer = None then pieces s else map (drop_piece peer) (pieces s))"
    using remove_peer_inv [OF inv] by blast
  have pk: "requesters (pieces s' ! i) = filter (\<lambda>q. q \<noteq> peer) (requesters (pieces s ! i)) \<and>
       (pieces s' ! i = Missing \<longleftrightarrow> pieces s ! i = Missing \<or> requesters (pieces s ! i) = [peer]) \<and>
       (pieces s' ! i = Done \<longleftrightarrow> pieces s ! i = Done)" if i: "i < length (pieces s)" for i
  proof (cases "peers s peer")
    case None
    have "peer \<notin> set (requesters (pieces s ! i))"
      using inv_piece [OF inv i] None by (auto simp: piece_ok_def requesters_def split: piece.splits)
    then have "filter (\<lambda>q. q \<noteq> peer) (requesters (pieces s ! i)) = requesters (pieces s ! i)"
      by (auto simp: filter_id_conv)
    with None s'(4) \<open>peer \<notin> set (requesters (pieces s ! i))\<close> show ?thesis by auto
  next
    case (Some bits)
    have one: "filter (\<lambda>q. q \<noteq> peer) l = [] \<longleftrightarrow> l = [peer]" if "l \<noteq> []" "distinct l" for l
      using that by (cases l) (auto simp: filter_empty_conv neq_Nil_conv, metis list.set_intros(1) neq_Nil_conv)
    from Some i s'(4) inv_piece [OF inv i] one show ?thesis
      by (cases "pieces s ! i")
         (auto simp: drop_piece_def requesters_def piece_ok_def Let_def split: if_splits)
  qed
  with s' show ?thesis by (auto simp: holders_del)
qed

theorem remove_peer_forgets_witness:
  "\<exists>s'. remove_peer 7 (two_pieces\<lparr>pieces := [InFlight [7], InFlight [7, 8]], missing := 0\<rparr>) = Some s' \<and>
     pieces s' ! 0 = Missing \<and> requesters (pieces s' ! 1) = [8]"
proof -
  let ?s = "two_pieces\<lparr>pieces := [InFlight [7], InFlight [7, 8]], missing := 0\<rparr>"
  have inv: "sched_inv ?s"
    using two_pieces_inv by (auto simp: sched_inv_def counts_ok_def peers_ok_def playhead_ok_def piece_ok_def
        two_pieces_def is_missing_def is_done_piece_def ENDGAME_DUPLICATES_def)
  show ?thesis using remove_peer_forgets [OF inv, of 7]
    by (auto simp: requesters_def less_Suc_eq)
qed

text \<open>The peer is known not to hold the piece (or is not connected).\<close>

definition lacks_piece :: "'k scheduler \<Rightarrow> 'k \<Rightarrow> nat \<Rightarrow> bool" where
  "lacks_piece s peer i \<longleftrightarrow> peer \<notin> holders (peers s) i"

fun tells_of :: "'k \<Rightarrow> nat \<Rightarrow> 'k sched_op \<Rightarrow> bool" where
  "tells_of peer i (AddPeer p bits) \<longleftrightarrow> p = peer"
| "tells_of peer i (PeerHas p j) \<longleftrightarrow> p = peer \<and> j = i"
| "tells_of peer i _ \<longleftrightarrow> False"

lemma holders_picked [simp]: "peers (picked p i s) = peers s"
  by (simp add: picked_def)

lemma nth_update_False: "xs[j := False] ! i \<Longrightarrow> i < length xs \<Longrightarrow> xs ! i"
  by (cases "j = i") auto

lemma exec_lacks:
  assumes inv: "sched_room (Suc k) s" and ok: "op_ok (length (pieces s)) x"
    and lk: "lacks_piece s peer i" and nt: "\<not> tells_of peer i x" and run: "sched_exec x s = Some s'"
  shows "lacks_piece s' peer i"
proof -
  have si: "sched_inv s" and few: "Suc (card (dom (peers s))) < 2 ^ 32"
    using inv by (auto simp: sched_room_def)
  show ?thesis
  proof (cases x)
    case (AddPeer p bits)
    then have "p \<noteq> peer" using nt by simp
    with AddPeer ok run add_peer_inv [OF si _ few, of bits p] lk show ?thesis
      by (auto simp: lacks_piece_def holders_def)
  next
    case (PeerHas p j)
    with nt run set_peer_has_inv [OF si few, of p j] lk show ?thesis
      by (auto simp: lacks_piece_def holders_def nth_list_update split: option.splits if_splits)
  next
    case (RemovePeer p)
    with run remove_peer_inv [OF si, of p] lk show ?thesis
      by (auto simp: lacks_piece_def holders_del)
  next
    case (Pick p)
    with run pick_inv [OF si, of p] lk show ?thesis by (auto simp: lacks_piece_def)
  next
    case (Complete j)
    with ok run complete_Some [OF si, of j] lk show ?thesis by (auto simp: lacks_piece_def)
  next
    case (Failed j p b)
    with ok run failed_inv [OF si, of j p b] lk show ?thesis
      by (auto simp: lacks_piece_def holders_def dest: nth_update_False split: option.splits if_splits)
  qed
qed

lemma run_lacks:
  assumes "sched_room (length xs + k) s" and "\<forall>x \<in> set xs. op_ok (length (pieces s)) x"
    and "lacks_piece s peer i" and "\<forall>x \<in> set xs. \<not> tells_of peer i x"
    and "run_ops sched_exec xs s = Some s'"
  shows "lacks_piece s' peer i"
  using assms
proof (induction xs arbitrary: s)
  case Nil
  then show ?case by simp
next
  case (Cons x xs)
  then obtain s1 where s1: "sched_exec x s = Some s1" "run_ops sched_exec xs s1 = Some s'"
    by (auto simp: bind_eq_Some_conv)
  have "sched_room (length xs + k) s1 \<and> length (pieces s1) = length (pieces s)"
    using sched.exec_ok [of "length xs + k" s x] s1(1) Cons.prems by auto
  moreover have "lacks_piece s1 peer i"
    using exec_lacks [of "length xs + k" s x peer i s1] s1(1) Cons.prems by auto
  ultimately show ?case using Cons.IH [of s1] s1(2) Cons.prems by auto
qed

text \<open>After a peer sent bad data for a piece (or said it lacks it), it is
  never asked for that piece again, whatever the other calls, until it
  announces the piece anew or is added anew.\<close>

theorem failed_never_again:
  assumes inv: "sched_inv s" and i: "i < length (pieces s)"
    and ok: "\<forall>x \<in> set xs. op_ok (length (pieces s)) x"
    and room: "card (dom (peers s)) + length xs < 2 ^ 32"
    and silent: "\<forall>x \<in> set xs. \<not> tells_of peer i x"
  shows "\<exists>s1 s2 c s3. failed i peer True s = Some s1 \<and> run_ops sched_exec xs s1 = Some s2 \<and>
     pick peer s2 = Some (c, s3) \<and> c \<noteq> Some i"
proof -
  obtain s1 where s1: "failed i peer True s = Some s1" "sched_inv s1"
    "length (pieces s1) = length (pieces s)"
    "peers s1 = (case peers s peer of Some bits \<Rightarrow> (peers s)(peer \<mapsto> bits[i := False]) | None \<Rightarrow> peers s)"
    using failed_inv [OF inv i, of peer True] by (auto split: option.splits)
  have "dom (peers s1) = dom (peers s)" using s1(4) by (auto split: option.splits)
  then have rm: "sched_room (length xs + 0) s1" using s1(2) room by (simp add: sched_room_def)
  then obtain s2 where s2: "run_ops sched_exec xs s1 = Some s2" "sched_inv s2"
    using sched.run_ok [OF rm] ok s1(3) by (auto simp: sched_room_def)
  have "lacks_piece s1 peer i"
    using s1(4) by (auto simp: lacks_piece_def holders_def split: option.splits)
  then have lk: "lacks_piece s2 peer i"
    using run_lacks [OF rm _ _ silent s2(1)] ok s1(3) by simp
  obtain c s3 where p: "pick peer s2 = Some (c, s3)" using pick_inv [OF s2(2)] by blast
  have "c \<noteq> Some i"
  proof
    assume "c = Some i"
    with p have run: "pick peer s2 = Some (Some i, s3)" by simp
    obtain bits where b: "peers s2 peer = Some bits"
      using run by (cases "peers s2 peer") (auto simp: pick_unknown)
    obtain c' where "chosen_by s2 bits peer c'"
      "pick peer s2 = Some (c', case c' of None \<Rightarrow> s2 | Some i \<Rightarrow> picked peer i s2)"
      using pick_Some [OF s2(2) b] by blast
    with run have "chosen_by s2 bits peer (Some i)" by auto
    from chosen_by_sound [OF s2(2) this] have "i < length (pieces s2)" "bits ! i"
      by (auto simp: wants_def endgame_ok_def)
    with lk b inv_bits [OF s2(2) b] show False by (simp add: lacks_piece_def holders_def)
  qed
  with s1 s2 p show ?thesis by blast
qed

theorem failed_never_again_witness:
  "\<exists>s1 s2 c s3. failed 0 7 True two_pieces = Some s1 \<and>
     run_ops sched_exec [RemovePeer 8, Pick 7] s1 = Some s2 \<and> pick 7 s2 = Some (c, s3) \<and> c \<noteq> Some 0"
proof -
  have "dom (peers two_pieces) = {7, 8}" by (auto simp: two_pieces_def)
  then show ?thesis
    using failed_never_again [OF two_pieces_inv, of 0 "[RemovePeer 8, Pick 7]" 7]
    by (simp add: two_pieces_def)
qed

end
