(* ===== verification/Rust_Text.thy ===== *)
theory Rust_Text
  imports Chorrent_Prelude "HOL-Library.Char_ord" "HOL-Library.List_Lexorder"
begin

text \<open>
  Rust strings and paths. A \<open>str\<close> is its UTF-8 encoding, a list of the
  8-bit characters of HOL, so that literals read as in the source; searching
  for ASCII characters in the encoding is the same as searching in the text.
  A path is the list of its components, which is how \<open>std::path\<close> compares,
  joins and strips paths (Unix rules). Only what the source uses of the
  standard library is modelled.
\<close>

type_synonym str = string

subsection \<open>Operations on strings\<close>

definition bytes_of :: "str \<Rightarrow> bytes" where
  "bytes_of s = map (\<lambda>c. word_of_nat (of_char c)) s"

definition str_of_bytes :: "bytes \<Rightarrow> str" where
  "str_of_bytes bs = map (\<lambda>b. char_of (unat b)) bs"

lemma str_of_bytes_of [simp]: "str_of_bytes (bytes_of s) = s"
proof -
  have "char_of (unat (word_of_nat (of_char c) :: u8)) = c" for c :: char
    using nat_of_char_less_256 [of c] by (simp add: unat_of_nat)
  then show ?thesis by (simp add: str_of_bytes_def bytes_of_def comp_def)
qed

lemma bytes_of_inj: "bytes_of s = bytes_of t \<longleftrightarrow> s = t"
  by (metis str_of_bytes_of)

definition starts_with :: "str \<Rightarrow> str \<Rightarrow> bool" where
  "starts_with s p \<longleftrightarrow> take (length p) s = p"

definition strip_prefix :: "str \<Rightarrow> str \<Rightarrow> str option" where
  "strip_prefix s p = (if starts_with s p then Some (drop (length p) s) else None)"

definition ends_with :: "str \<Rightarrow> str \<Rightarrow> bool" where
  "ends_with s w \<longleftrightarrow> length w \<le> length s \<and> drop (length s - length w) s = w"

text \<open>The UTF-8 encodings of the characters \<open>char::is_whitespace\<close> accepts.\<close>

definition whitespace :: "str list" where
  "whitespace = [[CHR 0x09], [CHR 0x0A], [CHR 0x0B], [CHR 0x0C], [CHR 0x0D], [CHR 0x20],
     [CHR 0xC2, CHR 0x85], [CHR 0xC2, CHR 0xA0], [CHR 0xE1, CHR 0x9A, CHR 0x80],
     [CHR 0xE2, CHR 0x80, CHR 0x80], [CHR 0xE2, CHR 0x80, CHR 0x81], [CHR 0xE2, CHR 0x80, CHR 0x82],
     [CHR 0xE2, CHR 0x80, CHR 0x83], [CHR 0xE2, CHR 0x80, CHR 0x84], [CHR 0xE2, CHR 0x80, CHR 0x85],
     [CHR 0xE2, CHR 0x80, CHR 0x86], [CHR 0xE2, CHR 0x80, CHR 0x87], [CHR 0xE2, CHR 0x80, CHR 0x88],
     [CHR 0xE2, CHR 0x80, CHR 0x89], [CHR 0xE2, CHR 0x80, CHR 0x8A], [CHR 0xE2, CHR 0x80, CHR 0xA8],
     [CHR 0xE2, CHR 0x80, CHR 0xA9], [CHR 0xE2, CHR 0x80, CHR 0xAF], [CHR 0xE2, CHR 0x81, CHR 0x9F],
     [CHR 0xE3, CHR 0x80, CHR 0x80]]"

lemma whitespace_nonempty: "w \<in> set whitespace \<Longrightarrow> 0 < length w"
  by (auto simp: whitespace_def)

function trim_end :: "str \<Rightarrow> str" where
  "trim_end s = (case find (ends_with s) whitespace of
     None \<Rightarrow> s
   | Some w \<Rightarrow> trim_end (take (length s - length w) s))"
  by pat_completeness auto
termination
proof (relation "measure length", simp)
  fix s w assume "find (ends_with s) whitespace = Some w"
  then have w: "w \<in> set whitespace" "length w \<le> length s"
    by (auto simp: find_Some_iff ends_with_def)
  moreover have "0 < length w" using whitespace_nonempty [OF w(1)] .
  ultimately have "length s - length w < length s" by linarith
  then show "(take (length s - length w) s, s) \<in> measure length" by simp
qed

declare trim_end.simps [simp del]

function trim_start :: "str \<Rightarrow> str" where
  "trim_start s = (case find (starts_with s) whitespace of
     None \<Rightarrow> s
   | Some w \<Rightarrow> trim_start (drop (length w) s))"
  by pat_completeness auto
termination
proof (relation "measure length", simp)
  fix s w assume "find (starts_with s) whitespace = Some w"
  then have w: "w \<in> set whitespace" "take (length w) s = w"
    by (auto simp: find_Some_iff starts_with_def)
  then have "0 < length s" using whitespace_nonempty [of w] by (cases s) auto
  with w(1) show "(drop (length w) s, s) \<in> measure length"
    using whitespace_nonempty [of w] by simp
qed

declare trim_start.simps [simp del]

definition trim :: "str \<Rightarrow> str" where
  "trim s = trim_end (trim_start s)"

definition ascii_lower :: "char \<Rightarrow> char" where
  "ascii_lower c = (let n = of_char c :: nat in
     if 65 \<le> n \<and> n \<le> 90 then char_of (n + 32) else c)"

definition eq_ignore_ascii_case :: "str \<Rightarrow> str \<Rightarrow> bool" where
  "eq_ignore_ascii_case a b \<longleftrightarrow> map ascii_lower a = map ascii_lower b"

text \<open>\<open>str::split(c)\<close>: the pieces between the separators.\<close>

fun split_on :: "char \<Rightarrow> str \<Rightarrow> str list" where
  "split_on c [] = [[]]"
| "split_on c (x # xs) = (case split_on c xs of
     [] \<Rightarrow> []
   | p # ps \<Rightarrow> if x = c then [] # p # ps else (x # p) # ps)"

lemma split_on_nonempty [simp]: "split_on c s \<noteq> []"
  by (induction c s rule: split_on.induct) (auto split: list.splits)

lemma split_on_none: "c \<notin> set s \<Longrightarrow> split_on c s = [s]"
  by (induction s) auto

text \<open>Whether bytes are valid UTF-8, as \<open>OsStr::to_str\<close> checks.\<close>

fun utf8_valid :: "nat list \<Rightarrow> bool" where
  "utf8_valid [] = True"
| "utf8_valid (a # r) =
     (let cont = (\<lambda>x. 0x80 \<le> x \<and> x \<le> (0xBF :: nat)) in
      if a \<le> 0x7F then utf8_valid r
      else if 0xC2 \<le> a \<and> a \<le> 0xDF then (case r of b # r' \<Rightarrow> cont b \<and> utf8_valid r' | _ \<Rightarrow> False)
      else if 0xE0 \<le> a \<and> a \<le> 0xEF then
        (case r of b # c # r' \<Rightarrow>
           cont b \<and> (a = 0xE0 \<longrightarrow> 0xA0 \<le> b) \<and> (a = 0xED \<longrightarrow> b \<le> 0x9F) \<and> cont c \<and> utf8_valid r'
         | _ \<Rightarrow> False)
      else if 0xF0 \<le> a \<and> a \<le> 0xF4 then
        (case r of b # c # d # r' \<Rightarrow>
           cont b \<and> (a = 0xF0 \<longrightarrow> 0x90 \<le> b) \<and> (a = 0xF4 \<longrightarrow> b \<le> 0x8F) \<and> cont c \<and> cont d \<and> utf8_valid r'
         | _ \<Rightarrow> False)
      else False)"

definition to_str :: "str \<Rightarrow> str option" where
  "to_str os = (if utf8_valid (map of_char os) then Some os else None)"

text \<open>Decimal numbers, as \<open>Display\<close> prints them.\<close>

fun show_nat :: "nat \<Rightarrow> str" where
  "show_nat n = (if n < 10 then [char_of (48 + n)] else show_nat (n div 10) @ [char_of (48 + n mod 10)])"

declare show_nat.simps [simp del]

subsection \<open>Paths\<close>

datatype component = RootDir | CurDir | ParentDir | Normal str

type_synonym path = "component list"

definition component_of :: "str \<Rightarrow> component list" where
  "component_of s =
     (if s = [] \<or> s = ''.'' then [] else if s = ''..'' then [ParentDir] else [Normal s])"

text \<open>
  The components of a path string: a leading separator is the root, repeated
  separators and \<open>.\<close> are dropped, but a leading \<open>.\<close> of a relative path stays.
\<close>

definition path_of :: "str \<Rightarrow> path" where
  "path_of s = (case split_on (CHR ''/'') s of
     [] \<Rightarrow> []
   | first # rest \<Rightarrow>
       (if first = [] then (if rest = [] then [] else [RootDir])
        else if first = ''.'' then [CurDir] else component_of first)
       @ concat (map component_of rest))"

text \<open>\<open>Path::join\<close>: an absolute right-hand side replaces the left.\<close>

definition path_join :: "path \<Rightarrow> path \<Rightarrow> path" where
  "path_join p q = (case q of
     RootDir # _ \<Rightarrow> q
   | _ \<Rightarrow> if p = [] then q else p @ filter (\<lambda>c. c \<noteq> CurDir) q)"

fun path_strip_prefix :: "path \<Rightarrow> path \<Rightarrow> path option" where
  "path_strip_prefix p [] = Some p"
| "path_strip_prefix [] (_ # _) = None"
| "path_strip_prefix (a # p) (b # q) = (if a = b then path_strip_prefix p q else None)"

definition path_parent :: "path \<Rightarrow> path option" where
  "path_parent p = (if p = [] \<or> p = [RootDir] then None else Some (butlast p))"

text \<open>\<open>Path::file_name\<close>: the last component when it is a normal one.\<close>

definition file_name :: "path \<Rightarrow> str option" where
  "file_name p = (if p = [] then None else case last p of Normal s \<Rightarrow> Some s | _ \<Rightarrow> None)"

fun component_text :: "component \<Rightarrow> str" where
  "component_text RootDir = []"
| "component_text CurDir = ''.''"
| "component_text ParentDir = ''..''"
| "component_text (Normal s) = s"

text \<open>\<open>Path::display\<close> of a path given by its components.\<close>

definition path_display :: "path \<Rightarrow> str" where
  "path_display p = (if p = [RootDir] then ''/''
     else concat (case map component_text p of [] \<Rightarrow> [] | c # cs \<Rightarrow> c # map (\<lambda>d. CHR ''/'' # d) cs))"

lemma path_strip_prefix_append [simp]: "path_strip_prefix (p @ q) p = Some q"
  by (induction p) auto

lemma path_strip_prefix_Some: "path_strip_prefix p q = Some r \<longleftrightarrow> p = q @ r"
  by (induction p q rule: path_strip_prefix.induct) auto

lemma path_of_plain:
  assumes "CHR ''/'' \<notin> set s" and "s \<noteq> []" and "s \<noteq> ''.''" and "s \<noteq> ''..''"
  shows "path_of s = [Normal s]"
  using assms by (simp add: path_of_def split_on_none component_of_def)

lemma path_join_normal [simp]: "path_join p (map Normal ns) = p @ map Normal ns"
proof -
  have "filter (\<lambda>c. c \<noteq> CurDir) (map Normal ns) = map Normal ns"
    by (simp add: filter_id_conv)
  then show ?thesis by (cases ns) (auto simp: path_join_def)
qed

lemma path_join_one [simp]: "path_join p [Normal n] = p @ [Normal n]"
  using path_join_normal [of p "[n]"] by simp

lemma map_Normal_inj [simp]: "map Normal a = map Normal b \<longleftrightarrow> a = b"
  by (rule inj_map_eq_map) (simp add: inj_def)

end
