(* ===== verification/Chorrent_Error.thy ===== *)
theory Chorrent_Error
  imports Rust_Text
begin

text \<open>
  The error types of \<open>error.rs\<close> and the events of \<open>event.rs\<close>. A
  \<open>std::io::Error\<close> is its kind. Messages built with \<open>format!\<close> keep their
  fixed text; where the text interpolates a value, the value is a number or a
  name that the constructor or the message keeps, or is dropped (the debug
  rendering of a name, the text of a library's own error).
\<close>

datatype io_error =
    IoNotFound | IoPermissionDenied | IoAlreadyExists | IoInvalidInput | IoInvalidData
  | IoUnexpectedEof | IoWriteZero | IoOther

datatype chunker_error =
    ChunkerOpen path io_error
  | ChunkerHash path io_error
  | ChunkerServe path io_error
  | ChunkerReceive path io_error

datatype node_error =
    NodeBind str
  | NodeConnect str
  | NodeAccept str

datatype protocol_error =
    ProtocolSend str
  | ProtocolReceive str

datatype error =
    InvalidShareCode str
  | Chunker chunker_error
  | Node node_error
  | Protocol protocol_error
  | Io path io_error
  | Gossip str
  | NoPeersFound nat
  | NoPeersConnected
  | UnsupportedName path str
  | BadManifest str
  | HashMismatch path
  | AlreadySharing
  | Storage str
  | DataDirInUse path
  | NotAvailable str
  | Cancelled
  | Task str

datatype event =
    PeerDiscovered str
  | ManifestReceived str nat u64 nat
  | Resumed nat u64
  | PeerConnected str nat nat
  | PeerPath str bool u64
  | SwarmPeers nat
  | PeerDisconnected str
  | PieceVerified nat u64
  | PieceFailed nat str
  | SharedFileChanged str
  | Uploaded u64
  | Completed

text \<open>The \<open>?\<close> operator on a result, converting the error where the source has a \<open>From\<close>.\<close>

fun bind_result :: "'e + 'a \<Rightarrow> ('a \<Rightarrow> 'e + 'b) \<Rightarrow> 'e + 'b" where
  "bind_result (Inl e) f = Inl e"
| "bind_result (Inr x) f = f x"

fun map_err :: "('e \<Rightarrow> 'f) \<Rightarrow> 'e + 'a \<Rightarrow> 'f + 'a" where
  "map_err g (Inl e) = Inl (g e)"
| "map_err g (Inr x) = Inr x"

definition ok_or :: "'a option \<Rightarrow> 'e \<Rightarrow> 'e + 'a" where
  "ok_or x e = (case x of None \<Rightarrow> Inl e | Some a \<Rightarrow> Inr a)"

fun result_ok :: "'e + 'a \<Rightarrow> 'a option" where
  "result_ok (Inl e) = None"
| "result_ok (Inr x) = Some x"

lemma bind_result_Inr: "bind_result r f = Inr y \<longleftrightarrow> (\<exists>x. r = Inr x \<and> f x = Inr y)"
  by (cases r) auto

lemma bind_result_Inl: "bind_result r f = Inl e \<longleftrightarrow> r = Inl e \<or> (\<exists>x. r = Inr x \<and> f x = Inl e)"
  by (cases r) auto

lemma map_err_Inr [simp]: "map_err g r = Inr y \<longleftrightarrow> r = Inr y"
  by (cases r) auto

lemma ok_or_Inr [simp]: "ok_or x e = Inr a \<longleftrightarrow> x = Some a"
  by (auto simp: ok_or_def split: option.splits)

lemma result_ok_Some [simp]: "result_ok r = Some x \<longleftrightarrow> r = Inr x"
  by (cases r) auto

lemmas result_simps = bind_result_Inr bind_result_Inl

end
