(* ===== verification/Externals.thy ===== *)
theory Externals
  imports Chorrent_Error
begin

text \<open>
  The libraries the source calls and whose code is not part of the
  repository, as parameters: serialization (postcard), hashing (BLAKE3), the
  Unicode tables behind \<open>str::to_lowercase\<close>. A definition that uses one
  takes it as an argument; what a theorem relies on is a named hypothesis.
\<close>

text \<open>Serialization of one type with postcard.\<close>

record 'a codec =
  to_allocvec :: "'a \<Rightarrow> bytes option"
  from_bytes :: "bytes \<Rightarrow> 'a option"

text \<open>Postcard's contract at a value: it serializes, and deserializing gives it back.\<close>

definition round_trips :: "'a codec \<Rightarrow> 'a \<Rightarrow> bool" where
  "round_trips c x \<longleftrightarrow> (\<exists>b. to_allocvec c x = Some b \<and> from_bytes c b = Some x)"

text \<open>BLAKE3: hashing, keyed hashing, key derivation, and the hex form of a hash.\<close>

record blake3 =
  blake_hash :: "bytes \<Rightarrow> bytes"
  keyed_hash :: "bytes \<Rightarrow> bytes \<Rightarrow> bytes"
  derive_key :: "str \<Rightarrow> bytes \<Rightarrow> bytes"
  to_hex :: "bytes \<Rightarrow> str"
  from_hex :: "str \<Rightarrow> bytes option"

text \<open>
  A pre-order outboard of bao-tree: the root hash, the size of the file (its
  tree is determined by it and the block size), and the inner hashes.
\<close>

record outboard =
  ob_root :: bytes
  ob_size :: u64
  ob_data :: bytes

text \<open>A toy codec and hash for the witnesses: one value, and the identity.\<close>

definition const_codec :: "'a \<Rightarrow> 'a codec" where
  "const_codec x = \<lparr>to_allocvec = (\<lambda>_. Some [7]), from_bytes = (\<lambda>_. Some x)\<rparr>"

lemma const_codec_round_trips: "round_trips (const_codec x) x"
  by (simp add: round_trips_def const_codec_def)

definition plain_blake :: blake3 where
  "plain_blake = \<lparr>blake_hash = (\<lambda>b. b), keyed_hash = (\<lambda>k b. k @ b), derive_key = (\<lambda>c b. bytes_of c @ b),
     to_hex = str_of_bytes, from_hex = (\<lambda>s. Some (bytes_of s))\<rparr>"

end
