(* ===== verification/Manifest.thy ===== *)
theory Manifest
  imports Externals "HOL-Library.Multiset"
begin

text \<open>
  \<open>src/crates/chorrent/src/manifest.rs\<close> up to the piece layout: share ids,
  file entries, the manifest, its encoding and verification, the names that
  are allowed, and building a manifest from a file or folder.
\<close>

subsection \<open>Data\<close>

definition MANIFEST_VERSION :: u8 where
  "MANIFEST_VERSION = 1"

definition MAX_MANIFEST_BYTES :: nat where
  "MAX_MANIFEST_BYTES = 8 * 1024 * 1024"

definition BLOCK_SIZE :: nat where
  "BLOCK_SIZE = 65536"

datatype share_id = ShareId (id_bytes: bytes)

text \<open>Ids are ordered as their bytes, which the source derives.\<close>

instantiation share_id :: linorder
begin

definition less_eq_share_id :: "share_id \<Rightarrow> share_id \<Rightarrow> bool" where
  "less_eq_share_id i j \<longleftrightarrow> id_bytes i \<le> id_bytes j"

definition less_share_id :: "share_id \<Rightarrow> share_id \<Rightarrow> bool" where
  "less_share_id i j \<longleftrightarrow> id_bytes i < id_bytes j"

instance
  by standard (auto simp: less_eq_share_id_def less_share_id_def intro: share_id.expand)

end

definition share_id_display :: "blake3 \<Rightarrow> share_id \<Rightarrow> str" where
  "share_id_display h i = to_hex h (id_bytes i)"

definition share_id_from_str :: "blake3 \<Rightarrow> str \<Rightarrow> error + share_id" where
  "share_id_from_str h s =
     (case from_hex h s of
        Some b \<Rightarrow> Inr (ShareId b)
      | None \<Rightarrow> Inl (InvalidShareCode ''bad share id''))"

record file_entry =
  fe_path :: "str list"
  fe_size :: u64
  fe_root :: bytes

definition file_entry_path :: "file_entry \<Rightarrow> path" where
  "file_entry_path f = foldl path_join [] (map path_of (fe_path f))"

definition file_pieces :: "file_entry \<Rightarrow> nat" where
  "file_pieces f = div_ceil (unat (fe_size f)) BLOCK_SIZE"

record manifest =
  m_name :: str
  m_files :: "file_entry list"

text \<open>A sum of \<open>u64\<close>s: it wraps in a release build.\<close>

definition total_size :: "manifest \<Rightarrow> u64" where
  "total_size m = foldl (+) 0 (map fe_size (m_files m))"

definition manifest_encode :: "manifest codec \<Rightarrow> manifest \<Rightarrow> bytes option" where
  "manifest_encode pc m = do { b \<leftarrow> to_allocvec pc m; Some (MANIFEST_VERSION # b) }"

definition id_of :: "blake3 \<Rightarrow> bytes \<Rightarrow> share_id" where
  "id_of h encoded = ShareId (blake_hash h encoded)"

subsection \<open>Names\<close>

definition RESERVED :: "str list" where
  "RESERVED = [''CON'', ''PRN'', ''AUX'', ''NUL'', ''COM1'', ''COM2'', ''COM3'', ''COM4'', ''COM5'',
     ''COM6'', ''COM7'', ''COM8'', ''COM9'', ''LPT1'', ''LPT2'', ''LPT3'', ''LPT4'', ''LPT5'', ''LPT6'',
     ''LPT7'', ''LPT8'', ''LPT9'']"

definition forbidden_chars :: "char list" where
  "forbidden_chars = [CHR ''<'', CHR ''>'', CHR '':'', CHR 0x22, CHR ''/'', CHR 0x5C, CHR ''|'',
     CHR ''?'', CHR ''*'']"

definition name_problem :: "str \<Rightarrow> str option" where
  "name_problem name =
     (if name = [] \<or> name = ''.'' \<or> name = ''..'' then Some ''is not a file name''
      else if \<exists>c \<in> set name. of_char c < (32 :: nat) \<or> c \<in> set forbidden_chars then
        Some (''contains a character Windows doesn't allow (< > : '' @ [CHR 0x22] @ '' / '' @ [CHR 0x5C]
              @ '' | ? * or a control character)'')
      else if last name = CHR ''.'' \<or> last name = CHR '' '' then
        Some ''ends with a dot or space, which Windows doesn't allow''
      else
        (let stem = trim_end (case split_on (CHR ''.'') name of [] \<Rightarrow> name | s # _ \<Rightarrow> s) in
         if \<exists>r \<in> set RESERVED. eq_ignore_ascii_case r stem then
           Some ''is a reserved device name on Windows''
         else None))"

subsection \<open>Validation\<close>

text \<open>
  The loop of \<open>validate\<close>. \<open>lower\<close> is \<open>str::to_lowercase\<close>; \<open>seen\<close> is the
  hash set of lower-cased paths.
\<close>

fun validate_files :: "(str \<Rightarrow> str) \<Rightarrow> str \<Rightarrow> str list set \<Rightarrow> file_entry list \<Rightarrow> error + unit" where
  "validate_files lower name seen [] = Inr ()"
| "validate_files lower name seen (f # fs) =
     (case fe_path f of
        [] \<Rightarrow> Inl (BadManifest ''file outside the share's folder'')
      | first # _ \<Rightarrow>
          if first \<noteq> name then Inl (BadManifest ''file outside the share's folder'')
          else if \<exists>c \<in> set (fe_path f). name_problem c \<noteq> None then
            Inl (BadManifest ''unsafe file name'')
          else if map lower (fe_path f) \<in> seen then Inl (BadManifest ''duplicate file path'')
          else validate_files lower name (insert (map lower (fe_path f)) seen) fs)"

definition validate :: "(str \<Rightarrow> str) \<Rightarrow> manifest \<Rightarrow> error + unit" where
  "validate lower m = validate_files lower (m_name m) {} (m_files m)"

definition decode_verified ::
  "blake3 \<Rightarrow> manifest codec \<Rightarrow> (str \<Rightarrow> str) \<Rightarrow> bytes \<Rightarrow> share_id \<Rightarrow> error + manifest" where
  "decode_verified h pc lower encoded expected =
     (if id_of h encoded \<noteq> expected then
        Inl (BadManifest ''hash does not match the share code'')
      else case encoded of
        [] \<Rightarrow> Inl (BadManifest ''empty'')
      | version # rest \<Rightarrow>
          if version \<noteq> MANIFEST_VERSION then
            Inl (BadManifest (''unsupported manifest version '' @ show_nat (unat version)))
          else bind_result (ok_or (from_bytes pc rest) (BadManifest ''postcard''))
            (\<lambda>m. bind_result (validate lower m) (\<lambda>_. Inr m)))"

subsection \<open>Building a manifest from disk\<close>

text \<open>
  What is on disk at a path, as \<open>symlink_metadata\<close> and \<open>read_dir\<close> see it:
  a regular file, a folder, something else (a symbolic link, a device), or a
  path the system refuses to examine. The tree does not change while it is
  walked.
\<close>

datatype fsnode =
    FsFile bytes
  | FsDir "(str \<times> fsnode) list"
  | FsOther
  | FsRefused io_error

definition portable_name :: "path \<Rightarrow> str option \<Rightarrow> error + str" where
  "portable_name path name =
     (case name of
        None \<Rightarrow> Inl (UnsupportedName path ''path has no file name'')
      | Some os \<Rightarrow>
          (case to_str os of
             None \<Rightarrow> Inl (UnsupportedName path ''name isn't valid Unicode'')
           | Some n \<Rightarrow>
               (case name_problem n of
                  Some reason \<Rightarrow> Inl (UnsupportedName path reason)
                | None \<Rightarrow> Inr n)))"

type_synonym found = "str list \<times> path \<times> bytes"

lemma size_list_sum: "size_list f xs = sum_list (map f xs) + length xs"
  by (induction xs) auto

lemma size_sort_key [simp]: "size_list f (sort_key k xs) = size_list f xs"
proof -
  have "sum_list (map f (sort_key k xs)) = sum_list (map f xs)"
    by (metis mset_map mset_sort sum_mset_sum_list)
  then show ?thesis by (simp add: size_list_sum)
qed

function collect :: "path \<Rightarrow> str list \<Rightarrow> fsnode \<Rightarrow> error + found list"
  and collect_entries :: "path \<Rightarrow> str list \<Rightarrow> (str \<times> fsnode) list \<Rightarrow> error + found list" where
  "collect path components (FsRefused e) = Inl (Io path e)"
| "collect path components (FsFile content) = Inr [(components, path, content)]"
| "collect path components (FsDir entries) =
     collect_entries path components (sort_key fst entries)"
| "collect path components FsOther = Inr []"
| "collect_entries path components [] = Inr []"
| "collect_entries path components ((os, node) # rest) =
     (let entry_path = path_join path [Normal os] in
      bind_result (portable_name entry_path (Some os)) (\<lambda>name.
      bind_result (collect entry_path (components @ [name]) node) (\<lambda>out.
      bind_result (collect_entries path components rest) (\<lambda>more. Inr (out @ more)))))"
  by pat_completeness auto
termination
  by (relation "measure (\<lambda>x. case x of Inl (_, _, n) \<Rightarrow> 2 * size n
       | Inr (_, _, es) \<Rightarrow> 2 * size_list (size_prod (\<lambda>_. 0) size) es + 1)") auto

text \<open>The check for names that differ only in case, over the files found.\<close>

fun check_case :: "(str \<Rightarrow> str) \<Rightarrow> str list set \<Rightarrow> found list \<Rightarrow> error + unit" where
  "check_case lower seen [] = Inr ()"
| "check_case lower seen ((components, path, content) # r) =
     (if map lower components \<in> seen then
        Inl (UnsupportedName path ''matches another file's name apart from upper/lower case'')
      else check_case lower (insert (map lower components) seen) r)"

text \<open>
  The closure that hashes (and perhaps copies) one file; it may change the
  state \<open>'s\<close> it works on.
\<close>

type_synonym ('d, 's) ingest = "nat \<Rightarrow> path \<Rightarrow> u64 \<Rightarrow> 's \<Rightarrow> (error + 'd \<times> outboard) \<times> 's"

fun ingest_all :: "('d, 's) ingest \<Rightarrow> nat \<Rightarrow> found list \<Rightarrow> 's
    \<Rightarrow> (error + (file_entry list \<times> ('d \<times> outboard) list)) \<times> 's" where
  "ingest_all ingest index [] s = (Inr ([], []), s)"
| "ingest_all ingest index ((components, path, content) # r) s =
     (case ingest index path (word_of_nat (length content)) s of
        (Inl e, s1) \<Rightarrow> (Inl e, s1)
      | (Inr (data, outboard), s1) \<Rightarrow>
          (case ingest_all ingest (index + 1) r s1 of
             (Inl e, s2) \<Rightarrow> (Inl e, s2)
           | (Inr (files, hashed), s2) \<Rightarrow>
               (Inr (\<lparr>fe_path = components, fe_size = ob_size outboard, fe_root = ob_root outboard\<rparr> # files,
                  (data, outboard) # hashed), s2)))"

definition share_name :: "path \<Rightarrow> str option \<Rightarrow> error + str" where
  "share_name root label =
     (case label of
        None \<Rightarrow> portable_name root (file_name root)
      | Some l \<Rightarrow>
          (case name_problem l of
             Some reason \<Rightarrow> Inl (UnsupportedName (path_of l) reason)
           | None \<Rightarrow> Inr l))"

definition manifest_from_disk ::
  "(str \<Rightarrow> str) \<Rightarrow> path \<Rightarrow> fsnode \<Rightarrow> str option \<Rightarrow> ('d, 's) ingest \<Rightarrow> 's
     \<Rightarrow> (error + (manifest \<times> ('d \<times> outboard) list)) \<times> 's" where
  "manifest_from_disk lower root node label ingest s =
     (case bind_result (share_name root label) (\<lambda>name.
           bind_result (collect root [name] node) (\<lambda>found.
           bind_result (check_case lower {} found) (\<lambda>_. Inr (name, found)))) of
        Inl e \<Rightarrow> (Inl e, s)
      | Inr (name, found) \<Rightarrow>
          (case ingest_all ingest 0 found s of
             (Inl e, s1) \<Rightarrow> (Inl e, s1)
           | (Inr (files, hashed), s1) \<Rightarrow> (Inr (\<lparr>m_name = name, m_files = files\<rparr>, hashed), s1)))"

definition manifest_single :: "str \<Rightarrow> outboard \<Rightarrow> error + manifest" where
  "manifest_single name outboard =
     (case name_problem name of
        Some reason \<Rightarrow> Inl (UnsupportedName (path_of name) reason)
      | None \<Rightarrow> Inr \<lparr>m_name = name,
          m_files = [\<lparr>fe_path = [name], fe_size = ob_size outboard, fe_root = ob_root outboard\<rparr>]\<rparr>)"

end
