(* ===== verification/Manifest_Safety.thy ===== *)
theory Manifest_Safety
  imports Manifest
begin

text \<open>
  Lemmas and properties of the manifest: what validation guarantees about
  names and paths, that what a seeder builds is what a downloader accepts,
  and which files of a folder a share contains.
\<close>

subsection \<open>Names and validation\<close>

lemma name_ok_facts:
  assumes "name_problem n = None"
  shows "n \<noteq> []" "n \<noteq> ''.''" "n \<noteq> ''..''"
    and "\<And>c. c \<in> set n \<Longrightarrow> 32 \<le> (of_char c :: nat) \<and> c \<notin> set forbidden_chars"
    and "last n \<noteq> CHR ''.''" "last n \<noteq> CHR '' ''"
  using assms by (auto simp: name_problem_def not_less split: if_splits)

lemma name_ok_no_slash: "name_problem n = None \<Longrightarrow> CHR ''/'' \<notin> set n"
  using name_ok_facts(4) [of n "CHR ''/''"] by (auto simp: forbidden_chars_def)

lemma name_ok_path [simp]: "name_problem n = None \<Longrightarrow> path_of n = [Normal n]"
  by (intro path_of_plain name_ok_no_slash name_ok_facts)

definition entry_ok :: "str \<Rightarrow> file_entry \<Rightarrow> bool" where
  "entry_ok name f \<longleftrightarrow> fe_path f \<noteq> [] \<and> hd (fe_path f) = name \<and> (\<forall>c \<in> set (fe_path f). name_problem c = None)"

lemma validate_files_iff:
  "validate_files lower name seen fs = Inr () \<longleftrightarrow>
     (\<forall>f \<in> set fs. entry_ok name f) \<and> distinct (map (\<lambda>f. map lower (fe_path f)) fs) \<and>
     (\<forall>f \<in> set fs. map lower (fe_path f) \<notin> seen)"
proof (induction fs arbitrary: seen)
  case Nil
  then show ?case by simp
next
  case (Cons f fs)
  let ?k = "map lower (fe_path f)"
  have step: "validate_files lower name seen (f # fs) = Inr () \<longleftrightarrow>
      entry_ok name f \<and> ?k \<notin> seen \<and> validate_files lower name (insert ?k seen) fs = Inr ()"
    by (cases "fe_path f") (simp_all add: entry_ok_def)
  show ?case unfolding step Cons.IH by (force simp: image_iff)
qed

lemma validate_iff:
  "validate lower m = Inr () \<longleftrightarrow>
     (\<forall>f \<in> set (m_files m). entry_ok (m_name m) f) \<and> distinct (map (\<lambda>f. map lower (fe_path f)) (m_files m))"
  by (simp add: validate_def validate_files_iff)

lemma foldl_join_normal: "foldl path_join (map Normal a) (map (\<lambda>n. [Normal n]) ns) = map Normal (a @ ns)"
proof (induction ns arbitrary: a)
  case (Cons n ns)
  from Cons.IH [of "a @ [n]"] show ?case by simp
qed simp

lemma entry_path_normal:
  assumes "entry_ok name f"
  shows "file_entry_path f = map Normal (fe_path f)"
proof -
  have "map path_of (fe_path f) = map (\<lambda>n. [Normal n]) (fe_path f)"
    using assms by (simp add: entry_ok_def)
  then show ?thesis
    using foldl_join_normal [of "[]" "fe_path f"]
    unfolding file_entry_path_def by (simp only: list.map append_Nil)
qed

lemma join_entry_path: "entry_ok name f \<Longrightarrow> path_join dest (file_entry_path f) = dest @ map Normal (fe_path f)"
  by (simp only: entry_path_normal path_join_normal)

lemma decode_verified_Inr:
  "decode_verified h pc lower encoded expected = Inr m \<longleftrightarrow>
     id_of h encoded = expected \<and>
     (\<exists>rest. encoded = MANIFEST_VERSION # rest \<and> from_bytes pc rest = Some m \<and> validate lower m = Inr ())"
  by (cases encoded) (auto simp: decode_verified_def result_simps)

text \<open>C28: a manifest accepted from a peer is the one asked for, and every file
  of it is saved strictly inside the folder named after the share: joining a
  file's path to any download folder appends the path's components, which
  are proper names (no root, no parent folder), the first being the share's
  name, and no two files share a path.\<close>

theorem decode_verified_contained:
  assumes "decode_verified h pc lower encoded expected = Inr m"
  shows "id_of h encoded = expected \<and>
    (\<forall>f \<in> set (m_files m). path_join dest (file_entry_path f) = dest @ map Normal (fe_path f) \<and>
       (\<exists>rest. fe_path f = m_name m # rest) \<and>
       (\<forall>n \<in> set (fe_path f). n \<notin> {[], ''.'', ''..''} \<and> set n \<inter> set forbidden_chars = {})) \<and>
    distinct (map (\<lambda>f. path_join dest (file_entry_path f)) (m_files m))"
proof -
  from assms have v: "\<forall>f \<in> set (m_files m). entry_ok (m_name m) f"
    "distinct (map (\<lambda>f. map lower (fe_path f)) (m_files m))"
    by (auto simp: decode_verified_Inr validate_iff)
  have "map (\<lambda>f. path_join dest (file_entry_path f)) (m_files m) =
      map (\<lambda>f. dest @ map Normal (fe_path f)) (m_files m)"
    using v(1) by (auto simp: join_entry_path)
  moreover have "inj_on (\<lambda>f. dest @ map Normal (fe_path f)) (set (m_files m))"
  proof (rule inj_onI, simp)
    fix f g assume fg: "f \<in> set (m_files m)" "g \<in> set (m_files m)" "fe_path f = fe_path g"
    have "inj_on (\<lambda>f. map lower (fe_path f)) (set (m_files m))" using v(2) by (simp add: distinct_map)
    from inj_onD [OF this _ fg(1,2)] fg(3) show "f = g" by simp
  qed
  moreover have "distinct (m_files m)" using v(2) by (simp add: distinct_map)
  ultimately have "distinct (map (\<lambda>f. path_join dest (file_entry_path f)) (m_files m))"
    by (simp only: distinct_map)
  moreover have "path_join dest (file_entry_path f) = dest @ map Normal (fe_path f) \<and>
       (\<exists>rest. fe_path f = m_name m # rest) \<and>
       (\<forall>n \<in> set (fe_path f). n \<notin> {[], ''.'', ''..''} \<and> set n \<inter> set forbidden_chars = {})"
    if "f \<in> set (m_files m)" for f
  proof -
    have ok: "entry_ok (m_name m) f" using v(1) that by blast
    then have "\<exists>rest. fe_path f = m_name m # rest"
      by (cases "fe_path f") (auto simp: entry_ok_def)
    moreover have "\<forall>n \<in> set (fe_path f). n \<notin> {[], ''.'', ''..''} \<and> set n \<inter> set forbidden_chars = {}"
      using ok name_ok_facts(1-4) unfolding entry_ok_def by blast
    ultimately show ?thesis using join_entry_path [OF ok] by blast
  qed
  moreover have "id_of h encoded = expected" using assms by (simp add: decode_verified_Inr)
  ultimately show ?thesis by blast
qed

definition tiny_manifest :: manifest where
  "tiny_manifest = \<lparr>m_name = ''a'', m_files =
     [\<lparr>fe_path = [''a'', ''b''], fe_size = 70000, fe_root = [1]\<rparr>, \<lparr>fe_path = [''a'', ''c''], fe_size = 0, fe_root = [2]\<rparr>]\<rparr>"

lemma name_ok_single [simp]: "name_problem ''a'' = None" "name_problem ''b'' = None" "name_problem ''c'' = None"
  by code_simp+

lemma tiny_manifest_accepted:
  "decode_verified plain_blake (const_codec tiny_manifest) (\<lambda>s. s) [1, 7] (ShareId [1, 7]) = Inr tiny_manifest"
  by (simp add: decode_verified_Inr validate_iff entry_ok_def tiny_manifest_def id_of_def plain_blake_def
      const_codec_def MANIFEST_VERSION_def)

theorem decode_verified_contained_witness:
  "id_of plain_blake [1, 7] = ShareId [1, 7] \<and>
   distinct (map (\<lambda>f. path_join [Normal ''d''] (file_entry_path f)) (m_files tiny_manifest))"
  using decode_verified_contained [OF tiny_manifest_accepted] by blast

subsection \<open>What a folder's manifest holds\<close>

text \<open>Specification: the node found by following names down a tree.\<close>

inductive node_at :: "fsnode \<Rightarrow> str list \<Rightarrow> fsnode \<Rightarrow> bool" where
  here: "node_at n [] n"
| below: "(s, c) \<in> set es \<Longrightarrow> node_at c ns n \<Longrightarrow> node_at (FsDir es) (s # ns) n"

inductive_simps node_at_simps:
  "node_at (FsFile b) ns n"
  "node_at FsOther ns n"
  "node_at (FsRefused e) ns n"
  "node_at (FsDir es) ns n"

lemma portable_name_Inr [simp]:
  "portable_name p os = Inr n \<longleftrightarrow> os = Some n \<and> to_str n = Some n \<and> name_problem n = None"
  by (auto simp: portable_name_def to_str_def split: option.splits if_splits)

lemma collect_exact:
  "collect path comps node = Inr found \<Longrightarrow>
     (c, p, content) \<in> set found \<longleftrightarrow>
       (\<exists>ns. c = comps @ ns \<and> p = path @ map Normal ns \<and> node_at node ns (FsFile content))"
  "collect_entries path comps es = Inr found \<Longrightarrow>
     (c, p, content) \<in> set found \<longleftrightarrow>
       (\<exists>s n ns. (s, n) \<in> set es \<and> c = comps @ s # ns \<and> p = path @ Normal s # map Normal ns \<and>
          node_at n ns (FsFile content))"
proof (induction path comps node and path comps es arbitrary: found and found rule: collect_collect_entries.induct)
  case (6 path comps os node rest)
  from "6.prems" obtain out more where
    n: "name_problem os = None" "to_str os = Some os" and
    out: "collect (path @ [Normal os]) (comps @ [os]) node = Inr out" and
    more: "collect_entries path comps rest = Inr more" and found: "found = out @ more"
    by (auto simp: bind_result_Inr Let_def)
  show ?case
    using "6.IH"(1) [OF refl] "6.IH"(2) [OF refl] n out more found
    by auto
qed (auto simp: node_at_simps)

lemma collect_names_ok:
  "collect path comps node = Inr found \<Longrightarrow> (c, p, content) \<in> set found \<Longrightarrow>
     \<exists>ns. c = comps @ ns \<and> (\<forall>n \<in> set ns. name_problem n = None)"
  "collect_entries path comps es = Inr found \<Longrightarrow> (c, p, content) \<in> set found \<Longrightarrow>
     \<exists>ns. c = comps @ ns \<and> (\<forall>n \<in> set ns. name_problem n = None)"
proof (induction path comps node and path comps es arbitrary: found and found rule: collect_collect_entries.induct)
  case (6 path comps os node rest)
  from "6.prems" obtain out more where
    n: "name_problem os = None" "to_str os = Some os" and
    out: "collect (path @ [Normal os]) (comps @ [os]) node = Inr out" and
    more: "collect_entries path comps rest = Inr more" and found: "found = out @ more"
    by (auto simp: bind_result_Inr Let_def)
  show ?case
    using "6.IH"(1) [OF refl] "6.IH"(2) [OF refl] n out more found "6.prems"(2)
    by fastforce
qed auto


lemma check_case_iff:
  "check_case lower seen found = Inr () \<longleftrightarrow>
     distinct (map (\<lambda>x. map lower (fst x)) found) \<and> (\<forall>x \<in> set found. map lower (fst x) \<notin> seen)"
proof (induction lower seen found rule: check_case.induct)
  case (2 lower seen components path content r)
  have step: "check_case lower seen ((components, path, content) # r) = Inr () \<longleftrightarrow>
      map lower components \<notin> seen \<and> check_case lower (insert (map lower components) seen) r = Inr ()"
    by simp
  show ?case
  proof (cases "map lower components \<in> seen")
    case False
    show ?thesis unfolding step "2.IH" [OF False] using False by (force simp: image_iff)
  qed simp
qed simp

lemma ingest_all_Inr:
  assumes "ingest_all ingest index found s = (Inr (files, hashed), s')"
  shows "map fe_path files = map fst found \<and> map fe_root files = map (ob_root \<circ> snd) hashed \<and>
    map fe_size files = map (ob_size \<circ> snd) hashed \<and>
    list_all2 (\<lambda>h x. \<exists>i t t'. ingest i (fst (snd x)) (word_of_nat (length (snd (snd x)))) t = (Inr h, t')) hashed found"
  using assms
proof (induction ingest index found s arbitrary: files hashed s' rule: ingest_all.induct)
  case (2 ingest index components path content r s)
  from "2.prems" obtain data outboard s1 files' hashed' where
    a: "ingest index path (word_of_nat (length content)) s = (Inr (data, outboard), s1)"
    and b: "ingest_all ingest (index + 1) r s1 = (Inr (files', hashed'), s')"
    and c: "files = \<lparr>fe_path = components, fe_size = ob_size outboard, fe_root = ob_root outboard\<rparr> # files'"
      "hashed = (data, outboard) # hashed'"
    by (auto split: prod.splits sum.splits)
  from "2.IH" [OF a [symmetric] refl refl b] a c show ?case by auto
qed auto

lemma share_name_ok: "share_name root label = Inr n \<Longrightarrow> name_problem n = None"
  by (auto simp: share_name_def split: option.splits)

lemma manifest_from_disk_Inr:
  assumes "manifest_from_disk lower root node label ingest s = (Inr (m, hashed), s')"
  obtains found where "collect root [m_name m] node = Inr found" "check_case lower {} found = Inr ()"
    "ingest_all ingest 0 found s = (Inr (m_files m, hashed), s')" "name_problem (m_name m) = None"
  using assms share_name_ok [of root label]
  by (auto simp: manifest_from_disk_def bind_result_Inr split: prod.splits sum.splits)

lemma from_disk_validates:
  assumes "manifest_from_disk lower root node label ingest s = (Inr (m, hashed), s')"
  shows "validate lower m = Inr ()"
proof -
  from assms obtain found where f: "collect root [m_name m] node = Inr found" "check_case lower {} found = Inr ()"
    "ingest_all ingest 0 found s = (Inr (m_files m, hashed), s')" "name_problem (m_name m) = None"
    by (rule manifest_from_disk_Inr)
  note paths = ingest_all_Inr [OF f(3), THEN conjunct1]
  have "entry_ok (m_name m) e" if "e \<in> set (m_files m)" for e
  proof -
    from that have "fe_path e \<in> set (map fst found)" unfolding paths [symmetric] by simp
    then obtain p content where "(fe_path e, p, content) \<in> set found" by auto
    from collect_names_ok(1) [OF f(1) this] f(4) show ?thesis by (auto simp: entry_ok_def)
  qed
  moreover have "map (\<lambda>e. map lower (fe_path e)) (m_files m) = map (\<lambda>x. map lower (fst x)) found"
    using arg_cong [OF paths, of "map (map lower)"] by (simp add: comp_def)
  ultimately show ?thesis using f(2) by (simp add: validate_iff check_case_iff)
qed

text \<open>Whatever file or folder a share is built from, the manifest the
  seeder encodes is one that a downloader holding the resulting share id
  accepts, and decodes to the same manifest.\<close>

theorem seeder_manifest_accepted:
  assumes "manifest_from_disk lower root node label ingest s = (Inr (m, hashed), s')" and "round_trips pc m"
  shows "\<exists>encoded. manifest_encode pc m = Some encoded \<and>
    decode_verified h pc lower encoded (id_of h encoded) = Inr m"
  using assms(2) from_disk_validates [OF assms(1)]
  by (auto simp: round_trips_def manifest_encode_def decode_verified_Inr)

definition tiny_folder :: fsnode where
  "tiny_folder = FsDir [(''c'', FsFile []), (''l'', FsOther), (''b'', FsFile [9])]"

definition tiny_ingest :: "(unit, unit) ingest" where
  "tiny_ingest i p n s = (Inr ((), \<lparr>ob_root = [word_of_nat i], ob_size = n, ob_data = []\<rparr>), s)"

definition tiny_built :: "manifest \<times> (unit \<times> outboard) list" where
  "tiny_built = (\<lparr>m_name = ''a'', m_files = [\<lparr>fe_path = [''a'', ''b''], fe_size = 1, fe_root = [0]\<rparr>,
      \<lparr>fe_path = [''a'', ''c''], fe_size = 0, fe_root = [1]\<rparr>]\<rparr>,
     [((), \<lparr>ob_root = [0], ob_size = 1, ob_data = []\<rparr>), ((), \<lparr>ob_root = [1], ob_size = 0, ob_data = []\<rparr>)])"

lemma tiny_from_disk:
  "manifest_from_disk (\<lambda>s. s) [Normal ''a''] tiny_folder None tiny_ingest () = (Inr tiny_built, ())"
  by code_simp

theorem seeder_manifest_accepted_witness:
  "\<exists>encoded. manifest_encode (const_codec (fst tiny_built)) (fst tiny_built) = Some encoded \<and>
    decode_verified plain_blake (const_codec (fst tiny_built)) (\<lambda>s. s) encoded (id_of plain_blake encoded)
      = Inr (fst tiny_built)"
  using seeder_manifest_accepted [OF _ const_codec_round_trips, of "\<lambda>s. s" "[Normal ''a'']" tiny_folder None
      tiny_ingest "()" "fst tiny_built" "snd tiny_built" "()" plain_blake] tiny_from_disk by simp

text \<open>C38: a manifest built from disk lists exactly the regular files
  reachable from the shared path through folders, each under the share's name
  followed by the names on the way; symbolic links and special files are
  never followed or listed, and each entry carries the root hash and size that
  hashing its file gave.\<close>

theorem from_disk_exact:
  assumes "manifest_from_disk lower root node label ingest s = (Inr (m, hashed), s')"
  shows "(\<forall>c. (\<exists>e \<in> set (m_files m). fe_path e = c) \<longleftrightarrow>
      (\<exists>ns content. c = m_name m # ns \<and> node_at node ns (FsFile content))) \<and>
    (\<forall>i < length (m_files m). \<exists>ns content j. fe_path (m_files m ! i) = m_name m # ns \<and>
      node_at node ns (FsFile content) \<and>
      (\<exists>t t'. ingest j (root @ map Normal ns) (word_of_nat (length content)) t = (Inr (hashed ! i), t')) \<and>
      fe_root (m_files m ! i) = ob_root (snd (hashed ! i)) \<and> fe_size (m_files m ! i) = ob_size (snd (hashed ! i)))"
proof (rule conjI)
  from assms obtain found where f: "collect root [m_name m] node = Inr found"
    "ingest_all ingest 0 found s = (Inr (m_files m, hashed), s')"
    by (rule manifest_from_disk_Inr)
  note all = ingest_all_Inr [OF f(2)]
  note paths = all [THEN conjunct1] all [THEN conjunct2, THEN conjunct1]
    all [THEN conjunct2, THEN conjunct2, THEN conjunct1] all [THEN conjunct2, THEN conjunct2, THEN conjunct2]
  have "(\<exists>e \<in> set (m_files m). fe_path e = c) \<longleftrightarrow> c \<in> set (map fst found)" for c
    unfolding paths(1) [symmetric] by auto
  moreover have "c \<in> set (map fst found) \<longleftrightarrow> (\<exists>p content. (c, p, content) \<in> set found)" for c by force
  ultimately show "\<forall>c. (\<exists>e \<in> set (m_files m). fe_path e = c) \<longleftrightarrow>
      (\<exists>ns content. c = m_name m # ns \<and> node_at node ns (FsFile content))"
    unfolding collect_exact(1) [OF f(1)] by auto
  show "\<forall>i < length (m_files m). \<exists>ns content j. fe_path (m_files m ! i) = m_name m # ns \<and>
      node_at node ns (FsFile content) \<and>
      (\<exists>t t'. ingest j (root @ map Normal ns) (word_of_nat (length content)) t = (Inr (hashed ! i), t')) \<and>
      fe_root (m_files m ! i) = ob_root (snd (hashed ! i)) \<and> fe_size (m_files m ! i) = ob_size (snd (hashed ! i))"
  proof (intro allI impI)
    fix i assume i: "i < length (m_files m)"
    have len: "length found = length (m_files m)" "length hashed = length (m_files m)"
      using arg_cong [OF paths(1), of length] arg_cong [OF paths(2), of length] by simp_all
    obtain c p content where x: "found ! i = (c, p, content)" by (cases "found ! i")
    with i len have "(c, p, content) \<in> set found" by (metis nth_mem)
    then obtain ns where ns: "c = m_name m # ns" "p = root @ map Normal ns" "node_at node ns (FsFile content)"
      unfolding collect_exact(1) [OF f(1)] by auto
    moreover have "fe_path (m_files m ! i) = c"
      using arg_cong [OF paths(1), of "\<lambda>l. l ! i"] i len x by simp
    moreover obtain j where "\<exists>t t'. ingest j p (word_of_nat (length content)) t = (Inr (hashed ! i), t')"
      using list_all2_nthD [OF paths(4), of i] i len x by auto
    moreover have "fe_root (m_files m ! i) = ob_root (snd (hashed ! i))" "fe_size (m_files m ! i) = ob_size (snd (hashed ! i))"
      using arg_cong [OF paths(2), of "\<lambda>l. l ! i"] arg_cong [OF paths(3), of "\<lambda>l. l ! i"] i len by simp_all
    ultimately show "\<exists>ns content j. fe_path (m_files m ! i) = m_name m # ns \<and>
      node_at node ns (FsFile content) \<and>
      (\<exists>t t'. ingest j (root @ map Normal ns) (word_of_nat (length content)) t = (Inr (hashed ! i), t')) \<and>
      fe_root (m_files m ! i) = ob_root (snd (hashed ! i)) \<and> fe_size (m_files m ! i) = ob_size (snd (hashed ! i))"
      by blast
  qed
qed

theorem from_disk_exact_witness:
  "\<forall>c. (\<exists>e \<in> set (m_files (fst tiny_built)). fe_path e = c) \<longleftrightarrow>
      (\<exists>ns content. c = ''a'' # ns \<and> node_at tiny_folder ns (FsFile content))"
  using from_disk_exact [of "\<lambda>s. s" "[Normal ''a'']" tiny_folder None
      tiny_ingest "()" "fst tiny_built" "snd tiny_built" "()"] tiny_from_disk by (simp add: tiny_built_def)

lemma total_size_wraps:
  "unat (total_size m) = (\<Sum>f \<leftarrow> m_files m. unat (fe_size f)) mod 2 ^ 64"
proof -
  have "unat (foldl (+) a ws) = (unat a + sum_list (map unat ws)) mod 2 ^ 64" for a :: u64 and ws
  proof (induction ws arbitrary: a)
    case Nil
    have "unat a < 2 ^ 64" using unsigned_less [of a] by simp
    then show ?case by simp
  next
    case (Cons w ws)
    show ?case by (simp add: Cons.IH unat_word_ariths mod_simps add.assoc)
  qed
  from this [of 0 "map fe_size (m_files m)"] show ?thesis by (simp add: total_size_def comp_def)
qed


subsection \<open>The listing order of folders does not matter\<close>

text \<open>Two trees that differ only in the order in which folders list their entries.\<close>

inductive same_tree :: "fsnode \<Rightarrow> fsnode \<Rightarrow> bool" where
  "same_tree (FsFile b) (FsFile b)"
| "same_tree FsOther FsOther"
| "same_tree (FsRefused e) (FsRefused e)"
| "list_all2 (\<lambda>a b. fst a = fst b \<and> same_tree (snd a) (snd b)) es es' \<Longrightarrow> mset es' = mset es'' \<Longrightarrow>
     distinct (map fst es'') \<Longrightarrow> same_tree (FsDir es) (FsDir es'')"
monos list_all2_mono

lemma sort_key_perm:
  assumes "mset xs = mset ys" "distinct (map fst ys)"
  shows "sort_key fst xs = sort_key fst (ys :: ('a :: linorder \<times> 'b) list)"
proof (rule sort_key_inj_key_eq)
  show "mset xs = mset (sort_key fst ys)" using assms(1) by simp
  show "inj_on fst (set xs)"
    using assms by (metis distinct_map mset_eq_setD)
qed simp

lemma list_all2_insort:
  assumes "list_all2 R xs ys" "R x y" "\<And>x y. R x y \<Longrightarrow> f x = g y"
  shows "list_all2 R (insort_key f x xs) (insort_key g y ys)"
  using assms(1,2) assms(3) [OF assms(2)] by (induction rule: list_all2_induct) (auto dest: assms(3))

lemma list_all2_sort:
  assumes "list_all2 R xs ys" "\<And>x y. R x y \<Longrightarrow> f x = g y"
  shows "list_all2 R (sort_key f xs) (sort_key g ys)"
  using assms(1) by (induction rule: list_all2_induct) (auto intro: list_all2_insort assms(2))

lemma collect_entries_same:
  assumes "list_all2 (\<lambda>(s, n) (s', n'). s = s' \<and> (\<forall>path comps. collect path comps n = collect path comps n')) es es'"
  shows "collect_entries path comps es = collect_entries path comps es'"
  using assms by (induction rule: list_all2_induct) auto

lemma collect_same:
  "same_tree n n' \<Longrightarrow> collect path comps n = collect path comps n'"
proof (induction arbitrary: path comps rule: same_tree.induct)
  case (4 es es' es'')
  let ?R = "\<lambda>(s, n) (s', n'). s = s' \<and> (\<forall>path comps. collect path comps n = collect path comps n')"
  have "list_all2 ?R es es'" using 4(1) by (rule list_all2_mono) auto
  then have "list_all2 ?R (sort_key fst es) (sort_key fst es')" by (rule list_all2_sort) auto
  then have "collect_entries path comps (sort_key fst es) = collect_entries path comps (sort_key fst es')"
    by (rule collect_entries_same)
  then show ?case using sort_key_perm [OF 4(2,3)] by simp
qed simp_all

text \<open>C39: the manifest, and so the share code, of a folder depends only on its
  contents: listing the same files in another order gives the same result.\<close>

theorem from_disk_deterministic:
  assumes "same_tree node node'"
  shows "manifest_from_disk lower root node label ingest s = manifest_from_disk lower root node' label ingest s"
  unfolding manifest_from_disk_def collect_same [OF assms] ..

theorem from_disk_deterministic_witness:
  "manifest_from_disk (\<lambda>s. s) [Normal ''a''] (FsDir [(''b'', FsFile [9]), (''c'', FsFile [])]) None tiny_ingest () =
   manifest_from_disk (\<lambda>s. s) [Normal ''a''] (FsDir [(''c'', FsFile []), (''b'', FsFile [9])]) None tiny_ingest ()"
  by (rule from_disk_deterministic, rule same_tree.intros(4) [of _ "[(''b'', FsFile [9]), (''c'', FsFile [])]"])
     (auto intro: same_tree.intros)

end
