(* ===== verification/Layout.thy ===== *)
theory Layout
  imports Manifest_Safety
begin

text \<open>
  The piece layout of \<open>manifest.rs\<close>: pieces are numbered across all files in
  manifest order; a piece number maps to a byte range of one file. Counts of
  pieces are \<open>usize\<close> sums and byte positions \<open>u64\<close> products and sums; both
  wrap in a release build, which is written out.
\<close>

record layout =
  first_piece :: "nat list"
  ly_sizes :: "u64 list"
  total_pieces :: nat

record piece_location =
  loc_file :: nat
  loc_start :: u64
  loc_end :: u64

fun layout_loop :: "nat \<Rightarrow> file_entry list \<Rightarrow> nat list \<times> nat" where
  "layout_loop acc [] = ([], acc)"
| "layout_loop acc (f # fs) =
     (let (firsts, end_total) = layout_loop ((acc + file_pieces f) mod 2 ^ 64) fs in
      (acc # firsts, end_total))"

definition layout_new :: "manifest \<Rightarrow> layout" where
  "layout_new m = (let (firsts, count) = layout_loop 0 (m_files m) in
     \<lparr>first_piece = firsts, ly_sizes = map fe_size (m_files m), total_pieces = count\<rparr>)"

text \<open>
  \<open>partition_point\<close> on the (ascending) first pieces is the number of leading
  ones at most \<open>piece\<close>. With no file at or before the piece the subtraction
  underflows and the lookups that follow are out of range: a panic.
\<close>

definition locate :: "layout \<Rightarrow> nat \<Rightarrow> piece_location option" where
  "locate l piece =
     (let k = length (takeWhile (\<lambda>first. first \<le> piece) (first_piece l)) in
      if k = 0 \<or> length (ly_sizes l) < k then None
      else
        (let candidate = k - 1;
             file = (case find (\<lambda>f. ly_sizes l ! f > 0) (rev [0..<Suc candidate]) of
                       Some f \<Rightarrow> f | None \<Rightarrow> candidate);
             block = word_of_nat BLOCK_SIZE;
             start = word_of_nat (piece - first_piece l ! file) * block in
         Some \<lparr>loc_file = file, loc_start = start, loc_end = min (start + block) (ly_sizes l ! file)\<rparr>))"

definition pieces_of :: "layout \<Rightarrow> nat \<Rightarrow> (nat \<times> nat) option" where
  "pieces_of l file = do {
     first \<leftarrow> idx (first_piece l) file;
     size \<leftarrow> idx (ly_sizes l) file;
     Some (first, (first + div_ceil (unat size) BLOCK_SIZE) mod 2 ^ 64) }"

subsection \<open>Well-formed manifests\<close>

text \<open>
  A manifest whose piece count fits in a \<open>usize\<close> and whose files are at least
  a block smaller than \<open>2^64\<close>: 2 to the 64 bytes is beyond any file system.
\<close>

definition sum_pieces :: "file_entry list \<Rightarrow> nat" where
  "sum_pieces fs = sum_list (map file_pieces fs)"

definition fits :: "manifest \<Rightarrow> bool" where
  "fits m \<longleftrightarrow> sum_pieces (m_files m) < 2 ^ 64 \<and>
     (\<forall>f \<in> set (m_files m). unat (fe_size f) + BLOCK_SIZE < 2 ^ 64)"

lemma sum_pieces_simps [simp]:
  "sum_pieces [] = 0" "sum_pieces (f # fs) = file_pieces f + sum_pieces fs"
  "sum_pieces (fs @ gs) = sum_pieces fs + sum_pieces gs"
  by (simp_all add: sum_pieces_def)

lemma layout_loop_sums:
  "acc + sum_pieces fs < 2 ^ 64 \<Longrightarrow>
     snd (layout_loop acc fs) = acc + sum_pieces fs \<and>
     length (fst (layout_loop acc fs)) = length fs \<and>
     (\<forall>i < length fs. fst (layout_loop acc fs) ! i = acc + sum_pieces (take i fs))"
proof (induction fs arbitrary: acc)
  case (Cons f fs)
  obtain firsts e where r: "layout_loop (acc + file_pieces f) fs = (firsts, e)" by fastforce
  have m: "(acc + file_pieces f) mod 2 ^ 64 = acc + file_pieces f"
    by (rule mod_less) (use Cons.prems in simp)
  from Cons.IH [of "acc + file_pieces f"] Cons.prems r
  have IH: "e = acc + file_pieces f + sum_pieces fs" "length firsts = length fs"
    "\<forall>i < length fs. firsts ! i = acc + file_pieces f + sum_pieces (take i fs)"
    by simp_all
  have "(acc # firsts) ! i = acc + sum_pieces (take i (f # fs))" if "i < length (f # fs)" for i
    using that IH(3) by (cases i) auto
  with IH(1,2) show ?case unfolding layout_loop.simps m r by simp
qed simp

lemma layout_new_sums:
  assumes "fits m"
  shows "total_pieces (layout_new m) = sum_pieces (m_files m)"
    and "length (first_piece (layout_new m)) = length (m_files m)"
    and "i < length (m_files m) \<Longrightarrow> first_piece (layout_new m) ! i = sum_pieces (take i (m_files m))"
  using layout_loop_sums [of 0 "m_files m"] assms
  by (auto simp: layout_new_def fits_def split: prod.splits)

lemma layout_new_sizes [simp]: "ly_sizes (layout_new m) = map fe_size (m_files m)"
  by (simp add: layout_new_def split: prod.splits)

lemma BLOCK_SIZE_pos [simp]: "0 < BLOCK_SIZE"
  by (simp add: BLOCK_SIZE_def)

lemma file_pieces_0 [simp]: "file_pieces f = 0 \<longleftrightarrow> fe_size f = 0"
  using div_ceil_pos [of BLOCK_SIZE "unat (fe_size f)"]
  by (cases "fe_size f = 0") (auto simp: file_pieces_def unat_gt_0)

lemma sum_pieces_take_mono: "i \<le> j \<Longrightarrow> sum_pieces (take i fs) \<le> sum_pieces (take j fs)"
  by (metis le_add1 le_add_diff_inverse sum_pieces_simps(3) take_add)

lemma sum_pieces_take_Suc:
  "i < length fs \<Longrightarrow> sum_pieces (take (Suc i) fs) = sum_pieces (take i fs) + file_pieces (fs ! i)"
  by (simp add: take_Suc_conv_app_nth)

text \<open>Every piece number below the total lies in exactly one file's range.\<close>

lemma piece_in_file:
  "p < sum_pieces fs \<Longrightarrow>
     \<exists>f < length fs. sum_pieces (take f fs) \<le> p \<and> p < sum_pieces (take f fs) + file_pieces (fs ! f)"
proof (induction fs rule: rev_induct)
  case (snoc x fs)
  show ?case
  proof (cases "p < sum_pieces fs")
    case True
    with snoc.IH obtain f where "f < length fs" "sum_pieces (take f fs) \<le> p"
      "p < sum_pieces (take f fs) + file_pieces (fs ! f)" by blast
    then show ?thesis by (intro exI [of _ f]) (simp add: nth_append)
  next
    case False
    with snoc.prems show ?thesis by (intro exI [of _ "length fs"]) simp
  qed
qed simp

lemma piece_in_file_unique:
  assumes "f < length fs" "sum_pieces (take f fs) \<le> p" "p < sum_pieces (take f fs) + file_pieces (fs ! f)"
    and "g < length fs" "sum_pieces (take g fs) \<le> p" "p < sum_pieces (take g fs) + file_pieces (fs ! g)"
  shows "f = g"
proof (rule ccontr)
  assume "f \<noteq> g"
  then consider "Suc f \<le> g" | "Suc g \<le> f" by linarith
  then show False
    using assms sum_pieces_take_mono [of "Suc f" g fs] sum_pieces_take_mono [of "Suc g" f fs]
    by cases (auto simp: sum_pieces_take_Suc)
qed

subsection \<open>Locating a piece\<close>

lemma takeWhile_length_iff:
  assumes "sorted xs"
  shows "i < length (takeWhile (\<lambda>x. x \<le> p) xs) \<longleftrightarrow> i < length xs \<and> xs ! i \<le> (p :: nat)"
  using assms
proof (induction xs arbitrary: i)
  case (Cons x xs)
  show ?case
  proof (cases i)
    case 0
    then show ?thesis by simp
  next
    case (Suc j)
    show ?thesis
    proof (cases "x \<le> p")
      case True
      then show ?thesis using Cons Suc by simp
    next
      case False
      have "x \<le> (x # xs) ! i" if "i < length (x # xs)"
        using Cons.prems sorted_nth_mono [of "x # xs" 0 i] that by simp
      with False show ?thesis by auto
    qed
  qed
qed simp

lemma first_piece_sorted:
  assumes "fits m" shows "sorted (first_piece (layout_new m))"
  using layout_new_sums [OF assms] by (auto simp: sorted_iff_nth_mono sum_pieces_take_mono)

lemma find_rev_upt:
  assumes "f \<le> k" "P f" "\<And>g. f < g \<Longrightarrow> g \<le> k \<Longrightarrow> \<not> P g"
  shows "find P (rev [0..<Suc k]) = Some f"
  using assms
proof (induction k)
  case (Suc k)
  show ?case
  proof (cases "f = Suc k")
    case False
    with Suc.prems have "\<not> P (Suc k)" "f \<le> k" by auto
    with Suc show ?thesis by simp
  qed (use Suc.prems in simp)
qed simp

text \<open>Where the pieces of a file are: \<open>q\<close> is the number of the piece within its file.\<close>

lemma locate_file_piece:
  assumes "fits m" "f < length (m_files m)" "q < file_pieces (m_files m ! f)"
  shows "locate (layout_new m) (sum_pieces (take f (m_files m)) + q) =
    Some \<lparr>loc_file = f, loc_start = word_of_nat (q * BLOCK_SIZE),
      loc_end = word_of_nat (min (q * BLOCK_SIZE + BLOCK_SIZE) (unat (fe_size (m_files m ! f))))\<rparr>"
proof -
  let ?fs = "m_files m" and ?l = "layout_new m" and ?p = "sum_pieces (take f (m_files m)) + q"
  let ?P = "\<lambda>first. first \<le> ?p"
  define k where "k = length (takeWhile ?P (first_piece ?l))"
  note sums = layout_new_sums [OF assms(1)]
  have tw: "i < k \<longleftrightarrow> i < length ?fs \<and> sum_pieces (take i ?fs) \<le> ?p" for i
    unfolding k_def takeWhile_length_iff [OF first_piece_sorted [OF assms(1)]]
    using sums by auto
  have fk: "f < k" unfolding tw using assms(2) by simp
  have kl: "k \<le> length ?fs"
    unfolding k_def using length_takeWhile_le [of ?P "first_piece ?l"] sums(2) by simp
  have empty: "fe_size (?fs ! g) = 0" if "f < g" "g \<le> k - 1" for g
  proof -
    have g: "g < length ?fs" "sum_pieces (take g ?fs) \<le> ?p" using tw [of g] that fk by auto
    have ge: "sum_pieces (take (Suc f) ?fs) \<le> sum_pieces (take g ?fs)"
      using that by (intro sum_pieces_take_mono) simp
    then have "?p < sum_pieces (take g ?fs)"
      using assms(3) sum_pieces_take_Suc [OF assms(2)] by simp
    with g(2) show ?thesis by simp
  qed
  have find: "find (\<lambda>g. ly_sizes ?l ! g > 0) (rev [0..<Suc (k - 1)]) = Some f"
  proof (rule find_rev_upt)
    show "ly_sizes ?l ! f > 0" using assms(2,3) by (auto simp: word_gt_0 file_pieces_def)
    show "\<not> ly_sizes ?l ! g > 0" if "f < g" "g \<le> k - 1" for g
      using empty [OF that] that kl fk by (simp add: word_gt_0)
  qed (use fk in simp)
  have fits_f: "unat (fe_size (?fs ! f)) + BLOCK_SIZE < 2 ^ 64"
    using assms(1,2) by (auto simp: fits_def)
  have q: "q * BLOCK_SIZE < unat (fe_size (?fs ! f))"
    using assms(3) by (simp add: file_pieces_def less_div_ceil_iff)
  have start: "word_of_nat q * word_of_nat BLOCK_SIZE = (word_of_nat (q * BLOCK_SIZE) :: u64)" by simp
  have stop: "min (word_of_nat (q * BLOCK_SIZE) + word_of_nat BLOCK_SIZE) (fe_size (?fs ! f)) =
      (word_of_nat (min (q * BLOCK_SIZE + BLOCK_SIZE) (unat (fe_size (?fs ! f)))) :: u64)" (is "min ?a ?s = _")
  proof -
    have "unat ?a = q * BLOCK_SIZE + BLOCK_SIZE"
      unfolding of_nat_add [symmetric] using q fits_f by (simp only: unat_of_nat) simp
    then have "unat (min ?a ?s) = min (q * BLOCK_SIZE + BLOCK_SIZE) (unat ?s)"
      by (auto simp: min_def word_le_nat_alt)
    from arg_cong [OF this, of "word_of_nat :: nat \<Rightarrow> u64"] show ?thesis by simp
  qed
  have piece: "?p - first_piece ?l ! f = q" using sums(3) [OF assms(2)] by simp
  have guard: "\<not> (k = 0 \<or> length (ly_sizes ?l) < k)" using fk kl by simp
  show ?thesis
    unfolding locate_def Let_def k_def [symmetric] if_not_P [OF guard] find option.case piece start
    using stop assms(2) by simp
qed


lemma locate_piece:
  assumes "fits m" "p < total_pieces (layout_new m)"
  obtains f q where "f < length (m_files m)" "q < file_pieces (m_files m ! f)"
    "p = sum_pieces (take f (m_files m)) + q"
    "locate (layout_new m) p = Some \<lparr>loc_file = f, loc_start = word_of_nat (q * BLOCK_SIZE),
      loc_end = word_of_nat (min (q * BLOCK_SIZE + BLOCK_SIZE) (unat (fe_size (m_files m ! f))))\<rparr>"
proof -
  from assms obtain f where f: "f < length (m_files m)" "sum_pieces (take f (m_files m)) \<le> p"
    "p < sum_pieces (take f (m_files m)) + file_pieces (m_files m ! f)"
    using piece_in_file [of p "m_files m"] layout_new_sums(1) [OF assms(1)] by auto
  let ?q = "p - sum_pieces (take f (m_files m))"
  have q: "?q < file_pieces (m_files m ! f)" "p = sum_pieces (take f (m_files m)) + ?q" using f by simp_all
  from locate_file_piece [OF assms(1) f(1) q(1)] q(2) f(1) q(1) show thesis by (intro that) auto
qed

lemma piece_bytes:
  assumes "fits m" "f < length (m_files m)" "q < file_pieces (m_files m ! f)"
  shows "unat (word_of_nat (q * BLOCK_SIZE) :: u64) = q * BLOCK_SIZE"
    and "unat (word_of_nat (min (q * BLOCK_SIZE + BLOCK_SIZE) (unat (fe_size (m_files m ! f)))) :: u64)
       = min (q * BLOCK_SIZE + BLOCK_SIZE) (unat (fe_size (m_files m ! f)))"
    and "q * BLOCK_SIZE < unat (fe_size (m_files m ! f))"
proof -
  show q: "q * BLOCK_SIZE < unat (fe_size (m_files m ! f))"
    using assms(3) by (simp add: file_pieces_def less_div_ceil_iff)
  have s: "unat (fe_size (m_files m ! f)) + BLOCK_SIZE < 2 ^ 64" using assms(1,2) by (auto simp: fits_def)
  then have "q * BLOCK_SIZE < 2 ^ 64" "min (q * BLOCK_SIZE + BLOCK_SIZE) (unat (fe_size (m_files m ! f))) < 2 ^ 64"
    using q by linarith+
  then show "unat (word_of_nat (q * BLOCK_SIZE) :: u64) = q * BLOCK_SIZE"
    "unat (word_of_nat (min (q * BLOCK_SIZE + BLOCK_SIZE) (unat (fe_size (m_files m ! f)))) :: u64)
       = min (q * BLOCK_SIZE + BLOCK_SIZE) (unat (fe_size (m_files m ! f)))"
    by (simp_all only: unat_of_nat) simp_all
qed

lemma pieces_of_file:
  assumes "fits m" "f < length (m_files m)"
  shows "pieces_of (layout_new m) f =
    Some (sum_pieces (take f (m_files m)), sum_pieces (take (Suc f) (m_files m)))"
proof -
  have "sum_pieces (take (Suc f) (m_files m)) \<le> sum_pieces (m_files m)"
    using sum_pieces_take_mono [of "Suc f" "length (m_files m)" "m_files m"] assms(2) by simp
  then have "sum_pieces (take f (m_files m)) + file_pieces (m_files m ! f) < 2 ^ 64"
    using assms by (simp add: sum_pieces_take_Suc fits_def)
  then have "(sum_pieces (take f (m_files m)) + file_pieces (m_files m ! f)) mod 2 ^ 64 =
      sum_pieces (take f (m_files m)) + file_pieces (m_files m ! f)" by (rule mod_less)
  then show ?thesis
    using layout_new_sums [OF assms(1)] assms(2)
    by (simp add: pieces_of_def idx_Some sum_pieces_take_Suc [OF assms(2)] file_pieces_def)
qed

text \<open>Every piece number of a share is located, without a panic or a
  wrap-around, at a non-empty range of at most one block inside one file; the
  range starts at a block boundary, is a whole block except at the end of the
  file, and the piece is one of \<open>pieces_of\<close> that file.\<close>

theorem locate_range:
  assumes "fits m" and "p < total_pieces (layout_new m)"
  shows "\<exists>loc a b. locate (layout_new m) p = Some loc \<and> loc_file loc < length (m_files m) \<and>
    loc_start loc < loc_end loc \<and> loc_end loc \<le> fe_size (m_files m ! loc_file loc) \<and>
    unat (loc_start loc) mod BLOCK_SIZE = 0 \<and>
    (unat (loc_end loc) = unat (loc_start loc) + BLOCK_SIZE \<or>
     unat (loc_end loc) < unat (loc_start loc) + BLOCK_SIZE \<and> loc_end loc = fe_size (m_files m ! loc_file loc)) \<and>
    pieces_of (layout_new m) (loc_file loc) = Some (a, b) \<and> a \<le> p \<and> p < b"
proof -
  from locate_piece [OF assms] obtain f q where
    f: "f < length (m_files m)" and q: "q < file_pieces (m_files m ! f)" and
    p: "p = sum_pieces (take f (m_files m)) + q" and
    loc: "locate (layout_new m) p = Some \<lparr>loc_file = f, loc_start = word_of_nat (q * BLOCK_SIZE),
      loc_end = word_of_nat (min (q * BLOCK_SIZE + BLOCK_SIZE) (unat (fe_size (m_files m ! f))))\<rparr>" .
  note bytes = piece_bytes [OF assms(1) f q]
  let ?loc = "\<lparr>loc_file = f, loc_start = word_of_nat (q * BLOCK_SIZE),
      loc_end = word_of_nat (min (q * BLOCK_SIZE + BLOCK_SIZE) (unat (fe_size (m_files m ! f))))\<rparr> :: piece_location"
  have "loc_start ?loc < loc_end ?loc" "loc_end ?loc \<le> fe_size (m_files m ! f)"
    "unat (loc_start ?loc) mod BLOCK_SIZE = 0"
    using bytes by (simp_all add: word_less_nat_alt word_le_nat_alt del: of_nat_mult of_nat_add)
  moreover have "unat (loc_end ?loc) = unat (loc_start ?loc) + BLOCK_SIZE \<or>
     unat (loc_end ?loc) < unat (loc_start ?loc) + BLOCK_SIZE \<and> loc_end ?loc = fe_size (m_files m ! f)"
    using bytes by (auto simp: min_def simp del: of_nat_mult of_nat_add)
  moreover have "p < sum_pieces (take (Suc f) (m_files m))"
    using q f by (simp add: p sum_pieces_take_Suc)
  ultimately show ?thesis
    using loc f pieces_of_file [OF assms(1) f]
    by (intro exI [of _ ?loc] exI [of _ "sum_pieces (take f (m_files m))"]
        exI [of _ "sum_pieces (take (Suc f) (m_files m))"]) (simp add: p)
qed

definition two_files :: manifest where
  "two_files = \<lparr>m_name = ''d'', m_files =
     [\<lparr>fe_path = [''d'', ''b''], fe_size = 70000, fe_root = [1]\<rparr>,
      \<lparr>fe_path = [''d'', ''c''], fe_size = 0, fe_root = [2]\<rparr>,
      \<lparr>fe_path = [''d'', ''e''], fe_size = 5, fe_root = [3]\<rparr>]\<rparr>"

lemma two_files_fits: "fits two_files" "total_pieces (layout_new two_files) = 3"
  by (simp_all add: layout_new_def fits_def two_files_def sum_pieces_def file_pieces_def div_ceil_def
      BLOCK_SIZE_def)

theorem locate_range_witness: "\<exists>loc. locate (layout_new two_files) 2 = Some loc \<and> loc_start loc < loc_end loc"
  using locate_range [OF two_files_fits(1), of 2] two_files_fits(2) by auto

text \<open>C34: every byte of every file of a share belongs to exactly one piece, so
  fetching all pieces fetches the share, and no byte is written twice.\<close>

theorem pieces_tile_files:
  assumes "fits m" and "f < length (m_files m)" and "b < unat (fe_size (m_files m ! f))"
  shows "\<exists>!p. p < total_pieces (layout_new m) \<and> (\<exists>loc. locate (layout_new m) p = Some loc \<and>
    loc_file loc = f \<and> unat (loc_start loc) \<le> b \<and> b < unat (loc_end loc))" (is "\<exists>!p. ?covers p")
proof (rule ex1I)
  let ?q = "b div BLOCK_SIZE"
  have "?q * BLOCK_SIZE < unat (fe_size (m_files m ! f))"
    using assms(3) div_times_less_eq_dividend [of b BLOCK_SIZE] by linarith
  then have q: "?q < file_pieces (m_files m ! f)" by (simp add: file_pieces_def less_div_ceil_iff)
  have "sum_pieces (take (Suc f) (m_files m)) \<le> sum_pieces (m_files m)"
    using sum_pieces_take_mono [of "Suc f" "length (m_files m)" "m_files m"] assms(2) by simp
  moreover have "b < ?q * BLOCK_SIZE + BLOCK_SIZE"
    using div_mult_mod_eq [of b BLOCK_SIZE] mod_less_divisor [OF BLOCK_SIZE_pos, of b] by linarith
  ultimately show "?covers (sum_pieces (take f (m_files m)) + ?q)"
    using q assms(2,3) piece_bytes(1,2) [OF assms(1,2) q]
    by (auto simp: locate_file_piece [OF assms(1,2) q] layout_new_sums(1) [OF assms(1)]
        sum_pieces_take_Suc simp del: of_nat_mult of_nat_add)
next
  fix p assume "?covers p"
  then have p: "p < total_pieces (layout_new m)"
    and c: "\<exists>loc. locate (layout_new m) p = Some loc \<and> loc_file loc = f \<and> unat (loc_start loc) \<le> b \<and> b < unat (loc_end loc)"
    by blast+
  from locate_piece [OF assms(1) p] obtain g q where
    g: "g < length (m_files m)" and q: "q < file_pieces (m_files m ! g)" and
    pq: "p = sum_pieces (take g (m_files m)) + q" and
    loc: "locate (layout_new m) p = Some \<lparr>loc_file = g, loc_start = word_of_nat (q * BLOCK_SIZE),
      loc_end = word_of_nat (min (q * BLOCK_SIZE + BLOCK_SIZE) (unat (fe_size (m_files m ! g))))\<rparr>" .
  from c loc piece_bytes(1,2) [OF assms(1) g q]
  have "g = f" "q * BLOCK_SIZE \<le> b" "b < q * BLOCK_SIZE + BLOCK_SIZE"
    by (auto simp del: of_nat_mult of_nat_add)
  then have "b div BLOCK_SIZE = q" by (intro div_nat_eqI) (simp_all add: mult.commute)
  with pq \<open>g = f\<close> show "p = sum_pieces (take f (m_files m)) + b div BLOCK_SIZE" by simp
qed

theorem pieces_tile_files_witness:
  "\<exists>!p. p < total_pieces (layout_new two_files) \<and> (\<exists>loc. locate (layout_new two_files) p = Some loc \<and>
    loc_file loc = 2 \<and> unat (loc_start loc) \<le> 4 \<and> 4 < unat (loc_end loc))"
  by (rule pieces_tile_files [OF two_files_fits(1)]) (simp_all add: two_files_def)

text \<open>For a file within a block of \<open>2^64\<close> bytes, which a manifest from a peer
  may claim, the end of the last piece wraps in a release build: the range
  ends before it starts.\<close>

theorem locate_wraps:
  "map_option (\<lambda>loc. (loc_start loc, loc_end loc))
     (locate (layout_new \<lparr>m_name = ''x'', m_files = [\<lparr>fe_path = [''x''], fe_size = 2 ^ 64 - 1, fe_root = []\<rparr>]\<rparr>)
       (2 ^ 48 - 1)) = Some (2 ^ 64 - 65536, 0)"
  by (simp add: layout_new_def locate_def BLOCK_SIZE_def)

end
