(* ===== verification/Wire.thy ===== *)
theory Wire
  imports Manifest
begin

text \<open>
  The wire protocol (\<open>protocol.rs\<close>): requests and responses, length-prefixed
  frames over a QUIC stream, and bit fields. A receiving stream is the bytes
  that will arrive on it and how it ends; a sending stream collects the bytes
  sent, or has failed.
\<close>

type_synonym endpoint_id = bytes
type_synonym token = bytes

definition ALPN :: bytes where
  "ALPN = bytes_of ''chorrent/2''"

definition MAX_FRAME :: nat where
  "MAX_FRAME = 16 * 1024 * 1024"

datatype request =
    ReqManifest share_id "token option"
  | ReqSubscribe share_id "token option"
  | ReqPiece share_id "token option" u32

datatype response =
    RespManifest bytes
  | RespBitfield bytes
  | RespHave u32
  | RespPiece bytes
  | DontHave
  | NotFound
  | Busy

subsection \<open>Streams\<close>

datatype stream_end = Finished | Reset str

record recv_stream =
  rv_bytes :: bytes
  rv_end :: stream_end

record send_stream =
  sd_bytes :: bytes
  sd_error :: "str option"

datatype read_exact_error = FinishedEarly nat | ReadError str

text \<open>\<open>RecvStream::read_exact\<close>: all the bytes wanted, or why they could not be had.\<close>

definition read_exact :: "nat \<Rightarrow> recv_stream \<Rightarrow> read_exact_error + bytes \<times> recv_stream" where
  "read_exact n s =
     (if n \<le> length (rv_bytes s) then Inr (take n (rv_bytes s), s\<lparr>rv_bytes := drop n (rv_bytes s)\<rparr>)
      else case rv_end s of
        Finished \<Rightarrow> Inl (FinishedEarly (length (rv_bytes s)))
      | Reset msg \<Rightarrow> Inl (ReadError msg))"

fun read_exact_message :: "read_exact_error \<Rightarrow> str" where
  "read_exact_message (FinishedEarly n) = ''stream finished early ('' @ show_nat n @ '' bytes read)''"
| "read_exact_message (ReadError msg) = msg"

definition write_all :: "bytes \<Rightarrow> send_stream \<Rightarrow> str + send_stream" where
  "write_all b s = (case sd_error s of None \<Rightarrow> Inr (s\<lparr>sd_bytes := sd_bytes s @ b\<rparr>) | Some e \<Rightarrow> Inl e)"

definition u32_to_le_bytes :: "u32 \<Rightarrow> bytes" where
  "u32_to_le_bytes w = map (\<lambda>i. ucast (drop_bit (8 * i) w)) [0..<4]"

definition u32_from_le_bytes :: "bytes \<Rightarrow> u32" where
  "u32_from_le_bytes bs = foldr (\<lambda>b w. push_bit 8 w OR ucast b) bs 0"

subsection \<open>Frames\<close>

definition frame_of :: "bytes \<Rightarrow> bytes" where
  "frame_of body = u32_to_le_bytes (word_of_nat (length body)) @ body"

definition write_frame :: "'a codec \<Rightarrow> 'a \<Rightarrow> send_stream \<Rightarrow> protocol_error + send_stream" where
  "write_frame c msg s =
     bind_result (ok_or (to_allocvec c msg) (ProtocolSend ''postcard'')) (\<lambda>body.
     map_err ProtocolSend (write_all (frame_of body) s))"

definition read_frame :: "'a codec \<Rightarrow> recv_stream \<Rightarrow> protocol_error + 'a option \<times> recv_stream" where
  "read_frame c s =
     (case read_exact 4 s of
        Inl (FinishedEarly 0) \<Rightarrow> Inr (None, s)
      | Inl e \<Rightarrow> Inl (ProtocolReceive (read_exact_message e))
      | Inr (len_bytes, s1) \<Rightarrow>
          let len = unat (u32_from_le_bytes len_bytes) in
          if len > MAX_FRAME then
            Inl (ProtocolReceive (''frame of '' @ show_nat len @ '' bytes is too large''))
          else bind_result (map_err (\<lambda>e. ProtocolReceive (read_exact_message e)) (read_exact len s1)) (\<lambda>(body, s2).
            map_err (\<lambda>_. ProtocolReceive ''postcard'')
              (ok_or (map_option (\<lambda>m. (Some m, s2)) (from_bytes c body)) ())))"

definition expect_frame :: "'a codec \<Rightarrow> recv_stream \<Rightarrow> protocol_error + 'a \<times> recv_stream" where
  "expect_frame c s =
     bind_result (read_frame c s) (\<lambda>(m, s').
       ok_or (map_option (\<lambda>x. (x, s')) m) (ProtocolReceive ''peer closed the stream''))"

subsection \<open>Bit fields\<close>

definition pack_bits :: "bool list \<Rightarrow> bytes" where
  "pack_bits have =
     foldl (\<lambda>out (i, h). if h then out[i div 8 := out ! (i div 8) OR push_bit (i mod 8) 1] else out)
       (replicate (div_ceil (length have) 8) 0) (List.enumerate 0 have)"

definition unpack_bits :: "bytes \<Rightarrow> nat \<Rightarrow> bool list" where
  "unpack_bits bytes len =
     map (\<lambda>i. case idx bytes (i div 8) of None \<Rightarrow> False | Some b \<Rightarrow> b AND push_bit (i mod 8) 1 \<noteq> 0) [0..<len]"

subsection \<open>Reading back what was written\<close>

lemma u32_le_bytes_length [simp]: "length (u32_to_le_bytes w) = 4"
  by (simp add: u32_to_le_bytes_def)

lemma upt_4: "[0..<4] = [0, 1, 2, 3 :: nat]"
  by (simp add: upt_rec)

lemma u32_le_round_trip [simp]: "u32_from_le_bytes (u32_to_le_bytes w) = w"
proof (rule bit_word_eqI)
  fix n assume "n < LENGTH(32)"
  then have n: "n < 32" by simp
  consider "n < 8" | "8 \<le> n" "n < 16" | "16 \<le> n" "n < 24" | "24 \<le> n" "n < 32" using n by linarith
  then show "bit (u32_from_le_bytes (u32_to_le_bytes w)) n = bit w n"
    by cases (auto simp: u32_to_le_bytes_def u32_from_le_bytes_def upt_4 bit_simps)
qed

lemma frame_of_length [simp]: "length (frame_of body) = 4 + length body"
  by (simp add: frame_of_def)

lemma MAX_FRAME_u32: "n \<le> MAX_FRAME \<Longrightarrow> unat (word_of_nat n :: u32) = n"
  by (simp add: MAX_FRAME_def unat_of_nat)

lemma read_frame_of:
  assumes "length body \<le> MAX_FRAME" "from_bytes c body = Some x"
  shows "read_frame c \<lparr>rv_bytes = frame_of body @ rest, rv_end = e\<rparr> = Inr (Some x, \<lparr>rv_bytes = rest, rv_end = e\<rparr>)"
  using assms by (simp add: read_frame_def read_exact_def frame_of_def MAX_FRAME_u32 ok_or_def)

text \<open>The messages are written in order, then the stream is finished; a reader takes them off it.\<close>

fun write_frames :: "'a codec \<Rightarrow> 'a list \<Rightarrow> send_stream \<Rightarrow> protocol_error + send_stream" where
  "write_frames c [] s = Inr s"
| "write_frames c (m # ms) s = bind_result (write_frame c m s) (write_frames c ms)"

fun read_frames :: "'a codec \<Rightarrow> nat \<Rightarrow> recv_stream \<Rightarrow> protocol_error + 'a option list" where
  "read_frames c 0 s = Inr []"
| "read_frames c (Suc n) s = bind_result (read_frame c s) (\<lambda>(m, s').
     bind_result (read_frames c n s') (\<lambda>ms. Inr (m # ms)))"

definition sendable :: "'a codec \<Rightarrow> 'a \<Rightarrow> bool" where
  "sendable c x \<longleftrightarrow> (\<exists>b. to_allocvec c x = Some b \<and> from_bytes c b = Some x \<and> length b \<le> MAX_FRAME)"

lemma write_frame_sendable:
  assumes "sendable c x" "sd_error s = None"
  obtains body where "write_frame c x s = Inr (s\<lparr>sd_bytes := sd_bytes s @ frame_of body\<rparr>)"
    "from_bytes c body = Some x" "length body \<le> MAX_FRAME"
  using assms by (auto simp: sendable_def write_frame_def write_all_def ok_or_def)

lemma write_then_read:
  assumes "\<forall>m \<in> set ms. sendable c m" "sd_error s = None"
  shows "\<exists>sent. write_frames c ms s = Inr (s\<lparr>sd_bytes := sd_bytes s @ sent\<rparr>) \<and>
    read_frames c (Suc (length ms)) \<lparr>rv_bytes = sent, rv_end = Finished\<rparr> = Inr (map Some ms @ [None])"
  using assms
proof (induction ms arbitrary: s)
  case Nil
  show ?case by (intro exI [of _ "[]"]) (simp add: read_frame_def read_exact_def)
next
  case (Cons m ms)
  from Cons.prems obtain body where w: "write_frame c m s = Inr (s\<lparr>sd_bytes := sd_bytes s @ frame_of body\<rparr>)"
    "from_bytes c body = Some m" "length body \<le> MAX_FRAME"
    by (auto elim: write_frame_sendable)
  let ?s = "s\<lparr>sd_bytes := sd_bytes s @ frame_of body\<rparr>"
  from Cons.IH [of ?s] Cons.prems obtain sent where sent:
    "write_frames c ms ?s = Inr (?s\<lparr>sd_bytes := sd_bytes ?s @ sent\<rparr>)"
    "read_frames c (Suc (length ms)) \<lparr>rv_bytes = sent, rv_end = Finished\<rparr> = Inr (map Some ms @ [None])"
    by auto
  have "read_frames c (Suc (Suc (length ms))) \<lparr>rv_bytes = frame_of body @ sent, rv_end = Finished\<rparr>
      = Inr (map Some (m # ms) @ [None])"
    using sent(2) read_frame_of [OF w(3,2), of sent Finished]
    by (simp only: read_frames.simps(2) [of c "Suc (length ms)"]) simp
  moreover have "write_frames c (m # ms) s = Inr (s\<lparr>sd_bytes := sd_bytes s @ (frame_of body @ sent)\<rparr>)"
    using w(1) sent(1) by simp
  ultimately show ?case by auto
qed

text \<open>C37: messages written as frames on a stream that is then finished are read
  back as the same messages in the same order, and after the last one the
  reader sees a clean end.\<close>

theorem frames_round_trip:
  assumes "\<forall>m \<in> set ms. sendable c m"
  shows "\<exists>sent. write_frames c ms \<lparr>sd_bytes = [], sd_error = None\<rparr> = Inr \<lparr>sd_bytes = sent, sd_error = None\<rparr> \<and>
    read_frames c (Suc (length ms)) \<lparr>rv_bytes = sent, rv_end = Finished\<rparr> = Inr (map Some ms @ [None])"
  using write_then_read [OF assms, of "\<lparr>sd_bytes = [], sd_error = None\<rparr>"] by simp

theorem frames_round_trip_witness:
  "\<exists>sent. write_frames (const_codec Busy) [Busy, Busy] \<lparr>sd_bytes = [], sd_error = None\<rparr>
      = Inr \<lparr>sd_bytes = sent, sd_error = None\<rparr> \<and>
    read_frames (const_codec Busy) 3 \<lparr>rv_bytes = sent, rv_end = Finished\<rparr> = Inr [Some Busy, Some Busy, None]"
  using frames_round_trip [of "[Busy, Busy]" "const_codec Busy"]
  by (simp add: sendable_def const_codec_def MAX_FRAME_def numeral_3_eq_3)

text \<open>A stream that stops anywhere inside a frame is an error, never a
  shorter message and never a clean end; so is a frame that announces more
  than the limit, whatever follows it.\<close>

theorem broken_frame_rejected:
  assumes "length body < 2 ^ 32"
    and "0 < n \<and> n < length (frame_of body) \<or> MAX_FRAME < length body \<and> n = length (frame_of body)"
  shows "\<exists>msg. read_frame c \<lparr>rv_bytes = take n (frame_of body), rv_end = e\<rparr> = Inl (ProtocolReceive msg)"
proof (cases "n < 4")
  case True
  with assms(2) have "length (take n (frame_of body)) = n" "0 < n" by auto
  with True show ?thesis
    by (cases e; cases n) (simp_all add: read_frame_def read_exact_def del: length_take)
next
  case False
  have len: "unat (word_of_nat (length body) :: u32) = length body"
    using assms(1) by (simp add: unat_of_nat)
  have "take n (frame_of body) = u32_to_le_bytes (word_of_nat (length body)) @ take (n - 4) body"
    using False by (simp add: frame_of_def)
  moreover have "MAX_FRAME < length body \<or> length (take (n - 4) body) < length body"
    using assms(2) False by auto
  ultimately show ?thesis
    by (cases e) (auto simp: read_frame_def read_exact_def len min_def Let_def)
qed

theorem broken_frame_rejected_witness:
  "\<exists>msg. read_frame (const_codec Busy) \<lparr>rv_bytes = take 5 (frame_of [1, 2]), rv_end = Finished\<rparr>
     = Inl (ProtocolReceive msg)"
  by (rule broken_frame_rejected) simp_all


subsection \<open>Bit fields survive the trip\<close>

definition field_bit :: "bytes \<Rightarrow> nat \<Rightarrow> bool" where
  "field_bit bs i \<longleftrightarrow> bit (bs ! (i div 8)) (i mod 8)"

lemma unpack_bits_nth:
  "i < len \<Longrightarrow> unpack_bits bs len ! i \<longleftrightarrow> i div 8 < length bs \<and> field_bit bs i"
  by (auto simp: unpack_bits_def field_bit_def bit_iff_and_push_bit_not_eq_0 idx_def)

lemma unpack_bits_length [simp]: "length (unpack_bits bs len) = len"
  by (simp add: unpack_bits_def)

lemma field_bit_set:
  assumes "i div 8 < length out"
  shows "field_bit (out[i div 8 := out ! (i div 8) OR push_bit (i mod 8) 1]) j \<longleftrightarrow> field_bit out j \<or> i = j"
proof (cases "i div 8 = j div 8")
  case True
  have "i mod 8 = j mod 8 \<longleftrightarrow> i = j" using True by (metis div_mult_mod_eq)
  then show ?thesis using True assms by (auto simp: field_bit_def bit_simps)
next
  case False
  then show ?thesis by (auto simp: field_bit_def)
qed

lemma pack_loop:
  assumes "n + length have \<le> 8 * length out"
  shows "length (foldl (\<lambda>out (i, h). if h then out[i div 8 := out ! (i div 8) OR push_bit (i mod 8) 1] else out)
       out (List.enumerate n have)) = length out \<and>
     (\<forall>j. field_bit (foldl (\<lambda>out (i, h). if h then out[i div 8 := out ! (i div 8) OR push_bit (i mod 8) 1] else out)
       out (List.enumerate n have)) j \<longleftrightarrow> field_bit out j \<or> n \<le> j \<and> j < n + length have \<and> have ! (j - n))"
  using assms
proof (induction "have" arbitrary: n out)
  case (Cons h hs)
  let ?out = "if h then out[n div 8 := out ! (n div 8) OR push_bit (n mod 8) 1] else out"
  have len: "length ?out = length out" by simp
  have n: "n div 8 < length out" using Cons.prems by simp
  have bit: "field_bit ?out j \<longleftrightarrow> field_bit out j \<or> h \<and> n = j" for j
    using field_bit_set [OF n] by auto
  have nth: "field_bit out j \<or> h \<and> n = j \<or> Suc n \<le> j \<and> j < Suc n + length hs \<and> hs ! (j - Suc n) \<longleftrightarrow>
      field_bit out j \<or> n \<le> j \<and> j < n + length (h # hs) \<and> (h # hs) ! (j - n)" for j
    by (auto simp: nth_Cons')
  from Cons.IH [of "Suc n" ?out] Cons.prems len bit nth show ?case by simp
qed auto

text \<open>A progress bit field unpacks to the list it was packed from, in
  \<open>div_ceil n 8\<close> bytes; and any bytes a peer sends unpack to exactly as many
  flags as the share has pieces, the ones beyond the bytes sent unset.\<close>

theorem bit_field_round_trip:
  "unpack_bits (pack_bits have) (length have) = have \<and>
   length (pack_bits have) = div_ceil (length have) 8 \<and>
   length (unpack_bits bs n) = n \<and>
   {i. i < n \<and> unpack_bits bs n ! i} = {i. i < n \<and> i < 8 * length bs \<and> bit (bs ! (i div 8)) (i mod 8)}"
proof (intro conjI)
  have le: "length have \<le> 8 * length (replicate (div_ceil (length have) 8) (0 :: u8))"
    using div_ceil_bounds(1) [of 8 "length have"] by (simp add: mult.commute)
  note loop = pack_loop [of 0 "have" "replicate (div_ceil (length have) 8) 0", simplified add_0, OF le]
  show len: "length (pack_bits have) = div_ceil (length have) 8"
    using loop by (simp add: pack_bits_def)
  have zero: "\<not> field_bit (replicate (div_ceil (length have) 8) 0) j" if "j < length have" for j
    using that less_div_ceil_iff [of 8 "j div 8" "length have"] div_times_less_eq_dividend [of j 8]
    by (simp add: field_bit_def)
  have bit: "field_bit (pack_bits have) j \<longleftrightarrow> have ! j" if "j < length have" for j
    using loop zero [OF that] that by (simp add: pack_bits_def)
  show "unpack_bits (pack_bits have) (length have) = have"
  proof (rule nth_equalityI)
    fix i assume i: "i < length (unpack_bits (pack_bits have) (length have))"
    then have "i div 8 * 8 < length have" using div_times_less_eq_dividend [of i 8] by simp
    then show "unpack_bits (pack_bits have) (length have) ! i = have ! i"
      using i bit len by (simp add: unpack_bits_nth less_div_ceil_iff)
  qed simp
  show "{i. i < n \<and> unpack_bits bs n ! i} = {i. i < n \<and> i < 8 * length bs \<and> bit (bs ! (i div 8)) (i mod 8)}"
    by (auto simp: unpack_bits_nth field_bit_def)
qed simp

end
