(* ===== verification/Share_Code.thy ===== *)
theory Share_Code
  imports Wire
begin

text \<open>
  Share codes (\<open>share.rs\<close>): what a downloader is handed, its text form, the
  gossip topic it leads to, and the access tokens of private shares. The
  base64 engine is a parameter.
\<close>

definition SHARE_CODE_PREFIX :: str where
  "SHARE_CODE_PREFIX = ''chr2''"

text \<open>An endpoint address: the peer's id and the transport addresses to try.\<close>

record endpoint_addr =
  ea_id :: endpoint_id
  ea_addrs :: "str list"

record share_code =
  sc_id :: share_id
  sc_name :: str
  sc_total_size :: u64
  sc_peers :: "endpoint_addr list"
  sc_secret :: "bytes option"

text \<open>The URL-safe base64 engine without padding.\<close>

record base64 =
  b64_encode :: "bytes \<Rightarrow> str"
  b64_decode :: "str \<Rightarrow> bytes option"

definition is_private :: "share_code \<Rightarrow> bool" where
  "is_private c \<longleftrightarrow> sc_secret c \<noteq> None"

text \<open>The gossip topic of a share, and the proof of knowing its secret.\<close>

definition topic_for :: "blake3 \<Rightarrow> share_id \<Rightarrow> bytes option \<Rightarrow> bytes" where
  "topic_for h i secret = (case secret of
     None \<Rightarrow> keyed_hash h (derive_key h ''chorrent v2 public topic'' []) (id_bytes i)
   | Some s \<Rightarrow> keyed_hash h (derive_key h ''chorrent v2 private topic'' s) (id_bytes i))"

definition topic :: "blake3 \<Rightarrow> share_code \<Rightarrow> bytes" where
  "topic h c = topic_for h (sc_id c) (sc_secret c)"

definition access_token :: "blake3 \<Rightarrow> bytes \<Rightarrow> endpoint_id \<Rightarrow> token" where
  "access_token h secret requester = keyed_hash h (derive_key h ''chorrent v2 access'' secret) requester"

fun merge_peers :: "endpoint_addr list \<Rightarrow> endpoint_addr list \<Rightarrow> endpoint_addr list" where
  "merge_peers mine [] = mine"
| "merge_peers mine (p # ps) =
     merge_peers (if \<exists>q \<in> set mine. ea_id q = ea_id p then mine else mine @ [p]) ps"

definition merge :: "share_code \<Rightarrow> share_code \<Rightarrow> error + share_code" where
  "merge self other =
     (if sc_id other \<noteq> sc_id self \<or> sc_secret other \<noteq> sc_secret self then
        Inl (InvalidShareCode ''those share codes are for different shares'')
      else Inr (self\<lparr>sc_peers := merge_peers (sc_peers self) (sc_peers other)\<rparr>))"

definition peer_ids :: "blake3 \<Rightarrow> share_code \<Rightarrow> str list" where
  "peer_ids h c = map (to_hex h \<circ> ea_id) (sc_peers c)"

definition share_code_display :: "share_code codec \<Rightarrow> base64 \<Rightarrow> share_code \<Rightarrow> str option" where
  "share_code_display pc e c = do { bs \<leftarrow> to_allocvec pc c; Some (SHARE_CODE_PREFIX @ b64_encode e bs) }"

definition share_code_from_str :: "share_code codec \<Rightarrow> base64 \<Rightarrow> str \<Rightarrow> error + share_code" where
  "share_code_from_str pc e s =
     bind_result (ok_or (strip_prefix (trim s) SHARE_CODE_PREFIX)
        (InvalidShareCode ''not a chorrent v2 share code (should start with \"chr2\")'')) (\<lambda>body.
     bind_result (ok_or (b64_decode e body) (InvalidShareCode ''not valid base64'')) (\<lambda>bs.
     ok_or (from_bytes pc bs) (InvalidShareCode ''corrupted'')))"

subsection \<open>The text form\<close>

text \<open>What base64 promises at given bytes: they decode again, and the text is in the URL-safe alphabet.\<close>

definition b64_char :: "char \<Rightarrow> bool" where
  "b64_char c \<longleftrightarrow> (let n = of_char c :: nat in
     48 \<le> n \<and> n \<le> 57 \<or> 65 \<le> n \<and> n \<le> 90 \<or> 97 \<le> n \<and> n \<le> 122 \<or> n = 45 \<or> n = 95)"

definition b64_round_trips :: "base64 \<Rightarrow> bytes \<Rightarrow> bool" where
  "b64_round_trips e bs \<longleftrightarrow> b64_decode e (b64_encode e bs) = Some bs \<and> (\<forall>c \<in> set (b64_encode e bs). b64_char c)"

lemma whitespace_not_b64: "w \<in> set whitespace \<Longrightarrow> \<not> b64_char (hd w) \<and> \<not> b64_char (last w)"
  by (auto simp: whitespace_def b64_char_def)

lemma trim_end_b64: "\<forall>c \<in> set s. b64_char c \<Longrightarrow> trim_end s = s"
proof -
  assume s: "\<forall>c \<in> set s. b64_char c"
  have "find (ends_with s) whitespace = None"
  proof (rule find_None_iff [THEN iffD2], clarify)
    fix w assume w: "w \<in> set whitespace" "ends_with s w"
    then have "w \<noteq> []" using whitespace_nonempty by fastforce
    with w(2) have "last w \<in> set s"
      by (metis ends_with_def in_set_dropD last_in_set)
    with s whitespace_not_b64 [OF w(1)] show False by blast
  qed
  then show ?thesis by (subst trim_end.simps) simp
qed

lemma trim_start_b64: "\<forall>c \<in> set s. b64_char c \<Longrightarrow> trim_start s = s"
proof -
  assume s: "\<forall>c \<in> set s. b64_char c"
  have "find (starts_with s) whitespace = None"
  proof (rule find_None_iff [THEN iffD2], clarify)
    fix w assume w: "w \<in> set whitespace" "starts_with s w"
    then have "w \<noteq> []" using whitespace_nonempty by fastforce
    with w(2) have "hd w \<in> set s"
      by (metis starts_with_def in_set_takeD hd_in_set)
    with s whitespace_not_b64 [OF w(1)] show False by blast
  qed
  then show ?thesis by (subst trim_start.simps) simp
qed

lemma trim_b64: "\<forall>c \<in> set s. b64_char c \<Longrightarrow> trim s = s"
  by (simp add: trim_def trim_start_b64 trim_end_b64)

text \<open>C40: the text of a share code parses back to the same code: id, name, size,
  peers and secret.\<close>

theorem share_code_round_trip:
  assumes "round_trips pc c" and "\<And>bs. to_allocvec pc c = Some bs \<Longrightarrow> b64_round_trips e bs"
  shows "\<exists>s. share_code_display pc e c = Some s \<and> share_code_from_str pc e s = Inr c"
proof -
  from assms(1) obtain bs where bs: "to_allocvec pc c = Some bs" "from_bytes pc bs = Some c"
    by (auto simp: round_trips_def)
  note e = assms(2) [OF bs(1), unfolded b64_round_trips_def]
  have "\<forall>x \<in> set (SHARE_CODE_PREFIX @ b64_encode e bs). b64_char x"
    using e by (auto simp: SHARE_CODE_PREFIX_def b64_char_def)
  from trim_b64 [OF this] have "share_code_from_str pc e (SHARE_CODE_PREFIX @ b64_encode e bs) = Inr c"
    using e bs(2) by (simp add: share_code_from_str_def strip_prefix_def starts_with_def ok_or_def)
  with bs(1) show ?thesis by (simp add: share_code_display_def)
qed

definition tiny_code :: share_code where
  "tiny_code = \<lparr>sc_id = ShareId [7], sc_name = ''x'', sc_total_size = 5,
     sc_peers = [\<lparr>ea_id = [1], ea_addrs = []\<rparr>, \<lparr>ea_id = [2], ea_addrs = []\<rparr>], sc_secret = Some [1]\<rparr>"

definition tiny_base64 :: base64 where
  "tiny_base64 = \<lparr>b64_encode = (\<lambda>_. ''Bw''), b64_decode = (\<lambda>_. Some [7])\<rparr>"

theorem share_code_round_trip_witness:
  "\<exists>s. share_code_display (const_codec tiny_code) tiny_base64 tiny_code = Some s \<and>
     share_code_from_str (const_codec tiny_code) tiny_base64 s = Inr tiny_code"
  by (rule share_code_round_trip [OF const_codec_round_trips])
     (auto simp: const_codec_def tiny_base64_def b64_round_trips_def b64_char_def)

subsection \<open>Merging codes\<close>

lemma merge_peers_ids:
  "ea_id ` set (merge_peers mine ps) = ea_id ` set mine \<union> ea_id ` set ps"
proof (induction mine ps rule: merge_peers.induct)
  case (2 mine p ps)
  then show ?case by (cases "\<exists>q \<in> set mine. ea_id q = ea_id p") (auto simp: image_iff, metis)
qed simp

lemma merge_peers_distinct:
  "distinct (map ea_id mine) \<Longrightarrow> distinct (map ea_id (merge_peers mine ps))"
proof (induction mine ps rule: merge_peers.induct)
  case (2 mine p ps)
  show ?case
  proof (cases "\<exists>q \<in> set mine. ea_id q = ea_id p")
    case False
    then have "distinct (map ea_id (mine @ [p]))" using "2.prems" by auto
    with "2.IH" False show ?thesis by (simp only: merge_peers.simps if_False)
  qed (use 2 in simp)
qed simp

lemma merge_peers_prefix: "\<exists>more. merge_peers mine ps = mine @ more \<and> set more \<subseteq> set ps"
proof (induction mine ps rule: merge_peers.induct)
  case (2 mine p ps)
  then show ?case by (cases "\<exists>q \<in> set mine. ea_id q = ea_id p") force+
qed simp

text \<open>Merging accepts exactly the codes of the same share with the same
  secret; the result keeps this code's peers first and in order, adds each
  new peer of the other code once, and changes nothing else.\<close>

theorem merge_spec:
  "(case merge c d of
      Inl e \<Rightarrow> (sc_id d, sc_secret d) \<noteq> (sc_id c, sc_secret c) \<and> (\<exists>msg. e = InvalidShareCode msg)
    | Inr r \<Rightarrow> sc_id d = sc_id c \<and> sc_secret d = sc_secret c \<and>
        r = c\<lparr>sc_peers := sc_peers r\<rparr> \<and> take (length (sc_peers c)) (sc_peers r) = sc_peers c \<and>
        set (sc_peers r) \<subseteq> set (sc_peers c) \<union> set (sc_peers d) \<and>
        ea_id ` set (sc_peers r) = ea_id ` set (sc_peers c) \<union> ea_id ` set (sc_peers d) \<and>
        (distinct (map ea_id (sc_peers c)) = distinct (map ea_id (sc_peers r))))"
proof (cases "sc_id d \<noteq> sc_id c \<or> sc_secret d \<noteq> sc_secret c")
  case True
  then show ?thesis by (simp add: merge_def)
next
  case False
  obtain more where more: "merge_peers (sc_peers c) (sc_peers d) = sc_peers c @ more" "set more \<subseteq> set (sc_peers d)"
    using merge_peers_prefix by blast
  have "distinct (map ea_id (sc_peers c)) = distinct (map ea_id (merge_peers (sc_peers c) (sc_peers d)))"
    using merge_peers_distinct [of "sc_peers c" "sc_peers d"] more(1) by auto
  with False more merge_peers_ids [of "sc_peers c" "sc_peers d"] show ?thesis
    by (auto simp: merge_def)
qed

subsection \<open>Topics\<close>

text \<open>BLAKE3 without collisions among the given keys and messages.\<close>

definition no_collisions :: "blake3 \<Rightarrow> (str \<times> bytes) set \<Rightarrow> bytes set \<Rightarrow> bool" where
  "no_collisions h keys msgs \<longleftrightarrow>
     inj_on (\<lambda>((c, k), m). keyed_hash h (derive_key h c k) m) (keys \<times> msgs)"

definition topic_key :: "bytes option \<Rightarrow> str \<times> bytes" where
  "topic_key secret = (case secret of None \<Rightarrow> (''chorrent v2 public topic'', []) | Some s \<Rightarrow> (''chorrent v2 private topic'', s))"

definition swarm_keys :: "bytes set \<Rightarrow> (str \<times> bytes) set" where
  "swarm_keys S = {(''chorrent v2 public topic'', [])} \<union> Pair ''chorrent v2 private topic'' ` S
      \<union> Pair ''chorrent v2 access'' ` S"

lemma topic_key_facts:
  "topic_key s = topic_key t \<longleftrightarrow> s = t" "(''chorrent v2 access'', k) \<noteq> topic_key s"
  "set_option s \<subseteq> S \<Longrightarrow> topic_key s \<in> swarm_keys S" "k \<in> S \<Longrightarrow> (''chorrent v2 access'', k) \<in> swarm_keys S"
  by (cases s; cases t; simp add: topic_key_def swarm_keys_def)+

lemma topic_for_key:
  "topic_for h i s = keyed_hash h (derive_key h (fst (topic_key s)) (snd (topic_key s))) (id_bytes i)"
  by (cases s) (simp_all add: topic_for_def topic_key_def)

lemma no_collisionsD:
  assumes "no_collisions h K M" "k \<in> K" "k' \<in> K" "m \<in> M" "m' \<in> M"
  shows "keyed_hash h (derive_key h (fst k) (snd k)) m = keyed_hash h (derive_key h (fst k') (snd k')) m'
    \<longleftrightarrow> k = k' \<and> m = m'"
  using inj_on_eq_iff [OF assms(1) [unfolded no_collisions_def], of "(k, m)" "(k', m')"] assms(2-5)
  by (simp add: case_prod_beta)

text \<open>Swarms do not mix: absent hash collisions, two share codes lead to
  the same gossip topic only when they name the same share with the same
  secret, and no access token equals a topic.\<close>

theorem topics_separate:
  assumes "no_collisions h (swarm_keys S) (id_bytes ` I \<union> R)"
    and "i \<in> I" "j \<in> I" "set_option s \<subseteq> S" "set_option t \<subseteq> S" "r \<in> R" "k \<in> S"
  shows "(topic_for h i s = topic_for h j t \<longleftrightarrow> i = j \<and> s = t) \<and> access_token h k r \<noteq> topic_for h i s"
proof (rule conjI)
  note eq = no_collisionsD [OF assms(1)]
  have m: "id_bytes i \<in> id_bytes ` I \<union> R" "id_bytes j \<in> id_bytes ` I \<union> R" "r \<in> id_bytes ` I \<union> R"
    using assms(2,3,6) by simp_all
  note keys = topic_key_facts(3) [OF assms(4)] topic_key_facts(3) [OF assms(5)] topic_key_facts(4) [OF assms(7)]
  show "topic_for h i s = topic_for h j t \<longleftrightarrow> i = j \<and> s = t"
    unfolding topic_for_key eq [OF keys(1,2) m(1,2)] topic_key_facts(1) using share_id.expand by auto
  show "access_token h k r \<noteq> topic_for h i s"
    using eq [OF keys(3,1) m(3,1)] topic_key_facts(2) by (simp add: topic_for_key access_token_def)
qed

theorem topics_separate_witness:
  "topic_for plain_blake (ShareId [1]) None \<noteq> topic_for plain_blake (ShareId [1]) (Some [2])"
proof -
  have "no_collisions plain_blake (swarm_keys {[2]}) (id_bytes ` {ShareId [1]} \<union> {[9]})"
    by (simp add: swarm_keys_def no_collisions_def plain_blake_def inj_on_def bytes_of_def)
  from topics_separate [OF this, of "ShareId [1]" "ShareId [1]" None "Some [2]" "[9]" "[2]"] show ?thesis by simp
qed

end
