(* ===== verification/Disk.thy ===== *)
theory Disk
  imports Chorrent_Error
begin

text \<open>
  The part of the machine that the storage code works on: regular files by
  path, the errors the system gives for some of them (a missing permission, a
  bad medium), and the random number generator as an endless tape of bytes.
  Folders are implied by the paths below them. Another process does not
  change files while an operation runs; between operations it may.
\<close>

datatype access = ForRead | ForWrite

record world =
  files :: "path \<Rightarrow> bytes option"
  faults :: "access \<Rightarrow> path \<Rightarrow> io_error option"
  tape :: "nat \<Rightarrow> u8"

text \<open>\<open>rand::random\<close> of \<open>n\<close> bytes.\<close>

definition draw :: "nat \<Rightarrow> world \<Rightarrow> bytes \<times> world" where
  "draw n w = (map (tape w) [0..<n], w\<lparr>tape := \<lambda>i. tape w (i + n)\<rparr>)"

record open_options =
  oo_read :: bool
  oo_write :: bool
  oo_create :: bool
  oo_create_new :: bool
  oo_truncate :: bool

definition open_options :: open_options where
  "open_options = \<lparr>oo_read = False, oo_write = False, oo_create = False, oo_create_new = False, oo_truncate = False\<rparr>"

definition access_fault :: "open_options \<Rightarrow> path \<Rightarrow> world \<Rightarrow> io_error option" where
  "access_fault opts path w =
     (case (if oo_read opts then faults w ForRead path else None) of
        Some e \<Rightarrow> Some e
      | None \<Rightarrow> if oo_write opts then faults w ForWrite path else None)"

definition open_file :: "open_options \<Rightarrow> path \<Rightarrow> world \<Rightarrow> io_error + world" where
  "open_file opts path w =
     (case access_fault opts path w of
        Some e \<Rightarrow> Inl e
      | None \<Rightarrow>
          (case files w path of
             None \<Rightarrow>
               if oo_create opts \<or> oo_create_new opts then Inr (w\<lparr>files := (files w)(path \<mapsto> [])\<rparr>) else Inl IoNotFound
           | Some content \<Rightarrow>
               if oo_create_new opts then Inl IoAlreadyExists
               else if oo_truncate opts then Inr (w\<lparr>files := (files w)(path \<mapsto> [])\<rparr>)
               else Inr w))"

text \<open>\<open>std::fs::create_dir_all\<close>: nothing to record, but it may be refused.\<close>

definition create_dir_all :: "path \<Rightarrow> world \<Rightarrow> io_error + unit" where
  "create_dir_all path w = (case faults w ForWrite path of Some e \<Rightarrow> Inl e | None \<Rightarrow> Inr ())"

definition file_content :: "path \<Rightarrow> world \<Rightarrow> bytes" where
  "file_content path w = (case files w path of None \<Rightarrow> [] | Some b \<Rightarrow> b)"

text \<open>\<open>metadata(path)\<close> as far as it is used: the length of a regular file.\<close>

definition file_len :: "path \<Rightarrow> world \<Rightarrow> nat option" where
  "file_len path w = (if faults w ForRead path \<noteq> None then None else map_option length (files w path))"

definition put_file :: "path \<Rightarrow> bytes \<Rightarrow> world \<Rightarrow> world" where
  "put_file path b w = w\<lparr>files := (files w)(path \<mapsto> b)\<rparr>"

definition set_len :: "nat \<Rightarrow> bytes \<Rightarrow> bytes" where
  "set_len n b = take n b @ replicate (n - length b) 0"

text \<open>Writing inside or beyond the end of a file; a gap reads as zeros.\<close>

definition splice :: "nat \<Rightarrow> bytes \<Rightarrow> bytes \<Rightarrow> bytes" where
  "splice pos b content = take pos content @ replicate (pos - length content) 0 @ b @ drop (pos + length b) content"

definition slice :: "nat \<Rightarrow> nat \<Rightarrow> bytes \<Rightarrow> bytes" where
  "slice pos n b = take n (drop pos b)"

text \<open>Positioned access to an open regular file.\<close>

definition pread :: "path \<Rightarrow> nat \<Rightarrow> nat \<Rightarrow> world \<Rightarrow> bytes" where
  "pread path pos n w = slice pos n (file_content path w)"

definition pwrite :: "path \<Rightarrow> nat \<Rightarrow> bytes \<Rightarrow> world \<Rightarrow> world" where
  "pwrite path pos b w = put_file path (splice pos b (file_content path w)) w"

text \<open>\<open>read_exact_at\<close> on a file: all the bytes, or \<open>UnexpectedEof\<close>.\<close>

definition pread_exact :: "path \<Rightarrow> nat \<Rightarrow> nat \<Rightarrow> world \<Rightarrow> io_error + bytes" where
  "pread_exact path pos n w =
     (if length (pread path pos n w) = n then Inr (pread path pos n w) else Inl IoUnexpectedEof)"

subsection \<open>Slices and splices\<close>

lemma length_slice [simp]: "length (slice pos n b) = min n (length b - pos)"
  by (simp add: slice_def)

lemma length_splice [simp]: "pos \<le> length c \<Longrightarrow> length (splice pos b c) = max (length c) (pos + length b)"
  by (simp add: splice_def)

lemma nth_slice [simp]: "i < n \<Longrightarrow> pos + i < length b \<Longrightarrow> slice pos n b ! i = b ! (pos + i)"
  by (simp add: slice_def)

lemma nth_splice:
  assumes "pos \<le> length c" "i < length c \<or> i < pos + length b"
  shows "splice pos b c ! i = (if pos \<le> i \<and> i < pos + length b then b ! (i - pos) else c ! i)"
  using assms by (auto simp: splice_def nth_append min_def algebra_simps)

lemma slice_splice_same:
  assumes "pos \<le> length c"
  shows "slice pos (length b) (splice pos b c) = b"
  using assms by (intro nth_equalityI) (auto simp: nth_splice)

lemma slice_splice_other:
  assumes "pos + length b \<le> length c" "p + n \<le> pos \<or> pos + length b \<le> p"
  shows "slice p n (splice pos b c) = slice p n c"
  using assms by (intro nth_equalityI) (auto simp: nth_splice)

lemma splice_append:
  assumes "pos \<le> length c"
  shows "splice (pos + length a) b (splice pos a c) = splice pos (a @ b) c"
proof (rule nth_equalityI)
  fix i assume "i < length (splice (pos + length a) b (splice pos a c))"
  then have i: "i < length c \<or> i < pos + length a + length b" using assms by auto
  have outer: "splice (pos + length a) b (splice pos a c) ! i =
      (if pos + length a \<le> i \<and> i < pos + length a + length b then b ! (i - (pos + length a)) else splice pos a c ! i)"
    by (rule nth_splice) (use assms i in auto)
  show "splice (pos + length a) b (splice pos a c) ! i = splice pos (a @ b) c ! i"
  proof (cases "pos + length a \<le> i \<and> i < pos + length a + length b")
    case True
    then show ?thesis using outer assms by (auto simp: nth_splice nth_append)
  next
    case False
    then have "i < length c \<or> i < pos + length a" using i by linarith
    with False outer assms show ?thesis by (auto simp: nth_splice nth_append)
  qed
qed (use assms in simp)

lemma splice_Nil [simp]: "pos \<le> length c \<Longrightarrow> splice pos [] c = c"
  by (simp add: splice_def)

lemma splice_all: "length b = length c \<Longrightarrow> splice 0 b c = b"
  by (simp add: splice_def)

lemma slice_0_all [simp]: "slice 0 (length b) b = b"
  by (simp add: slice_def)

lemma slice_append: "slice pos a b @ slice (pos + a) c b = slice pos (a + c) b"
  by (simp add: slice_def take_add add.commute)

lemma take_slice: "take k (slice pos n b) = slice pos (min k n) b"
  by (simp add: slice_def)

lemma slice_slice: "slice p n (slice q m b) = slice (q + p) (min n (m - p)) b"
  by (simp add: slice_def drop_take min.commute add.commute)

lemma file_content_put [simp]:
  "file_content p (put_file q b w) = (if p = q then b else file_content p w)"
  by (simp add: file_content_def put_file_def)

lemma world_put [simp]:
  "files (put_file p b w) q = (if q = p then Some b else files w q)"
  "faults (put_file p b w) = faults w" "tape (put_file p b w) = tape w"
  by (simp_all add: put_file_def)

lemma world_draw [simp]:
  "files (snd (draw n w)) = files w" "faults (snd (draw n w)) = faults w" "length (fst (draw n w)) = n"
  "tape (snd (draw n w)) = (\<lambda>i. tape w (i + n))"
  by (simp_all add: draw_def)

lemma file_content_draw [simp]: "file_content p (snd (draw n w)) = file_content p w"
  by (simp add: file_content_def)

subsection \<open>Storage that is read and written at positions\<close>

text \<open>
  The contract behind \<open>ReadAt\<close> and \<open>WriteAt\<close>: a state has a \<open>view\<close>, the bytes
  stored; a read gives some of the bytes at its position and at least one
  before the end; a write within the view replaces some prefix, at least one
  byte. \<open>read_exact_at\<close>, \<open>write_all_at\<close> and reading in order loop over them.
\<close>

function read_exact_loop ::
  "('s \<Rightarrow> nat \<Rightarrow> nat \<Rightarrow> io_error + bytes) \<Rightarrow> 's \<Rightarrow> nat \<Rightarrow> nat \<Rightarrow> io_error + bytes" where
  "read_exact_loop rd s pos n =
     (if n = 0 then Inr []
      else case rd s pos n of
        Inl e \<Rightarrow> Inl e
      | Inr b \<Rightarrow>
          if b = [] then Inl IoUnexpectedEof
          else bind_result (read_exact_loop rd s (pos + length b) (n - length b)) (\<lambda>more. Inr (b @ more)))"
  by pat_completeness auto
termination by (relation "measure (\<lambda>(_, _, _, n). n)") auto

function write_all_loop ::
  "('s \<Rightarrow> nat \<Rightarrow> bytes \<Rightarrow> (io_error + nat) \<times> 's) \<Rightarrow> 's \<Rightarrow> nat \<Rightarrow> bytes \<Rightarrow> (io_error + unit) \<times> 's" where
  "write_all_loop wr s pos b =
     (if b = [] then (Inr (), s)
      else case wr s pos b of
        (Inl e, s') \<Rightarrow> (Inl e, s')
      | (Inr n, s') \<Rightarrow>
          if n = 0 then (Inl IoWriteZero, s')
          else write_all_loop wr s' (pos + n) (drop n b))"
  by pat_completeness auto
termination by (relation "measure (\<lambda>(_, _, _, b). length b)") auto

declare read_exact_loop.simps [simp del] write_all_loop.simps [simp del]

lemma read_exact_loop_0 [simp]: "read_exact_loop rd s pos 0 = Inr []"
  by (subst read_exact_loop.simps) simp

locale positioned =
  fixes read_at :: "'s \<Rightarrow> nat \<Rightarrow> nat \<Rightarrow> io_error + bytes"
    and write_at :: "'s \<Rightarrow> nat \<Rightarrow> bytes \<Rightarrow> (io_error + nat) \<times> 's"
    and view :: "'s \<Rightarrow> bytes"
    and readable :: "'s \<Rightarrow> bool"
    and writable :: "'s \<Rightarrow> bool"
    and room :: "nat \<Rightarrow> bool"
  assumes read_some: "readable s \<Longrightarrow> pos < length (view s) \<Longrightarrow> 0 < n \<Longrightarrow>
      \<exists>k. 0 < k \<and> k \<le> n \<and> pos + k \<le> length (view s) \<and> read_at s pos n = Inr (slice pos k (view s))"
    and read_end: "readable s \<Longrightarrow> length (view s) \<le> pos \<Longrightarrow> read_at s pos n = Inr []"
    and write_some: "writable s \<Longrightarrow> b \<noteq> [] \<Longrightarrow> pos \<le> length (view s) \<Longrightarrow> room (pos + length b) \<Longrightarrow>
      \<exists>k s'. write_at s pos b = (Inr k, s') \<and> 0 < k \<and> k \<le> length b \<and> writable s' \<and>
        view s' = splice pos (take k b) (view s)"
begin

lemma read_exact:
  assumes "readable s" "pos + n \<le> length (view s)"
  shows "read_exact_loop read_at s pos n = Inr (slice pos n (view s))"
  using assms
proof (induction n arbitrary: pos rule: less_induct)
  case (less n)
  show ?case
  proof (cases "n = 0")
    case True
    then show ?thesis by (simp add: read_exact_loop.simps slice_def)
  next
    case False
    with less.prems read_some [of s pos n] obtain k where k: "0 < k" "k \<le> n" "pos + k \<le> length (view s)"
      "read_at s pos n = Inr (slice pos k (view s))" by auto
    have len: "length (slice pos k (view s)) = k" using k by simp
    then have ne: "slice pos k (view s) \<noteq> []" using k(1) by (metis list.size(3) less_not_refl2)
    have "read_exact_loop read_at s (pos + k) (n - k) = Inr (slice (pos + k) (n - k) (view s))"
      using less.IH [of "n - k" "pos + k"] less.prems k False by simp
    then show ?thesis
      using False k ne len slice_append [of pos k "view s" "n - k"]
      by (subst read_exact_loop.simps) simp
  qed
qed

lemma read_exact_past_end:
  assumes "readable s" "length (view s) < pos + n" "0 < n"
  shows "read_exact_loop read_at s pos n = Inl IoUnexpectedEof"
  using assms
proof (induction n arbitrary: pos rule: less_induct)
  case (less n)
  show ?case
  proof (cases "length (view s) \<le> pos")
    case True
    then show ?thesis using less.prems read_end [of s pos n] by (subst read_exact_loop.simps) simp
  next
    case False
    with less.prems read_some [of s pos n] obtain k where k: "0 < k" "k \<le> n" "pos + k \<le> length (view s)"
      "read_at s pos n = Inr (slice pos k (view s))" by auto
    have len: "length (slice pos k (view s)) = k" using k by simp
    then have ne: "slice pos k (view s) \<noteq> []" using k(1) by (metis list.size(3) less_not_refl2)
    have "read_exact_loop read_at s (pos + k) (n - k) = Inl IoUnexpectedEof"
      using less.IH [of "n - k" "pos + k"] less.prems k by simp
    then show ?thesis using less.prems k ne len by (subst read_exact_loop.simps) simp
  qed
qed

lemma write_all:
  assumes "writable s" "pos \<le> length (view s)" "room (pos + length b)"
  shows "\<exists>s'. write_all_loop write_at s pos b = (Inr (), s') \<and> writable s' \<and> view s' = splice pos b (view s)"
  using assms
proof (induction "length b" arbitrary: b pos s rule: less_induct)
  case less
  show ?case
  proof (cases "b = []")
    case True
    with less.prems show ?thesis by (simp add: write_all_loop.simps)
  next
    case False
    with less.prems write_some [of s b pos] obtain k s1 where k: "0 < k" "k \<le> length b"
      "write_at s pos b = (Inr k, s1)" "writable s1" "view s1 = splice pos (take k b) (view s)" by auto
    have "pos + k \<le> length (view s1)" using k(2,5) less.prems(2) by simp
    then obtain s2 where s2: "write_all_loop write_at s1 (pos + k) (drop k b) = (Inr (), s2)" "writable s2"
      "view s2 = splice (pos + k) (drop k b) (view s1)"
      using less.hyps [of "drop k b" s1 "pos + k"] k False less.prems(3) by auto
    have "view s2 = splice pos b (view s)"
      using splice_append [of pos "view s" "take k b" "drop k b"] s2(3) k(2,5) less.prems(2) by simp
    with s2 k False show ?thesis by (subst write_all_loop.simps) simp
  qed
qed

end

end
