(* ===== verification/Storage.thy ===== *)
theory Storage
  imports Disk Externals
begin

text \<open>
  \<open>src/crates/chorrent/src/storage.rs\<close>: a share's bytes in ordinary files or
  in the encrypted store, one sealed slot per piece. Piece indexes and byte
  positions are \<open>u64\<close> in the source and natural numbers here; positions in the
  encrypted file are reduced modulo \<open>2^64\<close> as a release build does. An open
  \<open>File\<close> is the path it was opened at and the access it was opened for.
\<close>

definition MAGIC :: bytes where
  "MAGIC = bytes_of ''CHRENC01''"

definition HEADER :: nat where
  "HEADER = 8 + 16"

definition NONCE :: nat where
  "NONCE = 24"

definition TAG :: nat where
  "TAG = 16"

definition block :: nat where
  "block = 65536"

definition slot :: nat where
  "slot = NONCE + block + TAG"

text \<open>
  XChaCha20-Poly1305 (the crate \<open>chacha20poly1305\<close>): sealing and opening a
  message under a key, a nonce and associated data.
\<close>

record aead =
  seal :: "bytes \<Rightarrow> bytes \<Rightarrow> bytes \<Rightarrow> bytes \<Rightarrow> bytes option"
  unseal :: "bytes \<Rightarrow> bytes \<Rightarrow> bytes \<Rightarrow> bytes \<Rightarrow> bytes option"

text \<open>
  Its contract for messages of up to a block: sealing succeeds and adds the
  tag, opening gives the message back, and what opens is a tag longer than
  the message.
\<close>

definition aead_ok :: "aead \<Rightarrow> bool" where
  "aead_ok A \<longleftrightarrow>
     (\<forall>k n a p. length p \<le> block \<longrightarrow>
        (\<exists>c. seal A k n a p = Some c \<and> length c = length p + TAG \<and> unseal A k n a c = Some p)) \<and>
     (\<forall>k n a c p. unseal A k n a c = Some p \<longrightarrow> length c = length p + TAG)"

definition u64_to_le_bytes :: "nat \<Rightarrow> bytes" where
  "u64_to_le_bytes n = map (\<lambda>i. word_of_nat (n div 256 ^ i)) [0..<8]"

subsection \<open>Keys and file data\<close>

datatype master_key = MasterKey bytes

fun derive :: "blake3 \<Rightarrow> master_key \<Rightarrow> str \<Rightarrow> bytes" where
  "derive h (MasterKey k) context = derive_key h context k"

fun file_key :: "blake3 \<Rightarrow> master_key \<Rightarrow> bytes \<Rightarrow> bytes" where
  "file_key h (MasterKey k) salt = derive_key h ''chorrent encrypted store v1 file key'' (k @ salt)"

datatype file_data =
    Plain path
  | Encrypted path master_key nat

fun data_path :: "file_data \<Rightarrow> path" where
  "data_path (Plain path) = path"
| "data_path (Encrypted path key sz) = path"

fun is_encrypted :: "file_data \<Rightarrow> bool" where
  "is_encrypted (Plain path) = False"
| "is_encrypted (Encrypted path key sz) = True"

definition detect :: "path \<Rightarrow> master_key option \<Rightarrow> nat \<Rightarrow> world \<Rightarrow> io_error + file_data" where
  "detect path key sz w =
     (let is_ours = (case open_file (open_options\<lparr>oo_read := True\<rparr>) path w of
            Inl e \<Rightarrow> False
          | Inr w \<Rightarrow> pread_exact path 0 8 w = Inr MAGIC) in
      if \<not> is_ours then Inr (Plain path)
      else case key of
        Some key \<Rightarrow> Inr (Encrypted path key sz)
      | None \<Rightarrow> Inl IoPermissionDenied)"

definition ensure_parent :: "path \<Rightarrow> world \<Rightarrow> io_error + unit" where
  "ensure_parent path w = (case path_parent path of None \<Rightarrow> Inr () | Some parent \<Rightarrow> create_dir_all parent w)"

fun data_preallocate :: "file_data \<Rightarrow> world \<Rightarrow> io_error + world" where
  "data_preallocate (Plain path) w =
     bind_result (ensure_parent path w) (\<lambda>_.
     open_file (open_options\<lparr>oo_write := True, oo_create := True\<rparr>) path w)"
| "data_preallocate (Encrypted path key sz) w =
     bind_result (ensure_parent path w) (\<lambda>_.
     if (case file_len path w of None \<Rightarrow> False | Some n \<Rightarrow> n \<ge> HEADER) then Inr w
     else
       (let (salt, w1) = draw 16 w; header = MAGIC @ salt in
        bind_result (open_file (open_options\<lparr>oo_write := True, oo_create := True, oo_truncate := True\<rparr>) path w1)
          (\<lambda>w2. Inr (put_file path
             (set_len ((HEADER + div_ceil sz block * slot) mod 2 ^ 64) (splice 0 header (file_content path w2))) w2))))"

subsection \<open>Handles\<close>

record os_file =
  fh_path :: path
  fh_read :: bool
  fh_write :: bool

definition file_read_at :: "os_file \<Rightarrow> nat \<Rightarrow> nat \<Rightarrow> world \<Rightarrow> io_error + bytes" where
  "file_read_at f pos n w = (if fh_read f then Inr (pread (fh_path f) pos n w) else Inl IoOther)"

definition file_read_exact :: "os_file \<Rightarrow> nat \<Rightarrow> nat \<Rightarrow> world \<Rightarrow> io_error + bytes" where
  "file_read_exact f pos n w = (if fh_read f then pread_exact (fh_path f) pos n w else Inl IoOther)"

definition file_write :: "os_file \<Rightarrow> nat \<Rightarrow> bytes \<Rightarrow> world \<Rightarrow> (io_error + nat) \<times> world" where
  "file_write f pos b w =
     (if fh_write f then (Inr (length b), pwrite (fh_path f) pos b w) else (Inl IoOther, w))"

record encrypted =
  en_file :: os_file
  en_cipher :: bytes
  en_size :: nat
  en_strict :: bool

datatype handle =
    PlainHandle os_file
  | EncHandle encrypted

definition open_with :: "blake3 \<Rightarrow> bool \<Rightarrow> bool \<Rightarrow> file_data \<Rightarrow> world \<Rightarrow> io_error + handle" where
  "open_with h wr strict d w =
     (case d of
        Plain path \<Rightarrow>
          bind_result (open_file (open_options\<lparr>oo_read := \<not> wr, oo_write := wr\<rparr>) path w)
            (\<lambda>_. Inr (PlainHandle \<lparr>fh_path = path, fh_read = \<not> wr, fh_write = wr\<rparr>))
      | Encrypted path key sz \<Rightarrow>
          bind_result (open_file (open_options\<lparr>oo_read := True, oo_write := wr\<rparr>) path w) (\<lambda>w1.
          bind_result (pread_exact path 0 HEADER w1) (\<lambda>header.
          if take 8 header \<noteq> MAGIC then Inl IoInvalidData
          else Inr (EncHandle \<lparr>en_file = \<lparr>fh_path = path, fh_read = True, fh_write = wr\<rparr>,
             en_cipher = file_key h key (drop 8 header), en_size = sz, en_strict = strict\<rparr>))))"

definition open_data :: "blake3 \<Rightarrow> bool \<Rightarrow> file_data \<Rightarrow> world \<Rightarrow> io_error + handle" where
  "open_data h wr d w = open_with h wr False d w"

definition open_strict :: "blake3 \<Rightarrow> file_data \<Rightarrow> world \<Rightarrow> io_error + handle" where
  "open_strict h d w = open_with h False True d w"

definition block_len :: "encrypted \<Rightarrow> nat \<Rightarrow> nat" where
  "block_len e index = min (en_size e - index * block) block"

definition slot_at :: "nat \<Rightarrow> nat" where
  "slot_at index = (HEADER + index * slot) mod 2 ^ 64"

definition block_written :: "aead \<Rightarrow> encrypted \<Rightarrow> world \<Rightarrow> nat \<Rightarrow> bool" where
  "block_written A e w index =
     (case file_read_exact (en_file e) (slot_at index) (NONCE + block_len e index + TAG) w of
        Inl _ \<Rightarrow> False
      | Inr sealed \<Rightarrow>
          (let nonce = take NONCE sealed; ciphertext = drop NONCE sealed in
           if list_all (\<lambda>b. b = 0) nonce then False
           else unseal A (en_cipher e) nonce (u64_to_le_bytes index) ciphertext \<noteq> None))"

definition unreadable :: "encrypted \<Rightarrow> nat \<Rightarrow> io_error + bytes" where
  "unreadable e index = (if en_strict e then Inl IoInvalidData else Inr (replicate (block_len e index) 0))"

definition read_block :: "aead \<Rightarrow> encrypted \<Rightarrow> world \<Rightarrow> nat \<Rightarrow> io_error + bytes" where
  "read_block A e w index =
     (case file_read_exact (en_file e) (slot_at index) (NONCE + block_len e index + TAG) w of
        Inl _ \<Rightarrow> unreadable e index
      | Inr sealed \<Rightarrow>
          (let nonce = take NONCE sealed; ciphertext = drop NONCE sealed in
           if list_all (\<lambda>b. b = 0) nonce then unreadable e index
           else case unseal A (en_cipher e) nonce (u64_to_le_bytes index) ciphertext of
             Some plain \<Rightarrow> Inr plain
           | None \<Rightarrow> unreadable e index))"

definition write_block :: "aead \<Rightarrow> encrypted \<Rightarrow> world \<Rightarrow> nat \<Rightarrow> bytes \<Rightarrow> (io_error + unit) \<times> world" where
  "write_block A e w index plain =
     (let (nonce, w1) = draw NONCE w in
      case seal A (en_cipher e) nonce (u64_to_le_bytes index) plain of
        None \<Rightarrow> (Inl IoOther, w1)
      | Some ciphertext \<Rightarrow>
          (case file_write (en_file e) (slot_at index) (nonce @ ciphertext) w1 of
             (r, w2) \<Rightarrow> (bind_result r (\<lambda>_. Inr ()), w2)))"

definition handle_read_at :: "aead \<Rightarrow> handle \<Rightarrow> world \<Rightarrow> nat \<Rightarrow> nat \<Rightarrow> io_error + bytes" where
  "handle_read_at A hnd w pos n =
     (case hnd of
        PlainHandle file \<Rightarrow> file_read_at file pos n w
      | EncHandle e \<Rightarrow>
          if pos \<ge> en_size e \<or> n = 0 then Inr []
          else bind_result (read_block A e w (pos div block)) (\<lambda>plain.
            Inr (slice (pos mod block) (min n (length plain - pos mod block)) plain)))"

definition handle_write_at :: "aead \<Rightarrow> handle \<Rightarrow> world \<Rightarrow> nat \<Rightarrow> bytes \<Rightarrow> (io_error + nat) \<times> world" where
  "handle_write_at A hnd w pos buf =
     (case hnd of
        PlainHandle file \<Rightarrow> file_write file pos buf w
      | EncHandle e \<Rightarrow>
          if pos \<ge> en_size e \<or> buf = [] then (Inl IoInvalidInput, w)
          else
            (let index = pos div block; within = pos mod block; len = block_len e index;
                 n = min (length buf) (len - within) in
             if within = 0 \<and> n = len then
               (case write_block A e w index (take n buf) of (r, w1) \<Rightarrow> (bind_result r (\<lambda>_. Inr n), w1))
             else
               (case read_block A e w index of
                  Inl err \<Rightarrow> (Inl err, w)
                | Inr plain \<Rightarrow>
                    (case write_block A e w index (splice within (take n buf) plain) of
                       (r, w1) \<Rightarrow> (bind_result r (\<lambda>_. Inr n), w1)))))"

definition handle_read_exact :: "aead \<Rightarrow> handle \<Rightarrow> world \<Rightarrow> nat \<Rightarrow> nat \<Rightarrow> io_error + bytes" where
  "handle_read_exact A hnd w pos n = read_exact_loop (handle_read_at A hnd) w pos n"

definition handle_write_all :: "aead \<Rightarrow> handle \<Rightarrow> world \<Rightarrow> nat \<Rightarrow> bytes \<Rightarrow> (io_error + unit) \<times> world" where
  "handle_write_all A hnd w pos buf = write_all_loop (handle_write_at A hnd) w pos buf"

definition written_pieces :: "blake3 \<Rightarrow> aead \<Rightarrow> file_data \<Rightarrow> world \<Rightarrow> io_error + bool list option" where
  "written_pieces h A d w =
     (case d of
        Plain _ \<Rightarrow> Inr None
      | Encrypted _ _ sz \<Rightarrow>
          bind_result (open_data h False d w) (\<lambda>hnd.
            case hnd of
              EncHandle e \<Rightarrow> Inr (Some (map (block_written A e w) [0..<div_ceil sz block]))
            | PlainHandle _ \<Rightarrow> Inl IoOther))"

subsection \<open>Reading in order, and importing\<close>

record seq_reader =
  sr_handle :: handle
  sr_pos :: nat

definition seq_read :: "aead \<Rightarrow> world \<Rightarrow> nat \<Rightarrow> seq_reader \<Rightarrow> io_error + bytes \<times> seq_reader" where
  "seq_read A w n r =
     bind_result (handle_read_at A (sr_handle r) w (sr_pos r) n) (\<lambda>b.
     Inr (b, r\<lparr>sr_pos := sr_pos r + length b\<rparr>))"

text \<open>
  The importing reader: its source has already been read up to the bytes the
  caller passes on; \<open>import_read\<close> takes the bytes one read of the source gave.
\<close>

record importing_reader =
  ir_dest :: handle
  ir_pending :: bytes
  ir_written :: nat

definition import_new :: "blake3 \<Rightarrow> file_data \<Rightarrow> world \<Rightarrow> io_error + importing_reader \<times> world" where
  "import_new h dest w =
     bind_result (data_preallocate dest w) (\<lambda>w1.
     bind_result (open_data h True dest w1) (\<lambda>hnd.
     Inr (\<lparr>ir_dest = hnd, ir_pending = [], ir_written = 0\<rparr>, w1)))"

definition import_read :: "aead \<Rightarrow> bytes \<Rightarrow> importing_reader \<Rightarrow> world \<Rightarrow> (io_error + importing_reader) \<times> world" where
  "import_read A got r w =
     (let pending = ir_pending r @ got; whole = length pending div block * block in
      if whole > 0 then
        (case handle_write_all A (ir_dest r) w (ir_written r) (take whole pending) of
           (Inl e, w1) \<Rightarrow> (Inl e, w1)
         | (Inr _, w1) \<Rightarrow>
             (Inr (r\<lparr>ir_pending := drop whole pending, ir_written := ir_written r + whole\<rparr>), w1))
      else (Inr (r\<lparr>ir_pending := pending\<rparr>), w))"

definition import_finish :: "aead \<Rightarrow> importing_reader \<Rightarrow> world \<Rightarrow> (io_error + nat) \<times> world" where
  "import_finish A r w =
     (if ir_pending r \<noteq> [] then
        (case handle_write_all A (ir_dest r) w (ir_written r) (ir_pending r) of
           (Inl e, w1) \<Rightarrow> (Inl e, w1)
         | (Inr _, w1) \<Rightarrow> (Inr (ir_written r + length (ir_pending r)), w1))
      else (Inr (ir_written r), w))"

end
