(* ===== verification/Storage_Contract.thy ===== *)
theory Storage_Contract
  imports Storage
begin

text \<open>
  What storage promises: a handle, plain or encrypted, is a positioned byte
  store; the sealed slots of an encrypted file do not overlap; a piece that
  was written reads back and is reported as written; importing stores exactly
  the bytes that are hashed.
\<close>

subsection \<open>Bytes cut into blocks\<close>

lemma block_pos [simp]: "0 < block"
  by (simp add: block_def)

lemma concat_blocks:
  assumes "\<And>i. i < n \<Longrightarrow> length (f i) = min (sz - i * block) block"
  shows "length (concat (map f [0..<n])) = min sz (n * block)"
    and "j < min sz (n * block) \<Longrightarrow> concat (map f [0..<n]) ! j = f (j div block) ! (j mod block)"
proof -
  have "length (concat (map f [0..<n])) = min sz (n * block) \<and>
    (\<forall>j < min sz (n * block). concat (map f [0..<n]) ! j = f (j div block) ! (j mod block))"
    using assms
  proof (induction n)
    case (Suc n)
    then have IH: "length (concat (map f [0..<n])) = min sz (n * block)"
      "\<forall>j < min sz (n * block). concat (map f [0..<n]) ! j = f (j div block) ! (j mod block)"
      and fn: "length (f n) = min (sz - n * block) block" by simp_all
    have "concat (map f [0..<Suc n]) ! j = f (j div block) ! (j mod block)" if j: "j < min sz (Suc n * block)" for j
    proof (cases "j < n * block")
      case True
      with j IH show ?thesis by (simp add: nth_append)
    next
      case False
      then have d: "n * block \<le> sz" "j div block = n"
        using j by (auto intro!: div_nat_eqI simp: mult.commute)
      then have "j mod block = j - n * block" by (metis mult.commute minus_mult_div_eq_mod)
      with False IH(1) d show ?thesis by (simp add: nth_append)
    qed
    with IH(1) fn show ?case by auto
  qed simp
  then show "length (concat (map f [0..<n])) = min sz (n * block)"
    "j < min sz (n * block) \<Longrightarrow> concat (map f [0..<n]) ! j = f (j div block) ! (j mod block)" by blast+
qed

lemma div_ceil_block: "min sz (div_ceil sz block * block) = sz"
  using div_ceil_bounds(1) [of block sz] by simp

subsection \<open>The encrypted file as blocks\<close>

definition blocks :: "encrypted \<Rightarrow> nat" where
  "blocks e = div_ceil (en_size e) block"

definition block_view :: "aead \<Rightarrow> encrypted \<Rightarrow> world \<Rightarrow> nat \<Rightarrow> bytes" where
  "block_view A e w i = (case read_block A (e\<lparr>en_strict := False\<rparr>) w i of Inl _ \<Rightarrow> [] | Inr p \<Rightarrow> p)"

definition sized :: "encrypted \<Rightarrow> bool" where
  "sized e \<longleftrightarrow> HEADER + blocks e * slot < 2 ^ 64"

lemma block_len_le: "block_len e i \<le> block"
  by (simp add: block_len_def)

lemma slot_at_eq:
  assumes "sized e" "i < blocks e"
  shows "slot_at i = HEADER + i * slot"
proof -
  have "HEADER + i * slot < 2 ^ 64"
    using assms by (metis add_less_cancel_left less_trans mult_less_cancel2 sized_def slot_def add_gr_0 block_pos)
  then show ?thesis unfolding slot_at_def by (rule mod_less)
qed

lemma slot_fits:
  assumes "i < n"
  shows "HEADER + i * slot + (NONCE + block_len e i + TAG) \<le> HEADER + n * slot"
proof -
  have "NONCE + block_len e i + TAG \<le> slot" using block_len_le by (simp add: slot_def)
  moreover have "i * slot + slot \<le> n * slot" using assms by (metis Suc_leI add.commute mult_Suc mult_le_mono1)
  ultimately show ?thesis by linarith
qed

lemma slots_disjoint:
  assumes "i \<noteq> j"
  shows "HEADER + i * slot + (NONCE + block_len e i + TAG) \<le> HEADER + j * slot \<or>
    HEADER + j * slot + (NONCE + block_len e j + TAG) \<le> HEADER + i * slot"
  using slot_fits [of i j e] slot_fits [of j i e] assms by linarith

lemma file_read_exact_Inr:
  "file_read_exact f pos n w = Inr b \<longleftrightarrow> fh_read f \<and> pos + n \<le> length (file_content (fh_path f) w) \<and>
     b = slice pos n (file_content (fh_path f) w) \<or> n = 0 \<and> fh_read f \<and> b = []"
  by (auto simp: file_read_exact_def pread_exact_def pread_def slice_def min_def)

lemma unseal_length: "aead_ok A \<Longrightarrow> unseal A k n a c = Some p \<Longrightarrow> length c = length p + TAG"
  by (auto simp: aead_ok_def)

lemma sealed_ne: "NONCE + n + TAG \<noteq> 0"
  by (simp add: NONCE_def)

lemma read_block_length:
  assumes "aead_ok A" "read_block A e w i = Inr p"
  shows "length p = block_len e i"
  using assms unseal_length [OF assms(1)]
  by (fastforce simp: read_block_def unreadable_def Let_def file_read_exact_Inr NONCE_def TAG_def
      split: sum.splits if_splits option.splits)

lemma block_view_length:
  assumes "aead_ok A" shows "length (block_view A e w i) = block_len e i"
proof -
  have "read_block A (e\<lparr>en_strict := False\<rparr>) w i \<noteq> Inl err" for err
    by (auto simp: read_block_def unreadable_def Let_def split: sum.splits option.splits)
  then obtain p where p: "read_block A (e\<lparr>en_strict := False\<rparr>) w i = Inr p"
    by (cases "read_block A (e\<lparr>en_strict := False\<rparr>) w i") auto
  with read_block_length [OF assms p] show ?thesis by (simp add: block_view_def block_len_def)
qed

text \<open>Reading a block: in strict mode an error unless it was written, and its view otherwise.\<close>

lemma read_block_view:
  "read_block A e w i = (if en_strict e \<and> \<not> block_written A e w i then Inl IoInvalidData
     else Inr (block_view A e w i))"
  by (auto simp: read_block_def block_view_def block_written_def unreadable_def Let_def block_len_def
      split: sum.splits option.splits)

lemma block_view_unwritten:
  "\<not> block_written A e w i \<Longrightarrow> block_view A e w i = replicate (block_len e i) 0"
  by (auto simp: read_block_def block_view_def block_written_def unreadable_def Let_def block_len_def
      split: sum.splits option.splits)

text \<open>Blocks depend only on their slot of the file.\<close>

lemma block_same:
  assumes "result_ok (file_read_exact (en_file e) (slot_at i) (NONCE + block_len e i + TAG) w) =
    result_ok (file_read_exact (en_file e) (slot_at i) (NONCE + block_len e i + TAG) w')"
  shows "block_written A e w i = block_written A e w' i" "block_view A e w i = block_view A e w' i"
  using assms
  by (auto simp: read_block_def block_view_def block_written_def unreadable_def Let_def block_len_def
      split: sum.split option.split elim!: result_ok.elims)

subsection \<open>Writing a block\<close>

definition tape_ok :: "world \<Rightarrow> bool" where
  "tape_ok w \<longleftrightarrow> (\<forall>i. \<exists>j < NONCE. tape w (i + j) \<noteq> 0)"

definition enc_writable :: "aead \<Rightarrow> encrypted \<Rightarrow> world \<Rightarrow> bool" where
  "enc_writable A e w \<longleftrightarrow> aead_ok A \<and> sized e \<and> \<not> en_strict e \<and> fh_read (en_file e) \<and> fh_write (en_file e) \<and>
     HEADER + blocks e * slot \<le> length (file_content (fh_path (en_file e)) w) \<and> tape_ok w"

lemma tape_ok_draw: "tape_ok w \<Longrightarrow> tape_ok (snd (draw n w))"
  by (simp add: tape_ok_def) (metis add.assoc add.commute)

lemma tape_ok_put [simp]: "tape_ok (put_file p b w) = tape_ok w"
  by (simp add: tape_ok_def)

lemma drawn_nonce: "tape_ok w \<Longrightarrow> \<not> list_all (\<lambda>b. b = 0) (fst (draw NONCE w))"
  by (auto simp: tape_ok_def draw_def list_all_iff dest!: spec [of _ 0])

lemma write_block_ok:
  assumes e: "enc_writable A e w" and i: "i < blocks e" and p: "length p = block_len e i"
  shows "\<exists>w'. write_block A e w i p = (Inr (), w') \<and> enc_writable A e w' \<and>
    block_written A e w' i \<and> block_view A e w' i = p \<and>
    (\<forall>j < blocks e. j \<noteq> i \<longrightarrow> block_written A e w' j = block_written A e w j \<and>
       block_view A e w' j = block_view A e w j) \<and>
    (\<forall>p. p \<noteq> fh_path (en_file e) \<longrightarrow> files w' p = files w p) \<and> faults w' = faults w \<and>
    (\<forall>p. files w p \<noteq> None \<longrightarrow> files w' p \<noteq> None) \<and>
    length (file_content (fh_path (en_file e)) w') = length (file_content (fh_path (en_file e)) w) \<and>
    take HEADER (file_content (fh_path (en_file e)) w') = take HEADER (file_content (fh_path (en_file e)) w)"
proof -
  let ?f = "fh_path (en_file e)" and ?n = "NONCE + block_len e i + TAG"
  obtain nonce w1 where d: "draw NONCE w = (nonce, w1)" by fastforce
  then have d1: "nonce = fst (draw NONCE w)" "w1 = snd (draw NONCE w)" by simp_all
  have A: "aead_ok A" "sized e" using e by (simp_all add: enc_writable_def)
  obtain c where c: "seal A (en_cipher e) nonce (u64_to_le_bytes i) p = Some c" "length c = length p + TAG"
    "unseal A (en_cipher e) nonce (u64_to_le_bytes i) c = Some p"
    using A(1) p block_len_le [of e i] unfolding aead_ok_def by metis
  let ?c = "file_content ?f w"
  define w' where "w' = pwrite ?f (slot_at i) (nonce @ c) w1"
  have at: "slot_at j = HEADER + j * slot" if "j < blocks e" for j using slot_at_eq [OF A(2) that] .
  have nl: "length nonce = NONCE" using d1(1) by simp
  have len: "length (nonce @ c) = ?n" using nl c(2) p by simp
  have room: "slot_at j + (NONCE + block_len e j + TAG) \<le> length ?c" if "j < blocks e" for j
    using slot_fits [OF that, of e] e at [OF that] by (simp add: enc_writable_def)
  have content: "file_content ?f w' = splice (slot_at i) (nonce @ c) ?c"
    by (simp add: w'_def pwrite_def d1(2))
  have fit: "slot_at i + length (nonce @ c) \<le> length ?c" using room [OF i] len by simp
  have w: "write_block A e w i p = (Inr (), w')"
    using e c(1) d by (simp add: write_block_def enc_writable_def file_write_def w'_def)
  have lens: "length (file_content ?f w') = length ?c" using fit content by simp
  have "tape_ok w'" using tape_ok_draw [of w NONCE] e by (simp add: w'_def pwrite_def d1(2) enc_writable_def tape_ok_def)
  then have wr': "enc_writable A e w'" using e lens by (simp add: enc_writable_def)
  have rd: "fh_read (en_file e)" using e by (simp add: enc_writable_def)
  have "slice (slot_at i) ?n (file_content ?f w') = nonce @ c"
    using slice_splice_same [of "slot_at i" ?c "nonce @ c"] fit len content by simp
  then have own: "file_read_exact (en_file e) (slot_at i) ?n w' = Inr (nonce @ c)"
    using rd room [OF i] lens by (simp add: file_read_exact_Inr)
  have nz: "\<not> list_all (\<lambda>b. b = 0) nonce"
    using drawn_nonce [of w] e by (simp add: enc_writable_def d1(1))
  have "block_written A e w' i" "block_view A e w' i = p"
    using own nz c(3) nl by (simp_all add: block_written_def block_view_def read_block_def block_len_def)
  moreover have "block_written A e w' j = block_written A e w j \<and> block_view A e w' j = block_view A e w j"
    if j: "j < blocks e" "j \<noteq> i" for j
  proof -
    have "slice (slot_at j) (NONCE + block_len e j + TAG) (file_content ?f w') =
        slice (slot_at j) (NONCE + block_len e j + TAG) ?c"
      unfolding content using slots_disjoint [of j i e] at [OF j(1)] at [OF i] j(2) len fit
      by (intro slice_splice_other) auto
    then have "result_ok (file_read_exact (en_file e) (slot_at j) (NONCE + block_len e j + TAG) w') =
        result_ok (file_read_exact (en_file e) (slot_at j) (NONCE + block_len e j + TAG) w)"
      using lens by (simp add: file_read_exact_def pread_exact_def pread_def)
    from block_same [OF this, of A] show ?thesis by blast
  qed
  moreover have "take HEADER (file_content ?f w') = take HEADER ?c"
    unfolding content using fit at [OF i] by (simp add: splice_def min_def)
  moreover have "(\<forall>p. p \<noteq> ?f \<longrightarrow> files w' p = files w p) \<and> faults w' = faults w \<and>
      (\<forall>p. files w p \<noteq> None \<longrightarrow> files w' p \<noteq> None)"
    by (simp add: w'_def pwrite_def d1(2))
  ultimately show ?thesis using w wr' lens by blast
qed


subsection \<open>Handles are positioned byte stores\<close>

definition enc_view :: "aead \<Rightarrow> encrypted \<Rightarrow> world \<Rightarrow> bytes" where
  "enc_view A e w = concat (map (block_view A e w) [0..<blocks e])"

definition handle_view :: "aead \<Rightarrow> handle \<Rightarrow> world \<Rightarrow> bytes" where
  "handle_view A hnd w = (case hnd of PlainHandle f \<Rightarrow> file_content (fh_path f) w | EncHandle e \<Rightarrow> enc_view A e w)"

definition handle_readable :: "aead \<Rightarrow> handle \<Rightarrow> world \<Rightarrow> bool" where
  "handle_readable A hnd w = (case hnd of PlainHandle f \<Rightarrow> fh_read f
     | EncHandle e \<Rightarrow> aead_ok A \<and> (en_strict e \<longrightarrow> (\<forall>i < blocks e. block_written A e w i)))"

definition handle_writable :: "aead \<Rightarrow> handle \<Rightarrow> world \<Rightarrow> bool" where
  "handle_writable A hnd w = (case hnd of PlainHandle f \<Rightarrow> fh_write f | EncHandle e \<Rightarrow> enc_writable A e w)"

lemma enc_view_nth:
  assumes "aead_ok A"
  shows "length (enc_view A e w) = en_size e"
    and "j < en_size e \<Longrightarrow> enc_view A e w ! j = block_view A e w (j div block) ! (j mod block)"
  unfolding enc_view_def blocks_def
  using concat_blocks [of "div_ceil (en_size e) block" "block_view A e w" "en_size e"]
    div_ceil_block [of "en_size e"] block_view_length [OF assms, of e w]
  by (simp_all add: block_len_def)

lemma block_of_pos: "pos < en_size e \<Longrightarrow> pos div block < blocks e"
  unfolding blocks_def using less_div_ceil_iff [of block "pos div block" "en_size e"]
    div_times_less_eq_dividend [of pos block] by simp

lemma within_block: "pos < en_size e \<Longrightarrow> pos mod block < block_len e (pos div block)"
  unfolding block_len_def
  using div_mult_mod_eq [of pos block] mod_less_divisor [of block pos] by (simp add: less_diff_conv add.commute)

lemma same_block:
  assumes "p div block * block + p mod block \<le> j" "j < p div block * block + block"
  shows "j div block = p div block"
proof -
  have "p div block * block \<le> j" using assms(1) by linarith
  with assms(2) show ?thesis by (intro div_nat_eqI) (simp_all only: mult.commute mult_Suc_right add.commute)
qed

lemma enc_view_slice:
  assumes "aead_ok A" "pos < en_size e" "k \<le> block_len e (pos div block) - pos mod block"
  shows "slice (pos mod block) k (block_view A e w (pos div block)) = slice pos k (enc_view A e w)"
    and "pos + k \<le> en_size e"
proof -
  let ?i = "pos div block" and ?m = "pos mod block"
  have m: "?m + k \<le> block_len e ?i" using assms(3) within_block [OF assms(2)] by linarith
  have pos: "pos = ?i * block + ?m" by simp
  have "block_len e ?i \<le> en_size e - ?i * block" by (simp add: block_len_def)
  with m pos assms(2) show le: "pos + k \<le> en_size e" by linarith
  have "enc_view A e w ! (pos + j) = block_view A e w ?i ! (?m + j)" if "j < k" for j
  proof -
    have d: "(pos + j) div block = ?i"
      using that m block_len_le [of e ?i] pos by (intro same_block) linarith+
    then have "(pos + j) mod block = ?m + j"
      using pos by (metis add.assoc add_left_cancel div_mult_mod_eq)
    with d show ?thesis using enc_view_nth(2) [OF assms(1), of "pos + j" e w] that le by simp
  qed
  then show "slice ?m k (block_view A e w ?i) = slice pos k (enc_view A e w)"
    using m le block_view_length [OF assms(1)] enc_view_nth(1) [OF assms(1)]
    by (intro nth_equalityI) simp_all
qed

text \<open>Replacing one block of the view is splicing it into the bytes.\<close>

lemma enc_view_splice:
  assumes "aead_ok A" "pos < en_size e" "n \<le> block_len e (pos div block) - pos mod block"
    and "length b = n"
    and "block_view A e w' (pos div block) = splice (pos mod block) b (block_view A e w (pos div block))"
    and "\<And>j. j < blocks e \<Longrightarrow> j \<noteq> pos div block \<Longrightarrow> block_view A e w' j = block_view A e w j"
  shows "enc_view A e w' = splice pos b (enc_view A e w)"
proof (rule nth_equalityI)
  let ?i = "pos div block" and ?m = "pos mod block"
  have m: "?m + n \<le> block_len e ?i" using assms(3) within_block [OF assms(2)] by linarith
  have le: "pos + n \<le> en_size e" using enc_view_slice(2) [OF assms(1-3)] .
  note len = enc_view_nth(1) [OF assms(1)]
  show "length (enc_view A e w') = length (splice pos b (enc_view A e w))"
    using le assms(4) by (simp add: len)
  fix j assume "j < length (enc_view A e w')"
  then have j: "j < en_size e" by (simp add: len)
  have eq: "enc_view A e w' ! j = block_view A e w' (j div block) ! (j mod block)"
    "enc_view A e w ! j = block_view A e w (j div block) ! (j mod block)"
    using enc_view_nth(2) [OF assms(1) j] by blast+
  show "enc_view A e w' ! j = splice pos b (enc_view A e w) ! j"
  proof (cases "j div block = ?i")
    case True
    have jm: "j = ?i * block + j mod block" "pos = ?i * block + ?m" using True by (metis div_mult_mod_eq)+
    then have iff: "pos \<le> j \<longleftrightarrow> ?m \<le> j mod block" "j < pos + n \<longleftrightarrow> j mod block < ?m + n" "j - pos = j mod block - ?m"
      by linarith+
    have "j mod block < block_len e ?i" using within_block [OF j] True by simp
    then show ?thesis
      unfolding eq(1) True assms(5)
      using m assms(4) le iff j eq(2) True block_view_length [OF assms(1), of e w ?i]
      by (simp add: nth_splice len)
  next
    case False
    have "\<not> (pos \<le> j \<and> j < pos + n)"
    proof
      assume in_range: "pos \<le> j \<and> j < pos + n"
      have "j div block = ?i"
        using in_range m block_len_le [of e ?i] by (intro same_block) (simp, metis add.assoc add_less_le_mono
          div_mult_mod_eq le_eq_less_or_eq less_le_trans nat_add_left_cancel_le)
      with False show False by simp
    qed
    then show ?thesis
      using eq assms(6) [OF block_of_pos [OF j] False] j le assms(4) by (auto simp: nth_splice len)
  qed
qed

lemma enc_read_some:
  assumes "handle_readable A (EncHandle e) w" "pos < en_size e" "0 < n"
  shows "\<exists>k. 0 < k \<and> k \<le> n \<and> pos + k \<le> en_size e \<and>
    handle_read_at A (EncHandle e) w pos n = Inr (slice pos k (enc_view A e w))"
proof -
  let ?k = "min n (block_len e (pos div block) - pos mod block)"
  have A: "aead_ok A" and wr: "en_strict e \<longrightarrow> block_written A e w (pos div block)"
    using assms(1) block_of_pos [OF assms(2)] by (auto simp: handle_readable_def)
  have rb: "read_block A e w (pos div block) = Inr (block_view A e w (pos div block))"
    using wr by (auto simp: read_block_view)
  have "0 < ?k" using assms(3) within_block [OF assms(2)] by simp
  moreover have "handle_read_at A (EncHandle e) w pos n = Inr (slice pos ?k (enc_view A e w))"
    using assms(2,3) rb enc_view_slice(1) [OF A assms(2), of ?k w] block_view_length [OF A]
    by (simp add: handle_read_at_def)
  ultimately show ?thesis using enc_view_slice(2) [OF A assms(2), of ?k] by (intro exI [of _ ?k]) simp
qed

fun handle_file :: "handle \<Rightarrow> os_file" where
  "handle_file (PlainHandle f) = f"
| "handle_file (EncHandle e) = en_file e"

definition handle_room :: "handle \<Rightarrow> nat \<Rightarrow> bool" where
  "handle_room hnd n = (case hnd of PlainHandle _ \<Rightarrow> True | EncHandle e \<Rightarrow> n \<le> en_size e)"

text \<open>
  What writing through a handle leaves alone: the other files, that files
  exist, the system's answers, and, of an encrypted file, its header, its
  length and that blocks once written stay written.
\<close>

definition touched :: "aead \<Rightarrow> handle \<Rightarrow> world \<Rightarrow> world \<Rightarrow> bool" where
  "touched A hnd w w' \<longleftrightarrow>
     (\<forall>p. p \<noteq> fh_path (handle_file hnd) \<longrightarrow> files w' p = files w p) \<and> faults w' = faults w \<and>
     (\<forall>p. files w p \<noteq> None \<longrightarrow> files w' p \<noteq> None) \<and> (tape_ok w \<longrightarrow> tape_ok w') \<and>
     (case hnd of PlainHandle _ \<Rightarrow> True
      | EncHandle e \<Rightarrow>
          length (file_content (fh_path (en_file e)) w') = length (file_content (fh_path (en_file e)) w) \<and>
          take HEADER (file_content (fh_path (en_file e)) w') = take HEADER (file_content (fh_path (en_file e)) w) \<and>
          (\<forall>i < blocks e. block_written A e w i \<longrightarrow> block_written A e w' i))"

lemma touched_refl [simp]: "touched A hnd w w"
  by (auto simp: touched_def split: handle.split)

lemma touched_trans: "touched A hnd w w' \<Longrightarrow> touched A hnd w' w'' \<Longrightarrow> touched A hnd w w''"
  by (auto simp: touched_def split: handle.splits)

lemma enc_write_some:
  assumes "enc_writable A e w" "b \<noteq> []" "pos + length b \<le> en_size e"
  shows "\<exists>k w'. handle_write_at A (EncHandle e) w pos b = (Inr k, w') \<and> 0 < k \<and> k \<le> length b \<and>
    enc_writable A e w' \<and> enc_view A e w' = splice pos (take k b) (enc_view A e w) \<and>
    touched A (EncHandle e) w w' \<and> block_written A e w' (pos div block)"
proof -
  let ?i = "pos div block" and ?m = "pos mod block"
  define n where "n = min (length b) (block_len e ?i - ?m)"
  define p where "p = splice ?m (take n b) (block_view A e w ?i)"
  have A: "aead_ok A" "\<not> en_strict e" using assms(1) by (simp_all add: enc_writable_def)
  have pos: "pos < en_size e" using assms(2,3) by (cases b) auto
  note i = block_of_pos [OF pos] and m = within_block [OF pos]
  have n: "0 < n" "n \<le> length b" "n \<le> block_len e ?i - ?m" "length (take n b) = n"
    using assms(2) m by (simp_all add: n_def)
  have lb: "length (block_view A e w ?i) = block_len e ?i" by (rule block_view_length [OF A(1)])
  have lp: "length p = block_len e ?i" unfolding p_def using n(3,4) m lb by simp
  obtain w' where w': "write_block A e w ?i p = (Inr (), w')" "enc_writable A e w'" "block_written A e w' ?i"
    "block_view A e w' ?i = p"
    "\<forall>j < blocks e. j \<noteq> ?i \<longrightarrow> block_written A e w' j = block_written A e w j \<and> block_view A e w' j = block_view A e w j"
    and frame: "\<forall>p. p \<noteq> fh_path (en_file e) \<longrightarrow> files w' p = files w p" "faults w' = faults w"
    "\<forall>p. files w p \<noteq> None \<longrightarrow> files w' p \<noteq> None"
    "length (file_content (fh_path (en_file e)) w') = length (file_content (fh_path (en_file e)) w)"
    "take HEADER (file_content (fh_path (en_file e)) w') = take HEADER (file_content (fh_path (en_file e)) w)"
    using write_block_ok [OF assms(1) i lp] by blast
  have "block_written A e w' j" if "j < blocks e" "block_written A e w j" for j
    using w'(3,5) that by (cases "j = ?i") auto
  moreover have "tape_ok w'" using w'(2) by (simp add: enc_writable_def)
  ultimately have touched: "touched A (EncHandle e) w w'" using frame by (simp add: touched_def)
  have rb: "read_block A e w ?i = Inr (block_view A e w ?i)" using A(2) by (simp add: read_block_view)
  have whole: "p = take n b" if "?m = 0" "n = block_len e ?i"
    unfolding p_def using that n(4) lb by (simp add: splice_all)
  have open_pos: "\<not> (pos \<ge> en_size e \<or> b = [])" using pos assms(2) by simp
  have "handle_write_at A (EncHandle e) w pos b = (Inr n, w')"
  proof (cases "?m = 0 \<and> n = block_len e ?i")
    case True
    then have "write_block A e w ?i (take n b) = (Inr (), w')" using whole w'(1) by simp
    then show ?thesis
      unfolding handle_write_at_def handle.case if_not_P [OF open_pos] Let_def n_def [symmetric] if_P [OF True] by simp
  next
    case False
    then show ?thesis
      unfolding handle_write_at_def handle.case if_not_P [OF open_pos] Let_def n_def [symmetric] if_not_P [OF False] rb
      using w'(1) by (simp add: p_def)
  qed
  moreover have "enc_view A e w' = splice pos (take n b) (enc_view A e w)"
    using w'(4,5) n(3,4) by (intro enc_view_splice [OF A(1) pos]) (auto simp: p_def)
  ultimately show ?thesis using n w' touched by blast
qed

interpretation stored: positioned "handle_read_at A hnd" "handle_write_at A hnd" "handle_view A hnd"
  "handle_readable A hnd" "\<lambda>w. handle_writable A hnd w \<and> touched A hnd w0 w" "handle_room hnd" for A hnd w0
proof
  fix s pos n
  assume r: "handle_readable A hnd s" and n: "0 < (n :: nat)" and pos: "pos < length (handle_view A hnd s)"
  show "\<exists>k. 0 < k \<and> k \<le> n \<and> pos + k \<le> length (handle_view A hnd s) \<and>
      handle_read_at A hnd s pos n = Inr (slice pos k (handle_view A hnd s))"
  proof (cases hnd)
    case (PlainHandle f)
    let ?k = "min n (length (file_content (fh_path f) s) - pos)"
    have "slice pos n (file_content (fh_path f) s) = slice pos ?k (file_content (fh_path f) s)"
      by (simp add: slice_def min_def)
    with PlainHandle r n pos show ?thesis
      by (intro exI [of _ ?k]) (auto simp: handle_view_def handle_read_at_def handle_readable_def file_read_at_def pread_def)
  next
    case (EncHandle e)
    with r have "aead_ok A" by (simp add: handle_readable_def)
    with EncHandle enc_read_some [of A e s pos n] r n pos show ?thesis
      by (simp add: handle_view_def enc_view_nth)
  qed
next
  fix s pos n
  assume "handle_readable A hnd s" "length (handle_view A hnd s) \<le> pos"
  then show "handle_read_at A hnd s pos n = Inr []"
    by (cases hnd) (auto simp: handle_view_def handle_read_at_def handle_readable_def file_read_at_def pread_def
        slice_def enc_view_nth)
next
  fix s :: world and b :: bytes and pos
  assume w: "handle_writable A hnd s \<and> touched A hnd w0 s" and b: "b \<noteq> []"
    and pos: "pos \<le> length (handle_view A hnd s)" "handle_room hnd (pos + length b)"
  show "\<exists>k s'. handle_write_at A hnd s pos b = (Inr k, s') \<and> 0 < k \<and> k \<le> length b \<and>
      (handle_writable A hnd s' \<and> touched A hnd w0 s') \<and>
      handle_view A hnd s' = splice pos (take k b) (handle_view A hnd s)"
  proof (cases hnd)
    case (PlainHandle f)
    with w b show ?thesis
      by (auto simp: handle_view_def handle_write_at_def handle_writable_def file_write_def pwrite_def
          touched_def)
  next
    case (EncHandle e)
    with w have "enc_writable A e s" "aead_ok A" "touched A hnd w0 s" by (simp_all add: handle_writable_def enc_writable_def)
    with EncHandle enc_write_some [of A e s b pos] b pos show ?thesis
      by (force simp: handle_view_def handle_writable_def handle_room_def enc_view_nth intro: touched_trans)
  qed
qed


lemma handle_write_all_ok:
  assumes "handle_writable A hnd w" "pos \<le> length (handle_view A hnd w)" "handle_room hnd (pos + length b)"
  shows "\<exists>w'. handle_write_all A hnd w pos b = (Inr (), w') \<and> handle_writable A hnd w' \<and> touched A hnd w w' \<and>
    handle_view A hnd w' = splice pos b (handle_view A hnd w)"
  using stored.write_all [of A hnd w w pos b] assms by (auto simp: handle_write_all_def)

text \<open>Every block that a write reaches counts as written afterwards.\<close>

lemma handle_write_all_written:
  assumes "handle_writable A (EncHandle e) w" "pos + length b \<le> en_size e"
    and "handle_write_all A (EncHandle e) w pos b = (Inr (), w')"
    and "pos \<le> j" "j < pos + length b"
  shows "block_written A e w' (j div block)"
  using assms
proof (induction "length b" arbitrary: b pos w rule: less_induct)
  case less
  then have ne: "b \<noteq> []" by auto
  have ew: "enc_writable A e w" "aead_ok A" using less.prems(1) by (simp_all add: handle_writable_def enc_writable_def)
  from enc_write_some [OF this(1) ne less.prems(2)] obtain k w1 where
    k: "handle_write_at A (EncHandle e) w pos b = (Inr k, w1)" "0 < k" "k \<le> length b" "enc_writable A e w1"
    "block_written A e w1 (pos div block)"
    "enc_view A e w1 = splice pos (take k b) (enc_view A e w)"
    by blast
  have step: "handle_write_all A (EncHandle e) w pos b = handle_write_all A (EncHandle e) w1 (pos + k) (drop k b)"
    using ne k(1,2) by (simp add: handle_write_all_def write_all_loop.simps [of _ w])
  have w1: "handle_writable A (EncHandle e) w1" using k(4) by (simp add: handle_writable_def)
  have rest: "handle_write_all A (EncHandle e) w1 (pos + k) (drop k b) = (Inr (), w')"
    using less.prems(3) step by simp
  show ?case
  proof (cases "pos + k \<le> j")
    case True
    with less.hyps [of "drop k b" w1 "pos + k"] less.prems k(2,3) rest w1 ne show ?thesis by auto
  next
    case False
    have "k \<le> block_len e (pos div block) - pos mod block"
      using k(1) ne less.prems(2) by (auto simp: handle_write_at_def Let_def bind_result_Inr
          split: if_splits prod.splits sum.splits)
    moreover have "pos mod block < block_len e (pos div block)"
      using ne less.prems(2) by (intro within_block) (cases b, auto)
    moreover have "pos = pos div block * block + pos mod block" by simp
    ultimately have "j < pos div block * block + block"
      using False block_len_le [of e "pos div block"] by linarith
    then have "j div block = pos div block" using less.prems(4) by (intro same_block) simp_all
    moreover have "touched A (EncHandle e) w1 w'"
      using handle_write_all_ok [OF w1, of "pos + k" "drop k b"] rest less.prems(2) k(3) ew(2)
      by (auto simp: handle_view_def enc_view_nth handle_room_def)
    moreover have "pos div block < blocks e" using block_of_pos [of pos e] ne less.prems(2) by (cases b) auto
    ultimately show ?thesis using k(5) by (simp add: touched_def)
  qed
qed

lemma handle_read_exact_ok:
  assumes "handle_readable A hnd w"
  shows "handle_read_exact A hnd w pos n =
    (if pos + n \<le> length (handle_view A hnd w) then Inr (slice pos n (handle_view A hnd w))
     else if n = 0 then Inr [] else Inl IoUnexpectedEof)"
proof (cases "n = 0")
  case True
  have "handle_read_exact A hnd w pos 0 = Inr []"
    unfolding handle_read_exact_def by (subst read_exact_loop.simps) simp
  with True show ?thesis by (simp add: slice_def)
next
  case False
  show ?thesis
  proof (cases "pos + n \<le> length (handle_view A hnd w)")
    case True
    then show ?thesis unfolding handle_read_exact_def using stored.read_exact [OF assms] by simp
  next
    case past: False
    then have "length (handle_view A hnd w) < pos + n" "0 < n" using False by simp_all
    with stored.read_exact_past_end [OF assms] past False show ?thesis
      unfolding handle_read_exact_def by simp
  qed
qed

text \<open>The same file, opened for reading (not strictly).\<close>

fun reading :: "handle \<Rightarrow> handle" where
  "reading (PlainHandle f) = PlainHandle (f\<lparr>fh_read := True, fh_write := False\<rparr>)"
| "reading (EncHandle e) = EncHandle (e\<lparr>en_file := (en_file e)\<lparr>fh_write := False\<rparr>\<rparr>)"

lemma block_view_reading:
  assumes "fh_read (en_file e)"
  shows "block_view A (e\<lparr>en_file := (en_file e)\<lparr>fh_write := False\<rparr>\<rparr>) w = block_view A e w"
  by (rule ext) (use assms in \<open>simp add: block_view_def read_block_def file_read_exact_def block_len_def unreadable_def Let_def
      split: sum.split option.split\<close>)

lemma reading_view:
  assumes "handle_writable A hnd w"
  shows "handle_readable A (reading hnd) w" "handle_view A (reading hnd) w = handle_view A hnd w"
proof -
  show "handle_readable A (reading hnd) w"
    using assms by (cases hnd) (simp_all add: handle_readable_def handle_writable_def enc_writable_def)
  show "handle_view A (reading hnd) w = handle_view A hnd w"
    using assms by (cases hnd) (simp_all add: handle_view_def handle_writable_def enc_writable_def enc_view_def
        block_view_reading blocks_def)
qed

text \<open>C35: bytes written through a handle, plain or encrypted, at any position and
  across any piece boundaries, are read back from the file exactly, and
  whatever else could be read before reads the same after.\<close>

theorem stored_bytes_read_back:
  assumes "handle_writable A hnd w" "pos \<le> length (handle_view A hnd w)" "handle_room hnd (pos + length b)"
  shows "\<exists>w'. handle_write_all A hnd w pos b = (Inr (), w') \<and>
    handle_read_exact A (reading hnd) w' pos (length b) = Inr b \<and>
    (\<forall>p n. p + n \<le> length (handle_view A hnd w) \<and> (p + n \<le> pos \<or> pos + length b \<le> p) \<longrightarrow>
       handle_read_exact A (reading hnd) w' p n = handle_read_exact A (reading hnd) w p n)"
proof -
  let ?v = "handle_view A hnd w"
  obtain w' where w': "handle_write_all A hnd w pos b = (Inr (), w')" "handle_writable A hnd w'"
    "handle_view A hnd w' = splice pos b ?v"
    using handle_write_all_ok [OF assms] by blast
  note rd = handle_read_exact_ok [OF reading_view(1) [OF w'(2)]] reading_view(2) [OF w'(2)]
  note rd0 = handle_read_exact_ok [OF reading_view(1) [OF assms(1)]] reading_view(2) [OF assms(1)]
  have other: "slice p n (splice pos b ?v) = slice p n ?v"
    if "p + n \<le> length ?v" "p + n \<le> pos \<or> pos + length b \<le> p" for p n
    using that assms(2) by (intro nth_equalityI) (auto simp: nth_splice)
  have "handle_read_exact A (reading hnd) w' pos (length b) = Inr b"
    unfolding rd w'(3) using slice_splice_same [of pos ?v b] assms(2) by simp
  moreover have "handle_read_exact A (reading hnd) w' p n = handle_read_exact A (reading hnd) w p n"
    if "p + n \<le> length ?v" "p + n \<le> pos \<or> pos + length b \<le> p" for p n
    unfolding rd rd0 w'(3) using other [OF that] that(1) assms(2) by (auto simp: slice_def)
  ultimately show ?thesis using w'(1) by blast
qed

definition toy_aead :: aead where
  "toy_aead = \<lparr>seal = (\<lambda>k n a p. Some (p @ replicate TAG 0)),
     unseal = (\<lambda>k n a c. if TAG \<le> length c then Some (take (length c - TAG) c) else None)\<rparr>"

lemma toy_aead_ok: "aead_ok toy_aead"
  by (auto simp: aead_ok_def toy_aead_def split: if_splits)

definition toy_world :: world where
  "toy_world = \<lparr>files = [[Normal ''0.enc''] \<mapsto> replicate (HEADER + 2 * slot) 0], faults = (\<lambda>_ _. None), tape = (\<lambda>_. 1)\<rparr>"

definition toy_enc :: encrypted where
  "toy_enc = \<lparr>en_file = \<lparr>fh_path = [Normal ''0.enc''], fh_read = True, fh_write = True\<rparr>, en_cipher = [],
     en_size = 70000, en_strict = False\<rparr>"

lemma toy_writable: "handle_writable toy_aead (EncHandle toy_enc) toy_world"
  using toy_aead_ok
  by (auto simp: handle_writable_def enc_writable_def sized_def blocks_def toy_enc_def toy_world_def div_ceil_def
      block_def slot_def HEADER_def NONCE_def TAG_def file_content_def tape_ok_def intro: exI [of _ 0])

lemma toy_view_length: "length (handle_view toy_aead (EncHandle toy_enc) w) = 70000"
  using enc_view_nth(1) [OF toy_aead_ok, of toy_enc w] by (simp add: handle_view_def toy_enc_def)

lemma toy_room: "handle_room (EncHandle toy_enc) n \<longleftrightarrow> n \<le> 70000"
  by (simp add: handle_room_def toy_enc_def)

theorem stored_bytes_read_back_witness:
  "\<exists>w'. handle_write_all toy_aead (EncHandle toy_enc) toy_world 65534 (replicate 4 9) = (Inr (), w') \<and>
    handle_read_exact toy_aead (reading (EncHandle toy_enc)) w' 65534 4 = Inr (replicate 4 9)"
  using stored_bytes_read_back [OF toy_writable, of 65534 "replicate 4 9"]
  unfolding toy_view_length toy_room length_replicate by force

subsection \<open>Pieces that were never written\<close>

text \<open>A piece of an encrypted file that is absent, was never written, or
  does not decrypt reads as zeros of the piece's length, or is an error when
  reading strictly; a piece counts as written exactly when it decrypts to its
  own length, and only then strict reading returns it.\<close>

theorem unwritten_pieces:
  assumes "aead_ok A"
  shows "read_block A e w i =
      (if block_written A e w i then Inr (block_view A e w i)
       else if en_strict e then Inl IoInvalidData else Inr (replicate (block_len e i) 0)) \<and>
    length (block_view A e w i) = block_len e i \<and>
    (en_strict e \<longrightarrow> (block_written A e w i \<longleftrightarrow> (\<exists>p. read_block A e w i = Inr p)))"
  using block_view_length [OF assms, of e w i] block_view_unwritten [of A e w i]
  by (auto simp: read_block_view)

theorem unwritten_pieces_witness:
  "read_block toy_aead toy_enc toy_world 1 = (if block_written toy_aead toy_enc toy_world 1
     then Inr (block_view toy_aead toy_enc toy_world 1) else Inr (replicate 4464 0))"
  using unwritten_pieces [OF toy_aead_ok, of toy_enc toy_world 1]
  by (simp add: toy_enc_def block_len_def block_def)

subsection \<open>Importing\<close>

text \<open>The hasher reads the importer to the end, in chunks of any sizes, and it is finished.\<close>

fun import_all :: "aead \<Rightarrow> bytes list \<Rightarrow> importing_reader \<Rightarrow> world \<Rightarrow> (io_error + nat) \<times> world" where
  "import_all A [] r w = import_finish A r w"
| "import_all A (got # gots) r w =
     (case import_read A got r w of
        (Inl e, w1) \<Rightarrow> (Inl e, w1)
      | (Inr r1, w1) \<Rightarrow> import_all A gots r1 w1)"

text \<open>One read writes the whole blocks it completes; what is pending continues them.\<close>

lemma import_read_ok:
  assumes hw: "handle_writable A (ir_dest r) w" and pos: "ir_written r \<le> length (handle_view A (ir_dest r) w)"
    and room: "handle_room (ir_dest r) (ir_written r + length (ir_pending r) + length got)"
  obtains r1 w1 where "import_read A got r w = (Inr r1, w1)" "ir_dest r1 = ir_dest r" "handle_writable A (ir_dest r) w1"
    "touched A (ir_dest r) w w1" "ir_written r1 \<le> length (handle_view A (ir_dest r) w1)"
    "ir_written r1 + length (ir_pending r1) = ir_written r + length (ir_pending r) + length got"
    "\<And>tail. splice (ir_written r1) (ir_pending r1 @ tail) (handle_view A (ir_dest r) w1) =
      splice (ir_written r) (ir_pending r @ got @ tail) (handle_view A (ir_dest r) w)"
proof -
  let ?p = "ir_pending r @ got" and ?v = "handle_view A (ir_dest r) w"
  define k where "k = length ?p div block * block"
  have whole: "k \<le> length ?p" unfolding k_def by (rule div_times_less_eq_dividend)
  show thesis
  proof (cases "0 < k")
    case False
    have "import_read A got r w = (Inr (r\<lparr>ir_pending := ?p\<rparr>), w)"
      unfolding import_read_def Let_def k_def [symmetric] if_not_P [OF False] ..
    then show thesis by (rule that) (use hw pos in simp_all)
  next
    case True
    have room: "handle_room (ir_dest r) (ir_written r + length (take k ?p))"
      using room whole by (auto simp: handle_room_def split: handle.splits)
    obtain w1 where w1: "handle_write_all A (ir_dest r) w (ir_written r) (take k ?p) = (Inr (), w1)"
      "handle_writable A (ir_dest r) w1" "touched A (ir_dest r) w w1"
      "handle_view A (ir_dest r) w1 = splice (ir_written r) (take k ?p) ?v"
      using handle_write_all_ok [OF hw pos room] by blast
    have read: "import_read A got r w = (Inr (r\<lparr>ir_pending := drop k ?p, ir_written := ir_written r + k\<rparr>), w1)"
      unfolding import_read_def Let_def k_def [symmetric] if_P [OF True] w1(1) by simp
    have view: "splice (ir_written r + k) (drop k ?p @ rest) (handle_view A (ir_dest r) w1) =
        splice (ir_written r) (ir_pending r @ got @ rest) ?v" for rest
    proof -
      have len: "length (take k ?p) = k" using whole by simp
      have "take k ?p @ drop k ?p @ rest = (take k ?p @ drop k ?p) @ rest" by (rule append.assoc [symmetric])
      then have eq: "take k ?p @ drop k ?p @ rest = ir_pending r @ got @ rest" by (simp only: append_take_drop_id append.assoc)
      show ?thesis using splice_append [OF pos, of "take k ?p" "drop k ?p @ rest"] unfolding len eq w1(4) .
    qed
    show thesis by (rule that [OF read]) (use view w1 pos whole in simp_all)
  qed
qed

lemma import_all_ok:
  assumes "handle_writable A (ir_dest r) w" "ir_written r \<le> length (handle_view A (ir_dest r) w)"
    and "handle_room (ir_dest r) (ir_written r + length (ir_pending r) + length (concat gots))"
  shows "\<exists>w'. import_all A gots r w = (Inr (ir_written r + length (ir_pending r) + length (concat gots)), w') \<and>
    touched A (ir_dest r) w w' \<and>
    handle_view A (ir_dest r) w' = splice (ir_written r) (ir_pending r @ concat gots) (handle_view A (ir_dest r) w)"
  using assms
proof (induction gots arbitrary: r w)
  case Nil
  show ?case
  proof (cases "ir_pending r = []")
    case True
    with Nil(2) show ?thesis by (simp add: import_finish_def)
  next
    case False
    obtain w' where "handle_write_all A (ir_dest r) w (ir_written r) (ir_pending r) = (Inr (), w')"
      "touched A (ir_dest r) w w'"
      "handle_view A (ir_dest r) w' = splice (ir_written r) (ir_pending r) (handle_view A (ir_dest r) w)"
      using handle_write_all_ok [OF Nil(1,2), of "ir_pending r"] Nil(3) by auto
    with False show ?thesis by (simp add: import_finish_def)
  qed
next
  case (Cons got gots)
  have "handle_room (ir_dest r) (ir_written r + length (ir_pending r) + length got)"
    using Cons.prems(3) by (auto simp: handle_room_def split: handle.splits)
  from import_read_ok [OF Cons.prems(1,2) this] obtain r1 w1 where one: "import_read A got r w = (Inr r1, w1)" "ir_dest r1 = ir_dest r"
    "handle_writable A (ir_dest r) w1" "touched A (ir_dest r) w w1" "ir_written r1 \<le> length (handle_view A (ir_dest r) w1)"
    and sums: "ir_written r1 + length (ir_pending r1) = ir_written r + length (ir_pending r) + length got"
    and view: "\<And>tail. splice (ir_written r1) (ir_pending r1 @ tail) (handle_view A (ir_dest r) w1) =
      splice (ir_written r) (ir_pending r @ got @ tail) (handle_view A (ir_dest r) w)"
    by blast
  have "handle_room (ir_dest r1) (ir_written r1 + length (ir_pending r1) + length (concat gots))"
    using Cons.prems(3) one(2) sums by (simp add: add.assoc)
  from Cons.IH [OF _ _ this, of w1] one obtain w' where
    "import_all A gots r1 w1 = (Inr (ir_written r1 + length (ir_pending r1) + length (concat gots)), w')"
    "touched A (ir_dest r) w1 w'"
    "handle_view A (ir_dest r) w' = splice (ir_written r1) (ir_pending r1 @ concat gots) (handle_view A (ir_dest r) w1)"
    by auto
  with one(1) touched_trans [OF one(4)] sums view show ?case by (simp add: add.assoc)
qed

text \<open>C36: importing stores, while it is being hashed and however the source is
  cut into reads, exactly the bytes the hasher sees, in order and in full,
  and reports their number.\<close>

theorem import_stores_source:
  assumes "handle_writable A hnd w" and "handle_room hnd (length (concat gots))"
    and "length (handle_view A hnd w) \<le> length (concat gots)"
  shows "\<exists>w'. import_all A gots \<lparr>ir_dest = hnd, ir_pending = [], ir_written = 0\<rparr> w =
      (Inr (length (concat gots)), w') \<and> handle_view A hnd w' = concat gots"
  using import_all_ok [of A "\<lparr>ir_dest = hnd, ir_pending = [], ir_written = 0\<rparr>" w gots] assms
  by (auto simp: splice_def)

theorem import_stores_source_witness:
  "\<exists>w'. import_all toy_aead [replicate 65535 7, [1, 2], replicate 4463 9]
       \<lparr>ir_dest = EncHandle toy_enc, ir_pending = [], ir_written = 0\<rparr> toy_world = (Inr 70000, w')"
  using import_stores_source [OF toy_writable, of "[replicate 65535 7, [1, 2], replicate 4463 9]"]
  by (simp add: toy_view_length toy_room del: import_all.simps) blast


subsection \<open>Creating and reopening an encrypted file\<close>

definition no_faults :: "path \<Rightarrow> world \<Rightarrow> bool" where
  "no_faults p w \<longleftrightarrow> (\<forall>a. faults w a p = None \<and> (\<forall>q. path_parent p = Some q \<longrightarrow> faults w a q = None))"

lemma no_faults_parent: "no_faults p w \<Longrightarrow> ensure_parent p w = Inr ()"
  by (auto simp: no_faults_def ensure_parent_def create_dir_all_def split: option.split)

lemma no_faults_access: "no_faults p w \<Longrightarrow> access_fault opts p w = None"
  by (simp add: no_faults_def access_fault_def)

lemma no_faults_len: "no_faults p w \<Longrightarrow> file_len p w = map_option length (files w p)"
  by (simp add: no_faults_def file_len_def)

lemma slice_zeros: "length h \<le> pos \<Longrightarrow> slice pos n (h @ replicate m 0) = replicate (min n (length h + m - pos)) 0"
  by (auto simp: slice_def min_def)

lemma fresh_content:
  assumes "length header = HEADER"
  shows "set_len (HEADER + m) (splice 0 header []) = header @ replicate m 0"
  using assms by (simp add: set_len_def splice_def)

lemma MAGIC_length [simp]: "length MAGIC = 8"
  by (simp add: MAGIC_def bytes_of_def)

text \<open>Preparing an encrypted file for a download (no file yet, or one without
  a complete header) succeeds; it then opens with the same key, for writing
  everywhere in it, at its full size, and none of its pieces counts as
  written. Preparing it again, as a resumed download does, changes nothing.\<close>

theorem fresh_store_file:
  assumes "aead_ok A" "tape_ok w" "no_faults p w" "HEADER + div_ceil sz block * slot < 2 ^ 64"
    and "case files w p of None \<Rightarrow> True | Some b \<Rightarrow> length b < HEADER"
  shows "\<exists>w' hnd. data_preallocate (Encrypted p key sz) w = Inr w' \<and>
    open_data h True (Encrypted p key sz) w' = Inr hnd \<and> handle_writable A hnd w' \<and>
    length (handle_view A hnd w') = sz \<and>
    written_pieces h A (Encrypted p key sz) w' = Inr (Some (replicate (div_ceil sz block) False)) \<and>
    data_preallocate (Encrypted p key sz) w' = Inr w'"
proof -
  let ?n = "div_ceil sz block"
  define header where "header = MAGIC @ fst (draw 16 w)"
  define c where "c = header @ replicate (?n * slot) 0"
  define w2 where "w2 = put_file p [] (snd (draw 16 w))"
  have w2: "open_file (open_options\<lparr>oo_write := True, oo_create := True, oo_truncate := True\<rparr>) p (snd (draw 16 w)) = Inr w2"
    "file_content p w2 = []" "faults w2 = faults w" "tape w2 = tape (snd (draw 16 w))"
    using no_faults_access [of p "snd (draw 16 w)"] assms(3)
    by (cases "files w p"; simp add: open_file_def open_options_def no_faults_def w2_def put_file_def file_content_def)+
  define w' where "w' = put_file p c w2"
  have hl: "length header = HEADER" by (simp add: header_def HEADER_def)
  have room: "(HEADER + ?n * slot) mod 2 ^ 64 = HEADER + ?n * slot" using assms(4) by (rule mod_less)
  have not_set_up: "\<not> (case file_len p w of None \<Rightarrow> False | Some n \<Rightarrow> n \<ge> HEADER)"
    using assms(5) by (simp add: no_faults_len [OF assms(3)] split: option.splits)
  have pre: "data_preallocate (Encrypted p key sz) w = Inr w'"
    unfolding data_preallocate.simps no_faults_parent [OF assms(3)] bind_result.simps if_not_P [OF not_set_up]
      Let_def case_prod_beta header_def [symmetric] w2(1) room w2(2) fresh_content [OF hl]
    by (simp add: w'_def c_def)
  have nf': "no_faults p w'" using assms(3) w2(3) by (simp add: no_faults_def w'_def)
  have content: "file_content p w' = c" "files w' p = Some c" by (simp_all add: w'_def)
  have cl: "length c = HEADER + ?n * slot" by (simp add: c_def hl)
  have again: "data_preallocate (Encrypted p key sz) w' = Inr w'"
    using no_faults_parent [OF nf'] cl by (simp add: no_faults_len [OF nf'] content)
  have hd8: "take 8 (take HEADER c) = MAGIC" by (simp add: c_def header_def HEADER_def)
  define e where "e wr = \<lparr>en_file = \<lparr>fh_path = p, fh_read = True, fh_write = wr\<rparr>,
      en_cipher = file_key h key (drop 8 (take HEADER c)), en_size = sz, en_strict = False\<rparr>" for wr
  have opens: "open_data h wr (Encrypted p key sz) w' = Inr (EncHandle (e wr))" for wr
    using hd8 cl by (simp add: open_data_def open_with_def open_file_def no_faults_access [OF nf'] content
        pread_exact_def pread_def slice_def open_options_def e_def min_def)
  have bl: "blocks (e wr) = ?n" for wr by (simp add: blocks_def e_def)
  have wr: "handle_writable A (EncHandle (e True)) w'"
    using assms(1,2,4) tape_ok_draw [OF assms(2), of 16] cl w2(4)
    by (simp add: handle_writable_def enc_writable_def sized_def bl content w'_def)
       (simp add: e_def tape_ok_def c_def hl)
  have view: "length (handle_view A (EncHandle (e True)) w') = sz"
    using enc_view_nth(1) [OF assms(1)] by (simp add: handle_view_def e_def)
  have unwritten: "\<not> block_written A (e False) w' i" if i: "i < ?n" for i
  proof -
    let ?m = "NONCE + block_len (e False) i + TAG"
    have at: "slot_at i = HEADER + i * slot"
      using slot_at_eq [of "e False" i] assms(4) i by (simp add: sized_def bl)
    have "slot_at i + ?m \<le> length c" using slot_fits [OF i, of "e False"] cl at by simp
    then have "file_read_exact (en_file (e False)) (slot_at i) ?m w' = Inr (replicate ?m 0)"
      using slice_zeros [of header "slot_at i" ?m "?n * slot"] hl at
      by (simp add: file_read_exact_Inr e_def content) (simp add: c_def)
    then show ?thesis by (simp add: block_written_def list_all_iff)
  qed
  have "written_pieces h A (Encrypted p key sz) w' = Inr (Some (replicate ?n False))"
    using opens [of False] unwritten
    by (auto simp: written_pieces_def intro!: nth_equalityI)
  then show ?thesis using pre opens wr view again by blast
qed

lemma toy_fresh: "tape_ok toy_world" "no_faults [Normal ''1.enc''] toy_world" "files toy_world [Normal ''1.enc''] = None"
  "div_ceil 70000 block = 2"
  by (auto simp: toy_world_def tape_ok_def no_faults_def NONCE_def block_def div_ceil_def intro: exI [of _ 0])

theorem fresh_store_file_witness:
  "\<exists>w'. data_preallocate (Encrypted [Normal ''1.enc''] (MasterKey [1]) 70000) toy_world = Inr w' \<and>
    written_pieces plain_blake toy_aead (Encrypted [Normal ''1.enc''] (MasterKey [1]) 70000) w' =
      Inr (Some (replicate 2 False))"
proof -
  have "HEADER + div_ceil 70000 block * slot < 2 ^ 64"
    by (simp add: toy_fresh(4)) (simp add: HEADER_def slot_def NONCE_def TAG_def block_def)
  from fresh_store_file [OF toy_aead_ok toy_fresh(1,2) this, of "MasterKey [1]" plain_blake] show ?thesis
    unfolding toy_fresh(3,4) by force
qed

end
