(* ===== verification/Chunker.thy ===== *)
theory Chunker
  imports Storage_Contract Manifest
begin

text \<open>
  \<open>src/crates/chorrent/src/chunker.rs\<close>: hashing, encoding and verifying pieces
  of one file. The Merkle tree of the crate \<open>bao_tree\<close> is a parameter, the
  record \<open>bao\<close>; what is relied on is \<open>bao_sound\<close> and \<open>bao_accepts\<close>.
\<close>

text \<open>A positioned source of bytes, as \<open>ReadAt\<close>.\<close>

type_synonym source = "nat \<Rightarrow> nat \<Rightarrow> io_error + bytes"

text \<open>
  \<open>bao_create\<close>: hashing all the bytes of a file. \<open>bao_encode\<close>: cut out a range
  with its proof, checking what is read. \<open>bao_decode\<close>: given the root, the
  size, the range and the encoding, the leaves it writes in order, the tree
  nodes it saves, and the error it ends with if any. \<open>bao_valid\<close>: the
  verified byte ranges it reports, in order, or read errors. A tree node is
  its number.
\<close>

type_synonym proof_nodes = "(nat \<times> bytes \<times> bytes) list"

record bao =
  bao_outboard_size :: "u64 \<Rightarrow> nat"
  bao_create :: "bytes \<Rightarrow> outboard"
  bao_encode :: "source \<Rightarrow> outboard \<Rightarrow> nat \<times> nat \<Rightarrow> io_error + bytes"
  bao_decode :: "bytes \<Rightarrow> nat \<Rightarrow> nat \<times> nat \<Rightarrow> bytes \<Rightarrow> (nat \<times> bytes) list \<times> proof_nodes \<times> io_error option"
  bao_save :: "nat \<times> bytes \<times> bytes \<Rightarrow> outboard \<Rightarrow> io_error + outboard"
  bao_valid :: "outboard \<Rightarrow> source \<Rightarrow> (io_error + nat \<times> nat) list"
  round_up_to_chunks :: "nat \<times> nat \<Rightarrow> nat \<times> nat"

definition resized :: "bao \<Rightarrow> outboard \<Rightarrow> outboard" where
  "resized B ob = ob\<lparr>ob_data := set_len (bao_outboard_size B (ob_size ob)) (ob_data ob)\<rparr>"

definition hash_file :: "bao \<Rightarrow> path \<Rightarrow> world \<Rightarrow> chunker_error + outboard" where
  "hash_file B path w =
     bind_result (map_err (ChunkerOpen path) (open_file (open_options\<lparr>oo_read := True\<rparr>) path w)) (\<lambda>w1.
     Inr (resized B (bao_create B (file_content path w1))))"

definition hash_data :: "blake3 \<Rightarrow> aead \<Rightarrow> bao \<Rightarrow> file_data \<Rightarrow> nat \<Rightarrow> world \<Rightarrow> chunker_error + outboard" where
  "hash_data h A B d sz w =
     (case d of
        Plain path \<Rightarrow> hash_file B path w
      | Encrypted path _ _ \<Rightarrow>
          bind_result (map_err (ChunkerOpen path) (open_strict h d w)) (\<lambda>hnd.
          bind_result (map_err (ChunkerHash path) (handle_read_exact A hnd w 0 sz)) (\<lambda>b.
          Inr (resized B (bao_create B b)))))"

text \<open>
  The source of an import, given as what its successive reads return; the
  hasher asks for no more than it still needs.
\<close>

fun limit_reads :: "nat \<Rightarrow> bytes list \<Rightarrow> bytes list" where
  "limit_reads n [] = []"
| "limit_reads n (got # gots) =
     (if n = 0 then [] else take n got # limit_reads (n - length got) gots)"

fun import_reads :: "aead \<Rightarrow> bytes list \<Rightarrow> importing_reader \<Rightarrow> world \<Rightarrow> (io_error + importing_reader) \<times> world" where
  "import_reads A [] r w = (Inr r, w)"
| "import_reads A (got # gots) r w =
     (case import_read A got r w of
        (Inl e, w1) \<Rightarrow> (Inl e, w1)
      | (Inr r1, w1) \<Rightarrow> import_reads A gots r1 w1)"

definition chunker_import ::
  "blake3 \<Rightarrow> aead \<Rightarrow> bao \<Rightarrow> bytes list \<Rightarrow> nat \<Rightarrow> file_data \<Rightarrow> world \<Rightarrow> (chunker_error + outboard) \<times> world" where
  "chunker_import h A B gots sz dest w =
     (let path = data_path dest; reads = limit_reads sz gots in
      case import_new h dest w of
        Inl e \<Rightarrow> (Inl (ChunkerOpen path e), w)
      | Inr (r, w1) \<Rightarrow>
          (case import_reads A reads r w1 of
             (Inl e, w2) \<Rightarrow> (Inl (ChunkerHash path e), w2)
           | (Inr r2, w2) \<Rightarrow>
               if length (concat reads) < sz then (Inl (ChunkerHash path IoUnexpectedEof), w2)
               else
                 (case import_finish A r2 w2 of
                    (Inl e, w3) \<Rightarrow> (Inl (ChunkerHash path e), w3)
                  | (Inr written, w3) \<Rightarrow>
                      if written \<noteq> sz then (Inl (ChunkerHash path IoUnexpectedEof), w3)
                      else (Inr (resized B (bao_create B (concat reads))), w3))))"

definition empty_outboard :: "bao \<Rightarrow> bytes \<Rightarrow> u64 \<Rightarrow> outboard" where
  "empty_outboard B root sz = \<lparr>ob_root = root, ob_size = sz, ob_data = replicate (bao_outboard_size B sz) 0\<rparr>"

definition encode_range ::
  "blake3 \<Rightarrow> aead \<Rightarrow> bao \<Rightarrow> file_data \<Rightarrow> outboard \<Rightarrow> nat \<Rightarrow> nat \<Rightarrow> world \<Rightarrow> chunker_error + bytes" where
  "encode_range h A B d ob start stop w =
     bind_result (map_err (ChunkerOpen (data_path d)) (open_data h False d w)) (\<lambda>hnd.
     map_err (ChunkerServe (data_path d))
       (bao_encode B (handle_read_at A hnd w) ob (round_up_to_chunks B (start, stop))))"

text \<open>The decoder's writes to the destination, in order, until one fails.\<close>

fun write_leaves :: "aead \<Rightarrow> handle \<Rightarrow> (nat \<times> bytes) list \<Rightarrow> world \<Rightarrow> (io_error + unit) \<times> world" where
  "write_leaves A dest [] w = (Inr (), w)"
| "write_leaves A dest ((off, b) # leaves) w =
     (case handle_write_all A dest w off b of
        (Inl e, w1) \<Rightarrow> (Inl e, w1)
      | (Inr _, w1) \<Rightarrow> write_leaves A dest leaves w1)"

definition decode_range ::
  "aead \<Rightarrow> bao \<Rightarrow> handle \<Rightarrow> path \<Rightarrow> bytes \<Rightarrow> nat \<Rightarrow> nat \<Rightarrow> nat \<Rightarrow> bytes \<Rightarrow> world \<Rightarrow> (chunker_error + proof_nodes) \<times> world" where
  "decode_range A B dest path root sz start stop encoded w =
     (case bao_decode B root sz (round_up_to_chunks B (start, stop)) encoded of
        (leaves, nodes, failure) \<Rightarrow>
          (case write_leaves A dest leaves w of
             (Inl e, w1) \<Rightarrow> (Inl (ChunkerReceive path e), w1)
           | (Inr _, w1) \<Rightarrow>
               (case failure of
                  Some e \<Rightarrow> (Inl (ChunkerReceive path e), w1)
                | None \<Rightarrow> (Inr nodes, w1))))"

fun apply_proof :: "bao \<Rightarrow> outboard \<Rightarrow> proof_nodes \<Rightarrow> (io_error + unit) \<times> outboard" where
  "apply_proof B ob [] = (Inr (), ob)"
| "apply_proof B ob (node # nodes) =
     (case bao_save B node ob of
        Inl e \<Rightarrow> (Inl e, ob)
      | Inr ob1 \<Rightarrow> apply_proof B ob1 nodes)"

fun collect_ranges :: "(io_error + nat \<times> nat) list \<Rightarrow> io_error + (nat \<times> nat) list" where
  "collect_ranges [] = Inr []"
| "collect_ranges (r # rs) = bind_result r (\<lambda>x. bind_result (collect_ranges rs) (\<lambda>xs. Inr (x # xs)))"

definition valid_byte_ranges ::
  "blake3 \<Rightarrow> aead \<Rightarrow> bao \<Rightarrow> file_data \<Rightarrow> outboard \<Rightarrow> world \<Rightarrow> io_error + (nat \<times> nat) list" where
  "valid_byte_ranges h A B d ob w =
     bind_result (open_data h False d w) (\<lambda>hnd.
     collect_ranges (bao_valid B ob (handle_read_at A hnd w)))"

text \<open>\<open>set_len\<close> on a plain file after preparing it.\<close>

definition preallocate :: "file_data \<Rightarrow> nat \<Rightarrow> world \<Rightarrow> io_error + world" where
  "preallocate d sz w =
     bind_result (data_preallocate d w) (\<lambda>w1.
     case d of
       Plain path \<Rightarrow>
         bind_result (open_file (open_options\<lparr>oo_write := True\<rparr>) path w1) (\<lambda>w2.
         Inr (put_file path (set_len sz (file_content path w2)) w2))
     | Encrypted _ _ _ \<Rightarrow> Inr w1)"

subsection \<open>What the tree promises\<close>

text \<open>
  For the file with the given content: only that content has its root hash;
  the decoder writes nothing but bytes of the content, and covers the range
  when it succeeds; ranges reported valid hold the content.
\<close>

definition serves :: "source \<Rightarrow> bytes \<Rightarrow> bool" where
  "serves rd v \<longleftrightarrow> (\<forall>pos n. read_exact_loop (\<lambda>_. rd) () pos n =
     (if pos + n \<le> length v then Inr (slice pos n v) else if n = 0 then Inr [] else Inl IoUnexpectedEof))"

definition bao_sound :: "bao \<Rightarrow> bytes \<Rightarrow> bytes \<Rightarrow> bool" where
  "bao_sound B root content \<longleftrightarrow>
     (\<forall>b. ob_root (bao_create B b) = root \<longrightarrow> b = content) \<and>
     (\<forall>start stop encoded leaves nodes failure.
        bao_decode B root (length content) (round_up_to_chunks B (start, stop)) encoded = (leaves, nodes, failure) \<longrightarrow>
        (\<forall>(off, b) \<in> set leaves. off + length b \<le> length content \<and> b = slice off (length b) content) \<and>
        (failure = None \<longrightarrow> (\<forall>j. start \<le> j \<and> j < stop \<and> j < length content \<longrightarrow>
           (\<exists>(off, b) \<in> set leaves. off \<le> j \<and> j < off + length b)))) \<and>
     (\<forall>ob rd v a b j. ob_root ob = root \<and> serves rd v \<and> Inr (a, b) \<in> set (bao_valid B ob rd) \<and>
        a \<le> j \<and> j < b \<and> j < length content \<longrightarrow> j < length v \<and> v ! j = content ! j)"

text \<open>An encoding made from verified data is accepted under the same root.\<close>

definition bao_accepts :: "bao \<Rightarrow> bytes \<Rightarrow> nat \<Rightarrow> bool" where
  "bao_accepts B root sz \<longleftrightarrow>
     (\<forall>rd ob start stop encoded. ob_root ob = root \<and>
        bao_encode B rd ob (round_up_to_chunks B (start, stop)) = Inr encoded \<longrightarrow>
        (\<exists>leaves nodes. bao_decode B root sz (round_up_to_chunks B (start, stop)) encoded = (leaves, nodes, None)))"


lemma read_exact_loop_unit: "read_exact_loop rd s pos n = read_exact_loop (\<lambda>_. rd s) () pos n"
proof (induction n arbitrary: pos rule: less_induct)
  case (less n)
  have rest: "read_exact_loop rd s (pos + length b) (n - length b) =
      read_exact_loop (\<lambda>_. rd s) () (pos + length b) (n - length b)" if "b \<noteq> []" "n \<noteq> 0" for b
    by (rule less.IH) (use that in \<open>cases b; simp\<close>)
  note steps = read_exact_loop.simps [of rd s pos n] read_exact_loop.simps [of "\<lambda>_. rd s" "()" pos n]
  show ?case
  proof (cases "n = 0")
    case False
    then show ?thesis
    proof (cases "rd s pos n")
      case (Inr b)
      show ?thesis
      proof (cases "b = []")
        case ne: False
        show ?thesis unfolding steps Inr using rest [OF ne False] by simp
      qed (simp add: steps Inr)
    qed (simp add: steps)
  qed (simp add: steps)
qed

lemma handle_serves: "handle_readable A hnd w \<Longrightarrow> serves (handle_read_at A hnd w) (handle_view A hnd w)"
  using handle_read_exact_ok [of A hnd w]
  unfolding serves_def handle_read_exact_def read_exact_loop_unit [of "handle_read_at A hnd" w] by blast

text \<open>An idealised tree for the witnesses: the root of a file is its content.\<close>

definition toy_bao :: bao where
  "toy_bao = \<lparr>bao_outboard_size = (\<lambda>_. 0),
     bao_create = (\<lambda>b. \<lparr>ob_root = b, ob_size = word_of_nat (length b), ob_data = []\<rparr>),
     bao_encode = (\<lambda>rd ob (s, e). case read_exact_loop (\<lambda>_. rd) () s (e - s) of
        Inl err \<Rightarrow> Inl err
      | Inr b \<Rightarrow> if s \<le> e \<and> e \<le> length (ob_root ob) \<and> b = slice s (e - s) (ob_root ob) then Inr b else Inl IoInvalidData),
     bao_decode = (\<lambda>root sz (s, e) encoded.
        if s \<le> e \<and> e \<le> length root \<and> encoded = slice s (e - s) root then ([(s, encoded)], [], None)
        else ([], [], Some IoInvalidData)),
     bao_save = (\<lambda>_ ob. Inr ob),
     bao_valid = (\<lambda>ob rd. case read_exact_loop (\<lambda>_. rd) () 0 (length (ob_root ob)) of
        Inl _ \<Rightarrow> []
      | Inr b \<Rightarrow> if b = ob_root ob then [Inr (0, length b)] else []),
     round_up_to_chunks = (\<lambda>r. r)\<rparr>"

lemma toy_bao_sound: "bao_sound toy_bao c c"
proof -
  have v: "j < length v \<and> v ! j = c ! j"
    if "serves rd v" "Inr (a, b) \<in> set (bao_valid toy_bao ob rd)" "ob_root ob = c" "j < length c" for rd v a b ob j
  proof -
    have "read_exact_loop (\<lambda>_. rd) () 0 (length (ob_root ob)) = Inr (ob_root ob)"
      using that(2)
      by (cases "read_exact_loop (\<lambda>_. rd) () 0 (length (ob_root ob))")
         (simp_all add: toy_bao_def split: if_splits)
    then have E0: "read_exact_loop (\<lambda>_. rd) () 0 (length c) = Inr c" unfolding that(3) .
    have E1: "read_exact_loop (\<lambda>_. rd) () 0 (length c) = (if 0 + length c \<le> length v then
        Inr (slice 0 (length c) v) else if length c = 0 then Inr [] else Inl IoUnexpectedEof)"
      using that(1) unfolding serves_def by blast
    have le: "0 + length c \<le> length v"
    proof (rule ccontr)
      assume "\<not> 0 + length c \<le> length v"
      then have "read_exact_loop (\<lambda>_. rd) () 0 (length c) = Inl IoUnexpectedEof"
        unfolding E1 using that(4) by auto
      with E0 show False by simp
    qed
    have eq: "slice 0 (length c) v = c" using E0 [unfolded E1 if_P [OF le]] by (rule Inr_inject)
    have "slice 0 (length c) v ! j = v ! (0 + j)" using that(4) le by (intro nth_slice) simp_all
    with eq le that(4) show ?thesis by simp
  qed
  have "\<forall>start stop encoded leaves nodes failure.
      bao_decode toy_bao c (length c) (round_up_to_chunks toy_bao (start, stop)) encoded = (leaves, nodes, failure) \<longrightarrow>
      (\<forall>(off, b) \<in> set leaves. off + length b \<le> length c \<and> b = slice off (length b) c) \<and>
      (failure = None \<longrightarrow> (\<forall>j. start \<le> j \<and> j < stop \<and> j < length c \<longrightarrow>
         (\<exists>(off, b) \<in> set leaves. off \<le> j \<and> j < off + length b)))"
    by (auto simp: toy_bao_def slice_def split: if_splits)
  moreover have "\<forall>b. ob_root (bao_create toy_bao b) = c \<longrightarrow> b = c" by (simp add: toy_bao_def)
  moreover have "\<forall>ob rd v a b j. ob_root ob = c \<and> serves rd v \<and> Inr (a, b) \<in> set (bao_valid toy_bao ob rd) \<and>
      a \<le> j \<and> j < b \<and> j < length c \<longrightarrow> j < length v \<and> v ! j = c ! j"
    by (intro allI impI, elim conjE, rule v)
  ultimately show ?thesis unfolding bao_sound_def by (intro conjI)
qed

lemma toy_bao_accepts: "bao_accepts toy_bao c (length c)"
  by (auto simp: bao_accepts_def toy_bao_def split: sum.splits if_splits)

end
