(* ===== verification/Local_Share.thy ===== *)
theory Local_Share
  imports Chunker Layout Share_Code
begin

text \<open>
  \<open>src/crates/chorrent/src/local.rs\<close>: a share as this node holds it. The
  locks of the source are taken one at a time for short sections; each
  operation is one step here. \<open>None\<close> is a panic (an index out of range). The
  broadcast channels are the lists of what was sent on them.
\<close>

record local_file =
  lf_data :: file_data
  lf_outboard :: outboard
  lf_stamp :: "(nat \<times> nat) option"
  lf_reported :: bool
  lf_writer :: "handle option"

definition local_file_new :: "file_data \<Rightarrow> outboard \<Rightarrow> local_file" where
  "local_file_new d ob = \<lparr>lf_data = d, lf_outboard = ob, lf_stamp = None, lf_reported = False, lf_writer = None\<rparr>"

text \<open>\<open>file_stamp\<close> (size and modified time of a path) is given by the system: the argument \<open>stamp\<close>.\<close>

definition shared_in_place :: "(path \<Rightarrow> (nat \<times> nat) option) \<Rightarrow> file_data \<Rightarrow> outboard \<Rightarrow> local_file" where
  "shared_in_place stamp d ob =
     (let file = local_file_new d ob in
      case d of Plain path \<Rightarrow> file\<lparr>lf_stamp := stamp path\<rparr> | Encrypted _ _ _ \<Rightarrow> file)"

record store_config =
  st_blobs :: path
  st_key :: "master_key option"

definition hex_digit :: "nat \<Rightarrow> char" where
  "hex_digit n = char_of (if n < 10 then 48 + n else 87 + n)"

definition hex :: "bytes \<Rightarrow> str" where
  "hex bs = concat (map (\<lambda>b. [hex_digit (unat b div 16), hex_digit (unat b mod 16)]) bs)"

definition new_share_dir :: "store_config \<Rightarrow> world \<Rightarrow> path \<times> world" where
  "new_share_dir st w = (let (r, w1) = draw 8 w in (path_join (st_blobs st) (path_of (''import-'' @ hex r)), w1))"

definition download_dir :: "blake3 \<Rightarrow> store_config \<Rightarrow> share_id \<Rightarrow> path" where
  "download_dir h st i =
     (case st_key st of
        None \<Rightarrow> path_join (st_blobs st) (path_of (share_id_display h i))
      | Some key \<Rightarrow>
          path_join (st_blobs st) (path_of (to_hex h
            (keyed_hash h (derive h key ''chorrent blob folder names v1'') (id_bytes i)))))"

record local_share =
  ls_id :: share_id
  ls_manifest :: manifest
  ls_manifest_bytes :: bytes
  ls_layout :: layout
  ls_files :: "local_file list"
  ls_secret :: "bytes option"
  ls_root :: path
  ls_allowed :: "endpoint_id set option"
  ls_have :: "bool list"
  ls_announced :: "u32 list"
  ls_events :: "event list"

definition emit :: "event \<Rightarrow> local_share \<Rightarrow> local_share" where
  "emit e s = s\<lparr>ls_events := ls_events s @ [e]\<rparr>"

subsection \<open>Progress\<close>

definition from_parts ::
  "blake3 \<Rightarrow> manifest \<Rightarrow> bytes \<Rightarrow> local_file list \<Rightarrow> bytes option \<Rightarrow> bool \<Rightarrow> path \<Rightarrow> local_share" where
  "from_parts h m m_bytes fs secret complete root =
     (let l = layout_new m in
      \<lparr>ls_id = id_of h m_bytes, ls_manifest = m, ls_manifest_bytes = m_bytes, ls_layout = l, ls_files = fs,
       ls_secret = secret, ls_root = root, ls_allowed = None, ls_have = replicate (total_pieces l) complete,
       ls_announced = [], ls_events = []\<rparr>)"

definition share_is_encrypted :: "local_share \<Rightarrow> bool" where
  "share_is_encrypted s = list_ex (\<lambda>f. is_encrypted (lf_data f)) (ls_files s)"

definition share_total_pieces :: "local_share \<Rightarrow> nat" where
  "share_total_pieces s = total_pieces (ls_layout s)"

definition has :: "local_share \<Rightarrow> nat \<Rightarrow> bool" where
  "has s piece = (case idx (ls_have s) piece of None \<Rightarrow> False | Some b \<Rightarrow> b)"

definition have_count :: "local_share \<Rightarrow> nat" where
  "have_count s = length (filter id (ls_have s))"

definition packed_bitfield :: "local_share \<Rightarrow> bytes" where
  "packed_bitfield s = pack_bits (ls_have s)"

definition piece_len :: "local_share \<Rightarrow> nat \<Rightarrow> u64 option" where
  "piece_len s piece = do { loc \<leftarrow> locate (ls_layout s) piece; Some (loc_end loc - loc_start loc) }"

definition mark_have :: "nat \<Rightarrow> local_share \<Rightarrow> local_share option" where
  "mark_have piece s = do {
     old \<leftarrow> idx (ls_have s) piece;
     (if old then Some s
      else Some (s\<lparr>ls_have := (ls_have s)[piece := True], ls_announced := ls_announced s @ [word_of_nat piece]\<rparr>)) }"

subsection \<open>Access\<close>

definition set_allowed :: "endpoint_id set option \<Rightarrow> local_share \<Rightarrow> local_share" where
  "set_allowed peers s = s\<lparr>ls_allowed := peers\<rparr>"

definition authorized :: "blake3 \<Rightarrow> local_share \<Rightarrow> endpoint_id \<Rightarrow> token option \<Rightarrow> bool" where
  "authorized h s requester tok =
     (if (case ls_allowed s of None \<Rightarrow> False | Some allowed \<Rightarrow> requester \<notin> allowed) then False
      else case ls_secret s of
        None \<Rightarrow> True
      | Some secret \<Rightarrow> tok = Some (access_token h secret requester))"

subsection \<open>Serving and storing pieces\<close>

definition set_local_file :: "nat \<Rightarrow> local_file \<Rightarrow> local_share \<Rightarrow> local_share" where
  "set_local_file i f s = s\<lparr>ls_files := (ls_files s)[i := f]\<rparr>"

definition note_serve_failure :: "(path \<Rightarrow> (nat \<times> nat) option) \<Rightarrow> nat \<Rightarrow> local_share \<Rightarrow> local_share option" where
  "note_serve_failure stamp piece s = do {
     loc \<leftarrow> locate (ls_layout s) piece;
     f \<leftarrow> idx (ls_files s) (loc_file loc);
     (case lf_stamp f of
        None \<Rightarrow> Some s
      | Some st \<Rightarrow>
          if stamp (data_path (lf_data f)) \<noteq> Some st \<and> \<not> lf_reported f then
            Some (emit (SharedFileChanged (path_display (data_path (lf_data f))))
              (set_local_file (loc_file loc) (f\<lparr>lf_reported := True\<rparr>) s))
          else Some s) }"

definition encode_piece ::
  "blake3 \<Rightarrow> aead \<Rightarrow> bao \<Rightarrow> nat \<Rightarrow> local_share \<Rightarrow> world \<Rightarrow> (chunker_error + bytes) option" where
  "encode_piece h A B piece s w = do {
     loc \<leftarrow> locate (ls_layout s) piece;
     f \<leftarrow> idx (ls_files s) (loc_file loc);
     Some (encode_range h A B (lf_data f) (lf_outboard f) (unat (loc_start loc)) (unat (loc_end loc)) w) }"

definition store_piece ::
  "blake3 \<Rightarrow> aead \<Rightarrow> bao \<Rightarrow> nat \<Rightarrow> bytes \<Rightarrow> local_share \<Rightarrow> world
     \<Rightarrow> ((chunker_error + bool) \<times> local_share \<times> world) option" where
  "store_piece h A B piece encoded s w =
     (if has s piece then Some (Inr False, s, w)
      else do {
        loc \<leftarrow> locate (ls_layout s) piece;
        f \<leftarrow> idx (ls_files s) (loc_file loc);
        entry \<leftarrow> idx (m_files (ls_manifest s)) (loc_file loc);
        (let i = loc_file loc; path = data_path (lf_data f) in
         case (case lf_writer f of
                 Some hnd \<Rightarrow> Inr hnd
               | None \<Rightarrow> map_err (ChunkerReceive path) (open_data h True (lf_data f) w)) of
           Inl e \<Rightarrow> Some (Inl e, s, w)
         | Inr hnd \<Rightarrow>
             (let f1 = f\<lparr>lf_writer := Some hnd\<rparr> in
              case decode_range A B hnd path (fe_root entry) (unat (fe_size entry))
                     (unat (loc_start loc)) (unat (loc_end loc)) encoded w of
                (Inl e, w1) \<Rightarrow> Some (Inl e, set_local_file i f1 s, w1)
              | (Inr nodes, w1) \<Rightarrow>
                  (case apply_proof B (lf_outboard f) nodes of
                     (Inl e, ob) \<Rightarrow>
                       Some (Inl (ChunkerReceive path e), set_local_file i (f1\<lparr>lf_outboard := ob\<rparr>) s, w1)
                   | (Inr _, ob) \<Rightarrow> do {
                       s1 \<leftarrow> mark_have piece (set_local_file i (f1\<lparr>lf_outboard := ob\<rparr>) s);
                       Some (Inr True, s1, w1) }))) })"

definition release_writers :: "local_share \<Rightarrow> local_share" where
  "release_writers s = s\<lparr>ls_files := map (\<lambda>f. f\<lparr>lf_writer := None\<rparr>) (ls_files s)\<rparr>"

definition outboard_snapshots :: "local_share \<Rightarrow> bytes list" where
  "outboard_snapshots s = map (\<lambda>f. ob_data (lf_outboard f)) (ls_files s)"

subsection \<open>Resuming\<close>

text \<open>\<open>pieces_of(index).all(|p| self.has(p))\<close>: \<open>None\<close> when the file does not exist.\<close>

definition file_complete :: "local_share \<Rightarrow> nat \<Rightarrow> bool option" where
  "file_complete s i = do { (a, b) \<leftarrow> pieces_of (ls_layout s) i; Some (list_all (has s) [a..<b]) }"

text \<open>The pieces of one file that its verified ranges and written slots cover.\<close>

fun mark_restored ::
  "nat \<Rightarrow> u64 \<Rightarrow> (nat \<times> nat) list \<Rightarrow> bool list option \<Rightarrow> nat list \<Rightarrow> local_share \<Rightarrow> local_share option" where
  "mark_restored first sz ranges written [] s = Some s"
| "mark_restored first sz ranges written (piece # pieces) s = do {
     loc \<leftarrow> locate (ls_layout s) piece;
     (let stop = min (loc_end loc) sz;
          verified = list_ex (\<lambda>(a, b). a \<le> unat (loc_start loc) \<and> unat stop \<le> min b (unat sz)) ranges;
          on_disk = (case written of None \<Rightarrow> True
             | Some ws \<Rightarrow> (case idx ws (piece - first) of None \<Rightarrow> False | Some b \<Rightarrow> b)) in
      if verified \<and> on_disk then do {
        s1 \<leftarrow> mark_have piece s;
        mark_restored first sz ranges written pieces s1 }
      else mark_restored first sz ranges written pieces s) }"

fun restore_files ::
  "blake3 \<Rightarrow> aead \<Rightarrow> bao \<Rightarrow> world \<Rightarrow> nat \<Rightarrow> bytes list \<Rightarrow> local_share \<Rightarrow> ((error + unit) \<times> local_share) option" where
  "restore_files h A B w i [] s = Some (Inr (), s)"
| "restore_files h A B w i (saved # rest) s =
     (case idx (ls_files s) i of
        None \<Rightarrow> Some (Inr (), s)
      | Some f \<Rightarrow> do {
          complete \<leftarrow> file_complete s i;
          (if complete \<or> length saved \<noteq> length (ob_data (lf_outboard f)) then restore_files h A B w (i + 1) rest s
           else
             (let ob = (lf_outboard f)\<lparr>ob_data := saved\<rparr>; s1 = set_local_file i (f\<lparr>lf_outboard := ob\<rparr>) s in
              case bind_result (valid_byte_ranges h A B (lf_data f) ob w) (\<lambda>ranges.
                   bind_result (written_pieces h A (lf_data f) w) (\<lambda>written. Inr (ranges, written))) of
                Inl e \<Rightarrow> Some (Inl (Io (data_path (lf_data f)) e), s1)
              | Inr (ranges, written) \<Rightarrow> do {
                  entry \<leftarrow> idx (m_files (ls_manifest s)) i;
                  (a, b) \<leftarrow> pieces_of (ls_layout s) i;
                  s2 \<leftarrow> mark_restored a (fe_size entry) ranges written [a..<b] s1;
                  restore_files h A B w (i + 1) rest s2 })) })"

definition restore_progress ::
  "blake3 \<Rightarrow> aead \<Rightarrow> bao \<Rightarrow> bytes list \<Rightarrow> local_share \<Rightarrow> world \<Rightarrow> ((error + unit) \<times> local_share) option" where
  "restore_progress h A B outboards s w = restore_files h A B w 0 outboards s"

subsection \<open>Reading finished files\<close>

fun verify_files :: "blake3 \<Rightarrow> aead \<Rightarrow> bao \<Rightarrow> world \<Rightarrow> (local_file \<times> file_entry) list \<Rightarrow> error + unit" where
  "verify_files h A B w [] = Inr ()"
| "verify_files h A B w ((f, entry) # rest) =
     bind_result (map_err Chunker (hash_data h A B (lf_data f) (unat (fe_size entry)) w)) (\<lambda>ob.
     if ob_root ob \<noteq> fe_root entry then Inl (HashMismatch (data_path (lf_data f)))
     else verify_files h A B w rest)"

definition verify :: "blake3 \<Rightarrow> aead \<Rightarrow> bao \<Rightarrow> local_share \<Rightarrow> world \<Rightarrow> error + unit" where
  "verify h A B s w = verify_files h A B w (zip (ls_files s) (m_files (ls_manifest s)))"

definition check_file :: "nat \<Rightarrow> local_share \<Rightarrow> (error + local_file) option" where
  "check_file i s =
     (case idx (ls_files s) i of
        None \<Rightarrow> Some (Inl (NotAvailable (''no file number '' @ show_nat i)))
      | Some f \<Rightarrow> do {
          complete \<leftarrow> file_complete s i;
          Some (if complete then Inr f
                else Inl (NotAvailable ''that file hasn't finished downloading'')) })"

definition read_range ::
  "blake3 \<Rightarrow> aead \<Rightarrow> nat \<Rightarrow> u64 \<Rightarrow> nat \<Rightarrow> local_share \<Rightarrow> world \<Rightarrow> (error + bytes) option" where
  "read_range h A i offset len s w = do {
     checked \<leftarrow> check_file i s;
     (case checked of
        Inl e \<Rightarrow> Some (Inl e)
      | Inr f \<Rightarrow> do {
          entry \<leftarrow> idx (m_files (ls_manifest s)) i;
          (let n = min len (unat (fe_size entry) - unat offset); path = data_path (lf_data f) in
           Some (map_err (Io path)
             (bind_result (open_strict h (lf_data f) w) (\<lambda>hnd. handle_read_exact A hnd w (unat offset) n)))) }) }"

text \<open>\<open>io::copy\<close> from a reader limited to \<open>n\<close> bytes: what was copied, and the error it ended with.\<close>

function copy_loop :: "source \<Rightarrow> nat \<Rightarrow> nat \<Rightarrow> bytes \<times> io_error option" where
  "copy_loop rd pos n =
     (if n = 0 then ([], None)
      else case rd pos n of
        Inl e \<Rightarrow> ([], Some e)
      | Inr b \<Rightarrow>
          if b = [] then ([], None)
          else (case copy_loop rd (pos + length b) (n - length b) of (tail, e) \<Rightarrow> (b @ tail, e)))"
  by pat_completeness auto
termination by (relation "measure (\<lambda>(_, _, n). n)") auto

declare copy_loop.simps [simp del]

definition remove_file :: "path \<Rightarrow> world \<Rightarrow> world" where
  "remove_file p w = (if faults w ForWrite p = None then w\<lparr>files := (files w)(p := None)\<rparr> else w)"

definition export_file ::
  "blake3 \<Rightarrow> aead \<Rightarrow> nat \<Rightarrow> path \<Rightarrow> local_share \<Rightarrow> world \<Rightarrow> ((error + unit) \<times> world) option" where
  "export_file h A i dest s w = do {
     checked \<leftarrow> check_file i s;
     (case checked of
        Inl e \<Rightarrow> Some (Inl e, w)
      | Inr f \<Rightarrow> do {
          entry \<leftarrow> idx (m_files (ls_manifest s)) i;
          Some (case bind_result (ensure_parent dest w)
                  (\<lambda>_. open_file (open_options\<lparr>oo_write := True, oo_create_new := True\<rparr>) dest w) of
             Inl e \<Rightarrow> (Inl (Io dest e), w)
           | Inr w1 \<Rightarrow>
               (case open_strict h (lf_data f) w1 of
                  Inl e \<Rightarrow> (Inl (Io dest e), w1)
                | Inr hnd \<Rightarrow>
                    (case copy_loop (handle_read_at A hnd w1) 0 (unat (fe_size entry)) of
                       (b, Some e) \<Rightarrow> (Inl (Io dest e), put_file dest b w1)
                     | (b, None) \<Rightarrow>
                         if length b \<noteq> unat (fe_size entry) then
                           (Inl (Io dest IoUnexpectedEof), remove_file dest (put_file dest b w1))
                         else (Inr (), put_file dest b w1)))) }) }"

subsection \<open>Making a share\<close>

text \<open>\<open>assemble\<close>; encoding the manifest panics if postcard refuses it.\<close>

definition assemble ::
  "blake3 \<Rightarrow> manifest codec \<Rightarrow> (path \<Rightarrow> (nat \<times> nat) option) \<Rightarrow> manifest \<Rightarrow> (file_data \<times> outboard) list \<Rightarrow>
     bytes option \<Rightarrow> path \<Rightarrow> local_share option" where
  "assemble h pc stamp m hashed secret root = do {
     m_bytes \<leftarrow> manifest_encode pc m;
     Some (from_parts h m m_bytes (map (\<lambda>(d, ob). shared_in_place stamp d ob) hashed) secret True root) }"

definition ingest_plain :: "bao \<Rightarrow> (file_data, world) ingest" where
  "ingest_plain B index path sz w =
     (bind_result (map_err Chunker (hash_file B path w)) (\<lambda>ob. Inr (Plain path, ob)), w)"

text \<open>\<open>chunks\<close> gives the successive reads of a source file while it is imported.\<close>

definition ingest_encrypted ::
  "blake3 \<Rightarrow> aead \<Rightarrow> bao \<Rightarrow> (bytes \<Rightarrow> bytes list) \<Rightarrow> path \<Rightarrow> master_key \<Rightarrow> (file_data, world) ingest" where
  "ingest_encrypted h A B chunks dir key index path sz w =
     (let d = Encrypted (path_join dir (path_of (show_nat index @ ''.enc''))) key (unat sz) in
      case open_file (open_options\<lparr>oo_read := True\<rparr>) path w of
        Inl e \<Rightarrow> (Inl (Io path e), w)
      | Inr w1 \<Rightarrow>
          (case chunker_import h A B (chunks (file_content path w1)) (unat sz) d w1 of
             (Inl e, w2) \<Rightarrow> (Inl (Chunker e), w2)
           | (Inr ob, w2) \<Rightarrow> (Inr (d, ob), w2)))"

definition share_from_disk ::
  "blake3 \<Rightarrow> aead \<Rightarrow> bao \<Rightarrow> manifest codec \<Rightarrow> (str \<Rightarrow> str) \<Rightarrow> (path \<Rightarrow> (nat \<times> nat) option) \<Rightarrow> (bytes \<Rightarrow> bytes list) \<Rightarrow>
     path \<Rightarrow> fsnode \<Rightarrow> str option \<Rightarrow> bytes option \<Rightarrow> store_config option \<Rightarrow> world
     \<Rightarrow> ((error + local_share) \<times> world) option" where
  "share_from_disk h A B pc lower stamp chunks root node label secret store w =
     (let (encrypted, w0) = (case store of
            None \<Rightarrow> (None, w)
          | Some st \<Rightarrow> (case st_key st of
              None \<Rightarrow> (None, w)
            | Some key \<Rightarrow> (let (dir, w1) = new_share_dir st w in (Some (dir, key), w1))));
          ingest = (case encrypted of
            None \<Rightarrow> ingest_plain B
          | Some (dir, key) \<Rightarrow> ingest_encrypted h A B chunks dir key) in
      case manifest_from_disk lower root node label ingest w0 of
        (Inl e, w1) \<Rightarrow> Some (Inl e, w1)
      | (Inr (m, hashed), w1) \<Rightarrow> do {
          s \<leftarrow> assemble h pc stamp m hashed secret (case encrypted of None \<Rightarrow> root | Some (dir, _) \<Rightarrow> dir);
          Some (Inr s, w1) })"

definition share_from_reader ::
  "blake3 \<Rightarrow> aead \<Rightarrow> bao \<Rightarrow> manifest codec \<Rightarrow> (path \<Rightarrow> (nat \<times> nat) option) \<Rightarrow>
     str \<Rightarrow> u64 \<Rightarrow> bytes list \<Rightarrow> bytes option \<Rightarrow> store_config \<Rightarrow> world \<Rightarrow> ((error + local_share) \<times> world) option" where
  "share_from_reader h A B pc stamp name sz reads secret store w =
     (let (dir, w0) = new_share_dir store w;
          d = (case st_key store of
             Some key \<Rightarrow> Encrypted (path_join dir (path_of ''0.enc'')) key (unat sz)
           | None \<Rightarrow> Plain (path_join dir (path_of name))) in
      case chunker_import h A B reads (unat sz) d w0 of
        (Inl e, w1) \<Rightarrow> Some (Inl (Chunker e), w1)
      | (Inr ob, w1) \<Rightarrow>
          (case manifest_single name ob of
             Inl e \<Rightarrow> Some (Inl e, w1)
           | Inr m \<Rightarrow> do {
               s \<leftarrow> assemble h pc stamp m [(d, ob)] secret
                 (case d of Plain path \<Rightarrow> path | Encrypted _ _ _ \<Rightarrow> dir);
               Some (Inr s, w1) }))"

definition download_data :: "path \<Rightarrow> master_key option \<Rightarrow> nat \<Rightarrow> file_entry \<Rightarrow> file_data" where
  "download_data dest_dir key index entry =
     (case key of
        Some key \<Rightarrow> Encrypted (path_join dest_dir (path_of (show_nat index @ ''.enc''))) key (unat (fe_size entry))
      | None \<Rightarrow> Plain (path_join dest_dir (file_entry_path entry)))"

text \<open>
  One file of \<open>for_download\<close>: its outboard, and whether it was complete
  already; and the loop: the files made ready, and which were complete.
\<close>

definition prepare_file ::
  "bao \<Rightarrow> file_data \<Rightarrow> file_entry \<Rightarrow> world \<Rightarrow> (error + outboard \<times> bool) \<times> world" where
  "prepare_file B d entry w =
     (let path = data_path d;
          existing = (\<not> is_encrypted d \<and> file_len path w = Some (unat (fe_size entry)));
          full = (if existing then result_ok (hash_file B path w) else None) in
      case (case full of None \<Rightarrow> None | Some ob \<Rightarrow> if ob_root ob = fe_root entry then Some ob else None) of
        Some ob \<Rightarrow> (Inr (ob, True), w)
      | None \<Rightarrow>
          (case preallocate d (unat (fe_size entry)) w of
             Inl e \<Rightarrow> (Inl (Io path e), w)
           | Inr w1 \<Rightarrow> (Inr (empty_outboard B (fe_root entry) (fe_size entry), False), w1)))"

fun download_files ::
  "bao \<Rightarrow> path \<Rightarrow> master_key option \<Rightarrow> nat \<Rightarrow> file_entry list \<Rightarrow> world
     \<Rightarrow> (error + local_file list \<times> nat list) \<times> world" where
  "download_files B dest_dir key index [] w = (Inr ([], []), w)"
| "download_files B dest_dir key index (entry # entries) w =
     (let d = download_data dest_dir key index entry in
      case prepare_file B d entry w of
        (Inl e, w1) \<Rightarrow> (Inl e, w1)
      | (Inr (ob, complete), w1) \<Rightarrow>
          (case download_files B dest_dir key (index + 1) entries w1 of
             (Inl e, w2) \<Rightarrow> (Inl e, w2)
           | (Inr (made, finished), w2) \<Rightarrow>
               (Inr (local_file_new d ob # made, if complete then index # finished else finished), w2)))"

fun mark_all :: "nat list \<Rightarrow> local_share \<Rightarrow> local_share option" where
  "mark_all [] s = Some s"
| "mark_all (p # ps) s = do { s1 \<leftarrow> mark_have p s; mark_all ps s1 }"

fun mark_complete :: "nat list \<Rightarrow> local_share \<Rightarrow> local_share option" where
  "mark_complete [] s = Some s"
| "mark_complete (index # rest) s = do {
     (a, b) \<leftarrow> pieces_of (ls_layout s) index;
     s1 \<leftarrow> mark_all [a..<b] s;
     mark_complete rest s1 }"

definition for_download ::
  "blake3 \<Rightarrow> bao \<Rightarrow> manifest \<Rightarrow> bytes \<Rightarrow> path \<Rightarrow> master_key option \<Rightarrow> bytes option \<Rightarrow> world
     \<Rightarrow> ((error + local_share) \<times> world) option" where
  "for_download h B m m_bytes dest_dir key secret w =
     (case download_files B dest_dir key 0 (m_files m) w of
        (Inl e, w1) \<Rightarrow> Some (Inl e, w1)
      | (Inr (fs, finished), w1) \<Rightarrow> do {
          s \<leftarrow> mark_complete finished (from_parts h m m_bytes fs secret False
            (case key of Some _ \<Rightarrow> dest_dir | None \<Rightarrow> path_join dest_dir (path_of (m_name m))));
          Some (Inr s, w1) })"

end
