(* ===== verification/Share_Safety.thy ===== *)
theory Share_Safety
  imports Local_Share
begin

text \<open>
  A share's progress is never wrong: whatever bytes peers send, a piece is
  marked as held only when the file holds exactly the content with the
  manifest's hash there, and it stays so.
\<close>

subsection \<open>Decoding into a file\<close>

definition leaf_at :: "(nat \<times> bytes) list \<Rightarrow> nat \<Rightarrow> bool" where
  "leaf_at leaves j \<longleftrightarrow> (\<exists>(off, b) \<in> set leaves. off \<le> j \<and> j < off + length b)"

lemma leaf_at_simps [simp]:
  "\<not> leaf_at [] j" "leaf_at ((off, b) # leaves) j \<longleftrightarrow> off \<le> j \<and> j < off + length b \<or> leaf_at leaves j"
  by (auto simp: leaf_at_def)

lemma write_leaves_ok:
  assumes "handle_writable A dest w" "length (handle_view A dest w) = length content" "handle_room dest (length content)"
    and "\<forall>(off, b) \<in> set leaves. off + length b \<le> length content \<and> b = slice off (length b) content"
  shows "\<exists>w'. write_leaves A dest leaves w = (Inr (), w') \<and> handle_writable A dest w' \<and> touched A dest w w' \<and>
    length (handle_view A dest w') = length content \<and>
    (\<forall>j < length content. handle_view A dest w' ! j = (if leaf_at leaves j then content ! j else handle_view A dest w ! j)) \<and>
    (\<forall>e j. dest = EncHandle e \<and> leaf_at leaves j \<longrightarrow> block_written A e w' (j div block))"
  using assms
proof (induction leaves arbitrary: w)
  case (Cons leaf leaves)
  obtain off b where leaf: "leaf = (off, b)" by fastforce
  with Cons.prems have b: "off + length b \<le> length content" "b = slice off (length b) content" by auto
  have room: "handle_room dest (off + length b)"
    using b(1) Cons.prems(3) by (auto simp: handle_room_def split: handle.splits)
  obtain w1 where w1: "handle_write_all A dest w off b = (Inr (), w1)" "handle_writable A dest w1" "touched A dest w w1"
    "handle_view A dest w1 = splice off b (handle_view A dest w)"
    using handle_write_all_ok [OF Cons.prems(1) _ room] b(1) Cons.prems(2) by auto
  have len: "length (handle_view A dest w1) = length content" using w1(4) b(1) Cons.prems(2) by simp
  have view1: "handle_view A dest w1 ! j = (if off \<le> j \<and> j < off + length b then content ! j else handle_view A dest w ! j)"
    if "j < length content" for j
  proof (cases "off \<le> j \<and> j < off + length b")
    case True
    have "b ! (j - off) = slice off (length b) content ! (j - off)" using b(2) by simp
    also have "\<dots> = content ! (off + (j - off))" using True that b(1) by (intro nth_slice) auto
    also have "off + (j - off) = j" using True by simp
    finally show ?thesis using True that b(1) Cons.prems(2) w1(4) by (simp add: nth_splice)
  next
    case False
    then show ?thesis using that b(1) Cons.prems(2) w1(4) by (auto simp: nth_splice)
  qed
  obtain w' where w': "write_leaves A dest leaves w1 = (Inr (), w')" "handle_writable A dest w'" "touched A dest w1 w'"
    "length (handle_view A dest w') = length content"
    "\<forall>j < length content. handle_view A dest w' ! j = (if leaf_at leaves j then content ! j else handle_view A dest w1 ! j)"
    "\<forall>e j. dest = EncHandle e \<and> leaf_at leaves j \<longrightarrow> block_written A e w' (j div block)"
    using Cons.IH [OF w1(2) len Cons.prems(3)] Cons.prems(4) by auto
  have "block_written A e w' (j div block)" if e: "dest = EncHandle e" and j: "off \<le> j" "j < off + length b" for e j
  proof -
    have A: "aead_ok A" using Cons.prems(1) e by (simp add: handle_writable_def enc_writable_def)
    have sz: "en_size e = length content" using Cons.prems(2) enc_view_nth(1) [OF A] e by (simp add: handle_view_def)
    have "block_written A e w1 (j div block)"
      by (rule handle_write_all_written [of A e w off b]) (use Cons.prems(1) w1(1) e sz b(1) j in auto)
    moreover have "j div block < blocks e" using j b(1) sz by (intro block_of_pos) simp
    ultimately show ?thesis using w'(3) e by (simp add: touched_def)
  qed
  moreover have "write_leaves A dest (leaf # leaves) w = (Inr (), w')" using leaf w1(1) w'(1) by simp
  ultimately show ?case
    using w' view1 touched_trans [OF w1(3) w'(3)] unfolding leaf by (intro exI [of _ w']) auto
qed auto

text \<open>However a peer's encoding of a range is forged, decoding it changes the
  file only to bytes of the true content, at their place; and when it is
  accepted, the whole range holds the true content (and, in an encrypted
  file, counts as written).\<close>

theorem decode_range_safe:
  assumes "bao_sound B root content" "handle_writable A dest w"
    and "length (handle_view A dest w) = length content" "handle_room dest (length content)"
    and "decode_range A B dest path root (length content) start stop encoded w = (r, w')"
  shows "handle_writable A dest w' \<and> touched A dest w w' \<and> length (handle_view A dest w') = length content \<and>
    (\<forall>j < length content. handle_view A dest w' ! j \<in> {handle_view A dest w ! j, content ! j}) \<and>
    ((\<exists>nodes. r = Inr nodes) \<longrightarrow> (\<forall>j. start \<le> j \<and> j < stop \<and> j < length content \<longrightarrow>
       handle_view A dest w' ! j = content ! j \<and> (\<forall>e. dest = EncHandle e \<longrightarrow> block_written A e w' (j div block))))"
proof -
  obtain leaves nodes failure where d:
    "bao_decode B root (length content) (round_up_to_chunks B (start, stop)) encoded = (leaves, nodes, failure)"
    by (cases "bao_decode B root (length content) (round_up_to_chunks B (start, stop)) encoded") auto
  have sound: "\<forall>(off, b) \<in> set leaves. off + length b \<le> length content \<and> b = slice off (length b) content"
    "failure = None \<Longrightarrow> start \<le> j \<Longrightarrow> j < stop \<Longrightarrow> j < length content \<Longrightarrow> leaf_at leaves j" for j
    using assms(1) d unfolding bao_sound_def leaf_at_def by blast+
  obtain w1 where w1: "write_leaves A dest leaves w = (Inr (), w1)" "handle_writable A dest w1" "touched A dest w w1"
    "length (handle_view A dest w1) = length content"
    "\<forall>j < length content. handle_view A dest w1 ! j = (if leaf_at leaves j then content ! j else handle_view A dest w ! j)"
    "\<forall>e j. dest = EncHandle e \<and> leaf_at leaves j \<longrightarrow> block_written A e w1 (j div block)"
    using write_leaves_ok [OF assms(2-4) sound(1)] by blast
  have "w' = w1" "(\<exists>nodes. r = Inr nodes) \<longrightarrow> failure = None"
    using assms(5) d w1(1) by (auto simp: decode_range_def split: option.splits)
  with w1 sound(2) show ?thesis by auto
qed


lemma toy_bytes: "slice 0 65536 (replicate 70000 (9 :: u8)) = replicate 65536 9"
  by (simp add: slice_def)

theorem decode_range_safe_witness:
  "\<exists>r w'. decode_range toy_aead toy_bao (EncHandle toy_enc) [] (replicate 70000 9) 70000 0 65536 (replicate 65536 9) toy_world
      = (r, w') \<and> handle_writable toy_aead (EncHandle toy_enc) w'"
  using decode_range_safe [OF toy_bao_sound toy_writable, of "replicate 70000 9" "[]" 0 65536 "replicate 65536 9"]
  unfolding toy_view_length toy_room length_replicate
  by (cases "decode_range toy_aead toy_bao (EncHandle toy_enc) [] (replicate 70000 9) 70000 0 65536 (replicate 65536 9) toy_world")
     blast

subsection \<open>The invariant of a share\<close>

text \<open>
  A file of a share is ready when it opens for writing at its full size; the
  handle kept open, if any, is that one.
\<close>

definition file_ready :: "blake3 \<Rightarrow> aead \<Rightarrow> world \<Rightarrow> local_file \<Rightarrow> nat \<Rightarrow> handle \<Rightarrow> bool" where
  "file_ready h A w f sz hnd \<longleftrightarrow>
     open_data h True (lf_data f) w = Inr hnd \<and> handle_writable A hnd w \<and>
     length (handle_view A hnd w) = sz \<and> handle_room hnd sz \<and>
     (lf_writer f = None \<or> lf_writer f = Some hnd)"

definition byte_held :: "aead \<Rightarrow> bytes \<Rightarrow> world \<Rightarrow> handle \<Rightarrow> nat \<Rightarrow> bool" where
  "byte_held A content w hnd j \<longleftrightarrow>
     handle_view A hnd w ! j = content ! j \<and> (\<forall>e. hnd = EncHandle e \<longrightarrow> block_written A e w (j div block))"

definition in_piece :: "local_share \<Rightarrow> nat \<Rightarrow> nat \<Rightarrow> nat \<Rightarrow> bool" where
  "in_piece s p i j \<longleftrightarrow> (\<exists>loc. locate (ls_layout s) p = Some loc \<and> loc_file loc = i \<and>
     unat (loc_start loc) \<le> j \<and> j < unat (loc_end loc))"

definition share_shape :: "local_share \<Rightarrow> bool" where
  "share_shape s \<longleftrightarrow> fits (ls_manifest s) \<and> ls_layout s = layout_new (ls_manifest s) \<and>
     length (ls_have s) = total_pieces (ls_layout s) \<and> length (ls_files s) = length (m_files (ls_manifest s)) \<and>
     distinct (map (data_path \<circ> lf_data) (ls_files s))"

definition entry_size :: "local_share \<Rightarrow> nat \<Rightarrow> nat" where
  "entry_size s i = unat (fe_size (m_files (ls_manifest s) ! i))"

definition contents_ok :: "bao \<Rightarrow> (nat \<Rightarrow> bytes) \<Rightarrow> manifest \<Rightarrow> bool" where
  "contents_ok B content m \<longleftrightarrow> (\<forall>i < length (m_files m). length (content i) = unat (fe_size (m_files m ! i)) \<and>
     bao_sound B (fe_root (m_files m ! i)) (content i))"

definition share_ok :: "blake3 \<Rightarrow> aead \<Rightarrow> (nat \<Rightarrow> bytes) \<Rightarrow> local_share \<Rightarrow> world \<Rightarrow> bool" where
  "share_ok h A content s w \<longleftrightarrow> share_shape s \<and>
     (\<forall>i < length (ls_files s). \<exists>hnd. file_ready h A w (ls_files s ! i) (entry_size s i) hnd \<and>
        (\<forall>p j. has s p \<and> in_piece s p i j \<longrightarrow> byte_held A (content i) w hnd j))"

text \<open>Opening and viewing a file depend only on it and on the system's answers.\<close>

lemma open_file_read_write:
  "open_file (opts\<lparr>oo_create := False, oo_create_new := False, oo_truncate := False\<rparr>) p w =
     (case access_fault opts p w of Some e \<Rightarrow> Inl e | None \<Rightarrow>
        (case files w p of None \<Rightarrow> Inl IoNotFound | Some _ \<Rightarrow> Inr w))"
  by (simp add: open_file_def access_fault_def split: option.split)

lemma open_with_cases:
  "open_with h wr strict d w =
     (let opts = (case d of Plain _ \<Rightarrow> open_options\<lparr>oo_read := \<not> wr, oo_write := wr\<rparr>
        | Encrypted _ _ _ \<Rightarrow> open_options\<lparr>oo_read := True, oo_write := wr\<rparr>);
        b = file_content (data_path d) w in
      case access_fault opts (data_path d) w of
        Some e \<Rightarrow> Inl e
      | None \<Rightarrow> if files w (data_path d) = None then Inl IoNotFound
        else (case d of
          Plain p \<Rightarrow> Inr (PlainHandle \<lparr>fh_path = p, fh_read = \<not> wr, fh_write = wr\<rparr>)
        | Encrypted p key sz \<Rightarrow>
            if length b < HEADER then Inl IoUnexpectedEof
            else if take 8 b \<noteq> MAGIC then Inl IoInvalidData
            else Inr (EncHandle \<lparr>en_file = \<lparr>fh_path = p, fh_read = True, fh_write = wr\<rparr>,
              en_cipher = file_key h key (drop 8 (take HEADER b)), en_size = sz, en_strict = strict\<rparr>)))"
  by (cases d; cases "files w (data_path d)")
     (auto simp: open_with_def open_file_def open_options_def access_fault_def pread_exact_def pread_def slice_def
       HEADER_def min_def file_content_def split: option.splits if_splits)

lemma open_handle_path:
  "open_data h wr d w = Inr hnd \<Longrightarrow> fh_path (handle_file hnd) = data_path d"
  by (auto simp: open_data_def open_with_cases Let_def split: option.splits if_splits file_data.splits)

lemma open_data_eq:
  assumes "faults w' = faults w" "(files w' (data_path d) = None) = (files w (data_path d) = None)"
    and "is_encrypted d \<Longrightarrow> length (file_content (data_path d) w') = length (file_content (data_path d) w)"
    and "is_encrypted d \<Longrightarrow> take HEADER (file_content (data_path d) w') = take HEADER (file_content (data_path d) w)"
  shows "open_data h wr d w' = open_data h wr d w"
proof -
  have acc: "access_fault opts q w' = access_fault opts q w" for opts q
    unfolding access_fault_def assms(1) ..
  show ?thesis
  proof (cases d)
    case (Plain path)
    show ?thesis
      using assms(2)
      unfolding open_data_def open_with_cases Let_def acc Plain file_data.case data_path.simps
      by (cases "files w path"; cases "files w' path") simp_all
  next
    case (Encrypted path key sz)
    then have same: "length (file_content path w') = length (file_content path w)"
      "take HEADER (file_content path w') = take HEADER (file_content path w)"
      using assms(3,4) by simp_all
    have "take 8 b = take 8 (take HEADER b)" for b :: bytes by (simp add: HEADER_def)
    with same(2) have m: "take 8 (file_content path w') = take 8 (file_content path w)" by metis
    show ?thesis
      using assms(2)
      unfolding open_data_def open_with_cases Let_def acc Encrypted file_data.case data_path.simps same m
      by (cases "files w path"; cases "files w' path") simp_all
  qed
qed

lemma open_data_same:
  assumes "files w' (data_path d) = files w (data_path d)" "faults w' = faults w"
  shows "open_data h wr d w' = open_data h wr d w"
  using assms by (intro open_data_eq) (simp_all add: file_content_def)

lemma open_data_touched:
  assumes "open_data h True d w = Inr hnd" "touched A hnd w w'"
  shows "open_data h True d w' = Inr hnd"
proof -
  have p: "fh_path (handle_file hnd) = data_path d" by (rule open_handle_path [OF assms(1)])
  have ex: "files w (data_path d) \<noteq> None"
    using assms(1) by (auto simp: open_data_def open_with_cases Let_def split: option.splits if_splits)
  have enc: "\<exists>e. hnd = EncHandle e" if "is_encrypted d"
    using assms(1) that
    by (cases d) (auto simp: open_data_def open_with_cases Let_def split: option.splits if_splits)
  have "open_data h True d w' = open_data h True d w"
  proof (rule open_data_eq)
    assume "is_encrypted d"
    with enc obtain e where "hnd = EncHandle e" by blast
    with assms(2) p show "length (file_content (data_path d) w') = length (file_content (data_path d) w)"
      "take HEADER (file_content (data_path d) w') = take HEADER (file_content (data_path d) w)"
      by (simp_all add: touched_def)
  qed (use ex assms(2) in \<open>auto simp: touched_def\<close>)
  with assms(1) show ?thesis by simp
qed

text \<open>A handle's bytes depend only on its file.\<close>

lemma handle_cong:
  assumes "file_content (fh_path (handle_file hnd)) w' = file_content (fh_path (handle_file hnd)) w"
  shows "handle_view A hnd w' = handle_view A hnd w" "byte_held A c w' hnd j = byte_held A c w hnd j"
proof -
  have blk: "block_view A e w' i = block_view A e w i \<and> block_written A e w' i = block_written A e w i"
    if "hnd = EncHandle e" for e i
    using assms that block_same [of e i w' w A]
    by (simp add: file_read_exact_def pread_exact_def pread_def)
  then have "block_view A e w' = block_view A e w" if "hnd = EncHandle e" for e using that by auto
  with assms show view: "handle_view A hnd w' = handle_view A hnd w"
    by (cases hnd) (simp_all add: handle_view_def enc_view_def)
  show "byte_held A c w' hnd j = byte_held A c w hnd j"
    using view blk by (auto simp: byte_held_def)
qed

lemma file_ready_frame:
  assumes "file_ready h A w f sz hnd" "files w' (data_path (lf_data f)) = files w (data_path (lf_data f))"
    "faults w' = faults w" "tape_ok w \<Longrightarrow> tape_ok w'"
  shows "file_ready h A w' f sz hnd" "byte_held A c w' hnd j = byte_held A c w hnd j"
proof -
  have p: "fh_path (handle_file hnd) = data_path (lf_data f)"
    using assms(1) by (auto simp: file_ready_def intro: open_handle_path)
  then have content: "file_content (fh_path (handle_file hnd)) w' = file_content (fh_path (handle_file hnd)) w"
    using assms(2) by (simp add: file_content_def)
  have "handle_writable A hnd w'"
    using assms(1,4) content by (cases hnd) (simp_all add: file_ready_def handle_writable_def enc_writable_def)
  then show "file_ready h A w' f sz hnd"
    using assms(1) open_data_same [OF assms(2,3)] handle_cong(1) [OF content] by (simp add: file_ready_def)
  show "byte_held A c w' hnd j = byte_held A c w hnd j" by (rule handle_cong(2) [OF content])
qed

lemma file_ready_other:
  assumes "file_ready h A w f sz hnd" "touched A hnd' w w'" "fh_path (handle_file hnd') \<noteq> data_path (lf_data f)"
  shows "file_ready h A w' f sz hnd" "byte_held A c w' hnd j = byte_held A c w hnd j"
proof -
  have "files w' (data_path (lf_data f)) = files w (data_path (lf_data f))" "faults w' = faults w"
    and "tape_ok w \<longrightarrow> tape_ok w'"
    using assms(2) unfolding touched_def by (metis assms(3))+
  then show "file_ready h A w' f sz hnd" "byte_held A c w' hnd j = byte_held A c w hnd j"
    using file_ready_frame [OF assms(1)] by blast+
qed

lemma file_ready_own:
  assumes "file_ready h A w f sz hnd" "touched A hnd w w'" "handle_writable A hnd w'" "length (handle_view A hnd w') = sz"
  shows "file_ready h A w' f sz hnd"
  using assms open_data_touched [of h "lf_data f" w hnd A w'] by (simp add: file_ready_def)

lemma file_ready_update:
  "file_ready h A w f sz hnd \<Longrightarrow> lf_data f' = lf_data f \<Longrightarrow> lf_writer f' = None \<or> lf_writer f' = Some hnd \<Longrightarrow>
     file_ready h A w f' sz hnd"
  by (simp add: file_ready_def)

subsection \<open>Storing a piece\<close>

definition held :: "local_share \<Rightarrow> nat set" where
  "held s = {p. has s p}"

lemma has_idx: "has s p \<longleftrightarrow> p < length (ls_have s) \<and> ls_have s ! p"
  by (auto simp: has_def idx_def)

lemma mark_have_ok:
  assumes "p < length (ls_have s)"
  obtains s' where "mark_have p s = Some s'" "held s' = insert p (held s)"
    "s' = s\<lparr>ls_have := (ls_have s)[p := True], ls_announced := ls_announced s'\<rparr>"
    "ls_announced s' = (if has s p then ls_announced s else ls_announced s @ [word_of_nat p])"
proof -
  have upd: "ls_have s ! p \<Longrightarrow> (ls_have s)[p := True] = ls_have s" by (metis (full_types) list_update_id)
  show thesis
  proof (cases "ls_have s ! p")
    case True
    then have "mark_have p s = Some s" using assms by (simp add: mark_have_def idx_Some)
    moreover have "held s = insert p (held s)" using True assms by (auto simp: held_def has_idx)
    ultimately show thesis using that [of s] True assms upd by (simp add: has_idx)
  next
    case False
    let ?s = "s\<lparr>ls_have := (ls_have s)[p := True], ls_announced := ls_announced s @ [word_of_nat p]\<rparr>"
    have "mark_have p s = Some ?s" using False assms by (simp add: mark_have_def idx_Some)
    moreover have "held ?s = insert p (held s)" using assms by (auto simp: held_def has_idx nth_list_update)
    ultimately show thesis using that [of ?s] False by (simp add: has_idx)
  qed
qed

lemma share_shape_piece:
  assumes "share_shape s" "p < length (ls_have s)"
  obtains loc where "locate (ls_layout s) p = Some loc" "loc_file loc < length (ls_files s)"
    "loc_file loc < length (m_files (ls_manifest s))"
    "unat (loc_end loc) \<le> entry_size s (loc_file loc)" "unat (loc_start loc) < unat (loc_end loc)"
proof -
  from assms obtain f q where f: "f < length (m_files (ls_manifest s))" "q < file_pieces (m_files (ls_manifest s) ! f)"
    and loc: "locate (ls_layout s) p = Some \<lparr>loc_file = f, loc_start = word_of_nat (q * BLOCK_SIZE),
      loc_end = word_of_nat (min (q * BLOCK_SIZE + BLOCK_SIZE) (unat (fe_size (m_files (ls_manifest s) ! f))))\<rparr>"
    unfolding share_shape_def by (metis locate_piece)
  have "fits (ls_manifest s)" using assms(1) by (simp add: share_shape_def)
  note bytes = piece_bytes [OF this f]
  show thesis
    by (rule that [OF loc])
       (use f bytes assms(1) in \<open>simp_all add: share_shape_def entry_size_def del: of_nat_mult of_nat_add\<close>)
qed


lemma set_local_file_simps [simp]:
  "ls_manifest (set_local_file i f s) = ls_manifest s" "ls_layout (set_local_file i f s) = ls_layout s"
  "ls_have (set_local_file i f s) = ls_have s" "ls_files (set_local_file i f s) = (ls_files s)[i := f]"
  "has (set_local_file i f s) = has s" "held (set_local_file i f s) = held s"
  "in_piece (set_local_file i f s) = in_piece s" "entry_size (set_local_file i f s) = entry_size s"
  by (auto simp: set_local_file_def has_def in_piece_def entry_size_def held_def fun_eq_iff)

lemma share_ok_file:
  assumes "share_ok h A content s w" "i < length (ls_files s)"
  shows "\<exists>hnd. file_ready h A w (ls_files s ! i) (entry_size s i) hnd \<and>
    (\<forall>p j. has s p \<longrightarrow> in_piece s p i j \<longrightarrow> byte_held A (content i) w hnd j)"
  using assms unfolding share_ok_def by blast

lemma in_piece_size:
  assumes "share_shape s" "has s p \<or> p < length (ls_have s)" "in_piece s p i j"
  shows "j < entry_size s i"
proof -
  have "p < length (ls_have s)" using assms(2) by (auto simp: has_idx)
  then obtain loc where "locate (ls_layout s) p = Some loc" "unat (loc_end loc) \<le> entry_size s (loc_file loc)"
    by (rule share_shape_piece [OF assms(1)])
  with assms(3) show ?thesis by (auto simp: in_piece_def)
qed

text \<open>Replacing one file's record and writing through its handle keeps the invariant.\<close>

lemma share_ok_update:
  assumes ok: "share_ok h A content s w" and i: "i < length (ls_files s)"
    and ready: "file_ready h A w (ls_files s ! i) (entry_size s i) hnd"
    and w1: "touched A hnd w w1" "handle_writable A hnd w1" "length (handle_view A hnd w1) = entry_size s i"
    and f': "lf_data f' = lf_data (ls_files s ! i)" "lf_writer f' = None \<or> lf_writer f' = Some hnd"
    and held: "\<And>p j. has s p \<Longrightarrow> in_piece s p i j \<Longrightarrow> byte_held A (content i) w1 hnd j"
  shows "share_ok h A content (set_local_file i f' s) w1"
  unfolding share_ok_def
proof (intro conjI allI impI)
  have paths: "map (data_path \<circ> lf_data) ((ls_files s)[i := f']) = map (data_path \<circ> lf_data) (ls_files s)"
    using f'(1) i by (simp add: map_update) (metis comp_apply list_update_id map_update nth_map)
  have shape: "share_shape s" using ok by (simp add: share_ok_def)
  then show "share_shape (set_local_file i f' s)"
    unfolding share_shape_def set_local_file_simps paths by simp
  have path: "fh_path (handle_file hnd) = data_path (lf_data (ls_files s ! i))"
    using ready by (auto simp: file_ready_def intro: open_handle_path)
  fix k assume "k < length (ls_files (set_local_file i f' s))"
  then have k: "k < length (ls_files s)" by simp
  show "\<exists>hnd. file_ready h A w1 (ls_files (set_local_file i f' s) ! k) (entry_size (set_local_file i f' s) k) hnd \<and>
      (\<forall>p j. has (set_local_file i f' s) p \<and> in_piece (set_local_file i f' s) p k j \<longrightarrow> byte_held A (content k) w1 hnd j)"
  proof (cases "k = i")
    case True
    have "file_ready h A w1 f' (entry_size s i) hnd"
      by (rule file_ready_update [OF file_ready_own [OF ready w1] f'])
    with True held i show ?thesis by auto
  next
    case False
    obtain hnd' where ready': "file_ready h A w (ls_files s ! k) (entry_size s k) hnd'"
      and held': "\<And>p j. has s p \<Longrightarrow> in_piece s p k j \<Longrightarrow> byte_held A (content k) w hnd' j"
      using share_ok_file [OF ok k] by blast
    have "fh_path (handle_file hnd) \<noteq> data_path (lf_data (ls_files s ! k))"
      using shape i k False unfolding path share_shape_def
      by (metis (no_types, lifting) comp_apply length_map nth_eq_iff_index_eq nth_map)
    with file_ready_other [OF ready' w1(1)] held' False show ?thesis by auto
  qed
qed

lemma share_ok_mark:
  assumes "share_ok h A content s w" "p < length (ls_have s)" "mark_have p s = Some s'"
    and "\<And>i hnd j. i < length (ls_files s) \<Longrightarrow> file_ready h A w (ls_files s ! i) (entry_size s i) hnd \<Longrightarrow>
      in_piece s p i j \<Longrightarrow> byte_held A (content i) w hnd j"
  shows "share_ok h A content s' w" "held s' = insert p (held s)" "ls_manifest s' = ls_manifest s"
    "ls_layout s' = ls_layout s" "ls_files s' = ls_files s"
proof -
  obtain t where t: "mark_have p s = Some t" "held t = insert p (held s)"
    "t = s\<lparr>ls_have := (ls_have s)[p := True], ls_announced := ls_announced t\<rparr>"
    by (rule mark_have_ok [OF assms(2)])
  have s': "s' = t" using assms(3) t(1) by simp
  have eq: "ls_manifest s' = ls_manifest s" "ls_layout s' = ls_layout s" "ls_files s' = ls_files s"
    "length (ls_have s') = length (ls_have s)"
    unfolding s' by (subst t(3), simp)+
  show "held s' = insert p (held s)" using t(2) s' by simp
  show "ls_manifest s' = ls_manifest s" "ls_layout s' = ls_layout s" "ls_files s' = ls_files s" using eq by simp_all
  have has: "has s' q \<longleftrightarrow> q = p \<or> has s q" for q
    using t(2) s' by (auto simp: held_def)
  have same: "in_piece s' = in_piece s" "entry_size s' = entry_size s" "share_shape s' = share_shape s"
    using eq by (auto simp: in_piece_def entry_size_def share_shape_def fun_eq_iff)
  show "share_ok h A content s' w"
    unfolding share_ok_def same eq
  proof (intro conjI allI impI)
    show "share_shape s" using assms(1) by (simp add: share_ok_def)
    fix i assume i: "i < length (ls_files s)"
    obtain hnd where "file_ready h A w (ls_files s ! i) (entry_size s i) hnd"
      "\<And>p j. has s p \<Longrightarrow> in_piece s p i j \<Longrightarrow> byte_held A (content i) w hnd j"
      using share_ok_file [OF assms(1) i] by blast
    with assms(4) [OF i] show "\<exists>hnd. file_ready h A w (ls_files s ! i) (entry_size s i) hnd \<and>
        (\<forall>p j. has s' p \<and> in_piece s p i j \<longrightarrow> byte_held A (content i) w hnd j)"
      unfolding has by (intro exI [of _ hnd]) auto
  qed
qed

lemma file_ready_unique: "file_ready h A w f n hnd \<Longrightarrow> file_ready h A w f n' hnd' \<Longrightarrow> hnd' = hnd"
  by (simp add: file_ready_def)

text \<open>Decoding into a file keeps every byte held, and a decoding that succeeds holds the whole piece.\<close>

lemma decode_keeps_held:
  assumes ready: "file_ready h A w f (length c) hnd" and safe: "touched A hnd w w1"
      "\<And>j. j < length c \<Longrightarrow> handle_view A hnd w ! j = c ! j \<Longrightarrow> handle_view A hnd w1 ! j = c ! j"
    and j: "byte_held A c w hnd j" "j < length c"
  shows "byte_held A c w1 hnd j"
proof -
  have "block_written A e w1 (j div block)" if e: "hnd = EncHandle e" for e
  proof -
    have "en_size e = length c"
      using ready e enc_view_nth(1) [of A e w] by (simp add: file_ready_def handle_view_def handle_writable_def enc_writable_def)
    then have "j div block < blocks e" using j(2) by (intro block_of_pos) simp
    with j(1) safe(1) e show ?thesis by (simp add: byte_held_def touched_def)
  qed
  then show ?thesis using safe(2) j by (simp add: byte_held_def)
qed

lemma decode_into_file:
  assumes ok: "share_ok h A content s w" and B: "contents_ok B content (ls_manifest s)"
    and loc: "locate (ls_layout s) p = Some loc" "loc_file loc = i" "i < length (ls_files s)" "unat (loc_end loc) \<le> entry_size s i"
    and ready: "file_ready h A w (ls_files s ! i) (entry_size s i) hnd"
    and run: "decode_range A B hnd path (fe_root (m_files (ls_manifest s) ! i)) (unat (fe_size (m_files (ls_manifest s) ! i)))
        (unat (loc_start loc)) (unat (loc_end loc)) encoded w = (r, w1)"
    and f': "lf_data f' = lf_data (ls_files s ! i)" "lf_writer f' = Some hnd"
  shows "share_ok h A content (set_local_file i f' s) w1"
    "r = Inr nodes \<Longrightarrow> file_ready h A w1 ((ls_files s)[i := f'] ! k) n hnd' \<Longrightarrow> in_piece s p k j \<Longrightarrow> byte_held A (content k) w1 hnd' j"
proof -
  have shape: "share_shape s" using ok by (simp add: share_ok_def)
  have size: "unat (fe_size (m_files (ls_manifest s) ! i)) = length (content i)" "entry_size s i = length (content i)"
    and root: "bao_sound B (fe_root (m_files (ls_manifest s) ! i)) (content i)"
    using B loc(3) shape by (simp_all add: contents_ok_def entry_size_def share_shape_def)
  have hw: "handle_writable A hnd w" "length (handle_view A hnd w) = length (content i)" "handle_room hnd (length (content i))"
    using ready size by (simp_all add: file_ready_def)
  note safe = decode_range_safe [OF root hw run [unfolded size(1)]]
  obtain hnd0 where hnd0: "file_ready h A w (ls_files s ! i) (entry_size s i) hnd0"
    "\<And>q j. has s q \<Longrightarrow> in_piece s q i j \<Longrightarrow> byte_held A (content i) w hnd0 j"
    using share_ok_file [OF ok loc(3)] by blast
  have same: "hnd0 = hnd" by (rule file_ready_unique [OF ready hnd0(1)])
  show "share_ok h A content (set_local_file i f' s) w1"
  proof (rule share_ok_update [OF ok loc(3) ready])
    show "touched A hnd w w1" "handle_writable A hnd w1" "length (handle_view A hnd w1) = entry_size s i"
      using safe size by auto
    show "byte_held A (content i) w1 hnd j" if q: "has s q" "in_piece s q i j" for q j
    proof (rule decode_keeps_held [OF ready [unfolded size(2)]])
      show "touched A hnd w w1" using safe by blast
      show "byte_held A (content i) w hnd j" using hnd0(2) [OF q] same by simp
      show "j < length (content i)" using in_piece_size [OF shape _ q(2)] q(1) size(2) by simp
    qed (use safe in auto)
  qed (use f' in simp_all)
  assume "r = Inr nodes" and k: "file_ready h A w1 ((ls_files s)[i := f'] ! k) n hnd'" "in_piece s p k j"
  have ki: "k = i" "unat (loc_start loc) \<le> j" "j < unat (loc_end loc)" using k(2) loc(1,2) by (auto simp: in_piece_def)
  have "hnd' = hnd" using k(1) f' loc(3) ki(1) by (simp add: file_ready_def)
  moreover have "j < length (content i)" using ki loc(4) size(2) by simp
  ultimately show "byte_held A (content k) w1 hnd' j" using safe \<open>r = _\<close> ki by (simp add: byte_held_def)
qed

lemma store_piece_ok:
  assumes ok: "share_ok h A content s w" and B: "contents_ok B content (ls_manifest s)"
    and p: "p < length (ls_have s)"
  shows "\<exists>r s' w'. store_piece h A B p encoded s w = Some (r, s', w') \<and> share_ok h A content s' w' \<and>
    ls_manifest s' = ls_manifest s \<and> length (ls_have s') = length (ls_have s) \<and>
    held s' = (if r = Inr True then insert p (held s) else held s) \<and> (r = Inr False \<longleftrightarrow> p \<in> held s)"
proof (cases "has s p")
  case True
  then show ?thesis using ok by (simp add: store_piece_def held_def)
next
  case False
  have shape: "share_shape s" using ok by (simp add: share_ok_def)
  obtain loc where loc: "locate (ls_layout s) p = Some loc" "loc_file loc < length (ls_files s)"
    "loc_file loc < length (m_files (ls_manifest s))" "unat (loc_end loc) \<le> entry_size s (loc_file loc)"
    by (rule share_shape_piece [OF shape p])
  let ?i = "loc_file loc"
  let ?f = "ls_files s ! ?i" and ?entry = "m_files (ls_manifest s) ! ?i"
  obtain hnd where ready: "file_ready h A w ?f (entry_size s ?i) hnd" using share_ok_file [OF ok loc(2)] by blast
  have opened: "(case lf_writer ?f of Some hnd \<Rightarrow> Inr hnd
      | None \<Rightarrow> map_err (ChunkerReceive (data_path (lf_data ?f))) (open_data h True (lf_data ?f) w)) = Inr hnd"
    using ready by (auto simp: file_ready_def)
  obtain r w1 where d: "decode_range A B hnd (data_path (lf_data ?f)) (fe_root ?entry) (unat (fe_size ?entry))
      (unat (loc_start loc)) (unat (loc_end loc)) encoded w = (r, w1)" by fastforce
  note decoded = decode_into_file [OF ok B loc(1) refl loc(2,4) ready d]
  note step = store_piece_def [of h A B p encoded s w, unfolded if_not_P [OF False] loc(1) idx_Some [OF loc(2)]
      idx_Some [OF loc(3)] bind_assert_Some Let_def, unfolded opened sum.case d prod.case]
  show ?thesis
  proof (cases r)
    case (Inl e)
    with step decoded(1) [of "?f\<lparr>lf_writer := Some hnd\<rparr>"] False show ?thesis by (simp add: held_def)
  next
    case (Inr nodes)
    obtain res ob where ap: "apply_proof B (lf_outboard ?f) nodes = (res, ob)" by fastforce
    let ?f1 = "?f\<lparr>lf_writer := Some hnd, lf_outboard := ob\<rparr>"
    let ?s = "set_local_file ?i ?f1 s"
    have ok1: "share_ok h A content ?s w1" by (rule decoded(1)) simp_all
    show ?thesis
    proof (cases res)
      case (Inl e)
      with step Inr ap ok1 False show ?thesis by (simp add: held_def)
    next
      case ok_proof: (Inr u)
      obtain s' where s': "mark_have p ?s = Some s'" by (rule mark_have_ok [of p ?s]) (use p in simp_all)
      have "byte_held A (content k) w1 hnd' j"
        if "file_ready h A w1 (ls_files ?s ! k) (entry_size ?s k) hnd'" "in_piece ?s p k j" for k hnd' j
        using that decoded(2) [of ?f1 nodes k] Inr by simp
      from share_ok_mark [OF ok1 _ s' this] p
      have "share_ok h A content s' w1" "held s' = insert p (held s)" "ls_manifest s' = ls_manifest s" "ls_layout s' = ls_layout s"
        by simp_all
      moreover from this have "length (ls_have s') = length (ls_have s)"
        using shape by (simp add: share_ok_def share_shape_def)
      moreover have "store_piece h A B p encoded s w = Some (Inr True, s', w1)"
        using step Inr ap ok_proof s' by simp
      ultimately show ?thesis using False by (auto simp: held_def)
    qed
  qed
qed

text \<open>Storing what a peer sent as a piece never panics, never breaks the
  invariant (a piece marked as held is, byte for byte, the content the
  manifest's hash names, and written), marks the piece exactly when it
  reports success, and reports a duplicate exactly when the piece was held.\<close>

theorem store_piece_safe:
  assumes "share_ok h A content s w" and "contents_ok B content (ls_manifest s)" and "p < length (ls_have s)"
  shows "\<exists>r s' w'. store_piece h A B p encoded s w = Some (r, s', w') \<and> share_ok h A content s' w' \<and>
    held s' = (if r = Inr True then insert p (held s) else held s) \<and> (r = Inr False \<longleftrightarrow> p \<in> held s)"
  using store_piece_ok [OF assms] by blast


text \<open>A share of one plain file, nothing of it downloaded yet.\<close>

definition toy_content :: bytes where
  "toy_content = replicate 70000 9"

definition toy_manifest :: manifest where
  "toy_manifest = \<lparr>m_name = ''x'', m_files = [\<lparr>fe_path = [''x''], fe_size = 70000, fe_root = toy_content\<rparr>]\<rparr>"

definition toy_file :: local_file where
  "toy_file = local_file_new (Plain [Normal ''x'']) (empty_outboard toy_bao toy_content 70000)"

definition toy_share :: local_share where
  "toy_share = from_parts plain_blake toy_manifest [] [toy_file] None False [Normal ''x'']"

definition plain_world :: world where
  "plain_world = \<lparr>files = [[Normal ''x''] \<mapsto> replicate 70000 0], faults = (\<lambda>_ _. None), tape = (\<lambda>_. 1)\<rparr>"

lemma toy_content_length [simp]: "length toy_content = 70000"
  by (simp add: toy_content_def)

lemma toy_manifest_fits: "fits toy_manifest" "total_pieces (layout_new toy_manifest) = 2"
  by (simp_all add: layout_new_def fits_def toy_manifest_def sum_pieces_def file_pieces_def div_ceil_def BLOCK_SIZE_def)

lemma toy_contents: "contents_ok toy_bao (\<lambda>_. toy_content) toy_manifest"
  using toy_bao_sound [of toy_content] by (simp add: contents_ok_def toy_manifest_def)

lemma toy_share_simps: "ls_manifest toy_share = toy_manifest" "ls_have toy_share = replicate 2 False"
  "ls_layout toy_share = layout_new toy_manifest" "ls_files toy_share = [toy_file]"
  using toy_manifest_fits(2) by (simp_all add: toy_share_def from_parts_def Let_def)

lemma toy_share_ok: "share_ok plain_blake toy_aead (\<lambda>_. toy_content) toy_share plain_world"
proof -
  have "share_shape toy_share"
    using toy_manifest_fits by (simp add: share_shape_def toy_share_simps) (simp add: toy_manifest_def)
  moreover have "file_ready plain_blake toy_aead plain_world toy_file 70000
      (PlainHandle \<lparr>fh_path = [Normal ''x''], fh_read = False, fh_write = True\<rparr>)"
    by (simp add: file_ready_def toy_file_def local_file_new_def open_data_def open_with_def open_file_def open_options_def
        access_fault_def plain_world_def handle_writable_def handle_view_def file_content_def handle_room_def)
  moreover have "entry_size toy_share 0 = 70000" by (simp add: entry_size_def toy_share_simps toy_manifest_def)
  ultimately show ?thesis
    by (auto simp: share_ok_def has_idx toy_share_simps nth_Cons' less_Suc_eq)
qed

theorem store_piece_safe_witness:
  "\<exists>r s' w'. store_piece plain_blake toy_aead toy_bao 1 [9, 9] toy_share plain_world = Some (r, s', w') \<and>
     share_ok plain_blake toy_aead (\<lambda>_. toy_content) s' w'"
  using store_piece_safe [OF toy_share_ok, of toy_bao 1 "[9, 9]"] toy_contents by (auto simp: toy_share_simps)


subsection \<open>Resuming from saved state\<close>

text \<open>Each file's outboard is for the root hash the manifest names; saving proof nodes keeps the root.\<close>

definition roots_ok :: "local_share \<Rightarrow> bool" where
  "roots_ok s \<longleftrightarrow> (\<forall>i < length (ls_files s). ob_root (lf_outboard (ls_files s ! i)) = fe_root (m_files (ls_manifest s) ! i))"

lemma open_reading:
  assumes "open_data h True d w = Inr hnd" "open_data h False d w = Inr hr"
  shows "hr = reading hnd"
  using assms
  by (cases d) (auto simp: open_data_def open_with_cases Let_def split: option.splits if_splits)

lemma block_written_reading:
  "fh_read (en_file e) \<Longrightarrow>
     block_written A (e\<lparr>en_file := (en_file e)\<lparr>fh_write := False\<rparr>\<rparr>) w i = block_written A e w i"
  by (simp add: block_written_def file_read_exact_def block_len_def Let_def split: sum.split)

lemma collect_ranges_Inr:
  "collect_ranges rs = Inr xs \<Longrightarrow> x \<in> set xs \<Longrightarrow> Inr x \<in> set rs"
  by (induction rs arbitrary: xs) (auto simp: bind_result_Inr)

lemma BLOCK_SIZE_block: "BLOCK_SIZE = block"
  by (simp add: BLOCK_SIZE_def block_def)

text \<open>The pieces of a file, from the first: where each starts, and that its bytes lie in one block.\<close>

lemma file_piece:
  assumes "share_shape s" "i < length (ls_files s)" "pieces_of (ls_layout s) i = Some (a, b)" "a \<le> p" "p < b"
  obtains loc where "p < length (ls_have s)" "locate (ls_layout s) p = Some loc" "loc_file loc = i"
    "unat (loc_end loc) \<le> entry_size s i"
    "\<And>j. unat (loc_start loc) \<le> j \<Longrightarrow> j < unat (loc_end loc) \<Longrightarrow> j div block = p - a"
proof -
  let ?fs = "m_files (ls_manifest s)"
  have m: "fits (ls_manifest s)" "ls_layout s = layout_new (ls_manifest s)" "i < length ?fs"
    "length (ls_have s) = sum_pieces ?fs"
    using assms(1,2) layout_new_sums(1) [of "ls_manifest s"] by (simp_all add: share_shape_def)
  have ab: "a = sum_pieces (take i ?fs)" "b = sum_pieces (take (Suc i) ?fs)"
    using assms(3) pieces_of_file [OF m(1,3)] m(2) by simp_all
  define q where "q = p - a"
  have q: "q < file_pieces (?fs ! i)" "p = sum_pieces (take i ?fs) + q"
    using assms(4,5) ab m(3) by (simp_all add: q_def sum_pieces_take_Suc)
  have "b \<le> sum_pieces ?fs"
    using ab(2) sum_pieces_take_mono [of "Suc i" "length ?fs" ?fs] m(3) by simp
  then have p: "p < length (ls_have s)" using assms(5) m(4) by simp
  define loc where "loc = \<lparr>loc_file = i, loc_start = word_of_nat (q * BLOCK_SIZE),
      loc_end = word_of_nat (min (q * BLOCK_SIZE + BLOCK_SIZE) (unat (fe_size (?fs ! i))))\<rparr>"
  have loc: "locate (ls_layout s) p = Some loc"
    using locate_file_piece [OF m(1,3) q(1)] q(2) m(2) by (simp add: loc_def)
  note bytes = piece_bytes [OF m(1,3) q(1)]
  have st: "unat (loc_start loc) = q * BLOCK_SIZE"
    "unat (loc_end loc) = min (q * BLOCK_SIZE + BLOCK_SIZE) (unat (fe_size (?fs ! i)))"
    using bytes by (simp_all add: loc_def del: of_nat_mult of_nat_add)
  have "j div block = p - a" if "unat (loc_start loc) \<le> j" "j < unat (loc_end loc)" for j
    using that unfolding st BLOCK_SIZE_block q_def [symmetric]
    by (intro div_nat_eqI) (simp_all add: mult.commute)
  then show thesis
    using that [OF p loc] st(2) by (simp add: loc_def entry_size_def)
qed

lemma bao_sound_valid:
  assumes "bao_sound B root content" "ob_root ob = root" "serves rd v" "Inr (a, b) \<in> set (bao_valid B ob rd)"
    and "a \<le> j" "j < b" "j < length content"
  shows "v ! j = content ! j"
proof -
  have "\<forall>ob rd v a b j. ob_root ob = root \<and> serves rd v \<and> Inr (a, b) \<in> set (bao_valid B ob rd) \<and>
        a \<le> j \<and> j < b \<and> j < length content \<longrightarrow> j < length v \<and> v ! j = content ! j"
    using assms(1) unfolding bao_sound_def by (elim conjE)
  with assms(2-7) show ?thesis by blast
qed

text \<open>What \<open>mark_restored\<close> looks at for one piece, and what it shows.\<close>

definition range_verified :: "(nat \<times> nat) list \<Rightarrow> u64 \<Rightarrow> piece_location \<Rightarrow> bool" where
  "range_verified ranges sz loc \<longleftrightarrow>
     list_ex (\<lambda>(a, b). a \<le> unat (loc_start loc) \<and> unat (min (loc_end loc) sz) \<le> min b (unat sz)) ranges"

definition slot_written :: "bool list option \<Rightarrow> nat \<Rightarrow> bool" where
  "slot_written written k = (case written of None \<Rightarrow> True | Some ws \<Rightarrow> (case idx ws k of None \<Rightarrow> False | Some b \<Rightarrow> b))"

lemma mark_restored_step:
  assumes "locate (ls_layout s) p = Some loc"
  shows "mark_restored a sz ranges written (p # ps) s =
    (if range_verified ranges sz loc \<and> slot_written written (p - a)
     then Option.bind (mark_have p s) (mark_restored a sz ranges written ps) else mark_restored a sz ranges written ps s)"
  using assms by (simp add: Let_def range_verified_def slot_written_def)

lemma slot_on_disk:
  assumes opened: "open_data h True d w = Inr (EncHandle e)" "open_data h False d w = Inr (reading (EncHandle e))"
    and hw: "handle_writable A (EncHandle e) w"
    and written: "written_pieces h A d w = Inr written" "slot_written written k"
  shows "block_written A e w k"
proof -
  have fr: "fh_read (en_file e)" using hw by (simp add: handle_writable_def enc_writable_def)
  have "\<exists>p key n. d = Encrypted p key n"
    using opened(1) by (cases d) (auto simp: open_data_def open_with_cases Let_def split: option.splits if_splits)
  then obtain n where "written = Some (map (block_written A (e\<lparr>en_file := (en_file e)\<lparr>fh_write := False\<rparr>\<rparr>) w) [0..<n])"
    using written(1) opened(2) by (auto simp: written_pieces_def bind_result_Inr)
  then show ?thesis
    using written(2) block_written_reading [OF fr] by (auto simp: slot_written_def idx_def split: if_splits)
qed

lemma range_on_disk:
  assumes "bao_sound B (ob_root ob) c" and hnd: "open_data h True d w = Inr hnd" "handle_writable A hnd w"
    and ranges: "valid_byte_ranges h A B d ob w = Inr ranges" "range_verified ranges sz loc"
    and j: "unat (loc_start loc) \<le> j" "j < unat (loc_end loc)" "unat (loc_end loc) \<le> unat sz" "j < length c"
  shows "handle_view A hnd w ! j = c ! j \<and> open_data h False d w = Inr (reading hnd)"
proof -
  obtain hr where hr: "open_data h False d w = Inr hr" "collect_ranges (bao_valid B ob (handle_read_at A hr w)) = Inr ranges"
    using ranges(1) by (auto simp: valid_byte_ranges_def bind_result_Inr)
  have hr': "hr = reading hnd" by (rule open_reading [OF hnd(1) hr(1)])
  note view = reading_view [OF hnd(2), folded hr']
  have "min (loc_end loc) sz = loc_end loc" using j(3) by (simp add: min_def word_le_nat_alt)
  then obtain x y where xy: "(x, y) \<in> set ranges" "x \<le> unat (loc_start loc)" "unat (loc_end loc) \<le> y"
    using ranges(2) by (auto simp: range_verified_def list_ex_iff)
  have "x \<le> j" "j < y" using xy(2,3) j(1,2) by simp_all
  from bao_sound_valid [OF assms(1) refl handle_serves [OF view(1)] collect_ranges_Inr [OF hr(2) xy(1)] this j(4)]
  show ?thesis using view(2) hr hr' by simp
qed

lemma mark_restored_ok:
  assumes ok: "share_ok h A content s w" and B: "bao_sound B (fe_root (m_files (ls_manifest s) ! i)) (content i)"
    and len: "length (content i) = entry_size s i"
    and i: "i < length (ls_files s)" and ab: "pieces_of (ls_layout s) i = Some (a, b)"
    and ob: "ob_root ob = fe_root (m_files (ls_manifest s) ! i)"
    and ranges: "valid_byte_ranges h A B (lf_data (ls_files s ! i)) ob w = Inr ranges"
    and written: "written_pieces h A (lf_data (ls_files s ! i)) w = Inr written"
    and ps: "\<forall>p \<in> set ps. a \<le> p \<and> p < b"
    and sz: "sz = fe_size (m_files (ls_manifest s) ! i)"
  shows "\<exists>s'. mark_restored a sz ranges written ps s = Some s' \<and> share_ok h A content s' w \<and> held s \<subseteq> held s' \<and>
    ls_manifest s' = ls_manifest s \<and> ls_layout s' = ls_layout s \<and> ls_files s' = ls_files s"
  using ok i ab ranges written ps sz B len ob
proof (induction ps arbitrary: s)
  case (Cons p ps)
  note ok = Cons.prems(1) and i = Cons.prems(2)
  have shape: "share_shape s" using ok by (simp add: share_ok_def)
  obtain loc where p: "p < length (ls_have s)" and loc: "locate (ls_layout s) p = Some loc" "loc_file loc = i"
    "unat (loc_end loc) \<le> entry_size s i"
    and blk: "\<And>j. unat (loc_start loc) \<le> j \<Longrightarrow> j < unat (loc_end loc) \<Longrightarrow> j div block = p - a"
    using file_piece [OF shape i Cons.prems(3), of p] Cons.prems(6) by auto
  note step = mark_restored_step [OF loc(1), of a sz ranges written ps]
  show ?case
  proof (cases "range_verified ranges sz loc \<and> slot_written written (p - a)")
    case False
    have "\<exists>s'. mark_restored a sz ranges written ps s = Some s' \<and> share_ok h A content s' w \<and> held s \<subseteq> held s' \<and>
        ls_manifest s' = ls_manifest s \<and> ls_layout s' = ls_layout s \<and> ls_files s' = ls_files s"
      by (rule Cons.IH) (use Cons.prems in simp_all)
    then show ?thesis unfolding step if_not_P [OF False] .
  next
    case True
    obtain s1 where s1: "mark_have p s = Some s1" by (rule mark_have_ok [OF p]) auto
    have new: "byte_held A (content k) w hnd j"
      if k: "k < length (ls_files s)" "file_ready h A w (ls_files s ! k) (entry_size s k) hnd" "in_piece s p k j" for k hnd j
    proof -
      have ki: "k = i" and j: "unat (loc_start loc) \<le> j" "j < unat (loc_end loc)"
        using k(3) loc by (auto simp: in_piece_def)
      have ready: "open_data h True (lf_data (ls_files s ! i)) w = Inr hnd" "handle_writable A hnd w"
        using k(2) ki by (simp_all add: file_ready_def)
      have sizes: "unat (loc_end loc) \<le> unat sz" "j < length (content i)"
        using loc(3) j(2) Cons.prems(7,9) by (simp_all add: entry_size_def)
      note disk = range_on_disk [OF Cons.prems(8) [folded Cons.prems(10)] ready Cons.prems(4) conjunct1 [OF True] j sizes]
      have "block_written A e w (j div block)" if "hnd = EncHandle e" for e
        using slot_on_disk [of h _ w e A written] ready disk Cons.prems(5) True blk [OF j] that by simp
      with disk ki show ?thesis by (simp add: byte_held_def)
    qed
    note marked = share_ok_mark [OF ok p s1 new]
    have "\<exists>s'. mark_restored a sz ranges written ps s1 = Some s' \<and> share_ok h A content s' w \<and> held s1 \<subseteq> held s' \<and>
        ls_manifest s' = ls_manifest s1 \<and> ls_layout s' = ls_layout s1 \<and> ls_files s' = ls_files s1"
      by (rule Cons.IH) (use Cons.prems marked in \<open>simp_all add: entry_size_def\<close>)
    with True s1 marked show ?thesis unfolding step by (auto simp: subset_iff)
  qed
qed simp

text \<open>A share is as good with another outboard of the same root.\<close>

lemma other_outboard_ok:
  assumes ok: "share_ok h A content s w" "roots_ok s" and i: "i < length (ls_files s)"
    and ob: "ob_root ob = ob_root (lf_outboard (ls_files s ! i))"
  defines "s1 \<equiv> set_local_file i ((ls_files s ! i)\<lparr>lf_outboard := ob\<rparr>) s"
  shows "share_ok h A content s1 w" "roots_ok s1"
proof -
  obtain hnd where ready: "file_ready h A w (ls_files s ! i) (entry_size s i) hnd"
    "\<And>p j. has s p \<Longrightarrow> in_piece s p i j \<Longrightarrow> byte_held A (content i) w hnd j"
    using share_ok_file [OF ok(1) i] by blast
  show "share_ok h A content s1 w"
    unfolding s1_def
    by (rule share_ok_update [OF ok(1) i ready(1) touched_refl]) (use ready in \<open>auto simp: file_ready_def\<close>)
  show "roots_ok s1"
    unfolding roots_ok_def
  proof (intro allI impI)
    fix k assume "k < length (ls_files s1)"
    with ok(2) ob show "ob_root (lf_outboard (ls_files s1 ! k)) = fe_root (m_files (ls_manifest s1) ! k)"
      by (cases "k = i") (simp_all add: roots_ok_def s1_def)
  qed
qed

lemma restore_files_ok:
  assumes "share_ok h A content s w" "contents_ok B content (ls_manifest s)" "roots_ok s"
  shows "\<exists>r s'. restore_files h A B w i outs s = Some (r, s') \<and> share_ok h A content s' w \<and> held s \<subseteq> held s' \<and>
    roots_ok s' \<and> ls_manifest s' = ls_manifest s"
  using assms
proof (induction outs arbitrary: i s)
  case (Cons saved rest)
  note ok = Cons.prems(1)
  have shape: "share_shape s" using ok by (simp add: share_ok_def)
  have follow: "\<exists>r s'. restore_files h A B w (i + 1) rest t = Some (r, s') \<and> share_ok h A content s' w \<and> held s \<subseteq> held s' \<and>
      roots_ok s' \<and> ls_manifest s' = ls_manifest s"
    if "share_ok h A content t w" "roots_ok t" "held s \<subseteq> held t" "ls_manifest t = ls_manifest s" for t
    using Cons.IH [of t "i + 1"] that Cons.prems(2) by (metis subset_trans)
  show ?case
  proof (cases "i < length (ls_files s)")
    case False
    then have "idx (ls_files s) i = None" by simp
    with Cons.prems show ?thesis by (simp del: idx_eq_None)
  next
    case i: True
    let ?f = "ls_files s ! i" and ?e = "m_files (ls_manifest s) ! i"
    have m: "i < length (m_files (ls_manifest s))" using shape i by (simp add: share_shape_def)
    then obtain a b where ab: "pieces_of (ls_layout s) i = Some (a, b)"
      using shape pieces_of_file [of "ls_manifest s" i] by (auto simp: share_shape_def)
    have fc: "file_complete s i = Some (list_all (has s) [a..<b])" by (simp add: file_complete_def ab)
    show ?thesis
    proof (cases "list_all (has s) [a..<b] \<or> length saved \<noteq> length (ob_data (lf_outboard ?f))")
      case True
      then have "restore_files h A B w i (saved # rest) s = restore_files h A B w (i + 1) rest s"
        using i fc by (simp add: idx_Some)
      with follow [OF ok Cons.prems(3)] show ?thesis by simp
    next
      case False
      let ?ob = "(lf_outboard ?f)\<lparr>ob_data := saved\<rparr>"
      let ?s1 = "set_local_file i (?f\<lparr>lf_outboard := ?ob\<rparr>) s"
      let ?read = "bind_result (valid_byte_ranges h A B (lf_data ?f) ?ob w) (\<lambda>ranges.
                bind_result (written_pieces h A (lf_data ?f) w) (\<lambda>written. Inr (ranges, written)))"
      have s1: "share_ok h A content ?s1 w" "roots_ok ?s1"
        by (rule other_outboard_ok [OF ok Cons.prems(3) i]; simp)+
      have step: "restore_files h A B w i (saved # rest) s =
          (case ?read of
             Inl e \<Rightarrow> Some (Inl (Io (data_path (lf_data ?f)) e), ?s1)
           | Inr (ranges, written) \<Rightarrow>
               Option.bind (mark_restored a (fe_size ?e) ranges written [a..<b] ?s1) (restore_files h A B w (i + 1) rest))"
        using False i m ab by (auto simp: idx_Some fc Let_def split: sum.split)
      show ?thesis
      proof (cases ?read)
        case (Inl e)
        with s1 show ?thesis unfolding step by simp
      next
        case (Inr rw)
        then obtain ranges written where rw: "rw = (ranges, written)"
          "valid_byte_ranges h A B (lf_data ?f) ?ob w = Inr ranges" "written_pieces h A (lf_data ?f) w = Inr written"
          by (auto simp: bind_result_Inr)
        have B: "bao_sound B (fe_root ?e) (content i)" "length (content i) = entry_size s i"
          "ob_root ?ob = fe_root ?e"
          using Cons.prems(2,3) m i by (simp_all add: contents_ok_def entry_size_def roots_ok_def)
        have "\<exists>t. mark_restored a (fe_size ?e) ranges written [a..<b] ?s1 = Some t \<and> share_ok h A content t w \<and> held ?s1 \<subseteq> held t \<and>
            ls_manifest t = ls_manifest ?s1 \<and> ls_layout t = ls_layout ?s1 \<and> ls_files t = ls_files ?s1"
          by (rule mark_restored_ok [OF s1(1), where i = i and ob = ?ob]) (use B i ab rw(2,3) in \<open>auto simp: entry_size_def\<close>)
        then obtain t where t: "mark_restored a (fe_size ?e) ranges written [a..<b] ?s1 = Some t"
          "share_ok h A content t w" "held s \<subseteq> held t" "ls_manifest t = ls_manifest s" "ls_files t = ls_files ?s1"
          unfolding set_local_file_simps by blast
        have "roots_ok t" using s1(2) t(4,5) by (simp add: roots_ok_def)
        from follow [OF t(2) this t(3,4)] t(1) show ?thesis unfolding step Inr rw(1) by simp
      qed
    qed
  qed
qed auto

text \<open>C29: resuming trusts nothing that was saved: whatever the saved outboards
  hold (a stale or tampered state file), restoring never panics, loses no
  piece, and marks only pieces that are really on disk with the content the
  manifest names, written ones in an encrypted file.\<close>

theorem restore_progress_safe:
  assumes "share_ok h A content s w" and "contents_ok B content (ls_manifest s)" and "roots_ok s"
  shows "\<exists>r s'. restore_progress h A B outs s w = Some (r, s') \<and> share_ok h A content s' w \<and> held s \<subseteq> held s'"
  using restore_files_ok [OF assms] unfolding restore_progress_def by blast

lemma toy_roots: "roots_ok toy_share"
  by (simp add: roots_ok_def toy_share_simps toy_file_def local_file_new_def empty_outboard_def toy_manifest_def)

theorem restore_progress_safe_witness:
  "\<exists>r s'. restore_progress plain_blake toy_aead toy_bao [[]] toy_share plain_world = Some (r, s') \<and>
     share_ok plain_blake toy_aead (\<lambda>_. toy_content) s' plain_world"
  using restore_progress_safe [OF toy_share_ok _ toy_roots, of toy_bao "[[]]"] toy_contents
  by (auto simp: toy_share_simps)

end
