(* ===== verification/Share_Reading.thy ===== *)
theory Share_Reading
  imports Share_Safety
begin

text \<open>
  What a share that satisfies the invariant of \<open>Share_Safety\<close> gives its owner: reading
  a range of a finished file and exporting the file return the true content
  (\<open>local.rs\<close>, functions \<open>read_range\<close> and \<open>export_file\<close>).
\<close>

subsection \<open>Bytes and pieces of a finished file\<close>

lemma byte_in_piece:
  assumes "share_shape s" "i < length (ls_files s)" "pieces_of (ls_layout s) i = Some (a, b)" "j < entry_size s i"
  obtains p where "a \<le> p" "p < b" "in_piece s p i j"
proof -
  let ?fs = "m_files (ls_manifest s)"
  have m: "fits (ls_manifest s)" "ls_layout s = layout_new (ls_manifest s)" "i < length ?fs"
    using assms(1,2) by (simp_all add: share_shape_def)
  have ab: "a = sum_pieces (take i ?fs)" "b = sum_pieces (take (Suc i) ?fs)"
    using assms(3) pieces_of_file [OF m(1,3)] m(2) by simp_all
  let ?q = "j div BLOCK_SIZE"
  have "?q * BLOCK_SIZE < unat (fe_size (?fs ! i))"
    using assms(4) div_times_less_eq_dividend [of j BLOCK_SIZE] unfolding entry_size_def by linarith
  then have q: "?q < file_pieces (?fs ! i)" by (simp add: file_pieces_def less_div_ceil_iff)
  have j: "?q * BLOCK_SIZE \<le> j" "j < ?q * BLOCK_SIZE + BLOCK_SIZE"
    using div_mult_mod_eq [of j BLOCK_SIZE] mod_less_divisor [OF BLOCK_SIZE_pos, of j] by linarith+
  have "in_piece s (a + ?q) i j"
    using locate_file_piece [OF m(1,3) q] piece_bytes(1,2) [OF m(1,3) q] j assms(4)
    by (simp add: in_piece_def m(2) ab(1) entry_size_def del: of_nat_mult of_nat_add)
  moreover have "a + ?q < b" using ab q m(3) by (simp add: sum_pieces_take_Suc)
  ultimately show thesis using that [of "a + ?q"] by simp
qed

lemma complete_file_held:
  assumes ok: "share_ok h A content s w" and B: "contents_ok B content (ls_manifest s)"
    and i: "i < length (ls_files s)" "file_complete s i = Some True"
  shows "\<exists>hnd. file_ready h A w (ls_files s ! i) (entry_size s i) hnd \<and> handle_view A hnd w = content i \<and>
    (\<forall>e. hnd = EncHandle e \<longrightarrow> (\<forall>k < blocks e. block_written A e w k))"
proof -
  have shape: "share_shape s" using ok by (simp add: share_ok_def)
  obtain hnd where ready: "file_ready h A w (ls_files s ! i) (entry_size s i) hnd"
    and held: "\<And>p j. has s p \<Longrightarrow> in_piece s p i j \<Longrightarrow> byte_held A (content i) w hnd j"
    using share_ok_file [OF ok i(1)] by blast
  obtain a b where ab: "pieces_of (ls_layout s) i = Some (a, b)" "list_all (has s) [a..<b]"
    using i(2) by (cases "pieces_of (ls_layout s) i") (auto simp: file_complete_def)
  have byte: "byte_held A (content i) w hnd j" if j: "j < entry_size s i" for j
  proof -
    obtain p where p: "a \<le> p" "p < b" "in_piece s p i j" by (rule byte_in_piece [OF shape i(1) ab(1) j])
    then have "has s p" using ab(2) by (simp add: list_all_iff)
    from held [OF this p(3)] show ?thesis .
  qed
  have len: "length (content i) = entry_size s i" "length (handle_view A hnd w) = entry_size s i"
    using B i(1) shape ready by (auto simp: contents_ok_def entry_size_def share_shape_def file_ready_def)
  then have "handle_view A hnd w = content i"
    using byte by (intro nth_equalityI) (simp_all add: byte_held_def)
  moreover have "block_written A e w k" if e: "hnd = EncHandle e" "k < blocks e" for e k
  proof -
    have "aead_ok A" using ready e(1) by (simp add: file_ready_def handle_writable_def enc_writable_def)
    then have "en_size e = entry_size s i" using len(2) e(1) enc_view_nth(1) by (simp add: handle_view_def)
    then have "k * block < entry_size s i" using e(2) by (simp add: blocks_def less_div_ceil_iff)
    from byte [OF this] e(1) show ?thesis by (simp add: byte_held_def)
  qed
  ultimately show ?thesis using ready by blast
qed

text \<open>The handle for strict reading.\<close>

fun strict_reading :: "handle \<Rightarrow> handle" where
  "strict_reading (PlainHandle f) = PlainHandle (f\<lparr>fh_read := True, fh_write := False\<rparr>)"
| "strict_reading (EncHandle e) = EncHandle (e\<lparr>en_file := (en_file e)\<lparr>fh_write := False\<rparr>, en_strict := True\<rparr>)"

lemma open_strict_reading:
  assumes "open_data h True d w = Inr hnd" "open_strict h d w = Inr hs"
  shows "hs = strict_reading hnd"
  using assms
  by (cases d) (auto simp: open_data_def open_strict_def open_with_cases Let_def split: option.splits if_splits)

lemma strict_reading_view:
  assumes "handle_writable A hnd w" "\<And>e k. hnd = EncHandle e \<Longrightarrow> k < blocks e \<Longrightarrow> block_written A e w k"
  shows "handle_readable A (strict_reading hnd) w" "handle_view A (strict_reading hnd) w = handle_view A hnd w"
proof -
  have strict: "block_written A (e\<lparr>en_strict := b\<rparr>) w k = block_written A e w k"
    "block_view A (e\<lparr>en_strict := b\<rparr>) w = block_view A e w" for e b k
    by (simp_all add: block_written_def block_view_def block_len_def fun_eq_iff Let_def split: sum.split)
  show "handle_readable A (strict_reading hnd) w"
    using assms block_written_reading strict(1)
    by (cases hnd) (auto simp: handle_readable_def handle_writable_def enc_writable_def blocks_def)
  show "handle_view A (strict_reading hnd) w = handle_view A hnd w"
    using assms(1) block_view_reading strict(2)
    by (cases hnd) (auto simp: handle_view_def handle_writable_def enc_writable_def enc_view_def blocks_def)
qed

text \<open>C30: any range of a finished file reads as exactly those bytes of the true
  content, cut off at the end of the file, from an ordinary file as from
  the encrypted store.\<close>

theorem read_range_exact:
  assumes "share_ok h A content s w" and "contents_ok B content (ls_manifest s)"
    and "i < length (ls_files s)" and "file_complete s i = Some True"
    and "open_strict h (lf_data (ls_files s ! i)) w = Inr hs"
  shows "read_range h A i offset len s w =
    Some (Inr (slice (unat offset) (min len (length (content i) - unat offset)) (content i)))"
proof -
  obtain hnd where hnd: "file_ready h A w (ls_files s ! i) (entry_size s i) hnd" "handle_view A hnd w = content i"
    "\<And>e k. hnd = EncHandle e \<Longrightarrow> k < blocks e \<Longrightarrow> block_written A e w k"
    using complete_file_held [OF assms(1-4)] by blast
  have m: "i < length (m_files (ls_manifest s))" "length (content i) = unat (fe_size (m_files (ls_manifest s) ! i))"
    using assms(1-3) by (simp_all add: share_ok_def share_shape_def contents_ok_def)
  have hs: "hs = strict_reading hnd"
    using hnd(1) assms(5) open_strict_reading by (auto simp: file_ready_def)
  have hw: "handle_writable A hnd w" using hnd(1) by (simp add: file_ready_def)
  note view = strict_reading_view [OF hw hnd(3), folded hs]
  let ?n = "min len (length (content i) - unat offset)"
  have "handle_read_exact A hs w (unat offset) ?n = Inr (slice (unat offset) ?n (content i))"
    using handle_read_exact_ok [OF view(1), of "unat offset" ?n] view(2) hnd(2)
    by (cases "unat offset \<le> length (content i)") (auto simp: slice_def)
  then show ?thesis
    using assms(3-5) m by (simp add: read_range_def check_file_def idx_Some)
qed

definition full_share :: local_share where
  "full_share = toy_share\<lparr>ls_have := [True, True]\<rparr>"

definition full_world :: world where
  "full_world = \<lparr>files = [[Normal ''x''] \<mapsto> toy_content], faults = (\<lambda>_ _. None), tape = (\<lambda>_. 1)\<rparr>"

lemma full_share_simps: "ls_manifest full_share = toy_manifest" "ls_have full_share = [True, True]"
  "ls_layout full_share = layout_new toy_manifest" "ls_files full_share = [toy_file]"
  by (simp_all add: full_share_def toy_share_simps)

lemma full_share_ok: "share_ok plain_blake toy_aead (\<lambda>_. toy_content) full_share full_world"
proof -
  let ?hnd = "PlainHandle \<lparr>fh_path = [Normal ''x''], fh_read = False, fh_write = True\<rparr>"
  have "share_shape full_share"
    using toy_manifest_fits by (simp add: share_shape_def full_share_simps) (simp add: toy_manifest_def)
  moreover have "file_ready plain_blake toy_aead full_world toy_file 70000 ?hnd"
    by (simp add: file_ready_def toy_file_def local_file_new_def open_data_def open_with_def open_file_def open_options_def
        access_fault_def full_world_def handle_writable_def handle_view_def file_content_def handle_room_def)
  moreover have "entry_size full_share 0 = 70000" by (simp add: entry_size_def full_share_simps toy_manifest_def)
  moreover have "byte_held toy_aead toy_content full_world ?hnd j" for j
    by (simp add: byte_held_def handle_view_def file_content_def full_world_def)
  ultimately show ?thesis
    by (auto simp: share_ok_def full_share_simps intro!: exI [of _ ?hnd])
qed

lemma full_share_complete: "file_complete full_share 0 = Some True"
proof -
  have "pieces_of (layout_new toy_manifest) 0 = Some (0, 2)"
    using pieces_of_file [OF toy_manifest_fits(1), of 0]
    by (simp add: toy_manifest_def sum_pieces_def file_pieces_def div_ceil_def BLOCK_SIZE_def)
  then show ?thesis by (simp add: file_complete_def full_share_simps has_idx upt_rec)
qed

theorem read_range_exact_witness:
  "read_range plain_blake toy_aead 0 69998 100 full_share full_world = Some (Inr (replicate 2 9))"
proof -
  have "open_strict plain_blake (lf_data toy_file) full_world =
      Inr (PlainHandle \<lparr>fh_path = [Normal ''x''], fh_read = True, fh_write = False\<rparr>)"
    by (simp add: open_strict_def open_with_def toy_file_def local_file_new_def open_file_def open_options_def
        access_fault_def full_world_def)
  with read_range_exact [OF full_share_ok, of toy_bao 0 _ 69998 100] toy_contents full_share_complete
  show ?thesis by (simp add: full_share_simps slice_def toy_content_def)
qed


lemma open_with_same:
  assumes "files w' (data_path d) = files w (data_path d)" "faults w' = faults w"
  shows "open_with h wr strict d w' = open_with h wr strict d w"
proof -
  have acc: "access_fault opts q w' = access_fault opts q w" for opts q
    unfolding access_fault_def assms(2) ..
  have cont: "file_content (data_path d) w' = file_content (data_path d) w"
    unfolding file_content_def assms(1) ..
  show ?thesis unfolding open_with_cases Let_def acc cont assms(1) ..
qed

lemma readable_cong:
  assumes "file_content (fh_path (handle_file hnd)) w' = file_content (fh_path (handle_file hnd)) w"
  shows "handle_readable A hnd w' = handle_readable A hnd w"
proof (cases hnd)
  case (EncHandle e)
  then have "block_written A e w' i = block_written A e w i" for i
    using assms block_same(1) [of e i w' w A] by (simp add: file_read_exact_def pread_exact_def pread_def)
  then show ?thesis using EncHandle by (simp add: handle_readable_def)
qed (simp add: handle_readable_def)

lemma copy_loop_ok:
  assumes "handle_readable A hnd w" "pos + n \<le> length (handle_view A hnd w)"
  shows "copy_loop (handle_read_at A hnd w) pos n = (slice pos n (handle_view A hnd w), None)"
  using assms(2)
proof (induction n arbitrary: pos rule: less_induct)
  case (less n)
  show ?case
  proof (cases "n = 0")
    case True
    then show ?thesis by (simp add: copy_loop.simps [of _ pos 0] slice_def)
  next
    case False
    obtain k where k: "0 < k" "k \<le> n" "pos + k \<le> length (handle_view A hnd w)"
      "handle_read_at A hnd w pos n = Inr (slice pos k (handle_view A hnd w))"
      using stored.read_some [OF assms(1), of pos n] less.prems False by auto
    have len: "length (slice pos k (handle_view A hnd w)) = k" using k(3) by simp
    then have ne: "slice pos k (handle_view A hnd w) \<noteq> []" using k(1) by (metis list.size(3) less_not_refl2)
    have "copy_loop (handle_read_at A hnd w) (pos + k) (n - k) = (slice (pos + k) (n - k) (handle_view A hnd w), None)"
      using less.IH [of "n - k" "pos + k"] less.prems k by simp
    then show ?thesis
      using False ne len k slice_append [of pos k "handle_view A hnd w" "n - k"]
      by (subst copy_loop.simps) simp
  qed
qed

text \<open>A finished file reads the same after another file was created.\<close>

lemma export_source:
  assumes hnd: "file_ready h A w f n hnd" "handle_view A hnd w = c"
      "\<And>e k. hnd = EncHandle e \<Longrightarrow> k < blocks e \<Longrightarrow> block_written A e w k"
    and strict: "open_strict h (lf_data f) w = Inr hs" and new: "files w dest = None"
  shows "open_strict h (lf_data f) (put_file dest [] w) = Inr hs"
    "copy_loop (handle_read_at A hs (put_file dest [] w)) 0 (length c) = (c, None)"
proof -
  let ?d = "lf_data f" and ?w1 = "put_file dest [] w"
  have op: "open_data h True ?d w = Inr hnd" and hw: "handle_writable A hnd w" using hnd(1) by (simp_all add: file_ready_def)
  have hs: "hs = strict_reading hnd" by (rule open_strict_reading [OF op strict])
  have "files w (data_path ?d) \<noteq> None"
    using op by (auto simp: open_data_def open_with_cases Let_def split: option.splits if_splits)
  then have ne: "data_path ?d \<noteq> dest" using new by auto
  have path: "fh_path (handle_file hs) = data_path ?d" using open_handle_path [OF op] hs by (cases hnd) auto
  have "open_strict h ?d ?w1 = open_strict h ?d w"
    unfolding open_strict_def by (rule open_with_same) (use ne in \<open>simp_all add: put_file_def\<close>)
  then show "open_strict h ?d ?w1 = Inr hs" using strict by simp
  have same: "file_content (fh_path (handle_file hs)) ?w1 = file_content (fh_path (handle_file hs)) w"
    using ne path by simp
  note view0 = strict_reading_view [OF hw hnd(3), folded hs]
  have "handle_readable A hs ?w1" using readable_cong [OF same] view0(1) by simp
  moreover have "handle_view A hs ?w1 = c" using handle_cong(1) [OF same] view0(2) hnd(2) by simp
  ultimately show "copy_loop (handle_read_at A hs ?w1) 0 (length c) = (c, None)"
    using copy_loop_ok [of A hs ?w1 0 "length c"] by simp
qed

text \<open>C31: exporting a finished file creates, where nothing was, a file holding
  exactly the true content, and touches no other file; it never overwrites
  one that exists.\<close>

theorem export_file_exact:
  assumes "share_ok h A content s w" and "contents_ok B content (ls_manifest s)"
    and "i < length (ls_files s)" and "file_complete s i = Some True"
    and "open_strict h (lf_data (ls_files s ! i)) w = Inr hs"
  shows "\<exists>r w'. export_file h A i dest s w = Some (r, w') \<and>
    (\<forall>p. p \<noteq> dest \<longrightarrow> files w' p = files w p) \<and>
    (if files w dest \<noteq> None then w' = w \<and> (\<exists>e. r = Inl (Io dest e))
     else if no_faults dest w then r = Inr () \<and> files w' dest = Some (content i)
     else r = Inr () \<and> files w' dest = Some (content i) \<or> (\<exists>e. r = Inl (Io dest e) \<and> w' = w))"
proof -
  let ?f = "ls_files s ! i"
  obtain hnd where hnd: "file_ready h A w ?f (entry_size s i) hnd" "handle_view A hnd w = content i"
    "\<And>e k. hnd = EncHandle e \<Longrightarrow> k < blocks e \<Longrightarrow> block_written A e w k"
    using complete_file_held [OF assms(1-4)] by blast
  have m: "i < length (m_files (ls_manifest s))" "length (content i) = unat (fe_size (m_files (ls_manifest s) ! i))"
    using assms(1-3) by (simp_all add: share_ok_def share_shape_def contents_ok_def)
  define opened where "opened = bind_result (ensure_parent dest w)
      (\<lambda>_. open_file (open_options\<lparr>oo_write := True, oo_create_new := True\<rparr>) dest w)"
  have step: "export_file h A i dest s w = Some (case opened of
       Inl e \<Rightarrow> (Inl (Io dest e), w)
     | Inr w1 \<Rightarrow>
         (case open_strict h (lf_data ?f) w1 of
            Inl e \<Rightarrow> (Inl (Io dest e), w1)
          | Inr hnd \<Rightarrow>
              (case copy_loop (handle_read_at A hnd w1) 0 (length (content i)) of
                 (b, Some e) \<Rightarrow> (Inl (Io dest e), put_file dest b w1)
               | (b, None) \<Rightarrow>
                   if length b \<noteq> length (content i) then
                     (Inl (Io dest IoUnexpectedEof), remove_file dest (put_file dest b w1))
                   else (Inr (), put_file dest b w1))))"
    unfolding m(2) opened_def
    using assms(3,4) m(1) by (simp add: export_file_def check_file_def idx_Some)
  show ?thesis
  proof (cases "opened")
    case (Inl e)
    have "files w dest \<noteq> None \<or> \<not> no_faults dest w"
      using Inl no_faults_parent [of dest w] no_faults_access [of dest w]
      by (auto simp: opened_def open_file_def open_options_def split: option.splits)
    with Inl show ?thesis unfolding step by auto
  next
    case (Inr w1)
    then have "w1 = put_file dest [] w \<and> files w dest = None"
      by (cases "ensure_parent dest w"; cases "files w dest")
         (auto simp: opened_def open_file_def open_options_def put_file_def split: option.splits)
    with export_source [OF hnd assms(5)] show ?thesis unfolding step Inr by (auto simp: put_file_def)
  qed
qed

lemma full_strict: "open_strict plain_blake (lf_data toy_file) full_world =
    Inr (PlainHandle \<lparr>fh_path = [Normal ''x''], fh_read = True, fh_write = False\<rparr>)"
  by (simp add: open_strict_def open_with_def toy_file_def local_file_new_def open_file_def open_options_def
      access_fault_def full_world_def)

theorem export_file_exact_witness:
  "\<exists>w'. export_file plain_blake toy_aead 0 [Normal ''y''] full_share full_world = Some (Inr (), w') \<and>
     files w' [Normal ''y''] = Some toy_content"
  using export_file_exact [OF full_share_ok, of toy_bao 0 _ "[Normal ''y'']"] toy_contents full_share_complete full_strict
  by (auto simp: full_share_simps full_world_def no_faults_def)

end
