(* ===== verification/Store.thy ===== *)
theory Store
  imports Local_Share
begin

text \<open>
  \<open>src/crates/chorrent/src/store.rs\<close>: what survives a restart, in one
  database file. The database is redb, a library: the record \<open>redb\<close> holds the
  calls the source makes of it, on an abstract state \<open>'d\<close>. A transaction is
  applied whole or not at all, so a failing call leaves the state as it was.
  Random nonces come from the tape of the \<open>world\<close>.
\<close>

subsection \<open>The database\<close>

type_synonym table = str

datatype db_op =
    DbOpenTable table
  | DbInsert table str bytes
  | DbRemove table str

datatype db_open_error = DatabaseAlreadyOpen | DatabaseError str

record 'd redb =
  rd_create :: "path \<Rightarrow> 'd \<Rightarrow> db_open_error + 'd"
  rd_get :: "'d \<Rightarrow> table \<Rightarrow> str \<Rightarrow> str + bytes option"
  rd_rows :: "'d \<Rightarrow> table \<Rightarrow> str + (str \<times> bytes) list"
  rd_commit :: "db_op list \<Rightarrow> 'd \<Rightarrow> str + 'd"

definition META :: table where
  "META = ''meta''"

definition SEEDS :: table where
  "SEEDS = ''seeds''"

definition DOWNLOADS :: table where
  "DOWNLOADS = ''downloads''"

definition PROGRESS :: table where
  "PROGRESS = ''progress''"

definition ACCESS :: table where
  "ACCESS = ''access''"

definition KINDS :: table where
  "KINDS = ''kinds''"

definition RECORD_TABLES :: "table list" where
  "RECORD_TABLES = [SEEDS, DOWNLOADS, PROGRESS, ACCESS, KINDS]"

definition FORMAT :: str where
  "FORMAT = ''format''"

definition SEALED_V1 :: bytes where
  "SEALED_V1 = bytes_of ''sealed-v1''"

definition FINGERPRINT :: str where
  "FINGERPRINT = ''storage_key_fingerprint''"

record seed_record =
  sd_root :: path
  sd_secret :: "bytes option"
  sd_manifest :: bytes
  sd_files :: "(path \<times> nat \<times> nat) list"
  sd_outboards :: "bytes list"

record download_record =
  dr_code :: str
  dr_dest_dir :: path

datatype saved_transfer =
    SavedSeed share_id path bool
  | SavedDownload share_code path

text \<open>The libraries the store calls, and how each type is serialized.\<close>

record 'd libs =
  lib_redb :: "'d redb"
  lib_blake :: blake3
  lib_aead :: aead
  lib_bao :: bao
  lib_lower :: "str \<Rightarrow> str"
  lib_endpoint :: "bytes \<Rightarrow> endpoint_id option"
  lib_base64 :: base64
  pc_record :: "(str \<times> bytes) codec"
  pc_seed :: "seed_record codec"
  pc_download :: "download_record codec"
  pc_kinds :: "bool list codec"
  pc_peers :: "bytes list codec"
  pc_outboards :: "bytes list codec"
  pc_manifest :: "manifest codec"
  pc_code :: "share_code codec"

subsection \<open>Sealing\<close>

record sealer =
  sl_cipher :: bytes
  sl_names :: bytes

definition sealer_new :: "blake3 \<Rightarrow> bytes \<Rightarrow> sealer" where
  "sealer_new h storage_key =
     \<lparr>sl_cipher = derive_key h ''chorrent database values v1'' storage_key,
      sl_names = derive_key h ''chorrent database names v1'' storage_key\<rparr>"

definition sealer_name :: "blake3 \<Rightarrow> sealer \<Rightarrow> table \<Rightarrow> str \<Rightarrow> str" where
  "sealer_name h sl tbl name = to_hex h (keyed_hash h (sl_names sl) (bytes_of tbl @ [0] @ bytes_of name))"

definition record_aad :: "table \<Rightarrow> str \<Rightarrow> bytes" where
  "record_aad tbl stored = bytes_of (tbl @ [CHR 0x00] @ stored)"

definition sealer_seal ::
  "'d libs \<Rightarrow> sealer \<Rightarrow> table \<Rightarrow> str \<Rightarrow> str \<Rightarrow> bytes \<Rightarrow> world \<Rightarrow> (error + bytes) \<times> world" where
  "sealer_seal E sl tbl stored name value w =
     (case to_allocvec (pc_record E) (name, value) of
        None \<Rightarrow> (Inl (Storage ''postcard''), w)
      | Some plain \<Rightarrow>
          (let (nonce, w1) = draw 24 w in
           case seal (lib_aead E) (sl_cipher sl) nonce (record_aad tbl stored) plain of
             None \<Rightarrow> (Inl (Storage ''could not encrypt a database record''), w1)
           | Some sealed \<Rightarrow> (Inr (nonce @ sealed), w1)))"

definition unreadable_record :: error where
  "unreadable_record = Storage ''a database record is damaged or was written with another key''"

definition sealer_open :: "'d libs \<Rightarrow> sealer \<Rightarrow> table \<Rightarrow> str \<Rightarrow> bytes \<Rightarrow> error + str \<times> bytes" where
  "sealer_open E sl tbl stored sealed =
     (if length sealed < 24 then Inl unreadable_record
      else
        (case unseal (lib_aead E) (sl_cipher sl) (take 24 sealed) (record_aad tbl stored) (drop 24 sealed) of
           None \<Rightarrow> Inl unreadable_record
         | Some plain \<Rightarrow> ok_or (from_bytes (pc_record E) plain) unreadable_record))"

subsection \<open>Records\<close>

record 'd store =
  st_db :: 'd
  st_sealer :: "sealer option"

definition download_key :: "blake3 \<Rightarrow> share_id \<Rightarrow> path \<Rightarrow> str" where
  "download_key h i dest_dir = share_id_display h i @ ''|'' @ path_display dest_dir"

definition raw_get :: "'d libs \<Rightarrow> 'd \<Rightarrow> table \<Rightarrow> str \<Rightarrow> error + bytes option" where
  "raw_get E d tbl name = map_err Storage (rd_get (lib_redb E) d tbl name)"

definition raw_put :: "'d libs \<Rightarrow> table \<Rightarrow> str \<Rightarrow> bytes \<Rightarrow> 'd \<Rightarrow> error + 'd" where
  "raw_put E tbl name value d = map_err Storage (rd_commit (lib_redb E) [DbInsert tbl name value] d)"

definition stored_name :: "'d libs \<Rightarrow> sealer option \<Rightarrow> table \<Rightarrow> str \<Rightarrow> str" where
  "stored_name E sl tbl name = (case sl of Some s \<Rightarrow> sealer_name (lib_blake E) s tbl name | None \<Rightarrow> name)"

definition get_record :: "'d libs \<Rightarrow> 'd store \<Rightarrow> table \<Rightarrow> str \<Rightarrow> error + bytes option" where
  "get_record E st tbl name =
     (let stored = stored_name E (st_sealer st) tbl name in
      bind_result (raw_get E (st_db st) tbl stored) (\<lambda>found.
      case found of
        None \<Rightarrow> Inr None
      | Some value \<Rightarrow>
          (case st_sealer st of
             None \<Rightarrow> Inr (Some value)
           | Some sl \<Rightarrow>
               bind_result (sealer_open E sl tbl stored value) (\<lambda>(real_name, v).
               if real_name \<noteq> name then Inl (Storage ''a database record doesn't belong where it's stored'')
               else Inr (Some v)))))"

definition put_record ::
  "'d libs \<Rightarrow> table \<Rightarrow> str \<Rightarrow> bytes \<Rightarrow> 'd store \<times> world \<Rightarrow> (error + unit) \<times> 'd store \<times> world" where
  "put_record E tbl name value = (\<lambda>(st, w).
     (let stored = stored_name E (st_sealer st) tbl name;
          (sealed, w1) = (case st_sealer st of
              None \<Rightarrow> (Inr value, w)
            | Some sl \<Rightarrow> sealer_seal E sl tbl stored name value w) in
      case bind_result sealed (\<lambda>b. raw_put E tbl stored b (st_db st)) of
        Inl e \<Rightarrow> (Inl e, st, w1)
      | Inr d \<Rightarrow> (Inr (), st\<lparr>st_db := d\<rparr>, w1)))"

definition remove_records ::
  "'d libs \<Rightarrow> table list \<Rightarrow> str \<Rightarrow> 'd store \<times> world \<Rightarrow> (error + unit) \<times> 'd store \<times> world" where
  "remove_records E tables name = (\<lambda>(st, w).
     (case map_err Storage (rd_commit (lib_redb E)
             (map (\<lambda>tbl. DbRemove tbl (stored_name E (st_sealer st) tbl name)) tables) (st_db st)) of
        Inl e \<Rightarrow> (Inl e, st, w)
      | Inr d \<Rightarrow> (Inr (), st\<lparr>st_db := d\<rparr>, w)))"

fun open_rows :: "'d libs \<Rightarrow> sealer option \<Rightarrow> table \<Rightarrow> (str \<times> bytes) list \<Rightarrow> error + (str \<times> bytes) list" where
  "open_rows E sl tbl [] = Inr []"
| "open_rows E sl tbl ((k, v) # rows) =
     bind_result (case sl of None \<Rightarrow> Inr (k, v) | Some s \<Rightarrow> sealer_open E s tbl k v) (\<lambda>entry.
     bind_result (open_rows E sl tbl rows) (\<lambda>out. Inr (entry # out)))"

definition entries :: "'d libs \<Rightarrow> 'd store \<Rightarrow> table \<Rightarrow> error + (str \<times> bytes) list" where
  "entries E st tbl =
     bind_result (map_err Storage (rd_rows (lib_redb E) (st_db st) tbl)) (open_rows E (st_sealer st) tbl)"

subsection \<open>Opening\<close>

fun any_rows :: "'d libs \<Rightarrow> 'd \<Rightarrow> table list \<Rightarrow> error + bool" where
  "any_rows E d [] = Inr False"
| "any_rows E d (tbl # tbls) =
     bind_result (map_err Storage (rd_rows (lib_redb E) d tbl)) (\<lambda>rows.
     if rows \<noteq> [] then Inr True else any_rows E d tbls)"

definition has_records :: "'d libs \<Rightarrow> 'd \<Rightarrow> error + bool" where
  "has_records E d =
     bind_result (any_rows E d RECORD_TABLES) (\<lambda>found.
     if found then Inr True
     else bind_result (map_err Storage (rd_rows (lib_redb E) d META)) (\<lambda>rows.
       Inr (\<exists>(name, _) \<in> set rows. name \<noteq> FORMAT \<and> name \<noteq> FINGERPRINT)))"

definition key_fingerprint :: "blake3 \<Rightarrow> bytes \<Rightarrow> bytes" where
  "key_fingerprint h key = derive_key h ''chorrent storage key fingerprint v1'' key"

text \<open>The result is the database as \<open>check_format\<close> leaves it, also when it fails.\<close>

definition check_format :: "'d libs \<Rightarrow> bytes option \<Rightarrow> 'd \<Rightarrow> (error + unit) \<times> 'd" where
  "check_format E storage_key d =
     (case bind_result (raw_get E d META FORMAT) (\<lambda>fmt.
           bind_result (raw_get E d META FINGERPRINT) (\<lambda>saved. Inr (fmt, saved))) of
        Inl e \<Rightarrow> (Inl e, d)
      | Inr (fmt, saved) \<Rightarrow>
          (case storage_key of
             Some key \<Rightarrow>
               (let fingerprint = key_fingerprint (lib_blake E) key in
                if saved \<noteq> None \<and> saved \<noteq> Some fingerprint then
                  (Inl (Storage ''this data dir was set up with a different storage key''), d)
                else (case fmt of
                  Some f \<Rightarrow>
                    if f = SEALED_V1 then (Inr (), d)
                    else (Inl (Storage ''this data dir was written by a newer chorrent''), d)
                | None \<Rightarrow>
                    (case has_records E d of
                       Inl e \<Rightarrow> (Inl e, d)
                     | Inr True \<Rightarrow>
                         (Inl (Storage ''this data dir already has records stored without encryption''), d)
                     | Inr False \<Rightarrow>
                         (case raw_put E META FINGERPRINT fingerprint d of
                            Inl e \<Rightarrow> (Inl e, d)
                          | Inr d1 \<Rightarrow>
                              (case raw_put E META FORMAT SEALED_V1 d1 of
                                 Inl e \<Rightarrow> (Inl e, d1)
                               | Inr d2 \<Rightarrow> (Inr (), d2))))))
           | None \<Rightarrow>
               if fmt \<noteq> None \<or> saved \<noteq> None then
                 (Inl (Storage ''this data dir is encrypted; open it with its storage key''), d)
               else (Inr (), d)))"

definition store_open ::
  "'d libs \<Rightarrow> path \<Rightarrow> bytes option \<Rightarrow> 'd \<Rightarrow> world \<Rightarrow> (error + 'd store) \<times> 'd" where
  "store_open E data_dir storage_key d w =
     (case bind_result (map_err (Io data_dir) (create_dir_all data_dir w)) (\<lambda>_.
           map_err (\<lambda>e. case e of DatabaseAlreadyOpen \<Rightarrow> DataDirInUse data_dir | DatabaseError msg \<Rightarrow> Storage msg)
             (rd_create (lib_redb E) (path_join data_dir (path_of ''chorrent.redb'')) d)) of
        Inl e \<Rightarrow> (Inl e, d)
      | Inr d1 \<Rightarrow>
          (case rd_commit (lib_redb E) (map DbOpenTable [META, SEEDS, DOWNLOADS, PROGRESS, ACCESS, KINDS]) d1 of
             Inl e \<Rightarrow> (Inl (Storage e), d1)
           | Inr d2 \<Rightarrow>
               (case check_format E storage_key d2 of
                  (Inl e, d3) \<Rightarrow> (Inl e, d3)
                | (Inr _, d3) \<Rightarrow>
                    (Inr \<lparr>st_db = d3, st_sealer = map_option (sealer_new (lib_blake E)) storage_key\<rparr>, d3))))"

definition fresh_node_key :: "'d libs \<Rightarrow> 'd store \<times> world \<Rightarrow> (error + bytes) \<times> 'd store \<times> world" where
  "fresh_node_key E = (\<lambda>(st, w).
     (let (key, w1) = draw 32 w in
      case put_record E META ''node_key'' key (st, w1) of
        (Inl e, sw) \<Rightarrow> (Inl e, sw)
      | (Inr _, sw) \<Rightarrow> (Inr key, sw)))"

text \<open>The node's secret key; \<open>SecretKey::generate\<close> draws 32 random bytes.\<close>

definition node_key :: "'d libs \<Rightarrow> 'd store \<times> world \<Rightarrow> (error + bytes) \<times> 'd store \<times> world" where
  "node_key E = (\<lambda>(st, w).
     (case get_record E st META ''node_key'' of
        Inl e \<Rightarrow> (Inl e, st, w)
      | Inr found \<Rightarrow>
          (case found of
             Some b \<Rightarrow> if length b = 32 then (Inr b, st, w) else fresh_node_key E (st, w)
           | None \<Rightarrow> fresh_node_key E (st, w))))"

subsection \<open>Seeds\<close>

definition and_then :: "('e + 'a) \<times> 's \<Rightarrow> ('a \<Rightarrow> 's \<Rightarrow> ('e + 'b) \<times> 's) \<Rightarrow> ('e + 'b) \<times> 's" where
  "and_then = (\<lambda>(r, s) f. case r of Inl e \<Rightarrow> (Inl e, s) | Inr x \<Rightarrow> f x s)"

text \<open>
  \<open>modified\<close> is the system's: size and time in nanoseconds of a readable
  file, the argument \<open>modified\<close>.
\<close>

definition seed_record_of :: "(path \<Rightarrow> (nat \<times> nat) option) \<Rightarrow> local_share \<Rightarrow> seed_record" where
  "seed_record_of modified s =
     \<lparr>sd_root = ls_root s, sd_secret = ls_secret s, sd_manifest = ls_manifest_bytes s,
      sd_files = map (\<lambda>f. (data_path (lf_data f),
        (case modified (data_path (lf_data f)) of None \<Rightarrow> (0, 0) | Some m \<Rightarrow> m))) (ls_files s),
      sd_outboards = outboard_snapshots s\<rparr>"

definition remember_seed ::
  "'d libs \<Rightarrow> (path \<Rightarrow> (nat \<times> nat) option) \<Rightarrow> local_share \<Rightarrow> 'd store \<times> world
     \<Rightarrow> (error + unit) \<times> 'd store \<times> world" where
  "remember_seed E modified s sw =
     (let name = share_id_display (lib_blake E) (ls_id s) in
      case to_allocvec (pc_seed E) (seed_record_of modified s) of
        None \<Rightarrow> (Inl (Storage ''postcard''), sw)
      | Some b \<Rightarrow>
          (case to_allocvec (pc_kinds E) (map (\<lambda>f. is_encrypted (lf_data f)) (ls_files s)) of
             None \<Rightarrow> (Inl (Storage ''postcard''), sw)
           | Some kinds \<Rightarrow>
               and_then (put_record E KINDS name kinds sw) (\<lambda>_ sw1. put_record E SEEDS name b sw1)))"

text \<open>Any failure to read the list gives \<open>None\<close>: no allowlist.\<close>

definition load_allowed :: "'d libs \<Rightarrow> 'd store \<Rightarrow> share_id \<Rightarrow> endpoint_id set option" where
  "load_allowed E st i =
     (case get_record E st ACCESS (share_id_display (lib_blake E) i) of
        Inl e \<Rightarrow> None
      | Inr found \<Rightarrow> do {
          b \<leftarrow> found;
          raw \<leftarrow> from_bytes (pc_peers E) b;
          Some (set (List.map_filter (lib_endpoint E) raw)) })"

text \<open>What kind of data each saved file is: recorded, or seen in the file itself.\<close>

fun seed_data ::
  "master_key option \<Rightarrow> bool list option \<Rightarrow> world \<Rightarrow> nat \<Rightarrow> ((path \<times> nat \<times> nat) \<times> file_entry) list \<Rightarrow> error + file_data list" where
  "seed_data key kinds w i [] = Inr []"
| "seed_data key kinds w i (((path, sz, mtime), entry) # rest) =
     bind_result (case map_option (\<lambda>k. k ! i) kinds of
         Some False \<Rightarrow> Inr (Plain path)
       | Some True \<Rightarrow>
           (case key of
              Some key \<Rightarrow> Inr (Encrypted path key (unat (fe_size entry)))
            | None \<Rightarrow> Inl (Storage ''this share is in the encrypted store, but no storage key was given''))
       | None \<Rightarrow> map_err (Io path) (detect path key (unat (fe_size entry)) w)) (\<lambda>d.
     bind_result (seed_data key kinds w (i + 1) rest) (\<lambda>ds. Inr (d # ds)))"

definition saved_kinds :: "'d libs \<Rightarrow> 'd store \<Rightarrow> str \<Rightarrow> nat \<Rightarrow> error + bool list option" where
  "saved_kinds E st name n =
     bind_result (get_record E st KINDS name) (\<lambda>found.
     Inr (case Option.bind found (from_bytes (pc_kinds E)) of
        None \<Rightarrow> None
      | Some kinds \<Rightarrow> if length kinds = n then Some kinds else None))"

definition seed_files ::
  "bao \<Rightarrow> (path \<Rightarrow> (nat \<times> nat) option) \<Rightarrow> file_data list \<Rightarrow> bytes list \<Rightarrow> file_entry list \<Rightarrow> local_file list" where
  "seed_files B modified datas outboards fs =
     map (\<lambda>((d, saved), entry).
       shared_in_place modified d ((empty_outboard B (fe_root entry) (fe_size entry))\<lparr>ob_data := saved\<rparr>))
       (zip (zip datas outboards) fs)"

text \<open>
  \<open>tree\<close> is what is on disk at a path and \<open>chunks\<close> how a read of a file is
  cut, for the case in which the share is hashed again. \<open>None\<close> is a panic.
\<close>

definition load_seed ::
  "'d libs \<Rightarrow> (path \<Rightarrow> (nat \<times> nat) option) \<Rightarrow> (path \<Rightarrow> fsnode) \<Rightarrow> (bytes \<Rightarrow> bytes list) \<Rightarrow>
     share_id \<Rightarrow> store_config option \<Rightarrow> 'd store \<Rightarrow> world \<Rightarrow> ((error + local_share) \<times> world) option" where
  "load_seed E modified tree chunks i cfg st w =
     (let name = share_id_display (lib_blake E) i;
          key = Option.bind cfg st_key in
      case bind_result (get_record E st SEEDS name) (\<lambda>found.
           bind_result (ok_or found (NotAvailable (''no saved share '' @ name))) (\<lambda>b.
           bind_result (ok_or (from_bytes (pc_seed E) b) (Storage ''postcard'')) (\<lambda>saved.
           bind_result (decode_verified (lib_blake E) (pc_manifest E) (lib_lower E) (sd_manifest saved) i) (\<lambda>m.
           bind_result (saved_kinds E st name (length (sd_files saved))) (\<lambda>kinds.
           bind_result (seed_data key kinds w 0 (zip (sd_files saved) (m_files m))) (\<lambda>datas.
           Inr (saved, m, datas))))))) of
        Inl e \<Rightarrow> Some (Inl e, w)
      | Inr (saved, m, datas) \<Rightarrow>
          (let unchanged = list_all (\<lambda>(path, sz, mtime). modified path = Some (sz, mtime)) (sd_files saved) in
           if \<not> unchanged \<and> \<not> list_ex is_encrypted datas then do {
             (made, w1) \<leftarrow> share_from_disk (lib_blake E) (lib_aead E) (lib_bao E) (pc_manifest E) (lib_lower E)
                modified chunks (sd_root saved) (tree (sd_root saved)) (Some (m_name m)) (sd_secret saved) None w;
             Some (bind_result made (\<lambda>s.
               if ls_id s \<noteq> i then Inl (BadManifest (path_display (sd_root saved) @ '' changed since it was shared''))
               else Inr (set_allowed (load_allowed E st i) s)), w1) }
           else if length (sd_outboards saved) \<noteq> length datas then
             Some (Inl (Storage ''saved share is incomplete''), w)
           else
             (let s = from_parts (lib_blake E) m (sd_manifest saved)
                        (seed_files (lib_bao E) modified datas (sd_outboards saved) (m_files m))
                        (sd_secret saved) True (sd_root saved) in
              Some (bind_result (if unchanged then Inr ()
                      else verify (lib_blake E) (lib_aead E) (lib_bao E) s w) (\<lambda>_.
                    Inr (set_allowed (load_allowed E st i) s)), w))))"

definition seed_root :: "'d libs \<Rightarrow> share_id \<Rightarrow> 'd store \<Rightarrow> path option" where
  "seed_root E i st = do {
     found \<leftarrow> result_ok (get_record E st SEEDS (share_id_display (lib_blake E) i));
     b \<leftarrow> found;
     map_option sd_root (from_bytes (pc_seed E) b) }"

text \<open>\<open>order\<close> lists a hash set in the order it is iterated.\<close>

definition remember_allowed ::
  "'d libs \<Rightarrow> (endpoint_id set \<Rightarrow> endpoint_id list) \<Rightarrow> share_id \<Rightarrow> endpoint_id set option
     \<Rightarrow> 'd store \<times> world \<Rightarrow> (error + unit) \<times> 'd store \<times> world" where
  "remember_allowed E order i peers sw =
     (let name = share_id_display (lib_blake E) i in
      case peers of
        None \<Rightarrow> remove_records E [ACCESS] name sw
      | Some ps \<Rightarrow>
          (case to_allocvec (pc_peers E) (order ps) of
             None \<Rightarrow> (Inl (Storage ''postcard''), sw)
           | Some b \<Rightarrow> put_record E ACCESS name b sw))"

fun forget_downloads ::
  "'d libs \<Rightarrow> str \<Rightarrow> (str \<times> bytes) list \<Rightarrow> 'd store \<times> world \<Rightarrow> (error + unit) \<times> 'd store \<times> world" where
  "forget_downloads E prefix [] sw = (Inr (), sw)"
| "forget_downloads E prefix ((key, _) # rest) sw =
     (if starts_with key prefix then
        and_then (remove_records E [DOWNLOADS, PROGRESS] key sw) (\<lambda>_. forget_downloads E prefix rest)
      else forget_downloads E prefix rest sw)"

definition forget :: "'d libs \<Rightarrow> share_id \<Rightarrow> 'd store \<times> world \<Rightarrow> (error + unit) \<times> 'd store \<times> world" where
  "forget E i sw =
     (let name = share_id_display (lib_blake E) i in
      and_then (remove_records E [SEEDS, ACCESS, KINDS] name sw) (\<lambda>_ sw1.
      case entries E (fst sw1) DOWNLOADS of
        Inl e \<Rightarrow> (Inl e, sw1)
      | Inr found \<Rightarrow> forget_downloads E (name @ ''|'') found sw1))"

subsection \<open>Downloads\<close>

text \<open>Writing a share code as text panics if postcard refuses it: \<open>None\<close>.\<close>

definition remember_download ::
  "'d libs \<Rightarrow> share_code \<Rightarrow> path \<Rightarrow> 'd store \<times> world \<Rightarrow> ((error + unit) \<times> 'd store \<times> world) option" where
  "remember_download E code dest_dir sw = do {
     text \<leftarrow> share_code_display (pc_code E) (lib_base64 E) code;
     Some (case to_allocvec (pc_download E) \<lparr>dr_code = text, dr_dest_dir = dest_dir\<rparr> of
       None \<Rightarrow> (Inl (Storage ''postcard''), sw)
     | Some b \<Rightarrow> put_record E DOWNLOADS (download_key (lib_blake E) (sc_id code) dest_dir) b sw) }"

definition save_progress :: "'d libs \<Rightarrow> local_share \<Rightarrow> path \<Rightarrow> 'd store \<times> world \<Rightarrow> 'd store \<times> world" where
  "save_progress E s dest_dir sw =
     (case to_allocvec (pc_outboards E) (outboard_snapshots s) of
        None \<Rightarrow> sw
      | Some b \<Rightarrow> snd (put_record E PROGRESS (download_key (lib_blake E) (ls_id s) dest_dir) b sw))"

definition load_progress :: "'d libs \<Rightarrow> share_id \<Rightarrow> path \<Rightarrow> 'd store \<Rightarrow> bytes list option" where
  "load_progress E i dest_dir st = do {
     found \<leftarrow> result_ok (get_record E st PROGRESS (download_key (lib_blake E) i dest_dir));
     b \<leftarrow> found;
     from_bytes (pc_outboards E) b }"

definition store_mark_complete ::
  "'d libs \<Rightarrow> share_id \<Rightarrow> path \<Rightarrow> 'd store \<times> world \<Rightarrow> (error + unit) \<times> 'd store \<times> world" where
  "store_mark_complete E i dest_dir =
     remove_records E [DOWNLOADS, PROGRESS] (download_key (lib_blake E) i dest_dir)"

definition saved_seed :: "'d libs \<Rightarrow> str \<times> bytes \<Rightarrow> saved_transfer option" where
  "saved_seed E = (\<lambda>(key, b). do {
     i \<leftarrow> result_ok (share_id_from_str (lib_blake E) key);
     saved \<leftarrow> from_bytes (pc_seed E) b;
     Some (SavedSeed i (sd_root saved) (sd_secret saved \<noteq> None)) })"

definition saved_download :: "'d libs \<Rightarrow> str \<times> bytes \<Rightarrow> saved_transfer option" where
  "saved_download E = (\<lambda>(_, b). do {
     saved \<leftarrow> from_bytes (pc_download E) b;
     code \<leftarrow> result_ok (share_code_from_str (pc_code E) (lib_base64 E) (dr_code saved));
     Some (SavedDownload code (dr_dest_dir saved)) })"

definition saved_transfers :: "'d libs \<Rightarrow> 'd store \<Rightarrow> error + saved_transfer list" where
  "saved_transfers E st =
     bind_result (entries E st SEEDS) (\<lambda>seeds.
     bind_result (entries E st DOWNLOADS) (\<lambda>downloads.
     Inr (List.map_filter (saved_seed E) seeds @ List.map_filter (saved_download E) downloads)))"

end
