(* ===== verification/Store_Contract.thy ===== *)
theory Store_Contract
  imports Store "HOL-Library.AList"
begin

text \<open>
  What the rest of the program may rely on in \<open>Store\<close>: plain or sealed, the
  database shows a map from table and name to value. The interface is the
  locale \<open>record_map\<close>; its interpretation on the operations of the store rests
  on what redb, the cipher and the serializer promise.
\<close>

subsection \<open>What redb promises\<close>

text \<open>
  \<open>view\<close> is what a database state holds. Reading gives it, a listing has each
  key once, and a transaction that succeeds has done its operations in order.
\<close>

fun apply_op :: "db_op \<Rightarrow> (table \<Rightarrow> str \<rightharpoonup> bytes) \<Rightarrow> table \<Rightarrow> str \<rightharpoonup> bytes" where
  "apply_op (DbOpenTable tbl) v = v"
| "apply_op (DbInsert tbl name b) v = v(tbl := (v tbl)(name \<mapsto> b))"
| "apply_op (DbRemove tbl name) v = v(tbl := (v tbl)(name := None))"

definition redb_ok :: "'d redb \<Rightarrow> ('d \<Rightarrow> table \<Rightarrow> str \<rightharpoonup> bytes) \<Rightarrow> bool" where
  "redb_ok R view \<longleftrightarrow>
     (\<forall>d tbl name. rd_get R d tbl name = Inr (view d tbl name)) \<and>
     (\<forall>d tbl. \<exists>rows. rd_rows R d tbl = Inr rows \<and> distinct (map fst rows) \<and> map_of rows = view d tbl) \<and>
     (\<forall>ops d d'. rd_commit R ops d = Inr d' \<longrightarrow> view d' = fold apply_op ops (view d)) \<and>
     (\<forall>p d d'. rd_create R p d = Inr d' \<longrightarrow> view d' = view d)"

lemma raw_get_ok: "redb_ok (lib_redb E) view \<Longrightarrow> raw_get E d tbl name = Inr (view d tbl name)"
  by (simp add: redb_ok_def raw_get_def)

lemma raw_put_ok:
  "redb_ok (lib_redb E) view \<Longrightarrow> raw_put E tbl name b d = Inr d' \<Longrightarrow> view d' = (view d)(tbl := (view d tbl)(name \<mapsto> b))"
  by (simp add: redb_ok_def raw_put_def)

lemma rows_ok:
  assumes "redb_ok (lib_redb E) view"
  obtains rows where "rd_rows (lib_redb E) d tbl = Inr rows" "distinct (map fst rows)" "map_of rows = view d tbl"
  using assms unfolding redb_ok_def by blast

subsection \<open>Interface: records by name\<close>

text \<open>
  What the program relies on when it keeps something in the database: a call
  does its effect on an abstract map or, when it fails, nothing; and looking
  up shows the map. \<open>run_calls\<close> is any sequence of calls, going on after a
  failure.
\<close>

fun run_calls :: "('op \<Rightarrow> 's \<Rightarrow> ('e + unit) \<times> 's) \<Rightarrow> 'op list \<Rightarrow> 's \<Rightarrow> bool list \<times> 's" where
  "run_calls exec [] s = ([], s)"
| "run_calls exec (x # xs) s =
     (let (r, s1) = exec x s; (rs, s2) = run_calls exec xs s1 in ((r = Inr ()) # rs, s2))"

fun abs_calls :: "('op \<Rightarrow> 'm \<Rightarrow> 'm) \<Rightarrow> 'op list \<Rightarrow> bool list \<Rightarrow> 'm \<Rightarrow> 'm" where
  "abs_calls effect (x # xs) (r # rs) m = abs_calls effect xs rs (if r then effect x m else m)"
| "abs_calls effect _ _ m = m"

locale record_map =
  fixes exec :: "'op \<Rightarrow> 's \<Rightarrow> ('e + unit) \<times> 's"
    and effect :: "'op \<Rightarrow> 'm \<Rightarrow> 'm"
    and permitted :: "'op \<Rightarrow> bool"
    and displays :: "'s \<Rightarrow> 'm \<Rightarrow> bool"
  assumes exec_refines: "displays s m \<Longrightarrow> permitted x \<Longrightarrow>
    displays (snd (exec x s)) (if fst (exec x s) = Inr () then effect x m else m)"
begin

lemma run_refines:
  assumes "displays s m" and "\<forall>x \<in> set xs. permitted x"
  shows "case run_calls exec xs s of (rs, s') \<Rightarrow> length rs = length xs \<and> displays s' (abs_calls effect xs rs m)"
  using assms
proof (induction xs arbitrary: s m)
  case Nil
  then show ?case by simp
next
  case (Cons x xs)
  obtain r s1 where x: "exec x s = (r, s1)" by fastforce
  obtain rs s2 where xs: "run_calls exec xs s1 = (rs, s2)" by fastforce
  have "displays s1 (if r = Inr () then effect x m else m)"
    using exec_refines [OF Cons.prems(1), of x] Cons.prems(2) x by simp
  with Cons.IH [of s1 "if r = Inr () then effect x m else m"] Cons.prems(2) x xs show ?case by simp
qed

end

subsection \<open>Plain and sealed databases show a map of records\<close>

datatype record_op =
    PutRecord table str bytes
  | RemoveRecords "table list" str

fun exec_record :: "'d libs \<Rightarrow> record_op \<Rightarrow> 'd store \<times> world \<Rightarrow> (error + unit) \<times> 'd store \<times> world" where
  "exec_record E (PutRecord tbl name value) sw = put_record E tbl name value sw"
| "exec_record E (RemoveRecords tables name) sw = remove_records E tables name sw"

fun record_effect :: "record_op \<Rightarrow> (table \<times> str \<Rightarrow> bytes option) \<Rightarrow> table \<times> str \<Rightarrow> bytes option" where
  "record_effect (PutRecord tbl name value) m = m((tbl, name) \<mapsto> value)"
| "record_effect (RemoveRecords tables name) m = (\<lambda>(t, n). if t \<in> set tables \<and> n = name then None else m (t, n))"

text \<open>
  \<open>known\<close> are the names in use; their stored names must differ within a table
  (in a sealed database: no two of them hash alike). A value can be kept if
  its serialization round trips and can be sealed.
\<close>

definition sealable :: "aead \<Rightarrow> bytes \<Rightarrow> bool" where
  "sealable A p \<longleftrightarrow> (\<forall>k n a. \<exists>c. seal A k n a p = Some c \<and> unseal A k n a c = Some p)"

definition keepable :: "'d libs \<Rightarrow> str \<Rightarrow> bytes \<Rightarrow> bool" where
  "keepable E name value \<longleftrightarrow> round_trips (pc_record E) (name, value) \<and>
     (\<forall>p. to_allocvec (pc_record E) (name, value) = Some p \<longrightarrow> sealable (lib_aead E) p)"

fun op_permitted :: "'d libs \<Rightarrow> (table \<times> str) set \<Rightarrow> record_op \<Rightarrow> bool" where
  "op_permitted E known (PutRecord tbl name value) \<longleftrightarrow> (tbl, name) \<in> known \<and> keepable E name value"
| "op_permitted E known (RemoveRecords tables name) \<longleftrightarrow> (\<forall>t \<in> set tables. (t, name) \<in> known)"

text \<open>A stored pair \<open>k\<close>, \<open>b\<close> that reads as \<open>value\<close> under \<open>name\<close>.\<close>

definition row_reads :: "'d libs \<Rightarrow> sealer option \<Rightarrow> table \<Rightarrow> str \<Rightarrow> bytes \<Rightarrow> str \<Rightarrow> bytes \<Rightarrow> bool" where
  "row_reads E sl tbl k b name value \<longleftrightarrow> (case sl of
     None \<Rightarrow> k = name \<and> b = value
   | Some s \<Rightarrow> sealer_open E s tbl k b = Inr (name, value))"

definition names_distinct :: "'d libs \<Rightarrow> sealer option \<Rightarrow> (table \<times> str) set \<Rightarrow> bool" where
  "names_distinct E sl known \<longleftrightarrow>
     (\<forall>(t, n) \<in> known. \<forall>(t', n') \<in> known. t = t' \<and> stored_name E sl t n = stored_name E sl t' n' \<longrightarrow> n = n')"

lemma names_distinctD:
  "names_distinct E sl known \<Longrightarrow> (t, n) \<in> known \<Longrightarrow> (t, n') \<in> known \<Longrightarrow>
    stored_name E sl t n = stored_name E sl t n' \<Longrightarrow> n = n'"
  unfolding names_distinct_def by blast

definition displays_records ::
  "'d libs \<Rightarrow> ('d \<Rightarrow> table \<Rightarrow> str \<rightharpoonup> bytes) \<Rightarrow> (table \<times> str) set \<Rightarrow> 'd store \<times> world \<Rightarrow>
     (table \<times> str \<Rightarrow> bytes option) \<Rightarrow> bool" where
  "displays_records E view known = (\<lambda>(st, w) m.
     redb_ok (lib_redb E) view \<and> names_distinct E (st_sealer st) known \<and>
     (\<forall>(t, n) \<in> known. case m (t, n) of
        None \<Rightarrow> view (st_db st) t (stored_name E (st_sealer st) t n) = None
      | Some v \<Rightarrow> \<exists>b. view (st_db st) t (stored_name E (st_sealer st) t n) = Some b \<and>
          row_reads E (st_sealer st) t (stored_name E (st_sealer st) t n) b n v) \<and>
     (\<forall>t \<in> set RECORD_TABLES. \<forall>k b. view (st_db st) t k = Some b \<longrightarrow>
        (\<exists>n. (t, n) \<in> known \<and> k = stored_name E (st_sealer st) t n)))"

lemma displays_recordsD:
  assumes "displays_records E view known (st, w) m"
  shows "redb_ok (lib_redb E) view" "names_distinct E (st_sealer st) known"
    "(t, n) \<in> known \<Longrightarrow> (case m (t, n) of
        None \<Rightarrow> view (st_db st) t (stored_name E (st_sealer st) t n) = None
      | Some v \<Rightarrow> \<exists>b. view (st_db st) t (stored_name E (st_sealer st) t n) = Some b \<and>
          row_reads E (st_sealer st) t (stored_name E (st_sealer st) t n) b n v)"
    "t \<in> set RECORD_TABLES \<Longrightarrow> view (st_db st) t k = Some b \<Longrightarrow>
      \<exists>n. (t, n) \<in> known \<and> k = stored_name E (st_sealer st) t n"
  using assms unfolding displays_records_def by (blast, blast, blast, blast)

lemma displays_recordsI:
  assumes "st_db st = d" "st_sealer st = sl"
    and "redb_ok (lib_redb E) view" "names_distinct E sl known"
    and "\<And>t n. (t, n) \<in> known \<Longrightarrow> (case m (t, n) of
        None \<Rightarrow> view d t (stored_name E sl t n) = None
      | Some v \<Rightarrow> \<exists>b. view d t (stored_name E sl t n) = Some b \<and> row_reads E sl t (stored_name E sl t n) b n v)"
    and "\<And>t k b. t \<in> set RECORD_TABLES \<Longrightarrow> view d t k = Some b \<Longrightarrow> \<exists>n. (t, n) \<in> known \<and> k = stored_name E sl t n"
  shows "displays_records E view known (st, w) m"
  using assms(3-) unfolding displays_records_def prod.case assms(1,2) by blast

lemma sealed_opens:
  assumes "keepable E name value"
  shows "\<exists>b w'. sealer_seal E sl tbl stored name value w = (Inr b, w') \<and>
    sealer_open E sl tbl stored b = Inr (name, value)"
proof -
  obtain p where p: "to_allocvec (pc_record E) (name, value) = Some p" "from_bytes (pc_record E) p = Some (name, value)"
    using assms by (auto simp: keepable_def round_trips_def)
  obtain c where "seal (lib_aead E) (sl_cipher sl) (fst (draw 24 w)) (record_aad tbl stored) p = Some c"
    "unseal (lib_aead E) (sl_cipher sl) (fst (draw 24 w)) (record_aad tbl stored) c = Some p"
    using assms p(1) unfolding keepable_def sealable_def by blast
  then show ?thesis
    using p by (auto simp: sealer_seal_def sealer_open_def draw_def Let_def)
qed

lemma displays_get:
  assumes "displays_records E view known (st, w) m" and "(t, n) \<in> known"
  shows "get_record E st t n = Inr (m (t, n))"
proof -
  have raw: "raw_get E (st_db st) t (stored_name E (st_sealer st) t n) =
      Inr (view (st_db st) t (stored_name E (st_sealer st) t n))"
    using assms(1) by (intro raw_get_ok) (simp add: displays_records_def)
  have "case m (t, n) of
        None \<Rightarrow> view (st_db st) t (stored_name E (st_sealer st) t n) = None
      | Some v \<Rightarrow> \<exists>b. view (st_db st) t (stored_name E (st_sealer st) t n) = Some b \<and>
          row_reads E (st_sealer st) t (stored_name E (st_sealer st) t n) b n v"
    using assms unfolding displays_records_def by blast
  then show ?thesis
    using raw by (auto simp: get_record_def row_reads_def split: option.splits)
qed

lemma open_rows_ok:
  assumes "\<forall>(k, b) \<in> set rows. \<exists>n v. row_reads E sl t k b n v"
  shows "\<exists>es. open_rows E sl t rows = Inr es \<and> list_all2 (\<lambda>(k, b) (n, v). row_reads E sl t k b n v) rows es"
  using assms
proof (induction rows)
  case Nil
  then show ?case by simp
next
  case (Cons row rows)
  obtain k b where row: "row = (k, b)" by fastforce
  then obtain n v where nv: "row_reads E sl t k b n v" using Cons.prems by auto
  have "(case sl of None \<Rightarrow> Inr (k, b) | Some s \<Rightarrow> sealer_open E s t k b) = Inr (n, v)"
    using nv by (simp add: row_reads_def split: option.splits)
  with Cons nv row show ?case by auto
qed

lemma displays_row:
  assumes shown: "displays_records E view known (st, w) m" and t: "t \<in> set RECORD_TABLES"
    and b: "view (st_db st) t k = Some b"
  obtains n v where "(t, n) \<in> known" "k = stored_name E (st_sealer st) t n" "m (t, n) = Some v" "row_reads E (st_sealer st) t k b n v"
proof -
  let ?s = "stored_name E (st_sealer st) t"
  obtain n where n: "(t, n) \<in> known" "k = ?s n"
    using b shown t unfolding displays_records_def by blast
  moreover have "case m (t, n) of None \<Rightarrow> view (st_db st) t (?s n) = None
      | Some v \<Rightarrow> \<exists>b. view (st_db st) t (?s n) = Some b \<and> row_reads E (st_sealer st) t (?s n) b n v"
    using shown n(1) unfolding displays_records_def by blast
  ultimately show thesis using b that [of n] by (auto split: option.splits)
qed

lemma row_reads_unique: "row_reads E sl t k b n v \<Longrightarrow> row_reads E sl t k b n' v' \<Longrightarrow> n = n' \<and> v = v'"
  by (auto simp: row_reads_def split: option.splits)

lemma displays_entries:
  assumes shown: "displays_records E view known (st, w) m" and t: "t \<in> set RECORD_TABLES"
  shows "\<exists>es. entries E st t = Inr es \<and> distinct (map fst es) \<and>
    (\<forall>n v. (n, v) \<in> set es \<longleftrightarrow> (t, n) \<in> known \<and> m (t, n) = Some v)"
proof -
  let ?s = "stored_name E (st_sealer st) t"
  obtain rows where rows: "rd_rows (lib_redb E) (st_db st) t = Inr rows" "distinct (map fst rows)"
    "map_of rows = view (st_db st) t"
    using shown by (auto simp: displays_records_def intro: rows_ok)
  have at: "(k, b) \<in> set rows \<longleftrightarrow> view (st_db st) t k = Some b" for k b
    using rows(2,3) map_of_eq_Some_iff by metis
  have row: "\<exists>n v. (t, n) \<in> known \<and> k = ?s n \<and> m (t, n) = Some v \<and> row_reads E (st_sealer st) t k b n v"
    if "(k, b) \<in> set rows" for k b
    using displays_row [OF shown t, of k b] that at by blast
  obtain es where es: "open_rows E (st_sealer st) t rows = Inr es"
    "list_all2 (\<lambda>(k, b) (n, v). row_reads E (st_sealer st) t k b n v) rows es"
    using open_rows_ok [of rows E "st_sealer st" t] row by blast
  have len: "length es = length rows" using es(2) by (simp add: list_all2_lengthD)
  have nth: "fst (rows ! i) = ?s (fst (es ! i)) \<and> (t, fst (es ! i)) \<in> known \<and> m (t, fst (es ! i)) = Some (snd (es ! i))"
    if "i < length rows" for i
  proof -
    have "row_reads E (st_sealer st) t (fst (rows ! i)) (snd (rows ! i)) (fst (es ! i)) (snd (es ! i))"
      using list_all2_nthD [OF es(2) that] by (simp add: case_prod_beta)
    moreover have "(fst (rows ! i), snd (rows ! i)) \<in> set rows" using that by simp
    ultimately show ?thesis using row row_reads_unique by blast
  qed
  have "map fst rows = map (?s \<circ> fst) es" using nth len by (intro nth_equalityI) simp_all
  then have "distinct (map fst es)" using rows(2) by (simp add: distinct_map inj_on_def comp_def)
  moreover have "(t, n) \<in> known \<and> m (t, n) = Some v" if "(n, v) \<in> set es" for n v
    using that nth len by (metis fst_conv in_set_conv_nth snd_conv)
  moreover have "(n, v) \<in> set es" if nv: "(t, n) \<in> known" "m (t, n) = Some v" for n v
  proof -
    obtain b where "view (st_db st) t (?s n) = Some b"
      using shown nv unfolding displays_records_def by fastforce
    then obtain i where i: "i < length rows" "rows ! i = (?s n, b)" using at by (metis in_set_conv_nth)
    then have "?s n = ?s (fst (es ! i))" "(t, fst (es ! i)) \<in> known" "m (t, fst (es ! i)) = Some (snd (es ! i))"
      using nth [of i] by auto
    moreover have "names_distinct E (st_sealer st) known" using shown by (simp add: displays_records_def)
    ultimately have "fst (es ! i) = n" "snd (es ! i) = v"
      using nv unfolding names_distinct_def by fastforce+
    then show ?thesis using i(1) len by (metis nth_mem prod.collapse)
  qed
  ultimately show ?thesis using rows(1) es(1) by (auto simp: entries_def)
qed

lemma displays_put:
  assumes d: "displays_records E view known (st, w) m" and k: "(t, n) \<in> known" and keep: "keepable E n v"
    and x: "put_record E t n v (st, w) = (r, st', w')"
  shows "displays_records E view known (st', w') (if r = Inr () then m((t, n) \<mapsto> v) else m)"
proof -
  let ?s = "stored_name E (st_sealer st)"
  note redb = displays_recordsD(1) [OF d] and nd = displays_recordsD(2) [OF d]
    and cont = displays_recordsD(3) [OF d] and full = displays_recordsD(4) [OF d]
  obtain b w1 where b: "(case st_sealer st of None \<Rightarrow> (Inr v, w) | Some sl \<Rightarrow> sealer_seal E sl t (?s t n) n v w) = (Inr b, w1)"
    "row_reads E (st_sealer st) t (?s t n) b n v"
  proof (cases "st_sealer st")
    case None
    then show ?thesis using that by (simp add: row_reads_def stored_name_def)
  next
    case (Some sl)
    then show ?thesis using that sealed_opens [OF keep, of sl t "?s t n" w] by (auto simp: row_reads_def)
  qed
  show ?thesis
  proof (cases "raw_put E t (?s t n) b (st_db st)")
    case (Inl e)
    then show ?thesis using x b d by (auto simp: put_record_def Let_def displays_records_def)
  next
    case (Inr db')
    then have st': "r = Inr ()" "st' = st\<lparr>st_db := db'\<rparr>"
      using x b by (auto simp: put_record_def Let_def)
    have vw: "view db' = (view (st_db st))(t := (view (st_db st) t)(?s t n \<mapsto> b))"
      using raw_put_ok [OF redb Inr] .
    have held: "case (m((t, n) \<mapsto> v)) (t', n') of
        None \<Rightarrow> view db' t' (?s t' n') = None
      | Some v \<Rightarrow> \<exists>b. view db' t' (?s t' n') = Some b \<and> row_reads E (st_sealer st) t' (?s t' n') b n' v"
      if "(t', n') \<in> known" for t' n'
    proof (cases "t' = t \<and> ?s t' n' = ?s t n")
      case True
      then have "n' = n" using names_distinctD [OF nd] k that by metis
      then show ?thesis using True vw b(2) by auto
    next
      case False
      then have same: "view db' t' (?s t' n') = view (st_db st) t' (?s t' n')" using vw by auto
      have "(t', n') \<noteq> (t, n)" using False by auto
      then have "(m((t, n) \<mapsto> v)) (t', n') = m (t', n')" by (rule fun_upd_other)
      then show ?thesis unfolding same using cont [OF that] by simp
    qed
    have listed: "\<exists>n. (t', n) \<in> known \<and> k' = ?s t' n" if "t' \<in> set RECORD_TABLES" "view db' t' k' = Some b'" for t' k' b'
      using full [OF that(1), of k' b'] that(2) k vw by (auto split: if_splits)
    show ?thesis
      unfolding st'(1) if_True simp_thms
      by (rule displays_recordsI [OF _ _ redb nd held listed]) (simp_all add: st'(2))
  qed
qed

lemma fold_removes:
  "fold apply_op (map (\<lambda>t. DbRemove t (f t)) ts) v t' = (if t' \<in> set ts then (v t')(f t' := None) else v t')"
  by (induction ts arbitrary: v) auto

lemma displays_remove:
  assumes d: "displays_records E view known (st, w) m" and k: "\<forall>t \<in> set tables. (t, n) \<in> known"
    and x: "remove_records E tables n (st, w) = (r, st', w')"
  shows "displays_records E view known (st', w') (if r = Inr () then record_effect (RemoveRecords tables n) m else m)"
proof -
  let ?s = "stored_name E (st_sealer st)"
  note redb = displays_recordsD(1) [OF d] and nd = displays_recordsD(2) [OF d]
    and cont = displays_recordsD(3) [OF d] and full = displays_recordsD(4) [OF d]
  show ?thesis
  proof (cases "rd_commit (lib_redb E) (map (\<lambda>t. DbRemove t (?s t n)) tables) (st_db st)")
    case (Inl e)
    then show ?thesis using x d by (auto simp: remove_records_def)
  next
    case (Inr db')
    then have st': "r = Inr ()" "st' = st\<lparr>st_db := db'\<rparr>"
      using x by (auto simp: remove_records_def)
    have "view db' = fold apply_op (map (\<lambda>t. DbRemove t (?s t n)) tables) (view (st_db st))"
      using redb Inr unfolding redb_ok_def by blast
    then have vw: "view db' t' = (if t' \<in> set tables then (view (st_db st) t')(?s t' n := None) else view (st_db st) t')" for t'
      by (simp add: fold_removes)
    have held: "case record_effect (RemoveRecords tables n) m (t', n') of
        None \<Rightarrow> view db' t' (?s t' n') = None
      | Some v \<Rightarrow> \<exists>b. view db' t' (?s t' n') = Some b \<and> row_reads E (st_sealer st) t' (?s t' n') b n' v"
      if "(t', n') \<in> known" for t' n'
    proof (cases "t' \<in> set tables \<and> ?s t' n' = ?s t' n")
      case True
      then have "n' = n" using names_distinctD [OF nd] k that by metis
      then show ?thesis using True vw by simp
    next
      case False
      then have same: "view db' t' (?s t' n') = view (st_db st) t' (?s t' n')" using vw by auto
      have "record_effect (RemoveRecords tables n) m (t', n') = m (t', n')" using False by auto
      then show ?thesis unfolding same using cont [OF that] by (simp del: record_effect.simps)
    qed
    have listed: "\<exists>n. (t', n) \<in> known \<and> k' = ?s t' n" if "t' \<in> set RECORD_TABLES" "view db' t' k' = Some b'" for t' k' b'
      using full [OF that(1), of k' b'] that(2) vw by (auto split: if_splits)
    show ?thesis
      unfolding st'(1) if_True simp_thms
      by (rule displays_recordsI [OF _ _ redb nd held listed]) (simp_all add: st'(2))
  qed
qed

interpretation records: record_map "exec_record E" record_effect "op_permitted E known" "displays_records E view known"
  for E view known
proof
  fix s m x
  assume d: "displays_records E view known s m" and p: "op_permitted E known x"
  obtain st w where s: "s = (st, w)" by fastforce
  obtain r st' w' where x: "exec_record E x s = (r, st', w')" using prod_cases3 by blast
  show "displays_records E view known (snd (exec_record E x s))
      (if fst (exec_record E x s) = Inr () then record_effect x m else m)"
  proof (cases x)
    case (PutRecord t n v)
    then show ?thesis using displays_put [of E view known st w m t n v r st' w'] d p s x by (simp split: if_splits)
  next
    case (RemoveRecords ts n)
    then show ?thesis using displays_remove [of E view known st w m ts n r st' w'] d p s x
      by (simp del: record_effect.simps split: if_splits)
  qed
qed

text \<open>C15: plain or sealed, the database behaves as a map from table and name to
  value: after any sequence of writes and removals, of which some may fail,
  looking up a name gives exactly what the successful calls left there, and
  listing a table gives each such record once.\<close>

theorem database_is_a_map:
  assumes "displays_records E view known (st, w) m" and "\<forall>x \<in> set ops. op_permitted E known x"
    and "run_calls (exec_record E) ops (st, w) = (rs, st', w')"
    and "m' = abs_calls record_effect ops rs m"
  shows "((t, n) \<in> known \<longrightarrow> get_record E st' t n = Inr (m' (t, n))) \<and>
    (t \<in> set RECORD_TABLES \<longrightarrow> (\<exists>es. entries E st' t = Inr es \<and> distinct (map fst es) \<and>
       (\<forall>n v. (n, v) \<in> set es \<longleftrightarrow> (t, n) \<in> known \<and> m' (t, n) = Some v)))"
proof -
  have "displays_records E view known (st', w') m'"
    using records.run_refines [OF assms(1,2)] assms(3,4) by simp
  then show ?thesis using displays_get displays_entries by blast
qed


subsection \<open>A database in memory, for the witnesses\<close>

type_synonym toy_db = "table \<Rightarrow> (str \<times> bytes) list"

fun toy_op :: "db_op \<Rightarrow> toy_db \<Rightarrow> toy_db" where
  "toy_op (DbOpenTable tbl) d = d"
| "toy_op (DbInsert tbl name b) d = d(tbl := AList.update name b (d tbl))"
| "toy_op (DbRemove tbl name) d = d(tbl := AList.delete name (d tbl))"

definition toy_redb :: "toy_db redb" where
  "toy_redb = \<lparr>rd_create = (\<lambda>p d. Inr d), rd_get = (\<lambda>d tbl name. Inr (map_of (d tbl) name)),
     rd_rows = (\<lambda>d tbl. Inr (AList.clearjunk (d tbl))), rd_commit = (\<lambda>ops d. Inr (fold toy_op ops d))\<rparr>"

definition toy_view :: "toy_db \<Rightarrow> table \<Rightarrow> str \<rightharpoonup> bytes" where
  "toy_view d tbl = map_of (d tbl)"

lemma toy_view_op: "toy_view (toy_op x d) = apply_op x (toy_view d)"
  by (cases x) (auto simp: toy_view_def fun_eq_iff update_conv delete_conv)

lemma toy_redb_ok: "redb_ok toy_redb toy_view"
proof -
  have "toy_view (fold toy_op ops d) = fold apply_op ops (toy_view d)" for ops d
    by (induction ops arbitrary: d) (auto simp: toy_view_op)
  then show ?thesis
    by (auto simp: redb_ok_def toy_redb_def toy_view_def map_of_clearjunk distinct_clearjunk)
qed

text \<open>Records as the length of the name, the name, and the value.\<close>

definition toy_record_codec :: "(str \<times> bytes) codec" where
  "toy_record_codec = \<lparr>to_allocvec = (\<lambda>(n, v). if length n < 256 then Some (word_of_nat (length n) # bytes_of n @ v) else None),
     from_bytes = (\<lambda>b. case b of [] \<Rightarrow> None
       | k # r \<Rightarrow> Some (str_of_bytes (take (unat k) r), drop (unat k) r))\<rparr>"

lemma toy_record_round_trips: "length n < 256 \<Longrightarrow> round_trips toy_record_codec (n, v)"
  by (simp add: round_trips_def toy_record_codec_def unat_of_nat bytes_of_def str_of_bytes_def comp_def)

lemma toy_sealable: "sealable toy_aead p"
  by (simp add: sealable_def toy_aead_def)

definition toy_libs :: "toy_db libs" where
  "toy_libs = \<lparr>lib_redb = toy_redb, lib_blake = plain_blake, lib_aead = toy_aead, lib_bao = toy_bao,
     lib_lower = (\<lambda>s. s), lib_endpoint = Some, lib_base64 = tiny_base64, pc_record = toy_record_codec,
     pc_seed = const_codec \<lparr>sd_root = [Normal ''x''], sd_secret = None, sd_manifest = [1, 7],
       sd_files = [([Normal ''x''], 70000, 5)], sd_outboards = [[]]\<rparr>,
     pc_download = const_codec \<lparr>dr_code = ''chr2Bw'', dr_dest_dir = []\<rparr>, pc_kinds = const_codec [False],
     pc_peers = const_codec [[1], [2]], pc_outboards = const_codec [[]], pc_manifest = const_codec \<lparr>m_name = ''x'', m_files = []\<rparr>,
     pc_code = const_codec tiny_code\<rparr>"

lemma toy_keepable: "length n < 256 \<Longrightarrow> keepable toy_libs n v"
  by (simp add: keepable_def toy_libs_def toy_record_round_trips toy_sealable)

definition toy_sealer :: sealer where
  "toy_sealer = sealer_new plain_blake [1]"

definition toy_store :: "toy_db store" where
  "toy_store = \<lparr>st_db = (\<lambda>_. []), st_sealer = Some toy_sealer\<rparr>"

lemma toy_names_distinct:
  "names_distinct toy_libs (Some toy_sealer) {(ACCESS, ''a''), (ACCESS, ''b''), (SEEDS, ''a'')}"
  by (auto simp: names_distinct_def stored_name_def sealer_name_def toy_libs_def plain_blake_def
      str_of_bytes_def bytes_of_def toy_sealer_def sealer_new_def ACCESS_def SEEDS_def)

lemma toy_displays:
  "displays_records toy_libs toy_view {(ACCESS, ''a''), (ACCESS, ''b''), (SEEDS, ''a'')} (toy_store, toy_world) (\<lambda>_. None)"
  by (rule displays_recordsI [OF refl refl])
     (use toy_names_distinct toy_redb_ok in \<open>simp_all add: toy_store_def toy_libs_def toy_view_def\<close>)

theorem database_is_a_map_witness:
  "\<exists>rs st' w'. run_calls (exec_record toy_libs) [PutRecord ACCESS ''a'' [1], PutRecord ACCESS ''b'' [2],
      RemoveRecords [SEEDS, ACCESS] ''a''] (toy_store, toy_world) = (rs, st', w') \<and>
    get_record toy_libs st' ACCESS ''b'' = Inr (abs_calls record_effect [PutRecord ACCESS ''a'' [1], PutRecord ACCESS ''b'' [2],
      RemoveRecords [SEEDS, ACCESS] ''a''] rs (\<lambda>_. None) (ACCESS, ''b''))"
proof -
  let ?ops = "[PutRecord ACCESS ''a'' [1], PutRecord ACCESS ''b'' [2], RemoveRecords [SEEDS, ACCESS] ''a'']"
  obtain rs st' w' where run: "run_calls (exec_record toy_libs) ?ops (toy_store, toy_world) = (rs, st', w')"
    using prod_cases3 by blast
  have ok: "\<forall>x \<in> set ?ops. op_permitted toy_libs {(ACCESS, ''a''), (ACCESS, ''b''), (SEEDS, ''a'')} x"
    by (auto simp: toy_keepable)
  show ?thesis
    using database_is_a_map [OF toy_displays ok run refl, of ACCESS "''b''"] run
    by (intro exI [of _ rs] exI [of _ st'] exI [of _ w']) auto
qed

end
