(* ===== verification/Store_Format.thy ===== *)
theory Store_Format
  imports Store_Contract
begin

text \<open>
  Opening the database of a data folder (\<open>store.rs\<close>, \<open>open\<close> and \<open>check_format\<close>)
  over any number of sessions, with keys or without: the step relation
  \<open>sessions\<close> and its invariant.
\<close>

subsection \<open>A database is never half sealed\<close>

definition plain_db :: "('d \<Rightarrow> table \<Rightarrow> str \<rightharpoonup> bytes) \<Rightarrow> 'd \<Rightarrow> bool" where
  "plain_db view d \<longleftrightarrow> view d META FORMAT = None \<and> view d META FINGERPRINT = None"

text \<open>Sealed under \<open>key\<close>: marked as such, and every record is sealed under that key in its own place.\<close>

definition sealed_db :: "'d libs \<Rightarrow> ('d \<Rightarrow> table \<Rightarrow> str \<rightharpoonup> bytes) \<Rightarrow> bytes \<Rightarrow> 'd \<Rightarrow> bool" where
  "sealed_db E view key d \<longleftrightarrow>
     view d META FORMAT = Some SEALED_V1 \<and>
     view d META FINGERPRINT = Some (key_fingerprint (lib_blake E) key) \<and>
     (\<forall>t \<in> set RECORD_TABLES. \<forall>k b. view d t k = Some b \<longrightarrow>
        (\<exists>n v. k = sealer_name (lib_blake E) (sealer_new (lib_blake E) key) t n \<and>
           sealer_open E (sealer_new (lib_blake E) key) t k b = Inr (n, v)))"

text \<open>The moment between the two writes that mark an empty database as sealed.\<close>

definition sealing_db :: "'d libs \<Rightarrow> ('d \<Rightarrow> table \<Rightarrow> str \<rightharpoonup> bytes) \<Rightarrow> bytes \<Rightarrow> 'd \<Rightarrow> bool" where
  "sealing_db E view key d \<longleftrightarrow>
     view d META FORMAT = None \<and>
     view d META FINGERPRINT = Some (key_fingerprint (lib_blake E) key) \<and>
     (\<forall>t \<in> set RECORD_TABLES. view d t = Map.empty)"

fun session_op :: "'d libs \<Rightarrow> record_op \<Rightarrow> bool" where
  "session_op E (PutRecord t n v) \<longleftrightarrow> (t \<in> set RECORD_TABLES \<or> t = META \<and> n = ''node_key'') \<and> keepable E n v"
| "session_op E (RemoveRecords ts n) \<longleftrightarrow> set ts \<subseteq> set RECORD_TABLES"

text \<open>
  The life of a data folder: sessions that open the database with a key or
  without one, and write and remove records; an attempt to open may fail.
\<close>

inductive sessions :: "'d libs \<Rightarrow> path \<Rightarrow> bytes set \<Rightarrow> 'd \<Rightarrow> 'd \<Rightarrow> bool" for E dir keys where
  untouched: "sessions E dir keys d d"
| refused: "sessions E dir keys d d1 \<Longrightarrow> set_option key \<subseteq> keys \<Longrightarrow>
    store_open E dir key d1 w = (Inl e, d2) \<Longrightarrow> sessions E dir keys d d2"
| used: "sessions E dir keys d d1 \<Longrightarrow> set_option key \<subseteq> keys \<Longrightarrow>
    store_open E dir key d1 w = (Inr st, d2) \<Longrightarrow> \<forall>x \<in> set ops. session_op E x \<Longrightarrow>
    run_calls (exec_record E) ops (st, w1) = (rs, st', w2) \<Longrightarrow> sessions E dir keys d (st_db st')"

text \<open>What is relied on: redb, hexadecimal digits, and no two of the keys with one fingerprint.\<close>

definition libs_ok :: "'d libs \<Rightarrow> ('d \<Rightarrow> table \<Rightarrow> str \<rightharpoonup> bytes) \<Rightarrow> bytes set \<Rightarrow> bool" where
  "libs_ok E view keys \<longleftrightarrow> redb_ok (lib_redb E) view \<and> inj_on (key_fingerprint (lib_blake E)) keys \<and>
     (\<forall>b. to_hex (lib_blake E) b \<noteq> FORMAT \<and> to_hex (lib_blake E) b \<noteq> FINGERPRINT)"

lemma META_not_record: "META \<notin> set RECORD_TABLES"
  by (simp add: META_def RECORD_TABLES_def SEEDS_def DOWNLOADS_def PROGRESS_def ACCESS_def KINDS_def)

lemma markers_differ: "FORMAT \<noteq> FINGERPRINT" "''node_key'' \<noteq> FORMAT" "''node_key'' \<noteq> FINGERPRINT"
  by (simp_all add: FORMAT_def FINGERPRINT_def)

lemma any_rows_ok:
  assumes "redb_ok (lib_redb E) view"
  shows "any_rows E d tbls = Inr (\<exists>t \<in> set tbls. view d t \<noteq> Map.empty)"
proof (induction tbls)
  case (Cons t tbls)
  obtain rows where rows: "rd_rows (lib_redb E) d t = Inr rows" "map_of rows = view d t"
    using rows_ok [OF assms] by metis
  have "rows = [] \<longleftrightarrow> view d t = Map.empty" using rows(2) by (cases rows) auto
  then show ?case using Cons rows(1) by simp
qed simp

lemma has_records_ok:
  assumes "redb_ok (lib_redb E) view"
  shows "has_records E d = Inr ((\<exists>t \<in> set RECORD_TABLES. view d t \<noteq> Map.empty) \<or>
    (\<exists>n. n \<noteq> FORMAT \<and> n \<noteq> FINGERPRINT \<and> view d META n \<noteq> None))"
proof -
  obtain rows where rows: "rd_rows (lib_redb E) d META = Inr rows" "map_of rows = view d META" "distinct (map fst rows)"
    using rows_ok [OF assms] by metis
  have "(\<exists>(n, _) \<in> set rows. n \<noteq> FORMAT \<and> n \<noteq> FINGERPRINT) \<longleftrightarrow>
      (\<exists>n. n \<noteq> FORMAT \<and> n \<noteq> FINGERPRINT \<and> map_of rows n \<noteq> None)"
    by (force simp: map_of_eq_None_iff)
  then show ?thesis
    using rows(1,2) by (auto simp: has_records_def any_rows_ok [OF assms])
qed

text \<open>What \<open>check_format\<close> does to a database, in each case.\<close>

lemma check_format_ok:
  assumes "redb_ok (lib_redb E) view" and "check_format E key d = (r, d')"
  shows "case key of
      None \<Rightarrow> d' = d \<and> (r = Inr () \<longleftrightarrow> plain_db view d)
    | Some k \<Rightarrow>
        (let fp = key_fingerprint (lib_blake E) k in
         d' = d \<and> (r = Inr () \<longrightarrow> view d META FORMAT = Some SEALED_V1 \<and> view d META FINGERPRINT \<in> {None, Some fp}) \<or>
         view d META FORMAT = None \<and> view d META FINGERPRINT \<in> {None, Some fp} \<and>
         (\<forall>t \<in> set RECORD_TABLES. view d t = Map.empty) \<and>
         (view d' = (view d)(META := (view d META)(FINGERPRINT \<mapsto> fp)) \<and> r \<noteq> Inr () \<or>
          view d' = (view d)(META := (view d META)(FINGERPRINT \<mapsto> fp, FORMAT \<mapsto> SEALED_V1)) \<and> r = Inr ()))"
proof (cases key)
  case None
  then show ?thesis
    using assms(2) by (auto simp: check_format_def raw_get_ok [OF assms(1)] plain_db_def split: if_splits)
next
  case (Some k)
  let ?fp = "key_fingerprint (lib_blake E) k"
  show ?thesis
  proof (cases "view d META FINGERPRINT \<in> {None, Some ?fp} \<and> view d META FORMAT = None \<and> has_records E d = Inr False")
    case True
    then have none: "\<forall>t \<in> set RECORD_TABLES. view d t = Map.empty"
      using has_records_ok [OF assms(1), of d] by auto
    show ?thesis
    proof (cases "raw_put E META FINGERPRINT ?fp d")
      case (Inl e)
      then show ?thesis using assms(2) Some True by (auto simp: check_format_def raw_get_ok [OF assms(1)] Let_def)
    next
      case (Inr d1)
      note v1 = raw_put_ok [OF assms(1) Inr]
      show ?thesis
      proof (cases "raw_put E META FORMAT SEALED_V1 d1")
        case (Inl e)
        then show ?thesis
          using assms(2) Some True v1 none \<open>raw_put E META FINGERPRINT ?fp d = Inr d1\<close>
          by (auto simp: check_format_def raw_get_ok [OF assms(1)] Let_def)
      next
        case (Inr d2)
        then show ?thesis
          using assms(2) Some True v1 none raw_put_ok [OF assms(1) Inr] \<open>raw_put E META FINGERPRINT ?fp d = Inr d1\<close>
          by (auto simp: check_format_def raw_get_ok [OF assms(1)] Let_def)
      qed
    qed
  next
    case False
    then have "d' = d \<and> (r = Inr () \<longrightarrow> view d META FORMAT = Some SEALED_V1 \<and> view d META FINGERPRINT \<in> {None, Some ?fp})"
      using assms(2) Some has_records_ok [OF assms(1), of d]
      by (auto simp: check_format_def raw_get_ok [OF assms(1)] Let_def split: if_splits option.splits)
    then show ?thesis using Some by (simp add: Let_def)
  qed
qed


definition opened_mode :: "'d libs \<Rightarrow> ('d \<Rightarrow> table \<Rightarrow> str \<rightharpoonup> bytes) \<Rightarrow> bytes option \<Rightarrow> 'd \<Rightarrow> bool" where
  "opened_mode E view key d = (case key of None \<Rightarrow> plain_db view d | Some k \<Rightarrow> sealed_db E view k d)"

definition consistent :: "'d libs \<Rightarrow> ('d \<Rightarrow> table \<Rightarrow> str \<rightharpoonup> bytes) \<Rightarrow> bytes set \<Rightarrow> 'd \<Rightarrow> bool" where
  "consistent E view keys d \<longleftrightarrow>
     plain_db view d \<or> (\<exists>k \<in> keys. sealing_db E view k d \<or> sealed_db E view k d)"

lemma same_view:
  assumes "view d' = view d"
  shows "plain_db view d' = plain_db view d" "sealed_db E view k d' = sealed_db E view k d"
    "sealing_db E view k d' = sealing_db E view k d" "consistent E view keys d' = consistent E view keys d"
  using assms by (simp_all add: plain_db_def sealed_db_def sealing_db_def consistent_def)

lemma store_open_cases:
  assumes "redb_ok (lib_redb E) view" and "store_open E dir key d w = (r, d')"
  obtains (Before) e where "r = Inl e" "view d' = view d"
  | (Format) d2 r' where "view d2 = view d" "check_format E key d2 = (r', d')"
      "r = (case r' of Inl e \<Rightarrow> Inl e | Inr _ \<Rightarrow>
        Inr \<lparr>st_db = d', st_sealer = map_option (sealer_new (lib_blake E)) key\<rparr>)"
proof -
  have opens: "fold apply_op (map DbOpenTable ts) v = v" for ts v by (induction ts) auto
  have "\<And>p d1. rd_create (lib_redb E) p d = Inr d1 \<Longrightarrow> view d1 = view d"
    "\<And>d1 d2. rd_commit (lib_redb E) (map DbOpenTable [META, SEEDS, DOWNLOADS, PROGRESS, ACCESS, KINDS]) d1 = Inr d2 \<Longrightarrow>
      view d2 = view d1"
    using assms(1) opens unfolding redb_ok_def by (blast, metis)
  note made = this
  let ?made = "bind_result (map_err (Io dir) (create_dir_all dir w)) (\<lambda>_.
      map_err (\<lambda>e. case e of DatabaseAlreadyOpen \<Rightarrow> DataDirInUse dir | DatabaseError msg \<Rightarrow> Storage msg)
        (rd_create (lib_redb E) (path_join dir (path_of ''chorrent.redb'')) d))"
  show ?thesis
  proof (cases ?made)
    case (Inl e)
    then show ?thesis using assms(2) Before [of e] by (auto simp: store_open_def)
  next
    case (Inr d1)
    then have v1: "view d1 = view d" using made(1) by (auto simp: bind_result_Inr)
    show ?thesis
    proof (cases "rd_commit (lib_redb E) (map DbOpenTable [META, SEEDS, DOWNLOADS, PROGRESS, ACCESS, KINDS]) d1")
      case (Inl e)
      then show ?thesis using assms(2) Before [of "Storage e"] v1 \<open>?made = Inr d1\<close> by (simp add: store_open_def)
    next
      case (Inr d2)
      obtain r' d3 where chk: "check_format E key d2 = (r', d3)" by fastforce
      then have "d' = d3" "r = (case r' of Inl e \<Rightarrow> Inl e | Inr _ \<Rightarrow>
          Inr \<lparr>st_db = d', st_sealer = map_option (sealer_new (lib_blake E)) key\<rparr>)"
        using assms(2) Inr \<open>?made = Inr d1\<close> by (auto simp: store_open_def split: sum.splits)
      then show ?thesis using Format [of d2 r'] chk made(2) [OF Inr] v1 by simp
    qed
  qed
qed

lemma open_consistent:
  assumes ok: "libs_ok E view keys" and cons: "consistent E view keys d" and key: "set_option key \<subseteq> keys"
    and op: "store_open E dir key d w = (r, d')"
  shows "consistent E view keys d' \<and>
    (\<forall>st. r = Inr st \<longrightarrow> st_db st = d' \<and> st_sealer st = map_option (sealer_new (lib_blake E)) key \<and>
       opened_mode E view key d')"
proof -
  have redb: "redb_ok (lib_redb E) view" and inj: "inj_on (key_fingerprint (lib_blake E)) keys"
    using ok by (simp_all add: libs_ok_def)
  show ?thesis
    using redb op
  proof (cases rule: store_open_cases)
    case (Before e)
    then show ?thesis using cons same_view(4) [of view d' d] by simp
  next
    case (Format d2 r')
    have cons: "consistent E view keys d2" using cons same_view(4) [OF Format(1)] by blast
    note fmt = check_format_ok [OF redb Format(2)]
    show ?thesis
    proof (cases key)
      case None
      then show ?thesis using fmt cons Format(3) by (auto simp: opened_mode_def split: sum.splits)
    next
      case (Some k)
      let ?fp = "key_fingerprint (lib_blake E) k"
      have kin: "k \<in> keys" using key Some by simp
      have eq: "k' = k" if "k' \<in> keys" "key_fingerprint (lib_blake E) k' = ?fp" for k'
        using inj that kin by (auto dest: inj_onD)
      consider (Kept) "d' = d2" "r' = Inr () \<longrightarrow> view d2 META FORMAT = Some SEALED_V1 \<and> view d2 META FINGERPRINT \<in> {None, Some ?fp}"
        | (Begun) "view d2 META FORMAT = None" "\<forall>t \<in> set RECORD_TABLES. view d2 t = Map.empty"
            "view d' = (view d2)(META := (view d2 META)(FINGERPRINT \<mapsto> ?fp))" "r' \<noteq> Inr ()"
        | (Sealed) "\<forall>t \<in> set RECORD_TABLES. view d2 t = Map.empty"
            "view d' = (view d2)(META := (view d2 META)(FINGERPRINT \<mapsto> ?fp, FORMAT \<mapsto> SEALED_V1))"
        using fmt Some by (auto simp: Let_def)
      then show ?thesis
      proof cases
        case Kept
        have "sealed_db E view k d2" if "r' = Inr ()"
          using Kept(2) that cons eq
          by (auto simp: consistent_def plain_db_def sealing_db_def sealed_db_def)
        then show ?thesis
          using Kept(1) cons Format(3) Some by (auto simp: opened_mode_def split: sum.splits)
      next
        case Begun
        have "sealing_db E view k d'"
          using Begun META_not_record markers_differ by (auto simp: sealing_db_def)
        then show ?thesis
          using Begun(4) kin Format(3) by (auto simp: consistent_def split: sum.splits)
      next
        case Sealed
        have "sealed_db E view k d'"
          using Sealed META_not_record markers_differ by (auto simp: sealed_db_def)
        then show ?thesis
          using kin Format(3) Some by (auto simp: consistent_def opened_mode_def split: sum.splits)
      qed
    qed
  qed
qed

text \<open>Within a session every call keeps the database in the mode it was opened in.\<close>

definition session_inv :: "'d libs \<Rightarrow> ('d \<Rightarrow> table \<Rightarrow> str \<rightharpoonup> bytes) \<Rightarrow> bytes option \<Rightarrow> 'd store \<times> world \<Rightarrow> bool" where
  "session_inv E view key sw \<longleftrightarrow> redb_ok (lib_redb E) view \<and>
     (\<forall>b. to_hex (lib_blake E) b \<noteq> FORMAT \<and> to_hex (lib_blake E) b \<noteq> FINGERPRINT) \<and>
     st_sealer (fst sw) = map_option (sealer_new (lib_blake E)) key \<and> opened_mode E view key (st_db (fst sw))"

lemma session_put:
  assumes inv: "session_inv E view key (st, w)" and op: "session_op E (PutRecord t n v)"
  shows "session_inv E view key (snd (put_record E t n v (st, w)))"
proof -
  let ?k = "stored_name E (st_sealer st) t n"
  have redb: "redb_ok (lib_redb E) view" using inv by (simp add: session_inv_def)
  have name: "t = META \<Longrightarrow> ?k \<noteq> FORMAT \<and> ?k \<noteq> FINGERPRINT"
    using inv op META_not_record markers_differ
    by (auto simp: session_inv_def stored_name_def sealer_name_def split: option.splits)
  show ?thesis
  proof (cases key)
    case None
    then have "st_sealer st = None" "plain_db view (st_db st)" using inv by (simp_all add: session_inv_def opened_mode_def)
    then show ?thesis
      using inv None name raw_put_ok [OF redb, of t ?k v "st_db st"]
      by (auto simp: put_record_def session_inv_def opened_mode_def plain_db_def split: sum.splits)
  next
    case (Some key')
    let ?sl = "sealer_new (lib_blake E) key'"
    have sl: "st_sealer st = Some ?sl" and db: "sealed_db E view key' (st_db st)"
      using inv Some by (simp_all add: session_inv_def opened_mode_def)
    obtain b w' where b: "sealer_seal E ?sl t ?k n v w = (Inr b, w')" "sealer_open E ?sl t ?k b = Inr (n, v)"
      using sealed_opens op by (metis session_op.simps(1))
    have put: "put_record E t n v (st, w) = (case raw_put E t ?k b (st_db st) of
        Inl e \<Rightarrow> (Inl e, st, w') | Inr d \<Rightarrow> (Inr (), st\<lparr>st_db := d\<rparr>, w'))"
      using b(1) by (simp add: put_record_def Let_def sl)
    show ?thesis
    proof (cases "raw_put E t ?k b (st_db st)")
      case (Inl e)
      then show ?thesis using inv put by (simp add: session_inv_def)
    next
      case (Inr d')
      have vw: "view d' = (view (st_db st))(t := (view (st_db st) t)(?k \<mapsto> b))" by (rule raw_put_ok [OF redb Inr])
      have k: "?k = sealer_name (lib_blake E) ?sl t n" using sl by (simp add: stored_name_def)
      have "sealed_db E view key' d'"
        using db name b(2) unfolding sealed_db_def vw k by auto
      then show ?thesis using inv put Inr Some by (simp add: session_inv_def opened_mode_def)
    qed
  qed
qed

lemma session_remove:
  assumes inv: "session_inv E view key (st, w)" and op: "session_op E (RemoveRecords ts n)"
  shows "session_inv E view key (snd (remove_records E ts n (st, w)))"
proof -
  let ?s = "stored_name E (st_sealer st)"
  have redb: "redb_ok (lib_redb E) view" using inv by (simp add: session_inv_def)
  show ?thesis
  proof (cases "rd_commit (lib_redb E) (map (\<lambda>t. DbRemove t (?s t n)) ts) (st_db st)")
    case (Inl e)
    then show ?thesis using inv by (simp add: remove_records_def)
  next
    case (Inr d')
    have "view d' = fold apply_op (map (\<lambda>t. DbRemove t (?s t n)) ts) (view (st_db st))"
      using redb Inr unfolding redb_ok_def by blast
    then have vw: "view d' t' = (if t' \<in> set ts then (view (st_db st) t')(?s t' n := None) else view (st_db st) t')" for t'
      by (simp add: fold_removes)
    then have meta: "view d' META = view (st_db st) META" using op META_not_record by auto
    have less: "view d' t' k = Some b \<Longrightarrow> view (st_db st) t' k = Some b" for t' k b
      by (auto simp: vw split: if_splits)
    have "opened_mode E view key d'" if "opened_mode E view key (st_db st)"
    proof (cases key)
      case None
      then show ?thesis using that meta by (simp add: opened_mode_def plain_db_def)
    next
      case (Some key')
      then have "sealed_db E view key' (st_db st)" using that by (simp add: opened_mode_def)
      then have "sealed_db E view key' d'" using less unfolding sealed_db_def meta by blast
      then show ?thesis using Some by (simp add: opened_mode_def)
    qed
    then have "opened_mode E view key d'" using inv by (simp add: session_inv_def)
    then show ?thesis using inv Inr by (simp add: remove_records_def session_inv_def)
  qed
qed

interpretation session: record_map "exec_record E" "\<lambda>_ m. m" "session_op E" "\<lambda>sw (_ :: unit). session_inv E view key sw"
  for E view key
proof
  fix s m x
  assume "session_inv E view key s" "session_op E x"
  then show "session_inv E view key (snd (exec_record E x s))"
    by (cases x; cases s) (simp_all add: session_put session_remove del: session_op.simps)
qed

lemma sessions_consistent:
  assumes "sessions E dir keys d d'" and "libs_ok E view keys" and "consistent E view keys d"
  shows "consistent E view keys d'"
  using assms
proof (induction rule: sessions.induct)
  case (untouched d)
  then show ?case by simp
next
  case (refused d d1 key w e d2)
  then show ?case using open_consistent [OF refused.prems(1) refused.IH [OF refused.prems] refused.hyps(2,3)] by simp
next
  case (used d d1 key w st d2 ops w1 rs st' w2)
  have st: "st_db st = d2" "st_sealer st = map_option (sealer_new (lib_blake E)) key" "opened_mode E view key d2"
    using open_consistent [OF used.prems(1) used.IH(1) [OF used.prems] used.hyps(2,3)] by simp_all
  then have "session_inv E view key (st, w1)"
    using used.prems(1) by (simp add: session_inv_def libs_ok_def)
  then have "session_inv E view key (st', w2)"
    using session.run_refines [OF _ used.hyps(4)] used.hyps(5) by fastforce
  then show ?case
    using used.hyps(2) by (cases key) (auto simp: session_inv_def opened_mode_def consistent_def)
qed

text \<open>C16: a database is never a mix. Starting from an empty one, whatever sessions
  with whatever keys were tried, it is plain, or being sealed and empty, or
  sealed with every record readable under that one key in its own place; and
  then it opens with no other key and not without one.\<close>

theorem never_half_sealed:
  assumes "sessions E dir keys d0 d" and "libs_ok E view keys" and "view d0 = (\<lambda>_. Map.empty)"
  shows "plain_db view d \<or>
    (\<exists>k \<in> keys. (sealing_db E view k d \<or> sealed_db E view k d) \<and>
       (\<forall>key w st d'. store_open E dir key d w = (Inr st, d') \<and> set_option key \<subseteq> keys \<longrightarrow> key = Some k))"
proof -
  have "consistent E view keys d0" using assms(3) by (simp add: consistent_def plain_db_def)
  then have cons: "consistent E view keys d" using sessions_consistent [OF assms(1,2)] by simp
  have redb: "redb_ok (lib_redb E) view" and inj: "inj_on (key_fingerprint (lib_blake E)) keys"
    using assms(2) by (simp_all add: libs_ok_def)
  have "key = Some k"
    if k: "k \<in> keys" "sealing_db E view k d \<or> sealed_db E view k d"
      and op: "store_open E dir key d w = (Inr st, d')" "set_option key \<subseteq> keys" for k key w st d'
    using redb op(1)
  proof (cases rule: store_open_cases)
    case (Format d2 r')
    then have r': "r' = Inr ()" by (cases r') auto
    have fp: "view d2 META FINGERPRINT = Some (key_fingerprint (lib_blake E) k)"
      using k(2) Format(1) by (auto simp: sealing_db_def sealed_db_def)
    show ?thesis
    proof (cases key)
      case None
      then show ?thesis using check_format_ok [OF redb Format(2)] r' fp by (simp add: plain_db_def)
    next
      case (Some k')
      then have "key_fingerprint (lib_blake E) k' = key_fingerprint (lib_blake E) k"
        using check_format_ok [OF redb Format(2)] r' fp by (auto simp: Let_def)
      then show ?thesis using inj k(1) op(2) Some by (auto dest: inj_onD)
    qed
  qed auto
  then show ?thesis using cons unfolding consistent_def by blast
qed


definition hex_libs :: "toy_db libs" where
  "hex_libs = toy_libs\<lparr>lib_blake := plain_blake\<lparr>to_hex := \<lambda>b. CHR ''0'' # str_of_bytes b\<rparr>\<rparr>"

lemma hex_libs_simps [simp]:
  "lib_redb hex_libs = toy_redb" "lib_blake hex_libs = plain_blake\<lparr>to_hex := \<lambda>b. CHR ''0'' # str_of_bytes b\<rparr>"
  "lib_aead hex_libs = toy_aead" "pc_record hex_libs = toy_record_codec"
  by (simp_all add: hex_libs_def toy_libs_def)

lemma hex_libs_ok: "libs_ok hex_libs toy_view {[1]}"
  by (simp add: libs_ok_def toy_redb_ok FORMAT_def FINGERPRINT_def)

definition toy_sealed :: toy_db where
  "toy_sealed = (\<lambda>_. [])(META := [(FINGERPRINT, key_fingerprint plain_blake [1]), (FORMAT, SEALED_V1)])"

definition toy_opened :: "toy_db store" where
  "toy_opened = \<lparr>st_db = toy_sealed, st_sealer = Some (sealer_new plain_blake [1])\<rparr>"

lemma toy_keys [simp]:
  "key_fingerprint (plain_blake\<lparr>to_hex := f\<rparr>) = key_fingerprint plain_blake"
  "sealer_new (plain_blake\<lparr>to_hex := f\<rparr>) = sealer_new plain_blake"
  by (simp_all add: fun_eq_iff key_fingerprint_def sealer_new_def)

lemma toy_open: "store_open hex_libs [] (Some [1]) (\<lambda>_. []) toy_world = (Inr toy_opened, toy_sealed)"
  using markers_differ
  by (simp add: store_open_def create_dir_all_def toy_world_def toy_redb_def check_format_def raw_get_def raw_put_def
      has_records_def RECORD_TABLES_def Let_def toy_opened_def toy_sealed_def)

lemma toy_put: "\<exists>sw. run_calls (exec_record hex_libs) [PutRecord SEEDS ''a'' [5]] (toy_opened, toy_world) = ([True], sw) \<and>
    toy_view (st_db (fst sw)) META = toy_view toy_sealed META"
proof -
  have "keepable hex_libs ''a'' [5]" by (simp add: keepable_def toy_record_round_trips toy_sealable)
  then obtain b w' where b: "sealer_seal hex_libs (sealer_new plain_blake [1]) SEEDS
      (stored_name hex_libs (Some (sealer_new plain_blake [1])) SEEDS ''a'') ''a'' [5] toy_world = (Inr b, w')"
    using sealed_opens by blast
  show ?thesis
    by (simp add: put_record_def toy_opened_def raw_put_def toy_redb_def toy_view_def Let_def b)
       (simp add: META_def SEEDS_def)
qed

theorem never_half_sealed_witness:
  "\<exists>st d w' d' e. store_open hex_libs [] (Some [1]) (\<lambda>_. []) toy_world = (Inr st, d) \<and>
     run_calls (exec_record hex_libs) [PutRecord SEEDS ''a'' [5]] (st, toy_world) = ([True], w') \<and>
     store_open hex_libs [] None (st_db (fst w')) toy_world = (Inl e, d')"
proof -
  obtain st' w' where put: "run_calls (exec_record hex_libs) [PutRecord SEEDS ''a'' [5]] (toy_opened, toy_world) = ([True], st', w')"
    "toy_view (st_db st') META = toy_view toy_sealed META"
    using toy_put by auto
  have "sessions hex_libs [] {[1]} (\<lambda>_. []) (st_db st')"
    by (rule sessions.used [OF sessions.untouched _ toy_open _ put(1)])
       (simp_all add: RECORD_TABLES_def keepable_def toy_record_round_trips toy_sealable)
  then have "plain_db toy_view (st_db st') \<or> (\<exists>k \<in> {[1]}. (sealing_db hex_libs toy_view k (st_db st') \<or>
      sealed_db hex_libs toy_view k (st_db st')) \<and> (\<forall>key w st d'. store_open hex_libs [] key (st_db st') w = (Inr st, d') \<and>
      set_option key \<subseteq> {[1]} \<longrightarrow> key = Some k))"
    by (rule never_half_sealed [OF _ hex_libs_ok]) (simp add: toy_view_def fun_eq_iff)
  moreover have "\<not> plain_db toy_view (st_db st')"
    unfolding plain_db_def put(2) by (simp add: toy_view_def toy_sealed_def)
  ultimately have no: "store_open hex_libs [] None (st_db st') toy_world \<noteq> (Inr st, d')" for st d' by auto
  obtain r d' where r: "store_open hex_libs [] None (st_db st') toy_world = (r, d')" by fastforce
  then obtain e where "r = Inl e" using no by (cases r) auto
  then show ?thesis using toy_open put(1) r by fastforce
qed

end
