(* ===== verification/Store_Reload.thy ===== *)
theory Store_Reload
  imports Store_Contract Share_Safety
begin

text \<open>
  What the store gives the client back after a restart (\<open>store.rs\<close>): the
  allowlist of a share, the share itself, and what forgetting a share leaves.
  The proofs use the store only through the map of records it displays.
\<close>

subsection \<open>Allowlists\<close>

lemma put_then_get:
  assumes "displays_records E view known (st, w) m" "(t, n) \<in> known" "keepable E n v"
    and "put_record E t n v (st, w) = (r, st', w')" and "(t', n') \<in> known"
  shows "get_record E st' t' n' = Inr (if r = Inr () \<and> t' = t \<and> n' = n then Some v else m (t', n'))"
proof -
  have "displays_records E view known (st', w') (if r = Inr () then m((t, n) \<mapsto> v) else m)"
    using displays_put [OF assms(1-4)] .
  from displays_get [OF this assms(5)] show ?thesis by auto
qed

text \<open>An allowlist that the program can write and read back.\<close>

definition peers_keepable :: "'d libs \<Rightarrow> (endpoint_id set \<Rightarrow> endpoint_id list) \<Rightarrow> str \<Rightarrow> endpoint_id set \<Rightarrow> bool" where
  "peers_keepable E order name ps \<longleftrightarrow> set (order ps) = ps \<and> (\<forall>p \<in> ps. lib_endpoint E p = Some p) \<and>
     round_trips (pc_peers E) (order ps) \<and> (\<forall>b. to_allocvec (pc_peers E) (order ps) = Some b \<longrightarrow> keepable E name b)"

lemma map_filter_Some: "\<forall>x \<in> set xs. f x = Some x \<Longrightarrow> List.map_filter f xs = xs"
  by (induction xs) (auto simp: List.map_filter_simps)

lemma allowlist_ok:
  assumes "displays_records E view known (st, w) m" and "(ACCESS, share_id_display (lib_blake E) i) \<in> known"
    and "\<forall>ps. peers = Some ps \<longrightarrow> peers_keepable E order (share_id_display (lib_blake E) i) ps"
    and "remember_allowed E order i peers (st, w) = (r, st', w')"
  shows "load_allowed E st' i = (if r = Inr () then peers else load_allowed E st i)"
proof (cases peers)
  case None
  let ?n = "share_id_display (lib_blake E) i"
  have x: "remove_records E [ACCESS] ?n (st, w) = (r, st', w')"
    using assms(4) None by (simp add: remember_allowed_def)
  have "displays_records E view known (st', w') (if r = Inr () then record_effect (RemoveRecords [ACCESS] ?n) m else m)"
    using displays_remove [OF assms(1) _ x] assms(2) by simp
  from displays_get [OF this assms(2)] displays_get [OF assms(1,2)] show ?thesis
    using None by (simp add: load_allowed_def)
next
  case (Some ps)
  let ?n = "share_id_display (lib_blake E) i"
  note fit = assms(3) [rule_format, OF Some, unfolded peers_keepable_def]
  obtain b where b: "to_allocvec (pc_peers E) (order ps) = Some b" "from_bytes (pc_peers E) b = Some (order ps)"
    using fit by (auto simp: round_trips_def)
  have x: "put_record E ACCESS ?n b (st, w) = (r, st', w')"
    using assms(4) Some b by (simp add: remember_allowed_def)
  have keep: "keepable E ?n b" using fit b(1) by blast
  have "List.map_filter (lib_endpoint E) (order ps) = order ps" using fit by (intro map_filter_Some) simp
  with put_then_get [OF assms(1,2) keep x assms(2)] displays_get [OF assms(1,2)] show ?thesis
    using Some b(2) fit by (simp add: load_allowed_def)
qed

text \<open>An allowlist written to the database is the one a restart loads, and
  removing it removes the restriction; a write that fails leaves the old one.\<close>

theorem allowlist_reload:
  assumes "displays_records E view known (st, w) m" and "(ACCESS, share_id_display (lib_blake E) i) \<in> known"
    and "\<forall>ps. peers = Some ps \<longrightarrow> peers_keepable E order (share_id_display (lib_blake E) i) ps"
    and "remember_allowed E order i peers (st, w) = (r, st', w')"
  shows "load_allowed E st' i = (if r = Inr () then peers else load_allowed E st i)"
  by (rule allowlist_ok [OF assms])

subsection \<open>Reloading a share\<close>

text \<open>What a finished share satisfies, to be found again under the storage key \<open>key\<close>.\<close>

definition seed_fit :: "'d libs \<Rightarrow> master_key option \<Rightarrow> local_share \<Rightarrow> bool" where
  "seed_fit E key s \<longleftrightarrow>
     decode_verified (lib_blake E) (pc_manifest E) (lib_lower E) (ls_manifest_bytes s) (ls_id s) = Inr (ls_manifest s) \<and>
     length (ls_files s) = length (m_files (ls_manifest s)) \<and>
     (\<forall>i < length (ls_files s).
        (case lf_data (ls_files s ! i) of Plain _ \<Rightarrow> True
         | Encrypted _ k sz \<Rightarrow> key = Some k \<and> sz = unat (fe_size (m_files (ls_manifest s) ! i))) \<and>
        ob_root (lf_outboard (ls_files s ! i)) = fe_root (m_files (ls_manifest s) ! i) \<and>
        ob_size (lf_outboard (ls_files s ! i)) = fe_size (m_files (ls_manifest s) ! i))"

definition seed_keepable :: "'d libs \<Rightarrow> (path \<Rightarrow> (nat \<times> nat) option) \<Rightarrow> local_share \<Rightarrow> bool" where
  "seed_keepable E modified s \<longleftrightarrow>
     (let n = share_id_display (lib_blake E) (ls_id s); kinds = map (\<lambda>f. is_encrypted (lf_data f)) (ls_files s) in
      round_trips (pc_seed E) (seed_record_of modified s) \<and> round_trips (pc_kinds E) kinds \<and>
      (\<forall>b. to_allocvec (pc_seed E) (seed_record_of modified s) = Some b \<longrightarrow> keepable E n b) \<and>
      (\<forall>b. to_allocvec (pc_kinds E) kinds = Some b \<longrightarrow> keepable E n b))"

lemma seed_data_ok:
  assumes "length fs = length es" and "length kinds = k + length fs"
    and "\<And>j. j < length fs \<Longrightarrow> kinds ! (k + j) = is_encrypted (lf_data (fs ! j)) \<and> fst (rows ! j) = data_path (lf_data (fs ! j)) \<and>
        (case lf_data (fs ! j) of Plain _ \<Rightarrow> True | Encrypted _ key' sz \<Rightarrow> key = Some key' \<and> sz = unat (fe_size (es ! j)))"
    and "length rows = length fs"
  shows "seed_data key (Some kinds) w k (zip rows es) = Inr (map lf_data fs)"
  using assms
proof (induction fs arbitrary: es k rows)
  case Nil
  then show ?case by simp
next
  case (Cons f fs)
  obtain e es' where es: "es = e # es'" using Cons.prems(1) by (cases es) auto
  obtain row rows' where rows: "rows = row # rows'" using Cons.prems(4) by (cases rows) auto
  obtain p sz t where row: "row = (p, sz, t)" using prod_cases3 by blast
  have here: "kinds ! k = is_encrypted (lf_data f)" "p = data_path (lf_data f)"
    "case lf_data f of Plain _ \<Rightarrow> True | Encrypted _ key' sz \<Rightarrow> key = Some key' \<and> sz = unat (fe_size e)"
    using Cons.prems(3) [of 0] unfolding es rows row nth_Cons_0 by simp_all
  have rest: "seed_data key (Some kinds) w (k + 1) (zip rows' es') = Inr (map lf_data fs)"
  proof (rule Cons.IH)
    fix j assume "j < length fs"
    then show "kinds ! (k + 1 + j) = is_encrypted (lf_data (fs ! j)) \<and> fst (rows' ! j) = data_path (lf_data (fs ! j)) \<and>
        (case lf_data (fs ! j) of Plain _ \<Rightarrow> True | Encrypted _ key' sz \<Rightarrow> key = Some key' \<and> sz = unat (fe_size (es' ! j)))"
      using Cons.prems(3) [of "Suc j"] unfolding es rows nth_Cons_Suc by simp
  qed (use Cons.prems es rows in simp_all)
  show ?case using here rest es rows row by (cases "lf_data f") simp_all
qed

lemma seed_files_ok:
  assumes "length fs = length es"
    and "\<And>i. i < length fs \<Longrightarrow> ob_root (lf_outboard (fs ! i)) = fe_root (es ! i) \<and> ob_size (lf_outboard (fs ! i)) = fe_size (es ! i)"
  shows "map lf_data (seed_files B modified (map lf_data fs) (map (\<lambda>f. ob_data (lf_outboard f)) fs) es) = map lf_data fs"
    and "map lf_outboard (seed_files B modified (map lf_data fs) (map (\<lambda>f. ob_data (lf_outboard f)) fs) es) = map lf_outboard fs"
proof -
  have same: "lf_data (shared_in_place modified d ob) = d \<and> lf_outboard (shared_in_place modified d ob) = ob" for d ob
    by (simp add: shared_in_place_def local_file_new_def Let_def split: file_data.split)
  show "map lf_data (seed_files B modified (map lf_data fs) (map (\<lambda>f. ob_data (lf_outboard f)) fs) es) = map lf_data fs"
    by (rule nth_equalityI) (use assms(1) same in \<open>simp_all add: seed_files_def\<close>)
  show "map lf_outboard (seed_files B modified (map lf_data fs) (map (\<lambda>f. ob_data (lf_outboard f)) fs) es) = map lf_outboard fs"
    by (rule nth_equalityI) (use assms same in \<open>simp_all add: seed_files_def empty_outboard_def\<close>)
qed

lemma reload_ok:
  assumes "displays_records E view known (st, w) m"
    and "(SEEDS, share_id_display (lib_blake E) (ls_id s)) \<in> known" "(KINDS, share_id_display (lib_blake E) (ls_id s)) \<in> known"
    and "seed_fit E (Option.bind cfg st_key) s" and "seed_keepable E modified s"
    and "\<forall>f \<in> set (ls_files s). modified (data_path (lf_data f)) \<noteq> None"
    and "remember_seed E modified s (st, w) = (Inr (), st', w')"
  shows "\<exists>s'. load_seed E modified tree chunks (ls_id s) cfg st' w1 = Some (Inr s', w1) \<and>
    ls_id s' = ls_id s \<and> ls_manifest s' = ls_manifest s \<and> ls_manifest_bytes s' = ls_manifest_bytes s \<and>
    ls_secret s' = ls_secret s \<and> ls_root s' = ls_root s \<and>
    map lf_data (ls_files s') = map lf_data (ls_files s) \<and> map lf_outboard (ls_files s') = map lf_outboard (ls_files s) \<and>
    have_count s' = share_total_pieces s' \<and> ls_allowed s' = load_allowed E st' (ls_id s)"
proof -
  let ?n = "share_id_display (lib_blake E) (ls_id s)" and ?r = "seed_record_of modified s"
  let ?kinds = "map (\<lambda>f. is_encrypted (lf_data f)) (ls_files s)"
  note keep = assms(5) [unfolded seed_keepable_def Let_def]
  obtain b where b: "to_allocvec (pc_seed E) ?r = Some b" "from_bytes (pc_seed E) b = Some ?r"
    using keep by (auto simp: round_trips_def)
  obtain k where k: "to_allocvec (pc_kinds E) ?kinds = Some k" "from_bytes (pc_kinds E) k = Some ?kinds"
    using keep by (auto simp: round_trips_def)
  obtain r1 st1 w2 where one: "put_record E KINDS ?n k (st, w) = (r1, st1, w2)" using prod_cases3 by blast
  have two: "r1 = Inr ()" "put_record E SEEDS ?n b (st1, w2) = (Inr (), st', w')"
    using assms(7) b(1) k(1) one by (auto simp: remember_seed_def and_then_def split: sum.splits)
  have "displays_records E view known (st1, w2) (if r1 = Inr () then m((KINDS, ?n) \<mapsto> k) else m)"
    using displays_put [OF assms(1,3) _ one] keep k(1) by blast
  then have d1: "displays_records E view known (st1, w2) (m((KINDS, ?n) \<mapsto> k))" using two(1) by simp
  have keepb: "keepable E ?n b" using keep b(1) by blast
  have get: "get_record E st' SEEDS ?n = Inr (Some b)" "get_record E st' KINDS ?n = Inr (Some k)"
    using put_then_get [OF d1 assms(2) keepb two(2) assms(2)] put_then_get [OF d1 assms(2) keepb two(2) assms(3)]
    by (simp_all add: SEEDS_def KINDS_def)
  note fit = assms(4) [unfolded seed_fit_def]
  have unch: "list_all (\<lambda>(path, sz, mtime). modified path = Some (sz, mtime)) (sd_files ?r)"
    using assms(6) by (auto simp: seed_record_of_def list_all_iff)
  have datas: "seed_data (Option.bind cfg st_key) (Some ?kinds) w1 0 (zip (sd_files ?r) (m_files (ls_manifest s))) =
      Inr (map lf_data (ls_files s))"
    by (rule seed_data_ok) (use fit in \<open>simp_all add: seed_record_of_def\<close>)
  have kinds: "saved_kinds E st' ?n (length (sd_files ?r)) = Inr (Some ?kinds)"
    using get(2) k(2) by (simp add: saved_kinds_def seed_record_of_def)
  let ?fs = "seed_files (lib_bao E) modified (map lf_data (ls_files s)) (sd_outboards ?r) (m_files (ls_manifest s))"
  have idd: "id_of (lib_blake E) (ls_manifest_bytes s) = ls_id s"
    using fit by (auto simp: decode_verified_def split: if_splits)
  have load: "load_seed E modified tree chunks (ls_id s) cfg st' w1 =
      Some (Inr (set_allowed (load_allowed E st' (ls_id s)) (from_parts (lib_blake E) (ls_manifest s)
        (ls_manifest_bytes s) ?fs (ls_secret s) True (ls_root s))), w1)"
    using get(1) b(2) fit unch datas kinds
    by (simp add: load_seed_def ok_or_def seed_record_of_def outboard_snapshots_def Let_def)
  have "map lf_data ?fs = map lf_data (ls_files s) \<and> map lf_outboard ?fs = map lf_outboard (ls_files s)"
    using seed_files_ok [of "ls_files s" "m_files (ls_manifest s)"] fit
    by (simp add: seed_record_of_def outboard_snapshots_def)
  with load idd show ?thesis
    by (simp add: set_allowed_def from_parts_def Let_def have_count_def share_total_pieces_def seed_record_of_def)
qed


text \<open>C17: a share saved in the database and unchanged on disk is loaded as it was:
  the same id, manifest, secret and root, the same files with the same proofs,
  every piece held, and the saved allowlist; nothing is hashed again.\<close>

theorem seed_reload:
  assumes "displays_records E view known (st, w) m"
    and "(SEEDS, share_id_display (lib_blake E) (ls_id s)) \<in> known" "(KINDS, share_id_display (lib_blake E) (ls_id s)) \<in> known"
    and "seed_fit E (Option.bind cfg st_key) s" and "seed_keepable E modified s"
    and "\<forall>f \<in> set (ls_files s). modified (data_path (lf_data f)) \<noteq> None"
    and "remember_seed E modified s (st, w) = (Inr (), st', w')"
  shows "\<exists>s'. load_seed E modified tree chunks (ls_id s) cfg st' w1 = Some (Inr s', w1) \<and>
    ls_id s' = ls_id s \<and> ls_manifest s' = ls_manifest s \<and> ls_manifest_bytes s' = ls_manifest_bytes s \<and>
    ls_secret s' = ls_secret s \<and> ls_root s' = ls_root s \<and>
    map lf_data (ls_files s') = map lf_data (ls_files s) \<and> map lf_outboard (ls_files s') = map lf_outboard (ls_files s) \<and>
    have_count s' = share_total_pieces s' \<and> ls_allowed s' = load_allowed E st' (ls_id s)"
  by (rule reload_ok [OF assms])

lemma load_seed_cases:
  assumes "load_seed E modified tree chunks i cfg st w = Some (Inr s, w')"
  shows "(\<exists>(saved :: seed_record) (m :: manifest) s0. share_from_disk (lib_blake E) (lib_aead E) (lib_bao E) (pc_manifest E) (lib_lower E) modified chunks
         (sd_root saved) (tree (sd_root saved)) (Some (m_name m)) (sd_secret saved) None w = Some (Inr s0, w') \<and>
         ls_id s0 = i \<and> s = set_allowed (load_allowed E st i) s0) \<or>
    (\<exists>(saved :: seed_record) (m :: manifest) fs. decode_verified (lib_blake E) (pc_manifest E) (lib_lower E) (sd_manifest saved) i = Inr m \<and>
         s = set_allowed (load_allowed E st i)
           (from_parts (lib_blake E) m (sd_manifest saved) fs (sd_secret saved) True (sd_root saved)))"
proof -
  let ?name = "share_id_display (lib_blake E) i"
  let ?found = "bind_result (get_record E st SEEDS ?name) (\<lambda>found.
      bind_result (ok_or found (NotAvailable (''no saved share '' @ ?name))) (\<lambda>b.
      bind_result (ok_or (from_bytes (pc_seed E) b) (Storage ''postcard'')) (\<lambda>saved.
      bind_result (decode_verified (lib_blake E) (pc_manifest E) (lib_lower E) (sd_manifest saved) i) (\<lambda>m.
      bind_result (saved_kinds E st ?name (length (sd_files saved))) (\<lambda>kinds.
      bind_result (seed_data (Option.bind cfg st_key) kinds w 0 (zip (sd_files saved) (m_files m))) (\<lambda>datas.
      Inr (saved, m, datas)))))))"
  show ?thesis
  proof (cases ?found)
    case (Inl e)
    then show ?thesis using assms by (simp add: load_seed_def)
  next
    case (Inr found)
    obtain saved m datas where f: "found = (saved, m, datas)" using prod_cases3 by blast
    have dec: "decode_verified (lib_blake E) (pc_manifest E) (lib_lower E) (sd_manifest saved) i = Inr m"
      using Inr unfolding f bind_result_Inr by blast
    let ?un = "list_all (\<lambda>(path, sz, mtime). modified path = Some (sz, mtime)) (sd_files saved)"
    note run = assms [unfolded load_seed_def Let_def Inr f sum.case prod.case]
    show ?thesis
    proof (cases "\<not> ?un \<and> \<not> list_ex is_encrypted datas")
      case True
      then show ?thesis
        using run by (auto simp: bind_eq_Some_conv bind_result_Inr split: if_splits)
    next
      case False
      then have "?un \<or> list_ex is_encrypted datas" by blast
      with run have "s = set_allowed (load_allowed E st i)
          (from_parts (lib_blake E) m (sd_manifest saved)
            (seed_files (lib_bao E) modified datas (sd_outboards saved) (m_files m))
            (sd_secret saved) True (sd_root saved))"
        by (auto simp: bind_result_Inr split: if_splits)
      then show ?thesis using dec by blast
    qed
  qed
qed

text \<open>C18: whatever the database holds, a share that loads has the id asked for,
  which is the hash of its manifest's bytes, and holds every piece; it is
  restricted to the saved allowlist, but to nobody in particular when the
  list cannot be read.\<close>

theorem loaded_seed:
  assumes "load_seed E modified tree chunks i cfg st w = Some (Inr s, w')"
  shows "ls_id s = i \<and> id_of (lib_blake E) (ls_manifest_bytes s) = i \<and> have_count s = share_total_pieces s \<and>
    ls_allowed s = load_allowed E st i \<and>
    ((\<exists>e. get_record E st ACCESS (share_id_display (lib_blake E) i) = Inl e) \<longrightarrow> ls_allowed s = None)"
proof -
  have parts: "ls_id (from_parts h m b fs sec True root) = id_of h b"
    "ls_manifest_bytes (from_parts h m b fs sec True root) = b"
    "have_count (from_parts h m b fs sec True root) = share_total_pieces (from_parts h m b fs sec True root)"
    for h m b fs sec root
    by (simp_all add: from_parts_def have_count_def share_total_pieces_def Let_def)
  have disk: "ls_id s0 = id_of h (ls_manifest_bytes s0) \<and> have_count s0 = share_total_pieces s0"
    if "share_from_disk h A B pc lower stamp ch root node label secret None v = Some (Inr s0, v')"
    for h A B pc lower stamp ch root node label secret v s0 v'
    using that parts
    by (auto simp: share_from_disk_def assemble_def split: sum.splits prod.splits Option.bind_splits)
  have same: "ls_id (set_allowed a s0) = ls_id s0" "ls_manifest_bytes (set_allowed a s0) = ls_manifest_bytes s0"
    "have_count (set_allowed a s0) = have_count s0" "share_total_pieces (set_allowed a s0) = share_total_pieces s0"
    "ls_allowed (set_allowed a s0) = a" for a s0
    by (simp_all add: set_allowed_def have_count_def share_total_pieces_def)
  have dec: "decode_verified h pc lower b j = Inr m \<Longrightarrow> id_of h b = j" for h pc lower b j m
    by (auto simp: decode_verified_def split: if_splits)
  obtain s0 where s0: "s = set_allowed (load_allowed E st i) s0" "ls_id s0 = i"
    "id_of (lib_blake E) (ls_manifest_bytes s0) = i" "have_count s0 = share_total_pieces s0"
    using load_seed_cases [OF assms] disk parts dec by (elim disjE exE conjE) metis+
  moreover have "load_allowed E st i = None" if "get_record E st ACCESS (share_id_display (lib_blake E) i) = Inl e" for e
    using that by (simp add: load_allowed_def)
  ultimately show ?thesis using same by auto
qed

subsection \<open>Forgetting a share\<close>

definition forgotten :: "str \<Rightarrow> (table \<times> str \<Rightarrow> bytes option) \<Rightarrow> table \<times> str \<Rightarrow> bytes option" where
  "forgotten name m = (\<lambda>(t, n).
     if t \<in> {SEEDS, ACCESS, KINDS} \<and> n = name then None
     else if t \<in> {DOWNLOADS, PROGRESS} \<and> starts_with n (name @ ''|'') \<and> m (DOWNLOADS, n) \<noteq> None then None
     else m (t, n))"

lemma tables_distinct: "distinct [META, SEEDS, DOWNLOADS, PROGRESS, ACCESS, KINDS]"
  by (simp add: META_def SEEDS_def DOWNLOADS_def PROGRESS_def ACCESS_def KINDS_def)

lemma forget_downloads_ok:
  assumes "displays_records E view known (st, w) m"
    and "\<forall>(n, b) \<in> set rows. (DOWNLOADS, n) \<in> known \<and> (PROGRESS, n) \<in> known"
    and "forget_downloads E prefix rows (st, w) = (Inr (), st', w')"
  shows "displays_records E view known (st', w')
    (\<lambda>(t, n). if t \<in> {DOWNLOADS, PROGRESS} \<and> starts_with n prefix \<and> n \<in> fst ` set rows then None else m (t, n))"
  using assms
proof (induction rows arbitrary: st w m)
  case Nil
  then show ?case by (simp add: case_prod_beta')
next
  case (Cons row rows)
  obtain key b where row: "row = (key, b)" by fastforce
  show ?case
  proof (cases "starts_with key prefix")
    case False
    have "displays_records E view known (st', w')
        (\<lambda>(t, n). if t \<in> {DOWNLOADS, PROGRESS} \<and> starts_with n prefix \<and> n \<in> fst ` set rows then None else m (t, n))"
      by (rule Cons.IH) (use Cons.prems False row in simp_all)
    also have "(\<lambda>(t, n). if t \<in> {DOWNLOADS, PROGRESS} \<and> starts_with n prefix \<and> n \<in> fst ` set rows then None else m (t, n)) =
        (\<lambda>(t, n). if t \<in> {DOWNLOADS, PROGRESS} \<and> starts_with n prefix \<and> n \<in> fst ` set (row # rows) then None else m (t, n))"
      using False row by (auto simp: fun_eq_iff)
    finally show ?thesis .
  next
    case True
    obtain r st1 w1 where one: "remove_records E [DOWNLOADS, PROGRESS] key (st, w) = (r, st1, w1)" using prod_cases3 by blast
    have ok: "r = Inr ()" "forget_downloads E prefix rows (st1, w1) = (Inr (), st', w')"
      using Cons.prems(3) True row one by (auto simp: and_then_def split: sum.splits)
    let ?m1 = "record_effect (RemoveRecords [DOWNLOADS, PROGRESS] key) m"
    have "displays_records E view known (st1, w1) (if r = Inr () then ?m1 else m)"
      by (rule displays_remove [OF Cons.prems(1) _ one]) (use Cons.prems(2) row in auto)
    then have d1: "displays_records E view known (st1, w1) ?m1" using ok(1) by simp
    have "displays_records E view known (st', w')
        (\<lambda>(t, n). if t \<in> {DOWNLOADS, PROGRESS} \<and> starts_with n prefix \<and> n \<in> fst ` set rows then None else ?m1 (t, n))"
      by (rule Cons.IH [OF d1 _ ok(2)]) (use Cons.prems(2) in simp)
    also have "(\<lambda>(t, n). if t \<in> {DOWNLOADS, PROGRESS} \<and> starts_with n prefix \<and> n \<in> fst ` set rows then None else ?m1 (t, n)) =
        (\<lambda>(t, n). if t \<in> {DOWNLOADS, PROGRESS} \<and> starts_with n prefix \<and> n \<in> fst ` set (row # rows) then None else m (t, n))"
      using True row by (auto simp: fun_eq_iff)
    finally show ?thesis .
  qed
qed

lemma forget_ok:
  assumes "displays_records E view known (st, w) m"
    and "\<forall>t \<in> {SEEDS, ACCESS, KINDS}. (t, share_id_display (lib_blake E) i) \<in> known"
    and "\<forall>n. (DOWNLOADS, n) \<in> known \<longleftrightarrow> (PROGRESS, n) \<in> known"
    and "forget E i (st, w) = (Inr (), st', w')" and "(t, n) \<in> known"
  shows "get_record E st' t n = Inr (forgotten (share_id_display (lib_blake E) i) m (t, n))"
proof -
  let ?name = "share_id_display (lib_blake E) i"
  obtain r st1 w1 where one: "remove_records E [SEEDS, ACCESS, KINDS] ?name (st, w) = (r, st1, w1)" using prod_cases3 by blast
  have r: "r = Inr ()" using assms(4) one by (auto simp: forget_def and_then_def Let_def split: sum.splits)
  let ?m1 = "record_effect (RemoveRecords [SEEDS, ACCESS, KINDS] ?name) m"
  have "displays_records E view known (st1, w1) (if r = Inr () then ?m1 else m)"
    by (rule displays_remove [OF assms(1) _ one]) (use assms(2) in auto)
  then have d1: "displays_records E view known (st1, w1) ?m1" using r by simp
  obtain es where es: "entries E st1 DOWNLOADS = Inr es"
    "\<And>n v. (n, v) \<in> set es \<longleftrightarrow> (DOWNLOADS, n) \<in> known \<and> ?m1 (DOWNLOADS, n) = Some v"
    using displays_entries [OF d1, of DOWNLOADS] by (auto simp: RECORD_TABLES_def simp del: record_effect.simps)
  have "forget_downloads E (?name @ ''|'') es (st1, w1) = (Inr (), st', w')"
    using assms(4) one r es(1) by (simp add: forget_def and_then_def Let_def)
  moreover have "\<forall>(n, b) \<in> set es. (DOWNLOADS, n) \<in> known \<and> (PROGRESS, n) \<in> known" using es(2) assms(3) by auto
  ultimately have d2: "displays_records E view known (st', w') (\<lambda>(t, n). if t \<in> {DOWNLOADS, PROGRESS} \<and>
      starts_with n (?name @ ''|'') \<and> n \<in> fst ` set es then None else ?m1 (t, n))"
    by (intro forget_downloads_ok [OF d1])
  have down: "?m1 (DOWNLOADS, n) = m (DOWNLOADS, n)" for n using tables_distinct by auto
  have row: "n \<in> fst ` set es \<longleftrightarrow> (DOWNLOADS, n) \<in> known \<and> m (DOWNLOADS, n) \<noteq> None" for n
  proof -
    have "n \<in> fst ` set es \<longleftrightarrow> (\<exists>v. (n, v) \<in> set es)" by force
    then show ?thesis unfolding es(2) down by auto
  qed
  have get: "get_record E st' t n = Inr (if t \<in> {DOWNLOADS, PROGRESS} \<and> starts_with n (?name @ ''|'') \<and>
      n \<in> fst ` set es then None else ?m1 (t, n))"
    using displays_get [OF d2 assms(5)] by simp
  show ?thesis
  proof (cases "t \<in> {DOWNLOADS, PROGRESS}")
    case True
    then have "(DOWNLOADS, n) \<in> known" using assms(3,5) by auto
    moreover have "t \<notin> {SEEDS, ACCESS, KINDS}" using True tables_distinct by auto
    ultimately show ?thesis unfolding get row using True by (auto simp: forgotten_def)
  next
    case False
    then show ?thesis unfolding get by (auto simp: forgotten_def)
  qed
qed

text \<open>C19: forgetting a share removes its seed, its allowlist, how it was stored and
  every download recorded for it together with that download's progress, and
  leaves every other record as it was. Progress is found through the record
  of its download only: saved under a key with no such record, by a download
  still running, it stays.\<close>

theorem forget_clears:
  assumes "displays_records E view known (st, w) m"
    and "\<forall>t \<in> {SEEDS, ACCESS, KINDS}. (t, share_id_display (lib_blake E) i) \<in> known"
    and "\<forall>n. (DOWNLOADS, n) \<in> known \<longleftrightarrow> (PROGRESS, n) \<in> known"
    and "forget E i (st, w) = (Inr (), st', w')" and "(t, n) \<in> known"
  shows "if t \<in> {SEEDS, ACCESS, KINDS} \<and> n = share_id_display (lib_blake E) i \<or>
      t \<in> {DOWNLOADS, PROGRESS} \<and> starts_with n (share_id_display (lib_blake E) i @ ''|'') \<and> get_record E st DOWNLOADS n \<noteq> Inr None
    then get_record E st' t n = Inr None else get_record E st' t n = get_record E st t n"
proof -
  have "get_record E st DOWNLOADS n = Inr (m (DOWNLOADS, n))" if "t \<in> {DOWNLOADS, PROGRESS}"
    using displays_get [OF assms(1)] that assms(3,5) by auto
  then show ?thesis
    using forget_ok [OF assms] displays_get [OF assms(1,5)] unfolding forgotten_def by auto
qed

subsection \<open>Examples\<close>

definition seed_share :: local_share where
  "seed_share = from_parts plain_blake toy_manifest [1, 7]
     [local_file_new (Plain [Normal ''x'']) \<lparr>ob_root = toy_content, ob_size = 70000, ob_data = []\<rparr>] None True [Normal ''x'']"

definition seed_modified :: "path \<Rightarrow> (nat \<times> nat) option" where
  "seed_modified p = Some (70000, 5)"

definition seed_libs :: "toy_db libs" where
  "seed_libs = toy_libs\<lparr>pc_manifest := const_codec toy_manifest, pc_seed := const_codec (seed_record_of seed_modified seed_share)\<rparr>"

lemma seed_libs_simps [simp]:
  "lib_redb seed_libs = toy_redb" "lib_blake seed_libs = plain_blake" "lib_lower seed_libs = (\<lambda>s. s)"
  "lib_endpoint seed_libs = Some" "pc_record seed_libs = toy_record_codec" "lib_aead seed_libs = toy_aead"
  "pc_manifest seed_libs = const_codec toy_manifest" "pc_kinds seed_libs = const_codec [False]"
  "pc_seed seed_libs = const_codec (seed_record_of seed_modified seed_share)" "pc_peers seed_libs = const_codec [[1], [2]]"
  by (simp_all add: seed_libs_def toy_libs_def)

lemma seed_share_simps [simp]:
  "ls_id seed_share = ShareId [1, 7]" "ls_manifest seed_share = toy_manifest" "ls_manifest_bytes seed_share = [1, 7]"
  "ls_files seed_share = [local_file_new (Plain [Normal ''x'']) \<lparr>ob_root = toy_content, ob_size = 70000, ob_data = []\<rparr>]"
  by (simp_all add: seed_share_def from_parts_def Let_def id_of_def plain_blake_def)

lemma seed_name: "length (share_id_display plain_blake (ShareId [1, 7])) = 2"
  by (simp add: share_id_display_def plain_blake_def str_of_bytes_def)

lemma keepable_seed_libs: "length n < 256 \<Longrightarrow> keepable seed_libs n v"
  by (simp add: keepable_def toy_record_round_trips toy_sealable)

definition empty_store :: "toy_db store" where
  "empty_store = \<lparr>st_db = (\<lambda>_. []), st_sealer = None\<rparr>"

lemma empty_displays:
  assumes "lib_redb E = toy_redb"
  shows "displays_records E toy_view known (empty_store, w) (\<lambda>_. None)"
  by (rule displays_recordsI [OF refl refl])
     (use assms toy_redb_ok in \<open>auto simp: empty_store_def toy_view_def names_distinct_def stored_name_def\<close>)

lemma put_empty:
  assumes "lib_redb E = toy_redb" "st_sealer st = None"
  shows "put_record E t n v (st, w) = (Inr (), st\<lparr>st_db := (st_db st)(t := AList.update n v (st_db st t))\<rparr>, w)"
  using assms by (simp add: put_record_def raw_put_def stored_name_def toy_redb_def)

theorem allowlist_reload_witness:
  "\<exists>st' w'. remember_allowed seed_libs (\<lambda>_. [[1], [2]]) (ShareId [1, 7]) (Some {[1], [2]}) (empty_store, toy_world) = (Inr (), st', w') \<and>
     load_allowed seed_libs st' (ShareId [1, 7]) = Some {[1], [2]}"
proof -
  have put: "\<exists>st'. remember_allowed seed_libs (\<lambda>_. [[1], [2]]) (ShareId [1, 7]) (Some {[1], [2]}) (empty_store, toy_world) =
      (Inr (), st', toy_world)"
    by (simp add: remember_allowed_def put_empty empty_store_def const_codec_def Let_def)
  have keep: "peers_keepable seed_libs (\<lambda>_. [[1], [2]]) (share_id_display (lib_blake seed_libs) (ShareId [1, 7])) {[1], [2]}"
    by (simp add: peers_keepable_def keepable_seed_libs const_codec_round_trips seed_name)
  show ?thesis
    using put allowlist_reload [where known = UNIV and E = seed_libs and i = "ShareId [1, 7]" and peers = "Some {[1], [2]}"
        and order = "\<lambda>_. [[1], [2]]" and st = empty_store and w = toy_world, OF empty_displays]
      keep by auto
qed

lemma x_is_a_name: "name_problem ''x'' = None"
  by code_simp

lemma seed_fits: "seed_fit seed_libs None seed_share" "seed_keepable seed_libs seed_modified seed_share"
proof -
  have "decode_verified plain_blake (const_codec toy_manifest) (\<lambda>s. s) [1, 7] (ShareId [1, 7]) = Inr toy_manifest"
    by (simp add: decode_verified_def id_of_def plain_blake_def const_codec_def MANIFEST_VERSION_def ok_or_def validate_def
        toy_manifest_def x_is_a_name)
  then show "seed_fit seed_libs None seed_share"
    by (simp add: seed_fit_def toy_manifest_def local_file_new_def)
  show "seed_keepable seed_libs seed_modified seed_share"
    by (simp add: seed_keepable_def Let_def keepable_seed_libs const_codec_round_trips seed_name local_file_new_def)
qed


lemma seed_remembered: "\<exists>st'. remember_seed seed_libs seed_modified seed_share (empty_store, toy_world) = (Inr (), st', toy_world)"
  by (simp add: remember_seed_def and_then_def put_empty empty_store_def const_codec_def Let_def)

lemma seed_loads:
  "\<exists>st' s'. remember_seed seed_libs seed_modified seed_share (empty_store, toy_world) = (Inr (), st', toy_world) \<and>
     load_seed seed_libs seed_modified tree chunks (ShareId [1, 7]) None st' toy_world = Some (Inr s', toy_world)"
proof -
  obtain st' where st': "remember_seed seed_libs seed_modified seed_share (empty_store, toy_world) = (Inr (), st', toy_world)"
    using seed_remembered by blast
  have "\<exists>s'. load_seed seed_libs seed_modified tree chunks (ls_id seed_share) None st' toy_world = Some (Inr s', toy_world)"
    using reload_ok [OF empty_displays [of seed_libs UNIV] _ _ _ _ _ st', of None tree chunks toy_world] seed_fits
    by (auto simp: seed_modified_def)
  then show ?thesis using st' by auto
qed

theorem seed_reload_witness:
  "\<exists>st' s'. remember_seed seed_libs seed_modified seed_share (empty_store, toy_world) = (Inr (), st', toy_world) \<and>
     load_seed seed_libs seed_modified (\<lambda>_. FsOther) (\<lambda>b. [b]) (ShareId [1, 7]) None st' toy_world = Some (Inr s', toy_world) \<and>
     ls_manifest s' = toy_manifest \<and> have_count s' = share_total_pieces s'"
proof -
  obtain st' where st': "remember_seed seed_libs seed_modified seed_share (empty_store, toy_world) = (Inr (), st', toy_world)"
    using seed_remembered by blast
  have "\<exists>s'. load_seed seed_libs seed_modified (\<lambda>_. FsOther) (\<lambda>b. [b]) (ls_id seed_share) None st' toy_world = Some (Inr s', toy_world) \<and>
      ls_manifest s' = ls_manifest seed_share \<and> have_count s' = share_total_pieces s'"
    using seed_reload [OF empty_displays [of seed_libs UNIV] _ _ _ _ _ st', of None "\<lambda>_. FsOther" "\<lambda>b. [b]" toy_world] seed_fits
    by (auto simp: seed_modified_def)
  then show ?thesis using st' by auto
qed

theorem loaded_seed_witness:
  "\<exists>st' s'. load_seed seed_libs seed_modified (\<lambda>_. FsOther) (\<lambda>b. [b]) (ShareId [1, 7]) None st' toy_world = Some (Inr s', toy_world) \<and>
     ls_id s' = ShareId [1, 7] \<and> have_count s' = share_total_pieces s'"
  using seed_loads loaded_seed by blast

theorem forget_clears_witness:
  "\<exists>st1 st2. put_record seed_libs SEEDS (share_id_display plain_blake (ShareId [1, 7])) [5] (empty_store, toy_world) = (Inr (), st1, toy_world) \<and>
     forget seed_libs (ShareId [1, 7]) (st1, toy_world) = (Inr (), st2, toy_world) \<and>
     get_record seed_libs st2 SEEDS (share_id_display plain_blake (ShareId [1, 7])) = Inr None"
proof -
  let ?n = "share_id_display plain_blake (ShareId [1, 7])"
  obtain st1 where put: "put_record seed_libs SEEDS ?n [5] (empty_store, toy_world) = (Inr (), st1, toy_world)"
    "st_db st1 = (\<lambda>_. [])(SEEDS := [(?n, [5])])" "st_sealer st1 = None"
    using that [of "\<lparr>st_db = (\<lambda>_. [])(SEEDS := [(?n, [5])]), st_sealer = None\<rparr>"]
    by (simp add: put_empty empty_store_def)
  have "displays_records seed_libs toy_view UNIV (st1, toy_world) (if Inr () = (Inr () :: error + unit)
      then (\<lambda>_. None)((SEEDS, ?n) \<mapsto> [5]) else (\<lambda>_. None))"
    by (rule displays_put [OF empty_displays _ _ put(1)]) (simp_all add: keepable_seed_libs seed_name)
  then have d: "displays_records seed_libs toy_view UNIV (st1, toy_world) ((\<lambda>_. None)((SEEDS, ?n) \<mapsto> [5]))" by simp
  have "\<exists>st2. forget seed_libs (ShareId [1, 7]) (st1, toy_world) = (Inr (), st2, toy_world)"
    using tables_distinct put(2,3)
    by (simp add: forget_def and_then_def remove_records_def toy_redb_def entries_def stored_name_def Let_def)
  then obtain st2 where st2: "forget seed_libs (ShareId [1, 7]) (st1, toy_world) = (Inr (), st2, toy_world)" by blast
  have "get_record seed_libs st2 SEEDS ?n = Inr None"
    using forget_clears [OF d _ _ st2, of SEEDS ?n] by simp
  then show ?thesis using put(1) st2 by blast
qed

end
