(* ===== verification/Rate_Limit.thy ===== *)
theory Rate_Limit
  imports Complex_Main Chorrent_Prelude
begin

text \<open>
  The token bucket of \<open>src/crates/chorrent/src/limits.rs\<close>. Times are seconds
  since some origin; the \<open>f64\<close> arithmetic of the source is done exactly, in the
  rationals, so rounding is not modelled. The lock makes each \<open>acquire\<close> one
  step, taken at the time \<open>now\<close> its critical section reads; it returns how
  long the caller then sleeps.
\<close>

subsection \<open>The bucket\<close>

record rate_limiter =
  rl_rate :: rat
  rl_tokens :: rat
  rl_last :: rat

definition limiter_new :: "u64 \<Rightarrow> rat \<Rightarrow> rate_limiter" where
  "limiter_new bytes_per_sec now =
     (let rate = of_nat (max (unat bytes_per_sec) 1) in \<lparr>rl_rate = rate, rl_tokens = rate, rl_last = now\<rparr>)"

definition amount :: "u64 \<Rightarrow> rat" where
  "amount n = of_nat (unat n)"

text \<open>\<open>Instant::duration_since\<close> of a later time is zero.\<close>

definition acquire :: "u64 \<Rightarrow> rat \<Rightarrow> rate_limiter \<Rightarrow> rat \<times> rate_limiter" where
  "acquire n now l =
     (let tokens = min (rl_tokens l + max 0 (now - rl_last l) * rl_rate l) (rl_rate l) - amount n in
      ((if tokens < 0 then - tokens / rl_rate l else 0), l\<lparr>rl_tokens := tokens, rl_last := now\<rparr>))"

subsection \<open>Many callers\<close>

text \<open>
  Calls in the order they take the lock, as the bytes asked for and the time;
  the result lists when each caller goes on.
\<close>

fun acquire_all :: "(u64 \<times> rat) list \<Rightarrow> rate_limiter \<Rightarrow> rat list" where
  "acquire_all [] l = []"
| "acquire_all ((n, now) # calls) l = (let (wait, l1) = acquire n now l in (now + wait) # acquire_all calls l1)"

definition asked :: "(u64 \<times> rat) list \<Rightarrow> rat" where
  "asked calls = (\<Sum>(n, _) \<leftarrow> calls. amount n)"

text \<open>The bytes of the callers that have gone on by the time \<open>T\<close>.\<close>

fun passed_by :: "rat \<Rightarrow> (u64 \<times> rat) list \<Rightarrow> rat list \<Rightarrow> rat" where
  "passed_by T ((n, _) # calls) (t # ts) = (if t \<le> T then amount n else 0) + passed_by T calls ts"
| "passed_by T _ _ = 0"

text \<open>The bytes of the callers that go on in the period from \<open>S\<close> to \<open>T\<close>.\<close>

fun passed_in :: "rat \<Rightarrow> rat \<Rightarrow> (u64 \<times> rat) list \<Rightarrow> rat list \<Rightarrow> rat" where
  "passed_in S T ((n, _) # calls) (t # ts) = (if S \<le> t \<and> t \<le> T then amount n else 0) + passed_in S T calls ts"
| "passed_in S T _ _ = 0"

text \<open>The calls come in the order of their times, after the bucket's last use.\<close>

fun in_order :: "rat \<Rightarrow> (u64 \<times> rat) list \<Rightarrow> bool" where
  "in_order t [] = True"
| "in_order t ((n, now) # calls) \<longleftrightarrow> t \<le> now \<and> in_order now calls"

lemma amount_nonneg: "0 \<le> amount n"
  unfolding amount_def by (rule of_nat_0_le_iff)

lemma asked_Cons: "asked ((n, now) # calls) = amount n + asked calls" "asked [] = 0"
  by (simp_all add: asked_def)

lemma asked_nonneg: "0 \<le> asked calls"
  by (induction calls) (auto simp: asked_Cons amount_nonneg)

lemma acquire_ok:
  assumes "0 < rl_rate l" "rl_last l \<le> now" "rl_tokens l \<le> rl_rate l" "acquire n now l = (wait, l1)"
  shows "rl_rate l1 = rl_rate l" "rl_last l1 = now" "rl_tokens l1 \<le> rl_rate l" "0 \<le> wait"
    "rl_tokens l1 + amount n \<le> rl_tokens l + rl_rate l * (now - rl_last l)"
    "rl_tokens l - amount n \<le> rl_tokens l1"
    "now + wait \<le> T \<Longrightarrow> 0 \<le> rl_tokens l1 + rl_rate l * (T - now)"
    "wait \<le> max 0 (- rl_tokens l1) / rl_rate l"
proof -
  define r where "r = rl_rate l"
  define t1 where "t1 = min (rl_tokens l + (now - rl_last l) * r) r - amount n"
  have e: "l1 = l\<lparr>rl_tokens := t1, rl_last := now\<rparr>" "wait = (if t1 < 0 then - t1 / r else 0)"
  proof -
    have "acquire n now l = ((if t1 < 0 then - t1 / r else 0), l\<lparr>rl_tokens := t1, rl_last := now\<rparr>)"
      using assms(2) unfolding acquire_def Let_def t1_def r_def by (simp only: max_absorb2 diff_ge_0_iff_ge)
    then show "l1 = l\<lparr>rl_tokens := t1, rl_last := now\<rparr>" "wait = (if t1 < 0 then - t1 / r else 0)"
      using assms(4) by simp_all
  qed
  then have [simp]: "rl_tokens l1 = t1" "rl_rate l1 = r" "rl_last l1 = now" by (simp_all add: r_def)
  have r: "0 < r" and nn: "0 \<le> amount n" using assms(1) amount_nonneg by (simp_all add: r_def)
  have gain: "0 \<le> (now - rl_last l) * r" using assms(2) r by simp
  show "rl_rate l1 = rl_rate l" "rl_last l1 = now" by (simp_all add: r_def)
  show "rl_tokens l1 \<le> rl_rate l" using nn by (simp add: t1_def min_def r_def [symmetric])
  show "rl_tokens l1 + amount n \<le> rl_tokens l + rl_rate l * (now - rl_last l)"
    by (simp add: t1_def r_def [symmetric] mult.commute)
  show "rl_tokens l - amount n \<le> rl_tokens l1"
    using gain assms(3) by (simp add: t1_def r_def [symmetric])
  show "0 \<le> wait" using e(2) r by (simp add: divide_nonpos_pos less_imp_le)
  show "wait \<le> max 0 (- rl_tokens l1) / rl_rate l"
    using e(2) r by (simp add: r_def [symmetric] max_def)
  show "0 \<le> rl_tokens l1 + rl_rate l * (T - now)" if T: "now + wait \<le> T"
  proof (cases "t1 < 0")
    case True
    then have "- t1 / r \<le> T - now" using e(2) T by simp
    then have "- t1 \<le> (T - now) * r" by (simp only: pos_divide_le_eq [OF r])
    then show ?thesis by (simp add: r_def [symmetric] mult.commute)
  next
    case False
    then have "0 \<le> T - now" using T e(2) by simp
    then have "0 \<le> r * (T - now)" using r by simp
    then show ?thesis using False by (simp add: r_def [symmetric])
  qed
qed

lemma passed_bound:
  assumes "0 < rl_rate l" "in_order (rl_last l) calls" "rl_tokens l \<le> rl_rate l"
  shows "passed_by T calls (acquire_all calls l) \<le> max 0 (rl_tokens l + rl_rate l * (T - rl_last l))"
  using assms
proof (induction calls arbitrary: l)
  case Nil
  then show ?case by simp
next
  case (Cons call calls)
  obtain n now where call: "call = (n, now)" by fastforce
  obtain wait l1 where x: "acquire n now l = (wait, l1)" by fastforce
  have now: "rl_last l \<le> now" "in_order now calls" using Cons.prems(2) call by simp_all
  note ok = acquire_ok [OF Cons.prems(1) now(1) Cons.prems(3) x]
  have IH: "passed_by T calls (acquire_all calls l1) \<le> max 0 (rl_tokens l1 + rl_rate l * (T - now))"
    using Cons.IH [of l1] Cons.prems(1) now(2) ok(1-3) by simp
  have split: "rl_rate l * (T - rl_last l) = rl_rate l * (now - rl_last l) + rl_rate l * (T - now)"
    by (simp add: algebra_simps)
  show ?case
  proof (cases "now + wait \<le> T")
    case True
    then show ?thesis
      using IH ok(5) ok(7) [OF True] split amount_nonneg [of n] call x by (simp add: max_def split: if_splits)
  next
    case False
    then show ?thesis
      using IH ok(5) split amount_nonneg [of n] call x by (simp add: max_def split: if_splits)
  qed
qed

lemma wait_bound:
  assumes "0 < rl_rate l" "in_order (rl_last l) calls" "rl_tokens l \<le> rl_rate l"
  shows "list_all2 (\<lambda>(n, now) t. now \<le> t \<and> t \<le> now + max 0 (asked calls - rl_tokens l) / rl_rate l)
    calls (acquire_all calls l)"
  using assms
proof (induction calls arbitrary: l)
  case Nil
  then show ?case by simp
next
  case (Cons call calls)
  obtain n now where call: "call = (n, now)" by fastforce
  obtain wait l1 where x: "acquire n now l = (wait, l1)" by fastforce
  have now: "rl_last l \<le> now" "in_order now calls" using Cons.prems(2) call by simp_all
  note ok = acquire_ok [OF Cons.prems(1) now(1) Cons.prems(3) x]
  have IH: "list_all2 (\<lambda>(n, now) t. now \<le> t \<and> t \<le> now + max 0 (asked calls - rl_tokens l1) / rl_rate l)
      calls (acquire_all calls l1)"
    using Cons.IH [of l1] Cons.prems(1) now(2) ok(1-3) by simp
  let ?b = "max 0 (asked (call # calls) - rl_tokens l)"
  have le: "max 0 (asked calls - rl_tokens l1) \<le> ?b" "max 0 (- rl_tokens l1) \<le> ?b"
    using ok(6) asked_nonneg [of calls] by (auto simp: call asked_Cons max_def)
  then have le': "max 0 (asked calls - rl_tokens l1) / rl_rate l \<le> ?b / rl_rate l"
    "max 0 (- rl_tokens l1) / rl_rate l \<le> ?b / rl_rate l"
    using Cons.prems(1) by (auto intro: divide_right_mono simp del: max.bounded_iff)
  have "list_all2 (\<lambda>(n, now) t. now \<le> t \<and> t \<le> now + ?b / rl_rate l) calls (acquire_all calls l1)"
    using IH le'(1) by (auto elim!: list_all2_mono)
  then show ?case using ok(4,8) le'(2) call x by (simp add: Let_def)
qed

lemma passed_in_by: "passed_in S T calls ts \<le> passed_by T calls ts"
  by (induction S T calls ts rule: passed_in.induct) (auto simp: add_mono amount_nonneg add_increasing)

lemma acquire_passes:
  assumes "0 < rl_rate l" "rl_last l \<le> now" "rl_tokens l \<le> rl_rate l" "acquire n now l = (wait, l1)" "S \<le> now + wait"
  shows "amount n + (rl_tokens l1 + rl_rate l * (T - now)) \<le> max (rl_rate l) (amount n) + rl_rate l * (T - S)"
proof -
  define r where "r = rl_rate l"
  define t where "t = min (rl_tokens l + max 0 (now - rl_last l) * r) r"
  have r: "0 < r" using assms(1) by (simp add: r_def)
  have l1: "rl_tokens l1 = t - amount n" "wait = (if t - amount n < 0 then - (t - amount n) / r else 0)"
    using assms(4) by (auto simp: acquire_def Let_def t_def r_def)
  show ?thesis
  proof (cases "t < amount n")
    case True
    then have "S - now \<le> (amount n - t) / r" using l1(2) assms(5) by simp
    then have "(S - now) * r \<le> amount n - t" by (simp only: pos_le_divide_eq [OF r])
    then show ?thesis unfolding l1(1) r_def [symmetric] by (simp add: algebra_simps max_def)
  next
    case False
    then have "r * (T - now) \<le> r * (T - S)" using l1(2) assms(5) r by (intro mult_left_mono) simp_all
    moreover have "t \<le> r" by (simp add: t_def)
    ultimately show ?thesis unfolding l1(1) r_def [symmetric] by (simp add: max_def)
  qed
qed

lemma period_bound:
  assumes "0 < rl_rate l" "in_order (rl_last l) calls" "rl_tokens l \<le> rl_rate l" "S \<le> T"
    and "\<And>n now. (n, now) \<in> set calls \<Longrightarrow> amount n \<le> m"
  shows "passed_in S T calls (acquire_all calls l) \<le> rl_rate l * (T - S) + max (rl_rate l) m"
  using assms
proof (induction calls arbitrary: l)
  case Nil
  then have "0 \<le> rl_rate l * (T - S)" by simp
  with Nil show ?case by (simp add: max_def)
next
  case (Cons call calls)
  obtain n now where call: "call = (n, now)" by fastforce
  obtain wait l1 where x: "acquire n now l = (wait, l1)" by fastforce
  have now: "rl_last l \<le> now" "in_order now calls" and m: "amount n \<le> m" using Cons.prems(2,5) call by auto
  note ok = acquire_ok [OF Cons.prems(1) now(1) Cons.prems(3) x]
  show ?case
  proof (cases "S \<le> now + wait \<and> now + wait \<le> T")
    case False
    have "passed_in S T calls (acquire_all calls l1) \<le> rl_rate l1 * (T - S) + max (rl_rate l1) m"
      by (rule Cons.IH) (use ok(1-3) now(2) Cons.prems in auto)
    then show ?thesis unfolding call using False x by (auto simp: ok(1))
  next
    case True
    have "passed_in S T calls (acquire_all calls l1) \<le> max 0 (rl_tokens l1 + rl_rate l1 * (T - rl_last l1))"
      by (rule order_trans [OF passed_in_by passed_bound]) (use ok(1-3) now(2) Cons.prems(1) in simp_all)
    also have "\<dots> = rl_tokens l1 + rl_rate l * (T - now)" using ok(1,2) ok(7) [of T] True by simp
    finally have "passed_in S T (call # calls) (acquire_all (call # calls) l) \<le> amount n + (rl_tokens l1 + rl_rate l * (T - now))"
      unfolding call using True x by simp
    also have "\<dots> \<le> max (rl_rate l) (amount n) + rl_rate l * (T - S)"
      by (rule acquire_passes [OF Cons.prems(1) now(1) Cons.prems(3) x]) (use True in simp)
    also have "\<dots> \<le> rl_rate l * (T - S) + max (rl_rate l) m" using m by (simp add: max_def)
    finally show ?thesis .
  qed
qed

text \<open>C21: whatever is asked of a rate limiter and however callers come, in any
  period it lets through at most the limit for that time and, on top, one
  second's burst, or one request if that is larger; from its start, at most the
  limit for the time and one burst; and no caller sleeps longer than the bytes
  asked for so far take at the limit.\<close>

theorem rate_limited:
  assumes "in_order t0 calls" and "S \<le> T" and "t0 \<le> T" and "\<And>n now. (n, now) \<in> set calls \<Longrightarrow> amount n \<le> m"
  shows "passed_in S T calls (acquire_all calls (limiter_new rate t0))
      \<le> of_nat (max (unat rate) 1) * (T - S) + max (of_nat (max (unat rate) 1)) m \<and>
    passed_by T calls (acquire_all calls (limiter_new rate t0)) \<le> of_nat (max (unat rate) 1) * (T - t0 + 1) \<and>
    list_all2 (\<lambda>(n, now) t. now \<le> t \<and> t \<le> now + asked calls / of_nat (max (unat rate) 1))
      calls (acquire_all calls (limiter_new rate t0))"
proof -
  let ?l = "limiter_new rate t0" and ?r = "of_nat (max (unat rate) 1) :: rat"
  have l: "rl_rate ?l = ?r" "rl_tokens ?l = ?r" "rl_last ?l = t0" by (simp_all add: limiter_new_def Let_def)
  have r: "0 < ?r" by simp
  have "passed_in S T calls (acquire_all calls ?l) \<le> ?r * (T - S) + max ?r m"
    using period_bound [of ?l calls S T m] r assms unfolding l by simp
  moreover have "passed_by T calls (acquire_all calls ?l) \<le> max 0 (?r + ?r * (T - t0))"
    using passed_bound [of ?l calls T] r assms(1) unfolding l by simp
  moreover have "0 \<le> ?r * (T - t0)" using r assms(3) by (intro mult_nonneg_nonneg) simp_all
  moreover have "list_all2 (\<lambda>(n, now) t. now \<le> t \<and> t \<le> now + max 0 (asked calls - ?r) / ?r) calls (acquire_all calls ?l)"
    using wait_bound [of ?l calls] r assms(1) unfolding l by simp
  moreover have "max 0 (asked calls - ?r) / ?r \<le> asked calls / ?r"
    using asked_nonneg [of calls] r by (intro divide_right_mono) simp_all
  ultimately show ?thesis by (intro conjI) (auto simp: max_def algebra_simps elim!: list_all2_mono)
qed

lemma amount_1000: "amount 1000 = 1000"
  by (simp add: amount_def)

theorem rate_limited_witness:
  "passed_in 9 10 [(1000, 0), (1000, 9), (1000, 9), (1000, 9)]
     (acquire_all [(1000, 0), (1000, 9), (1000, 9), (1000, 9)] (limiter_new 1000 0)) \<le> 2000 \<and>
   acquire_all [(1000, 0), (1000, 9), (1000, 9), (1000, 9)] (limiter_new 1000 0) = [0, 9, 10, 11]"
proof
  have bound: "amount n \<le> 1000" if "(n, now) \<in> set [(1000, 0), (1000, 9), (1000, 9), (1000, 9)]" for n and now :: rat
    using that amount_1000 by auto
  show "passed_in 9 10 [(1000, 0), (1000, 9), (1000, 9), (1000, 9)]
     (acquire_all [(1000, 0), (1000, 9), (1000, 9), (1000, 9)] (limiter_new 1000 0)) \<le> 2000"
    using conjunct1 [OF rate_limited [of 0 "[(1000, 0), (1000, 9), (1000, 9), (1000, 9)]" 9 10 1000 1000, OF _ _ _ bound]]
    by (simp del: acquire_all.simps passed_in.simps)
  show "acquire_all [(1000, 0), (1000, 9), (1000, 9), (1000, 9)] (limiter_new 1000 0) = [0, 9, 10, 11]"
    by (simp add: acquire_def limiter_new_def amount_1000)
qed

end
