(* ===== verification/Serving.thy ===== *)
theory Serving
  imports Local_Share Wire Rate_Limit
begin

text \<open>
  What other peers can get from this node: the registry of listed shares
  (\<open>registration.rs\<close>) and the handler of their requests (\<open>handler.rs\<close>). A share
  is reached through an \<open>Arc\<close>; the address tells one from another, and the hub
  holds what each points to.
\<close>

subsection \<open>The registry\<close>

type_synonym arc = nat

record hub =
  hub_shares :: "share_id \<rightharpoonup> arc"
  hub_arcs :: "arc \<Rightarrow> local_share"

definition set_arc :: "arc \<Rightarrow> local_share \<Rightarrow> hub \<Rightarrow> hub" where
  "set_arc a s hub = hub\<lparr>hub_arcs := (hub_arcs hub)(a := s)\<rparr>"

definition register :: "arc \<Rightarrow> hub \<Rightarrow> error + hub" where
  "register a hub =
     (let i = ls_id (hub_arcs hub a) in
      if hub_shares hub i \<noteq> None then Inl AlreadySharing
      else Inr (hub\<lparr>hub_shares := (hub_shares hub)(i \<mapsto> a)\<rparr>))"

definition drop_registration :: "arc \<Rightarrow> hub \<Rightarrow> hub" where
  "drop_registration a hub =
     (let i = ls_id (hub_arcs hub a) in
      if hub_shares hub i = Some a then hub\<lparr>hub_shares := (hub_shares hub)(i := None)\<rparr> else hub)"

text \<open>\<open>Client::remove\<close> takes a share out of the registry without its handle.\<close>

definition unlist :: "share_id \<Rightarrow> hub \<Rightarrow> arc option \<times> hub" where
  "unlist i hub = (hub_shares hub i, hub\<lparr>hub_shares := (hub_shares hub)(i := None)\<rparr>)"

subsection \<open>The handler\<close>

definition lookup_share :: "blake3 \<Rightarrow> hub \<Rightarrow> share_id \<Rightarrow> endpoint_id \<Rightarrow> token option \<Rightarrow> arc option" where
  "lookup_share h hub share remote auth = do {
     a \<leftarrow> hub_shares hub share;
     (if authorized h (hub_arcs hub a) remote auth then Some a else None) }"

definition still_registered :: "arc \<Rightarrow> hub \<Rightarrow> bool" where
  "still_registered a hub \<longleftrightarrow> hub_shares hub (ls_id (hub_arcs hub a)) = Some a"

text \<open>
  \<open>permit\<close>: whether an upload slot came free in time. Encoding runs in a task
  of its own: its panic is an error here. The limiter is used at the time \<open>now\<close>.
\<close>

definition limit_upload :: "rat \<Rightarrow> u64 option \<Rightarrow> rate_limiter option \<Rightarrow> rate_limiter option option" where
  "limit_upload now len limiter =
     (case limiter of
        None \<Rightarrow> Some None
      | Some l \<Rightarrow> do { n \<leftarrow> len; Some (Some (snd (acquire n now l))) })"

definition serve_piece ::
  "blake3 \<Rightarrow> aead \<Rightarrow> bao \<Rightarrow> (path \<Rightarrow> (nat \<times> nat) option) \<Rightarrow> world \<Rightarrow> bool \<Rightarrow> rat \<Rightarrow> arc \<Rightarrow> nat \<Rightarrow>
     hub \<times> rate_limiter option \<Rightarrow> (response \<times> hub \<times> rate_limiter option) option" where
  "serve_piece h A B stamp w permit now a index = (\<lambda>(hub, limiter).
     (let s = hub_arcs hub a in
      if index \<ge> share_total_pieces s \<or> \<not> has s index then Some (DontHave, hub, limiter)
      else if \<not> permit then Some (Busy, hub, limiter)
      else do {
        limiter1 \<leftarrow> limit_upload now (piece_len s index) limiter;
        (case encode_piece h A B index s w of
           Some (Inr encoded) \<Rightarrow>
             Some (RespPiece encoded, set_arc a (emit (Uploaded (word_of_nat (length encoded))) s) hub, limiter1)
         | _ \<Rightarrow> do {
             s1 \<leftarrow> note_serve_failure stamp index s;
             Some (DontHave, set_arc a s1 hub, limiter1) }) }))"

text \<open>
  One request: an answer to write, or a subscription to the share's progress.
\<close>

datatype answer = Reply response | Subscription arc

definition serve_request ::
  "blake3 \<Rightarrow> aead \<Rightarrow> bao \<Rightarrow> (path \<Rightarrow> (nat \<times> nat) option) \<Rightarrow> world \<Rightarrow> bool \<Rightarrow> rat \<Rightarrow> endpoint_id \<Rightarrow> request \<Rightarrow>
     hub \<times> rate_limiter option \<Rightarrow> (answer \<times> hub \<times> rate_limiter option) option" where
  "serve_request h A B stamp w permit now remote req = (\<lambda>(hub, limiter).
     (case req of
        ReqManifest share auth \<Rightarrow>
          (case lookup_share h hub share remote auth of
             Some a \<Rightarrow> Some (Reply (RespManifest (ls_manifest_bytes (hub_arcs hub a))), hub, limiter)
           | None \<Rightarrow> Some (Reply NotFound, hub, limiter))
      | ReqSubscribe share auth \<Rightarrow>
          (case lookup_share h hub share remote auth of
             Some a \<Rightarrow> Some (Subscription a, hub, limiter)
           | None \<Rightarrow> Some (Reply NotFound, hub, limiter))
      | ReqPiece share auth index \<Rightarrow>
          (case lookup_share h hub share remote auth of
             Some a \<Rightarrow> do {
               (r, hub1, limiter1) \<leftarrow> serve_piece h A B stamp w permit now a (unat index) (hub, limiter);
               Some (Reply r, hub1, limiter1) }
           | None \<Rightarrow> Some (Reply NotFound, hub, limiter))))"

text \<open>
  A subscription: what its loop waits for, each with the hub at that moment.
  A write that fails ends it, with what was written before.
\<close>

datatype update = NewPiece u32 | Lagged | Closed | Tick

fun subscription_loop :: "response codec \<Rightarrow> arc \<Rightarrow> (update \<times> hub) list \<Rightarrow> send_stream \<Rightarrow> send_stream" where
  "subscription_loop rc a [] send = send"
| "subscription_loop rc a ((u, hub) # us) send =
     (case (case u of
              NewPiece piece \<Rightarrow> Some (Some (RespHave piece))
            | Lagged \<Rightarrow> Some (Some (RespBitfield (packed_bitfield (hub_arcs hub a))))
            | Closed \<Rightarrow> None
            | Tick \<Rightarrow> if still_registered a hub then Some None else None) of
        None \<Rightarrow> send
      | Some None \<Rightarrow> subscription_loop rc a us send
      | Some (Some msg) \<Rightarrow>
          (case write_frame rc msg send of
             Inl e \<Rightarrow> send
           | Inr send1 \<Rightarrow> subscription_loop rc a us send1))"

definition serve_subscription :: "response codec \<Rightarrow> arc \<Rightarrow> hub \<Rightarrow> (update \<times> hub) list \<Rightarrow> send_stream \<Rightarrow> send_stream" where
  "serve_subscription rc a hub us send =
     (case write_frame rc (RespBitfield (packed_bitfield (hub_arcs hub a))) send of
        Inl e \<Rightarrow> send
      | Inr send1 \<Rightarrow> subscription_loop rc a us send1)"

text \<open>One stream of a connection, up to closing it.\<close>

definition serve_stream ::
  "blake3 \<Rightarrow> aead \<Rightarrow> bao \<Rightarrow> request codec \<Rightarrow> response codec \<Rightarrow> (path \<Rightarrow> (nat \<times> nat) option) \<Rightarrow> world \<Rightarrow> bool \<Rightarrow> rat \<Rightarrow>
     endpoint_id \<Rightarrow> recv_stream \<Rightarrow> (update \<times> hub) list \<Rightarrow> send_stream \<Rightarrow> hub \<times> rate_limiter option \<Rightarrow>
     (send_stream \<times> hub \<times> rate_limiter option) option" where
  "serve_stream h A B qc rc stamp w permit now remote recv us send = (\<lambda>(hub, limiter).
     (case expect_frame qc recv of
        Inl e \<Rightarrow> Some (send, hub, limiter)
      | Inr (req, _) \<Rightarrow> do {
          (answer, hub1, limiter1) \<leftarrow> serve_request h A B stamp w permit now remote req (hub, limiter);
          Some ((case answer of
                   Subscription a \<Rightarrow> serve_subscription rc a hub1 us send
                 | Reply r \<Rightarrow> (case write_frame rc r send of Inl e \<Rightarrow> send | Inr send1 \<Rightarrow> send1)),
            hub1, limiter1) }))"

end
