(* ===== verification/Serving_Safety.thy ===== *)
theory Serving_Safety
  imports Serving Share_Safety
begin

text \<open>
  What \<open>Serving\<close> promises: nobody gets anything of a share without being
  allowed to, and the registry lists only shares whose handle is alive.
\<close>

subsection \<open>Requests\<close>

fun request_share :: "request \<Rightarrow> share_id" where
  "request_share (ReqManifest share auth) = share"
| "request_share (ReqSubscribe share auth) = share"
| "request_share (ReqPiece share auth index) = share"

fun request_auth :: "request \<Rightarrow> token option" where
  "request_auth (ReqManifest share auth) = auth"
| "request_auth (ReqSubscribe share auth) = auth"
| "request_auth (ReqPiece share auth index) = auth"

lemma lookup_share_Some:
  "lookup_share h hub i remote auth = Some a \<longleftrightarrow> hub_shares hub i = Some a \<and> authorized h (hub_arcs hub a) remote auth"
  by (auto simp: lookup_share_def split: Option.bind_splits if_splits)

lemma note_serve_failure_kept:
  "note_serve_failure stamp piece s = Some s' \<Longrightarrow> ls_id s' = ls_id s \<and> ls_have s' = ls_have s \<and> ls_allowed s' = ls_allowed s \<and>
     ls_secret s' = ls_secret s \<and> ls_manifest_bytes s' = ls_manifest_bytes s"
  by (auto simp: note_serve_failure_def emit_def set_local_file_def split: Option.bind_splits option.splits if_splits)

definition same_access :: "local_share \<Rightarrow> local_share \<Rightarrow> bool" where
  "same_access s s' \<longleftrightarrow> ls_id s' = ls_id s \<and> ls_have s' = ls_have s \<and> ls_allowed s' = ls_allowed s \<and>
     ls_secret s' = ls_secret s \<and> ls_manifest_bytes s' = ls_manifest_bytes s"

lemma serve_piece_cases:
  assumes "serve_piece h A B stamp w permit now a index (hub, limiter) = Some (r, hub', limiter')"
  shows "r \<noteq> NotFound \<and> hub_shares hub' = hub_shares hub \<and> (\<forall>b. same_access (hub_arcs hub b) (hub_arcs hub' b)) \<and>
    (\<forall>m. r \<noteq> RespManifest m) \<and>
    (\<forall>b. r = RespPiece b \<longrightarrow> permit \<and> has (hub_arcs hub a) index \<and> encode_piece h A B index (hub_arcs hub a) w = Some (Inr b))"
proof -
  have "same_access s (emit e s)" "same_access s s" for e s by (simp_all add: same_access_def emit_def)
  moreover have "note_serve_failure stamp index s = Some s' \<Longrightarrow> same_access s s'" for s s'
    using note_serve_failure_kept by (simp add: same_access_def)
  ultimately show ?thesis
    using assms by (auto simp: serve_piece_def Let_def set_arc_def split: if_splits Option.bind_splits option.splits sum.splits)
qed

text \<open>C9: a peer that is not allowed, or asks for a share not listed, is told
  NotFound and changes nothing, so the two cases look the same to it; anyone
  else gets the manifest as it is, a subscription to that very share, or a
  piece the share holds, as it was encoded; access is never changed by asking.\<close>

theorem only_allowed_served:
  assumes "serve_request h A B stamp w permit now remote req (hub, limiter) = Some (ans, hub', limiter')"
  shows "(case lookup_share h hub (request_share req) remote (request_auth req) of
      None \<Rightarrow> ans = Reply NotFound \<and> hub' = hub \<and> limiter' = limiter
    | Some a \<Rightarrow> hub_shares hub (request_share req) = Some a \<and>
        authorized h (hub_arcs hub a) remote (request_auth req) \<and> ans \<noteq> Reply NotFound \<and>
        (\<forall>b. ans = Reply (RespManifest b) \<longrightarrow> b = ls_manifest_bytes (hub_arcs hub a)) \<and>
        (\<forall>c. ans = Subscription c \<longrightarrow> c = a) \<and>
        (\<forall>b. ans = Reply (RespPiece b) \<longrightarrow> (\<exists>auth index. req = ReqPiece (request_share req) auth index \<and>
           has (hub_arcs hub a) (unat index) \<and> encode_piece h A B (unat index) (hub_arcs hub a) w = Some (Inr b)))) \<and>
    hub_shares hub' = hub_shares hub \<and>
    (\<forall>c i remote auth. lookup_share h hub' i remote auth = lookup_share h hub i remote auth \<and>
       same_access (hub_arcs hub c) (hub_arcs hub' c))"
proof -
  have kept: "lookup_share h hub' i r auth = lookup_share h hub i r auth"
    if "hub_shares hub' = hub_shares hub" "\<forall>b. same_access (hub_arcs hub b) (hub_arcs hub' b)" for i r auth
  proof -
    have "authorized h (hub_arcs hub' b) r auth = authorized h (hub_arcs hub b) r auth" for b
      using that(2) by (simp add: authorized_def same_access_def)
    then show ?thesis using that(1) by (simp add: lookup_share_def)
  qed
  have refl: "same_access s s" for s by (simp add: same_access_def)
  show ?thesis
  proof (cases "lookup_share h hub (request_share req) remote (request_auth req)")
    case None
    then have "ans = Reply NotFound \<and> hub' = hub \<and> limiter' = limiter"
      using assms by (cases req) (auto simp: serve_request_def)
    then show ?thesis using None refl by simp
  next
    case (Some a)
    then have auth: "hub_shares hub (request_share req) = Some a" "authorized h (hub_arcs hub a) remote (request_auth req)"
      by (simp_all add: lookup_share_Some)
    show ?thesis
    proof (cases req)
      case (ReqPiece share tok index)
      then obtain r where r: "serve_piece h A B stamp w permit now a (unat index) (hub, limiter) = Some (r, hub', limiter')"
        "ans = Reply r"
        using assms Some by (auto simp: serve_request_def split: Option.bind_splits)
      note sp = serve_piece_cases [OF r(1)]
      have "lookup_share h hub' i rm au = lookup_share h hub i rm au" for i rm au using sp by (intro kept) blast+
      then show ?thesis using Some auth r(2) sp ReqPiece by auto
    qed (use assms Some auth refl in \<open>auto simp: serve_request_def\<close>)
  qed
qed

subsection \<open>The registry over time\<close>

text \<open>
  What happened to a registry: a share registered under its id, a handle
  dropped, an id unlisted (\<open>Client::remove\<close> does that while the handle lives).
\<close>

datatype registry_event = Registered share_id arc | Dropped arc | Unlisted share_id

text \<open>
  The events so far, in order, the registry, and which registrations are
  alive: a new one is made for a new \<open>Arc\<close>, dropping one ends it, and a share
  changes without changing its id. An \<open>Arc\<close> nobody registered may point to
  anything.
\<close>

inductive hub_runs :: "registry_event list \<Rightarrow> hub \<Rightarrow> arc set \<Rightarrow> bool" where
  start: "hub_shares hub = Map.empty \<Longrightarrow> hub_runs [] hub {}"
| registers: "hub_runs ops hub live \<Longrightarrow> a \<notin> live \<Longrightarrow> register a hub = Inr hub' \<Longrightarrow>
    hub_runs (ops @ [Registered (ls_id (hub_arcs hub a)) a]) hub' (insert a live)"
| drops: "hub_runs ops hub live \<Longrightarrow> a \<in> live \<Longrightarrow> hub_runs (ops @ [Dropped a]) (drop_registration a hub) (live - {a})"
| unlists: "hub_runs ops hub live \<Longrightarrow> hub_runs (ops @ [Unlisted i]) (snd (unlist i hub)) live"
| changes: "hub_runs ops hub live \<Longrightarrow> a \<in> live \<longrightarrow> ls_id s = ls_id (hub_arcs hub a) \<Longrightarrow> hub_runs ops (set_arc a s hub) live"

text \<open>Registered at some time, and neither dropped nor unlisted after it.\<close>

definition stands :: "registry_event list \<Rightarrow> share_id \<Rightarrow> arc \<Rightarrow> bool" where
  "stands ops i a \<longleftrightarrow> (\<exists>before after. ops = before @ Registered i a # after \<and> Dropped a \<notin> set after \<and> Unlisted i \<notin> set after)"

lemma stands_Nil [simp]: "\<not> stands [] i a"
  by (simp add: stands_def)

lemma stands_snoc [simp]:
  "stands (ops @ [x]) i a \<longleftrightarrow> x = Registered i a \<or> stands ops i a \<and> x \<noteq> Dropped a \<and> x \<noteq> Unlisted i"
proof
  assume "stands (ops @ [x]) i a"
  then obtain before after where "ops @ [x] = before @ Registered i a # after" "Dropped a \<notin> set after" "Unlisted i \<notin> set after"
    by (auto simp: stands_def)
  then show "x = Registered i a \<or> stands ops i a \<and> x \<noteq> Dropped a \<and> x \<noteq> Unlisted i"
    by (cases after rule: rev_cases) (auto simp: stands_def)
next
  assume r: "x = Registered i a \<or> stands ops i a \<and> x \<noteq> Dropped a \<and> x \<noteq> Unlisted i"
  show "stands (ops @ [x]) i a"
  proof (cases "x = Registered i a")
    case True
    then show ?thesis unfolding stands_def by (intro exI [of _ ops] exI [of _ "[]"]) simp
  next
    case False
    with r obtain before after where "ops = before @ Registered i a # after" "Dropped a \<notin> set after" "Unlisted i \<notin> set after"
      by (auto simp: stands_def)
    moreover have "x \<noteq> Dropped a" "x \<noteq> Unlisted i" using r False by simp_all
    ultimately show ?thesis unfolding stands_def by (intro exI [of _ before] exI [of _ "after @ [x]"]) simp
  qed
qed

lemma dropped:
  "hub_shares (drop_registration a hub) i =
     (if i = ls_id (hub_arcs hub a) \<and> hub_shares hub i = Some a then None else hub_shares hub i)"
  "hub_arcs (drop_registration a hub) = hub_arcs hub"
  by (auto simp: drop_registration_def Let_def)

lemma hub_runs_listed:
  "hub_runs ops hub live \<Longrightarrow> hub_shares hub i = Some a \<Longrightarrow> a \<in> live \<and> ls_id (hub_arcs hub a) = i"
proof (induction arbitrary: i a rule: hub_runs.induct)
  case (registers ops hub live b hub')
  then show ?case by (auto simp: register_def Let_def split: if_splits)
next
  case (drops ops hub live b)
  from drops.prems have i: "hub_shares hub i = Some a" "\<not> (i = ls_id (hub_arcs hub b) \<and> a = b)"
    by (simp_all add: dropped split: if_splits)
  from drops.IH [OF i(1)] i(2) show ?case by (auto simp: dropped)
next
  case (unlists ops hub live j)
  then show ?case by (auto simp: unlist_def split: if_splits)
next
  case (changes ops hub live b s)
  from changes.prems have "a \<in> live \<and> ls_id (hub_arcs hub a) = i" using changes.IH [of i a] by (simp add: set_arc_def)
  then show ?case using changes.hyps(2) by (auto simp: set_arc_def)
qed simp

lemma hub_runs_stands: "hub_runs ops hub live \<Longrightarrow> hub_shares hub i = Some a \<longleftrightarrow> stands ops i a"
proof (induction arbitrary: i a rule: hub_runs.induct)
  case (registers ops hub live b hub')
  have hub': "hub_shares hub' = (hub_shares hub)(ls_id (hub_arcs hub b) \<mapsto> b)" "hub_shares hub (ls_id (hub_arcs hub b)) = None"
    using registers.hyps(3) by (auto simp: register_def Let_def split: if_splits)
  then show ?case using registers.IH [of i a] by auto
next
  case (drops ops hub live b)
  show ?case using hub_runs_listed [OF drops.hyps(1), of i a] by (auto simp: dropped drops.IH [symmetric])
next
  case (unlists ops hub live j)
  then show ?case by (auto simp: unlist_def split: if_splits)
next
  case (changes ops hub live b s)
  then show ?case by (simp add: set_arc_def)
qed simp

text \<open>C10: at any time the registry lists under an id exactly the share that was
  registered under it and since then neither dropped nor unlisted; that share
  has a live handle and that id; registering fails exactly when the id is
  listed; dropping a handle makes its share unreachable and never unlists
  another, even a newer one with the same id.\<close>

theorem registry_exact:
  assumes "hub_runs ops hub live"
  shows "(\<forall>i a. hub_shares hub i = Some a \<longleftrightarrow>
      (\<exists>before after. ops = before @ Registered i a # after \<and> Dropped a \<notin> set after \<and> Unlisted i \<notin> set after)) \<and>
    (\<forall>i a. hub_shares hub i = Some a \<longrightarrow> a \<in> live \<and> ls_id (hub_arcs hub a) = i) \<and>
    (register a hub = Inl AlreadySharing \<longleftrightarrow> (\<exists>b \<in> live. hub_shares hub (ls_id (hub_arcs hub a)) = Some b)) \<and>
    (\<forall>i remote auth. lookup_share h (drop_registration a hub) i remote auth \<noteq> Some a) \<and>
    (\<forall>b i. b \<noteq> a \<longrightarrow> (hub_shares (drop_registration a hub) i = Some b \<longleftrightarrow> hub_shares hub i = Some b))"
proof -
  note listed = hub_runs_listed [OF assms]
  have reg: "register a hub = Inl AlreadySharing \<longleftrightarrow> (\<exists>b \<in> live. hub_shares hub (ls_id (hub_arcs hub a)) = Some b)"
    unfolding register_def Let_def using listed by (cases "hub_shares hub (ls_id (hub_arcs hub a))") simp_all
  have gone: "lookup_share h (drop_registration a hub) i remote auth \<noteq> Some a" for i remote auth
  proof
    assume "lookup_share h (drop_registration a hub) i remote auth = Some a"
    then have i: "hub_shares (drop_registration a hub) i = Some a" unfolding lookup_share_Some by blast
    then have "hub_shares hub i = Some a" by (simp add: dropped split: if_splits)
    then show False using listed i by (simp add: dropped)
  qed
  have others: "hub_shares (drop_registration a hub) i = Some b \<longleftrightarrow> hub_shares hub i = Some b" if "b \<noteq> a" for b i
    using that by (auto simp: dropped)
  show ?thesis using hub_runs_stands [OF assms, unfolded stands_def] listed reg gone others by blast
qed

subsection \<open>Examples\<close>

definition toy_hub :: hub where
  "toy_hub = \<lparr>hub_shares = Map.empty, hub_arcs = (\<lambda>_. toy_share)\<rparr>"

definition toy_listed :: hub where
  "toy_listed = toy_hub\<lparr>hub_shares := [ls_id toy_share \<mapsto> 1]\<rparr>"

lemma toy_registered: "register 1 toy_hub = Inr toy_listed" "hub_runs [Registered (ls_id toy_share) 1] toy_listed {1}"
proof -
  show reg: "register 1 toy_hub = Inr toy_listed" by (simp add: register_def toy_hub_def toy_listed_def)
  have "hub_runs [] toy_hub {}" by (rule hub_runs.start) (simp add: toy_hub_def)
  from hub_runs.registers [OF this _ reg] show "hub_runs [Registered (ls_id toy_share) 1] toy_listed {1}" by (simp add: toy_hub_def)
qed

theorem registry_exact_witness:
  "hub_shares toy_listed (ls_id toy_share) = Some 1 \<and>
   register 2 toy_listed = Inl AlreadySharing \<and> hub_shares (drop_registration 2 toy_listed) (ls_id toy_share) = Some 1 \<and>
   hub_shares (drop_registration 1 toy_listed) (ls_id toy_share) = None"
proof -
  note r = registry_exact [OF toy_registered(2), of 2 plain_blake]
  have "hub_shares toy_listed (ls_id toy_share) = Some 1"
    using r by (metis append_Nil empty_iff list.set(1))
  moreover have "hub_arcs toy_listed = (\<lambda>_. toy_share)" by (simp add: toy_listed_def toy_hub_def)
  moreover from calculation have "hub_shares (drop_registration 1 toy_listed) (ls_id toy_share) = None"
    by (simp add: drop_registration_def Let_def)
  ultimately show ?thesis using r by (metis one_eq_numeral_iff semiring_norm(85) singletonI)
qed

theorem only_allowed_served_witness:
  "serve_request plain_blake toy_aead toy_bao (\<lambda>_. None) plain_world True 0 [9] (ReqManifest (ShareId [5]) None) (toy_listed, None) =
     Some (Reply NotFound, toy_listed, None)"
proof -
  have none: "lookup_share plain_blake toy_listed (ShareId [5]) [9] None = None"
    by (simp add: lookup_share_def toy_listed_def toy_hub_def toy_share_def from_parts_def Let_def id_of_def plain_blake_def)
  obtain ans hub' l' where r: "serve_request plain_blake toy_aead toy_bao (\<lambda>_. None) plain_world True 0 [9]
      (ReqManifest (ShareId [5]) None) (toy_listed, None) = Some (ans, hub', l')"
    using none by (simp add: serve_request_def)
  show ?thesis using only_allowed_served [OF r] none r by simp
qed

end
