(* ===== verification/Download.thy ===== *)
theory Download
  imports Serving Store Scheduler
begin

text \<open>
  The download engine of \<open>src/crates/chorrent/src/download.rs\<close>. Each loop of
  the source becomes a step function on the state that loop works on; what
  the network, the clock and the user do comes in as arguments. The text of a
  peer's id and of an error is given by \<open>show_peer\<close> and \<open>show_error\<close>. Times are
  seconds, exact where the source uses \<open>f64\<close>.
\<close>

definition CONNECT_TIMEOUT :: rat where
  "CONNECT_TIMEOUT = 15"

definition FIRST_ATTEMPT :: rat where
  "FIRST_ATTEMPT = 4"

definition RETRY_PEER_AFTER :: rat where
  "RETRY_PEER_AFTER = 20"

definition REQUESTS_PER_PEER :: nat where
  "REQUESTS_PER_PEER = 8"

definition TARGET_BYTES_PER_SEC :: nat where
  "TARGET_BYTES_PER_SEC = 12 * 1024 * 1024"

definition MAX_REQUESTS_PER_PEER :: nat where
  "MAX_REQUESTS_PER_PEER = 48"

definition URGENT_WINDOW :: nat where
  "URGENT_WINDOW = 3"

definition MAX_STRIKES :: nat where
  "MAX_STRIKES = 3"

definition MAX_PEERS :: nat where
  "MAX_PEERS = 32"

subsection \<open>Requests and the manifest\<close>

text \<open>
  One exchange over a new stream: \<open>opened\<close> is the error of opening it or its
  two halves; \<open>timed_out\<close> that it took too long.
\<close>

definition request_peer ::
  "request codec \<Rightarrow> response codec \<Rightarrow> bool \<Rightarrow> str + send_stream \<times> recv_stream \<Rightarrow> request \<Rightarrow> error + response" where
  "request_peer qc rc timed_out opened req =
     (if timed_out then Inl (Protocol (ProtocolReceive ''request timed out''))
      else bind_result (map_err (Protocol \<circ> ProtocolSend) opened) (\<lambda>(send, recv).
        bind_result (map_err Protocol (write_frame qc req send)) (\<lambda>_.
        bind_result (map_err Protocol (expect_frame rc recv)) (\<lambda>(r, _). Inr r))))"

text \<open>\<open>fetch_manifest\<close>, given what the peer answered to \<open>Request::Manifest\<close>.\<close>

definition fetch_manifest ::
  "blake3 \<Rightarrow> manifest codec \<Rightarrow> (str \<Rightarrow> str) \<Rightarrow> share_code \<Rightarrow> error + response \<Rightarrow> error + manifest \<times> bytes" where
  "fetch_manifest h pc lower code answer =
     bind_result answer (\<lambda>r.
     case r of
       RespManifest b \<Rightarrow>
         if length b \<le> MAX_MANIFEST_BYTES then
           bind_result (decode_verified h pc lower b (sc_id code)) (\<lambda>m.
           if total_size m \<noteq> sc_total_size code \<or> m_name m \<noteq> sc_name code then
             Inl (BadManifest ''it doesn't match the name or size in the share code'')
           else Inr (m, b))
         else Inl (BadManifest ''peer didn't send it'')
     | _ \<Rightarrow> Inl (BadManifest ''peer didn't send it''))"

subsection \<open>Peers\<close>

text \<open>How many requests to keep in flight to a peer that is \<open>rtt\<close> away.\<close>

definition requests_for :: "rat option \<Rightarrow> nat" where
  "requests_for rtt =
     (case rtt of
        None \<Rightarrow> REQUESTS_PER_PEER
      | Some t \<Rightarrow>
          (let bytes_in_flight = of_nat TARGET_BYTES_PER_SEC * t; n = nat \<lceil>bytes_in_flight / of_nat BLOCK_SIZE\<rceil> in
           min (max n REQUESTS_PER_PEER) MAX_REQUESTS_PER_PEER))"

record tracker =
  tk_me :: endpoint_id
  tk_discovered :: "endpoint_id set"
  tk_last_attempt :: "endpoint_id \<rightharpoonup> rat"
  tk_events :: "event list"

definition tracker_new :: "endpoint_id \<Rightarrow> tracker" where
  "tracker_new me = \<lparr>tk_me = me, tk_discovered = {}, tk_last_attempt = Map.empty, tk_events = []\<rparr>"

definition discover :: "(endpoint_id \<Rightarrow> str) \<Rightarrow> endpoint_id \<Rightarrow> tracker \<Rightarrow> tracker" where
  "discover show_peer i t =
     (if i \<in> tk_discovered t then t
      else t\<lparr>tk_discovered := insert i (tk_discovered t), tk_events := tk_events t @ [PeerDiscovered (show_peer i)]\<rparr>)"

definition add_candidate ::
  "(endpoint_id \<Rightarrow> str) \<Rightarrow> endpoint_addr \<Rightarrow> endpoint_addr list \<times> tracker \<Rightarrow> endpoint_addr list \<times> tracker" where
  "add_candidate show_peer addr = (\<lambda>(candidates, t).
     (if ea_id addr = tk_me t \<or> (\<exists>c \<in> set candidates. ea_id c = ea_id addr) then (candidates, t)
      else (candidates @ [addr], discover show_peer (ea_id addr) t)))"

definition should_try :: "(endpoint_id \<Rightarrow> str) \<Rightarrow> rat \<Rightarrow> endpoint_addr \<Rightarrow> tracker \<Rightarrow> bool \<times> tracker" where
  "should_try show_peer now addr t =
     (if ea_id addr = tk_me t then (False, t)
      else
        (let t1 = discover show_peer (ea_id addr) t;
             t2 = t1\<lparr>tk_last_attempt := (tk_last_attempt t1)(ea_id addr \<mapsto> now)\<rparr> in
         case tk_last_attempt t1 (ea_id addr) of
           None \<Rightarrow> (True, t2)
         | Some previous \<Rightarrow>
             if max 0 (now - previous) < RETRY_PEER_AFTER then
               (False, t2\<lparr>tk_last_attempt := (tk_last_attempt t2)(ea_id addr \<mapsto> previous)\<rparr>)
             else (True, t2)))"

text \<open>The events of \<open>watch_path\<close> for the snapshots of a connection's selected path: direct or not, and how far.\<close>

fun watch_path :: "(endpoint_id \<Rightarrow> str) \<Rightarrow> endpoint_id \<Rightarrow> bool option \<Rightarrow> (bool \<times> u64) option list \<Rightarrow> event list" where
  "watch_path show_peer peer seen [] = []"
| "watch_path show_peer peer seen (None # paths) = watch_path show_peer peer seen paths"
| "watch_path show_peer peer seen (Some (direct, rtt_ms) # paths) =
     (if seen \<noteq> Some direct then
        PeerPath (show_peer peer) direct rtt_ms # watch_path show_peer peer (Some direct) paths
      else watch_path show_peer peer seen paths)"

subsection \<open>Looking for the manifest\<close>

record search =
  sh_candidates :: "endpoint_addr list"
  sh_attempts :: "endpoint_id \<rightharpoonup> nat"
  sh_next :: nat
  sh_tracker :: tracker

datatype waited = WaitFound endpoint_addr | WaitOver | WaitCancelled

text \<open>
  What one round of the loop meets: the peers found meanwhile, what waiting
  for a first one gave, the time left, how a peer answers within a time limit
  (\<open>None\<close>: no connection), and whether the user cancelled.
\<close>

record round =
  rd_drained :: "endpoint_addr list"
  rd_waited :: waited
  rd_remaining :: rat
  rd_network :: "endpoint_addr \<Rightarrow> rat \<Rightarrow> (error + response) option"
  rd_cancelled :: bool
  rd_pause_cancelled :: bool

definition attempt_limit :: "nat \<Rightarrow> rat \<Rightarrow> rat" where
  "attempt_limit tries remaining = min (min (FIRST_ATTEMPT * 2 ^ min tries 4) CONNECT_TIMEOUT) remaining"

definition search_round ::
  "blake3 \<Rightarrow> manifest codec \<Rightarrow> (str \<Rightarrow> str) \<Rightarrow> (endpoint_id \<Rightarrow> str) \<Rightarrow> share_code \<Rightarrow> nat \<Rightarrow> round \<Rightarrow> search \<Rightarrow>
     (error + manifest \<times> bytes \<times> endpoint_addr \<times> tracker) + search" where
  "search_round h pc lower show_peer code timeout r s0 =
     (let (cs, t) = fold (add_candidate show_peer) (rd_drained r) (sh_candidates s0, sh_tracker s0);
          s = s0\<lparr>sh_candidates := cs, sh_tracker := t\<rparr> in
      if cs = [] then
        (case rd_waited r of
           WaitFound addr \<Rightarrow>
             (let (cs1, t1) = add_candidate show_peer addr (cs, t) in Inr (s\<lparr>sh_candidates := cs1, sh_tracker := t1\<rparr>))
         | WaitOver \<Rightarrow> Inl (Inl (NoPeersFound timeout))
         | WaitCancelled \<Rightarrow> Inl (Inl Cancelled))
      else if rd_remaining r = 0 then Inl (Inl (NoPeersFound timeout))
      else
        (let addr = cs ! (sh_next s mod length cs);
             tries = (case sh_attempts s (ea_id addr) of None \<Rightarrow> 0 | Some n \<Rightarrow> n);
             s1 = s\<lparr>sh_next := sh_next s + 1, sh_attempts := (sh_attempts s)(ea_id addr \<mapsto> tries + 1)\<rparr>;
             got = Option.bind (rd_network r addr (attempt_limit tries (rd_remaining r)))
                     (\<lambda>answer. result_ok (fetch_manifest h pc lower code answer)) in
         if rd_cancelled r then Inl (Inl Cancelled)
         else case got of
           Some (m, b) \<Rightarrow> Inl (Inr (m, b, addr, t))
         | None \<Rightarrow> if rd_pause_cancelled r then Inl (Inl Cancelled) else Inr s1))"

fun search_rounds ::
  "blake3 \<Rightarrow> manifest codec \<Rightarrow> (str \<Rightarrow> str) \<Rightarrow> (endpoint_id \<Rightarrow> str) \<Rightarrow> share_code \<Rightarrow> nat \<Rightarrow> round list \<Rightarrow> search \<Rightarrow>
     (error + manifest \<times> bytes \<times> endpoint_addr \<times> tracker) + search" where
  "search_rounds h pc lower show_peer code timeout [] s = Inr s"
| "search_rounds h pc lower show_peer code timeout (r # rs) s =
     (case search_round h pc lower show_peer code timeout r s of
        Inl ended \<Rightarrow> Inl ended
      | Inr s1 \<Rightarrow> search_rounds h pc lower show_peer code timeout rs s1)"

subsection \<open>Laying out the files\<close>

text \<open>
  From the manifest to a share with the progress of an earlier run, saved and
  (when reseeding) registered under the new address \<open>a\<close>. \<open>None\<close> is a panic.
\<close>

definition restored_share ::
  "'d libs \<Rightarrow> manifest \<Rightarrow> bytes \<Rightarrow> path \<Rightarrow> master_key option \<Rightarrow> bytes option \<Rightarrow> 'd store option \<Rightarrow> world \<Rightarrow>
     ((error + local_share) \<times> world) option" where
  "restored_share E m m_bytes dest_dir key secret store w =
     (case for_download (lib_blake E) (lib_bao E) m m_bytes dest_dir key secret w of
        None \<Rightarrow> Some (Inl (Task ''panic''), w)
      | Some (Inl e, w1) \<Rightarrow> Some (Inl e, w1)
      | Some (Inr s, w1) \<Rightarrow>
          (case Option.bind store (load_progress E (ls_id s) dest_dir) of
             None \<Rightarrow> Some (Inr s, w1)
           | Some saved \<Rightarrow>
               (case restore_progress (lib_blake E) (lib_aead E) (lib_bao E) saved s w1 of
                  None \<Rightarrow> Some (Inl (Task ''panic''), w1)
                | Some (Inl e, s1) \<Rightarrow> Some (Inl e, w1)
                | Some (Inr _, s1) \<Rightarrow> Some (Inr s1, w1))))"

text \<open>The bytes of the pieces held: a sum of \<open>u64\<close>s.\<close>

fun held_bytes :: "local_share \<Rightarrow> nat list \<Rightarrow> u64 option" where
  "held_bytes s [] = Some 0"
| "held_bytes s (i # is) =
     (if has s i then do { n \<leftarrow> piece_len s i; r \<leftarrow> held_bytes s is; Some (n + r) } else held_bytes s is)"

definition resumed_event :: "local_share \<Rightarrow> local_share option" where
  "resumed_event s =
     (if have_count s > 0 then do {
        b \<leftarrow> held_bytes s [0..<share_total_pieces s];
        Some (emit (Resumed (have_count s) b) s) }
      else Some s)"

definition prepare_download ::
  "'d libs \<Rightarrow> (endpoint_id set \<Rightarrow> endpoint_id list) \<Rightarrow> bool \<Rightarrow> master_key option \<Rightarrow> endpoint_id set option \<Rightarrow>
     share_code \<Rightarrow> manifest \<Rightarrow> bytes \<Rightarrow> path \<Rightarrow> arc \<Rightarrow> 'd store option \<times> hub \<times> world \<Rightarrow>
     ((error + local_share) \<times> 'd store option \<times> hub \<times> world) option" where
  "prepare_download E order reseed key allow code m m_bytes dest_dir a = (\<lambda>(store, hub, w).
     do {
       (made, w1) \<leftarrow> restored_share E m m_bytes dest_dir key (sc_secret code) store w;
       (case made of
          Inl e \<Rightarrow> Some (Inl e, store, hub, w1)
        | Inr s0 \<Rightarrow> do {
            s \<leftarrow> resumed_event (set_allowed allow s0);
            (saved, store1, w2) \<leftarrow> (case store of
                None \<Rightarrow> Some (Inr (), None, w1)
              | Some st \<Rightarrow> do {
                  (r1, st1, w2) \<leftarrow> remember_download E code dest_dir (st, w1);
                  (case r1 of
                     Inl e \<Rightarrow> Some (Inl e, Some st1, w2)
                   | Inr _ \<Rightarrow>
                       (let (r2, st2, w3) = remember_allowed E order (ls_id s) allow (st1, w2) in
                        Some (r2, Some st2, w3))) });
            Some (case saved of
                Inl e \<Rightarrow> (Inl e, store1, hub, w2)
              | Inr _ \<Rightarrow>
                  if reseed then
                    (case register a (set_arc a s hub) of
                       Inl e \<Rightarrow> (Inl e, store1, hub, w2)
                     | Inr hub1 \<Rightarrow> (Inr s, store1, hub1, w2))
                  else (Inr s, store1, hub, w2)) }) })"

end
