(* ===== verification/Engine.thy ===== *)
theory Engine
  imports Download
begin

text \<open>
  The swarming phase of \<open>download.rs\<close>: one engine, with peers that come and go
  and workers that ask them for pieces. A worker's requests in flight are the
  list \<open>eg_requests\<close>. The locks are held for short sections, so each step
  below is one of them; any interleaving of steps may happen.
\<close>

subsection \<open>The engine\<close>

record engine =
  eg_share :: local_share
  eg_sched :: "endpoint_id scheduler"
  eg_connected :: "endpoint_id set"
  eg_strikes :: "endpoint_id \<Rightarrow> nat"
  eg_requests :: "(endpoint_id \<times> nat) list"

definition engine_new :: "local_share \<Rightarrow> engine" where
  "engine_new s = \<lparr>eg_share = s, eg_sched = sched_new (ls_have s) URGENT_WINDOW, eg_connected = {},
     eg_strikes = (\<lambda>_. 0), eg_requests = []\<rparr>"

definition engine_is_done :: "engine \<Rightarrow> bool" where
  "engine_is_done g \<longleftrightarrow> sched_is_done (eg_sched g)"

definition send_event :: "event \<Rightarrow> engine \<Rightarrow> engine" where
  "send_event e g = g\<lparr>eg_share := emit e (eg_share g)\<rparr>"

text \<open>\<open>run_peer\<close>: whether a new connection is driven, or dropped because the peer has one already.\<close>

definition open_peer :: "endpoint_id \<Rightarrow> engine \<Rightarrow> bool \<times> engine" where
  "open_peer peer g =
     (if peer \<in> eg_connected g then (False, g) else (True, g\<lparr>eg_connected := insert peer (eg_connected g)\<rparr>))"

text \<open>
  \<open>drive_peer\<close> as it gets the answer to its subscription: whether it goes on,
  which it does with the peer's bitfield only.
\<close>

definition join_peer :: "(endpoint_id \<Rightarrow> str) \<Rightarrow> endpoint_id \<Rightarrow> error + response \<Rightarrow> engine \<Rightarrow> (bool \<times> engine) option" where
  "join_peer show_peer peer first g =
     (case first of
        Inr (RespBitfield b) \<Rightarrow>
          (let total = share_total_pieces (eg_share g); bits = unpack_bits b total;
               g1 = send_event (PeerConnected (show_peer peer) (length (filter id bits)) total) g in do {
             sched \<leftarrow> add_peer peer bits (eg_sched g1);
             Some (True, g1\<lparr>eg_sched := sched, eg_strikes := (eg_strikes g1)(peer := 0)\<rparr>) })
      | _ \<Rightarrow> Some (False, g))"

text \<open>A message on the subscription.\<close>

definition hear_peer :: "endpoint_id \<Rightarrow> response \<Rightarrow> engine \<Rightarrow> engine option" where
  "hear_peer peer msg g =
     (case msg of
        RespHave piece \<Rightarrow> do { sched \<leftarrow> set_peer_has peer (unat piece) (eg_sched g); Some (g\<lparr>eg_sched := sched\<rparr>) }
      | RespBitfield b \<Rightarrow> do {
          sched \<leftarrow> add_peer peer (unpack_bits b (share_total_pieces (eg_share g))) (eg_sched g);
          Some (g\<lparr>eg_sched := sched\<rparr>) }
      | _ \<Rightarrow> Some g)"

text \<open>
  The end of a peer: its workers are aborted, its requests forgotten.
  \<open>used\<close>: whether the bitfield had come.
\<close>

definition leave_peer :: "(endpoint_id \<Rightarrow> str) \<Rightarrow> endpoint_id \<Rightarrow> bool \<Rightarrow> engine \<Rightarrow> engine option" where
  "leave_peer show_peer peer used g = do {
     sched \<leftarrow> remove_peer peer (eg_sched g);
     (let g1 = g\<lparr>eg_sched := sched, eg_connected := eg_connected g - {peer},
                eg_requests := filter (\<lambda>(q, _). q \<noteq> peer) (eg_requests g)\<rparr> in
      Some (if used \<and> \<not> engine_is_done g1 then send_event (PeerDisconnected (show_peer peer)) g1 else g1)) }"

text \<open>How many workers a peer should have after one \<open>resize\<close> tick; workers are never removed.\<close>

definition resized_workers :: "rat option \<Rightarrow> endpoint_id \<Rightarrow> nat \<Rightarrow> engine \<Rightarrow> nat" where
  "resized_workers rtt peer workers g =
     (if engine_is_done g \<or> eg_strikes g peer \<ge> MAX_STRIKES then workers else max workers (requests_for rtt))"

subsection \<open>Workers\<close>

definition give_back :: "nat \<Rightarrow> endpoint_id \<Rightarrow> bool \<Rightarrow> engine \<Rightarrow> engine option" where
  "give_back piece peer peer_lacks_it g = do {
     sched \<leftarrow> failed piece peer peer_lacks_it (eg_sched g);
     Some (g\<lparr>eg_sched := sched\<rparr>) }"

text \<open>The start of a worker's round: the request it makes, if it goes on and finds a piece.\<close>

definition ask_peer :: "endpoint_id \<Rightarrow> engine \<Rightarrow> (nat option \<times> engine) option" where
  "ask_peer peer g =
     (if engine_is_done g \<or> eg_strikes g peer \<ge> MAX_STRIKES then Some (None, g)
      else do {
        (picked, sched) \<leftarrow> pick peer (eg_sched g);
        (let g1 = g\<lparr>eg_sched := sched\<rparr> in
         Some (case picked of
             None \<Rightarrow> (None, g1)
           | Some piece \<Rightarrow> (Some piece, g1\<lparr>eg_requests := (peer, piece) # eg_requests g1\<rparr>))) })"

definition piece_request :: "share_id \<Rightarrow> token option \<Rightarrow> nat \<Rightarrow> request" where
  "piece_request i auth piece = ReqPiece i auth (word_of_nat piece)"

definition strike :: "endpoint_id \<Rightarrow> engine \<Rightarrow> engine" where
  "strike peer g = g\<lparr>eg_strikes := (eg_strikes g)(peer := eg_strikes g peer + 1)\<rparr>"

text \<open>Storing a piece that came; a panic of the storing task is an error of its own.\<close>

definition receive_piece ::
  "blake3 \<Rightarrow> aead \<Rightarrow> bao \<Rightarrow> (chunker_error \<Rightarrow> str) \<Rightarrow> endpoint_id \<Rightarrow> nat \<Rightarrow> bytes \<Rightarrow> engine \<times> world \<Rightarrow> (engine \<times> world) option" where
  "receive_piece h A B show_error peer piece encoded = (\<lambda>(g, w).
     (case store_piece h A B piece encoded (eg_share g) w of
        Some (Inr _, s, w1) \<Rightarrow>
          (let g1 = g\<lparr>eg_share := s, eg_strikes := (eg_strikes g)(peer := 0)\<rparr> in do {
             (newly, sched) \<leftarrow> complete_piece piece (eg_sched g1);
             (if newly then do {
                n \<leftarrow> piece_len s piece;
                Some (send_event (PieceVerified piece n) (g1\<lparr>eg_sched := sched\<rparr>), w1) }
              else Some (g1\<lparr>eg_sched := sched\<rparr>, w1)) })
      | Some (Inl e, s, w1) \<Rightarrow> do {
          g1 \<leftarrow> give_back piece peer True (strike peer (g\<lparr>eg_share := s\<rparr>));
          Some (send_event (PieceFailed piece (show_error e)) g1, w1) }
      | None \<Rightarrow> do {
          g1 \<leftarrow> give_back piece peer False g;
          Some (send_event (PieceFailed piece ''task panicked'') g1, w) }))"

definition answer_worker ::
  "blake3 \<Rightarrow> aead \<Rightarrow> bao \<Rightarrow> (chunker_error \<Rightarrow> str) \<Rightarrow> endpoint_id \<Rightarrow> nat \<Rightarrow> error + response \<Rightarrow> engine \<times> world \<Rightarrow>
     (engine \<times> world) option" where
  "answer_worker h A B show_error peer piece answer = (\<lambda>(g0, w).
     (let g = g0\<lparr>eg_requests := remove1 (peer, piece) (eg_requests g0)\<rparr> in
      case answer of
        Inr (RespPiece encoded) \<Rightarrow> receive_piece h A B show_error peer piece encoded (g, w)
      | Inr DontHave \<Rightarrow> do { g1 \<leftarrow> give_back piece peer True g; Some (g1, w) }
      | Inr Busy \<Rightarrow> do { g1 \<leftarrow> give_back piece peer False g; Some (g1, w) }
      | Inr NotFound \<Rightarrow> do {
          g1 \<leftarrow> give_back piece peer False (g\<lparr>eg_strikes := (eg_strikes g)(peer := MAX_STRIKES)\<rparr>);
          Some (g1, w) }
      | _ \<Rightarrow> do {
          g1 \<leftarrow> give_back piece peer False (strike peer g);
          Some (send_event (PieceFailed piece ''request failed'') g1, w) }))"

text \<open>
  A worker aborted while its piece is being stored: the storing task goes on,
  and nobody tells the scheduler.
\<close>

definition store_detached ::
  "blake3 \<Rightarrow> aead \<Rightarrow> bao \<Rightarrow> nat \<Rightarrow> bytes \<Rightarrow> engine \<times> world \<Rightarrow> engine \<times> world" where
  "store_detached h A B piece encoded = (\<lambda>(g, w).
     (case store_piece h A B piece encoded (eg_share g) w of
        Some (_, s, w1) \<Rightarrow> (g\<lparr>eg_share := s\<rparr>, w1)
      | None \<Rightarrow> (g, w)))"

subsection \<open>Steps\<close>

text \<open>
  What the tasks of the engine do, each in one step. A step that no task can
  take in a state does nothing there: hearing from a peer that is not
  subscribed to, an answer to a request that was not made. A detached store is
  for some piece of the share. A peer whose subscription fails leaves.
\<close>

datatype engine_op =
    Connect endpoint_id
  | Join endpoint_id "error + response"
  | Hear endpoint_id response
  | Ask endpoint_id
  | Answer endpoint_id nat "error + response"
  | Leave endpoint_id
  | Detached nat bytes

definition subscribed :: "endpoint_id \<Rightarrow> engine \<Rightarrow> bool" where
  "subscribed peer g \<longleftrightarrow> peer \<in> eg_connected g \<and> peers (eg_sched g) peer \<noteq> None"

fun engine_exec ::
  "blake3 \<Rightarrow> aead \<Rightarrow> bao \<Rightarrow> (endpoint_id \<Rightarrow> str) \<Rightarrow> (chunker_error \<Rightarrow> str) \<Rightarrow> engine_op \<Rightarrow> engine \<times> world \<Rightarrow> (engine \<times> world) option" where
  "engine_exec h A B sp se (Connect peer) (g, w) = Some (snd (open_peer peer g), w)"
| "engine_exec h A B sp se (Join peer first) (g, w) =
     (if peer \<in> eg_connected g \<and> \<not> subscribed peer g then do {
        (goes_on, g1) \<leftarrow> join_peer sp peer first g;
        (if goes_on then Some (g1, w) else do { g2 \<leftarrow> leave_peer sp peer False g1; Some (g2, w) }) }
      else Some (g, w))"
| "engine_exec h A B sp se (Hear peer msg) (g, w) =
     (if subscribed peer g then do { g1 \<leftarrow> hear_peer peer msg g; Some (g1, w) } else Some (g, w))"
| "engine_exec h A B sp se (Ask peer) (g, w) =
     (if subscribed peer g then do { (_, g1) \<leftarrow> ask_peer peer g; Some (g1, w) } else Some (g, w))"
| "engine_exec h A B sp se (Answer peer piece answer) (g, w) =
     (if (peer, piece) \<in> set (eg_requests g) then answer_worker h A B se peer piece answer (g, w) else Some (g, w))"
| "engine_exec h A B sp se (Leave peer) (g, w) =
     (if subscribed peer g then do { g1 \<leftarrow> leave_peer sp peer True g; Some (g1, w) } else Some (g, w))"
| "engine_exec h A B sp se (Detached piece encoded) (g, w) =
     Some (if piece < length (ls_have (eg_share g)) then store_detached h A B piece encoded (g, w) else (g, w))"

subsection \<open>The main loop and the end\<close>

text \<open>Whether a found address is dialled, given how many peers are connecting or connected.\<close>

definition dial_found :: "(endpoint_id \<Rightarrow> str) \<Rightarrow> rat \<Rightarrow> nat \<Rightarrow> endpoint_addr \<Rightarrow> engine \<Rightarrow> tracker \<Rightarrow> bool \<times> tracker" where
  "dial_found show_peer now running addr g t =
     (if running < MAX_PEERS \<and> ea_id addr \<notin> eg_connected g then should_try show_peer now addr t else (False, t))"

definition cancel_download ::
  "'d libs \<Rightarrow> path \<Rightarrow> engine \<Rightarrow> 'd store option \<times> world \<Rightarrow> error \<times> 'd store option \<times> world" where
  "cancel_download E dest_dir g = (\<lambda>(store, w).
     (Cancelled, (case store of None \<Rightarrow> (None, w)
        | Some st \<Rightarrow> (let (st1, w1) = save_progress E (eg_share g) dest_dir (st, w) in (Some st1, w1)))))"

record outcome =
  oc_path :: path
  oc_encrypted :: bool
  oc_share :: local_share

definition finish_download ::
  "'d libs \<Rightarrow> path \<Rightarrow> engine \<Rightarrow> 'd store option \<times> world \<Rightarrow> (error + outcome) \<times> 'd store option \<times> world" where
  "finish_download E dest_dir g = (\<lambda>(store, w).
     (let s = release_writers (eg_share g) in
      case verify (lib_blake E) (lib_aead E) (lib_bao E) s w of
        Inl e \<Rightarrow> (Inl e, store, w)
      | Inr _ \<Rightarrow>
          (let out = \<lparr>oc_path = ls_root s, oc_encrypted = share_is_encrypted s, oc_share = emit Completed s\<rparr> in
           case store of
             None \<Rightarrow> (Inr out, None, w)
           | Some st \<Rightarrow>
               (let (st1, w1) = save_progress E s dest_dir (st, w);
                    (r, st2, w2) = store_mark_complete E (ls_id s) dest_dir (st1, w1) in
                (bind_result r (\<lambda>_. Inr out), Some st2, w2)))))"

subsection \<open>Checking a peer\<close>

record peer_check =
  pc_peer :: str
  pc_listed_relay :: bool
  pc_reachable :: bool
  pc_direct :: "bool option"
  pc_rtt_ms :: "u64 option"
  pc_serves_share :: bool
  pc_problem :: "str option"

datatype connect_result = ConnectedTo | ConnectFailed str | ConnectTimedOut

text \<open>The snapshots of the connection's selected path, until a direct one or the end of the wait.\<close>

fun check_paths :: "(bool \<times> u64) option list \<Rightarrow> peer_check \<Rightarrow> peer_check" where
  "check_paths [] c = c"
| "check_paths (None # paths) c = check_paths paths c"
| "check_paths (Some (direct, rtt) # paths) c =
     (let c1 = c\<lparr>pc_direct := Some direct, pc_rtt_ms := Some rtt\<rparr> in if direct then c1 else check_paths paths c1)"

definition check_peer ::
  "(endpoint_id \<Rightarrow> str) \<Rightarrow> (error \<Rightarrow> str) \<Rightarrow> endpoint_id \<Rightarrow> bool \<Rightarrow> endpoint_addr \<Rightarrow> connect_result \<Rightarrow> error + response \<Rightarrow>
     (bool \<times> u64) option list \<Rightarrow> peer_check" where
  "check_peer show_peer show_err me listed_relay addr conn answer paths =
     (let c = \<lparr>pc_peer = show_peer (ea_id addr), pc_listed_relay = listed_relay, pc_reachable = False, pc_direct = None,
            pc_rtt_ms = None, pc_serves_share = False, pc_problem = None\<rparr> in
      if ea_id addr = me then c\<lparr>pc_problem := Some ''that's this node''\<rparr>
      else case conn of
        ConnectFailed e \<Rightarrow> c\<lparr>pc_problem := Some e\<rparr>
      | ConnectTimedOut \<Rightarrow> c\<lparr>pc_problem := Some ''no answer within 15s''\<rparr>
      | ConnectedTo \<Rightarrow>
          (let c1 = c\<lparr>pc_reachable := True\<rparr>;
               c2 = (case answer of
                   Inr (RespManifest _) \<Rightarrow> c1\<lparr>pc_serves_share := True\<rparr>
                 | Inr _ \<Rightarrow> c1\<lparr>pc_problem := Some ''reachable, but it doesn't serve this share to us''\<rparr>
                 | Inl e \<Rightarrow> c1\<lparr>pc_problem := Some (''reachable, but the request failed: '' @ show_err e)\<rparr>) in
           check_paths paths c2))"

end
