(* ===== verification/Engine_Safety.thy ===== *)
theory Engine_Safety
  imports Engine Share_Safety Scheduler_Contract
begin

text \<open>
  The engine against any peers: the invariant that ties the scheduler's
  bookkeeping to the bytes on disk, kept by every interleaving of its steps.
\<close>

subsection \<open>The invariant\<close>

lemma emit_simps [simp]:
  "ls_have (emit e s) = ls_have s" "ls_manifest (emit e s) = ls_manifest s" "ls_layout (emit e s) = ls_layout s"
  "ls_files (emit e s) = ls_files s" "ls_id (emit e s) = ls_id s" "held (emit e s) = held s"
  "share_total_pieces (emit e s) = share_total_pieces s" "has (emit e s) = has s"
  by (simp_all add: emit_def held_def has_def share_total_pieces_def fun_eq_iff)

lemma share_ok_emit [simp]: "share_ok h A content (emit e s) w = share_ok h A content s w"
proof -
  have 1: "share_shape (emit e s) = share_shape s" unfolding share_shape_def emit_simps ..
  have 2: "entry_size (emit e s) = entry_size s" by (intro ext) (unfold entry_size_def emit_simps, rule refl)
  have 3: "in_piece (emit e s) = in_piece s" by (intro ext) (unfold in_piece_def emit_simps, rule refl)
  show ?thesis unfolding share_ok_def emit_simps 1 2 3 ..
qed

lemma send_event_simps [simp]:
  "eg_share (send_event e g) = emit e (eg_share g)" "eg_sched (send_event e g) = eg_sched g"
  "eg_connected (send_event e g) = eg_connected g" "eg_requests (send_event e g) = eg_requests g"
  "eg_strikes (send_event e g) = eg_strikes g"
  by (simp_all add: send_event_def)

text \<open>
  Everything the scheduler counts as done is held, byte for byte; the peers it
  knows are connected; \<open>k\<close> more steps fit its counters.
\<close>

definition engine_inv ::
  "blake3 \<Rightarrow> aead \<Rightarrow> bao \<Rightarrow> (nat \<Rightarrow> bytes) \<Rightarrow> nat \<Rightarrow> engine \<times> world \<Rightarrow> bool" where
  "engine_inv h A B content k = (\<lambda>(g, w).
     share_ok h A content (eg_share g) w \<and> contents_ok B content (ls_manifest (eg_share g)) \<and>
     sched_room k (eg_sched g) \<and> length (pieces (eg_sched g)) = length (ls_have (eg_share g)) \<and>
     done_set (eg_sched g) \<subseteq> held (eg_share g) \<and> dom (peers (eg_sched g)) \<subseteq> eg_connected g \<and>
     (\<forall>(q, i) \<in> set (eg_requests g). i < length (ls_have (eg_share g))))"

lemma held_bound: "held s \<subseteq> {..<length (ls_have s)}"
  by (auto simp: held_def has_idx)

lemma total_is_length: "share_shape s \<Longrightarrow> share_total_pieces s = length (ls_have s)"
  by (simp add: share_shape_def share_total_pieces_def)

lemma piece_len_Some:
  assumes "share_shape s" "p < length (ls_have s)"
  shows "\<exists>n. piece_len s p = Some n"
proof -
  obtain loc where "locate (ls_layout s) p = Some loc" by (rule share_shape_piece [OF assms])
  then show ?thesis by (simp add: piece_len_def)
qed

text \<open>What a call of the scheduler does for the engine.\<close>

lemma sched_call:
  assumes "sched_room (Suc k) s" "op_ok (length (pieces s)) x"
  obtains s' where "sched_exec x s = Some s'" "sched_room k s'" "length (pieces s') = length (pieces s)"
    "done_set s' = done_set s \<union> done_effect x"
  using sched.exec_ok [OF assms] by blast

lemma dom_after:
  assumes "sched_inv s" "Suc (card (dom (peers s))) < 2 ^ 32"
  shows "length bits = length (pieces s) \<Longrightarrow> add_peer p bits s = Some s' \<Longrightarrow> dom (peers s') = insert p (dom (peers s))"
    "set_peer_has p i s = Some s' \<Longrightarrow> dom (peers s') = dom (peers s)"
    "remove_peer p s = Some s' \<Longrightarrow> dom (peers s') = dom (peers s) - {p}"
    "pick p s = Some (r, s') \<Longrightarrow> dom (peers s') = dom (peers s)"
    "i < length (pieces s) \<Longrightarrow> complete_piece i s = Some (b, s') \<Longrightarrow> dom (peers s') = dom (peers s)"
    "i < length (pieces s) \<Longrightarrow> failed i p lacks s = Some s' \<Longrightarrow> dom (peers s') = dom (peers s)"
proof -
  show "length bits = length (pieces s) \<Longrightarrow> add_peer p bits s = Some s' \<Longrightarrow> dom (peers s') = insert p (dom (peers s))"
    using add_peer_inv [OF assms(1) _ assms(2), of bits p] by auto
  show "set_peer_has p i s = Some s' \<Longrightarrow> dom (peers s') = dom (peers s)"
    using set_peer_has_inv [OF assms, of p i] by (auto split: option.splits if_splits)
  show "remove_peer p s = Some s' \<Longrightarrow> dom (peers s') = dom (peers s) - {p}"
    using remove_peer_inv [OF assms(1), of p] by auto
  show "pick p s = Some (r, s') \<Longrightarrow> dom (peers s') = dom (peers s)"
  proof (cases "peers s p")
    case (Some bits)
    assume "pick p s = Some (r, s')"
    with pick_Some [OF assms(1) Some] show ?thesis by (auto split: option.splits)
  qed (simp add: pick_unknown)
  show "i < length (pieces s) \<Longrightarrow> complete_piece i s = Some (b, s') \<Longrightarrow> dom (peers s') = dom (peers s)"
    using complete_Some [OF assms(1), of i] by (auto split: if_splits)
  show "i < length (pieces s) \<Longrightarrow> failed i p lacks s = Some s' \<Longrightarrow> dom (peers s') = dom (peers s)"
    using failed_inv [OF assms(1), of i p lacks] by (auto split: option.splits if_splits)
qed


lemma engine_invD:
  assumes "engine_inv h A B content k (g, w)"
  shows "share_ok h A content (eg_share g) w" "contents_ok B content (ls_manifest (eg_share g))"
    "sched_room k (eg_sched g)" "length (pieces (eg_sched g)) = length (ls_have (eg_share g))"
    "done_set (eg_sched g) \<subseteq> held (eg_share g)" "dom (peers (eg_sched g)) \<subseteq> eg_connected g"
    "\<And>q i. (q, i) \<in> set (eg_requests g) \<Longrightarrow> i < length (ls_have (eg_share g))"
    "share_shape (eg_share g)" "sched_inv (eg_sched g)"
  using assms by (auto simp: engine_inv_def share_ok_def sched_room_def)

lemma engine_invI:
  assumes "share_ok h A content (eg_share g) w" "contents_ok B content (ls_manifest (eg_share g))"
    "sched_room k (eg_sched g)" "length (pieces (eg_sched g)) = length (ls_have (eg_share g))"
    "done_set (eg_sched g) \<subseteq> held (eg_share g)" "dom (peers (eg_sched g)) \<subseteq> eg_connected g"
    "\<And>q i. (q, i) \<in> set (eg_requests g) \<Longrightarrow> i < length (ls_have (eg_share g))"
  shows "engine_inv h A B content k (g, w)"
  using assms by (auto simp: engine_inv_def)

lemma room_Suc: "sched_room (Suc k) s \<Longrightarrow> sched_room k s \<and> sched_inv s \<and> Suc (card (dom (peers s))) < 2 ^ 32"
  by (simp add: sched_room_def)

lemma engine_inv_weaken: "engine_inv h A B content (Suc k) (g, w) \<Longrightarrow> engine_inv h A B content k (g, w)"
  by (auto simp: engine_inv_def room_Suc)

text \<open>One call of the scheduler, which may only complete pieces that are held.\<close>

lemma engine_sched:
  assumes inv: "engine_inv h A B content (Suc k) (g, w)" and op: "op_ok (length (ls_have (eg_share g))) x"
    and eff: "done_effect x \<subseteq> held (eg_share g)"
  obtains s' where "sched_exec x (eg_sched g) = Some s'" "sched_room k s'"
    "length (pieces s') = length (ls_have (eg_share g))" "done_set s' \<subseteq> held (eg_share g)"
proof -
  note d = engine_invD [OF inv]
  obtain s' where "sched_exec x (eg_sched g) = Some s'" "sched_room k s'" "length (pieces s') = length (pieces (eg_sched g))"
    "done_set s' = done_set (eg_sched g) \<union> done_effect x"
    by (rule sched_call [OF d(3)]) (use op d(4) in simp_all)
  then show thesis using that d(4,5) eff by auto
qed

lemma give_back_ok:
  assumes inv: "engine_inv h A B content (Suc k) (g, w)" and i: "i < length (ls_have (eg_share g))"
  shows "\<exists>g'. give_back i peer lacks g = Some g' \<and> engine_inv h A B content k (g', w) \<and> eg_share g' = eg_share g"
proof -
  note d = engine_invD [OF inv]
  obtain s' where s': "failed i peer lacks (eg_sched g) = Some s'" "sched_room k s'"
    "length (pieces s') = length (ls_have (eg_share g))" "done_set s' \<subseteq> held (eg_share g)"
    using engine_sched [OF inv, of "Failed i peer lacks"] i by auto
  have "dom (peers s') = dom (peers (eg_sched g))"
    using dom_after(6) [of "eg_sched g" i peer lacks s'] room_Suc [OF d(3)] s'(1) i d(4) by simp
  then show ?thesis
    using s' d by (intro exI [of _ "g\<lparr>eg_sched := s'\<rparr>"] conjI engine_invI) (simp_all add: give_back_def)
qed

lemma store_ok:
  assumes inv: "engine_inv h A B content k (g, w)" and i: "i < length (ls_have (eg_share g))"
  obtains r s' w' where "store_piece h A B i encoded (eg_share g) w = Some (r, s', w')"
    "engine_inv h A B content k (g\<lparr>eg_share := s'\<rparr>, w')" "ls_manifest s' = ls_manifest (eg_share g)"
    "length (ls_have s') = length (ls_have (eg_share g))" "held (eg_share g) \<subseteq> held s'" "(\<exists>b. r = Inr b) \<longrightarrow> i \<in> held s'"
proof -
  note d = engine_invD [OF inv]
  obtain r s' w' where s': "store_piece h A B i encoded (eg_share g) w = Some (r, s', w')" "share_ok h A content s' w'"
    "ls_manifest s' = ls_manifest (eg_share g)" "length (ls_have s') = length (ls_have (eg_share g))"
    "held s' = (if r = Inr True then insert i (held (eg_share g)) else held (eg_share g))" "r = Inr False \<longleftrightarrow> i \<in> held (eg_share g)"
    using store_piece_ok [OF d(1,2) i] by blast
  have grown: "held (eg_share g) \<subseteq> held s'" using s'(5) by auto
  have "engine_inv h A B content k (g\<lparr>eg_share := s'\<rparr>, w')"
    by (rule engine_invI) (use s'(2-4) d grown in simp_all)
  moreover have "i \<in> held s'" if "r = Inr b" for b using that s'(5,6) grown by (cases b) auto
  ultimately show thesis using that [OF s'(1)] s'(3,4) grown by blast
qed

lemma engine_inv_event [simp]: "engine_inv h A B content k (send_event e g, w) = engine_inv h A B content k (g, w)"
  by (simp add: engine_inv_def)

lemma engine_inv_strikes [simp]:
  "engine_inv h A B content k (g\<lparr>eg_strikes := f\<rparr>, w) = engine_inv h A B content k (g, w)"
  by (simp add: engine_inv_def)

lemma engine_inv_strike [simp]: "engine_inv h A B content k (strike p g, w) = engine_inv h A B content k (g, w)"
  "eg_share (strike p g) = eg_share g"
  by (simp_all add: strike_def)

text \<open>The share an engine works on only gains pieces.\<close>

definition gained :: "engine \<Rightarrow> engine \<Rightarrow> bool" where
  "gained g g' \<longleftrightarrow> ls_manifest (eg_share g') = ls_manifest (eg_share g) \<and>
     length (ls_have (eg_share g')) = length (ls_have (eg_share g)) \<and> held (eg_share g) \<subseteq> held (eg_share g')"

lemma gained_refl: "eg_share g' = eg_share g \<Longrightarrow> gained g g'"
  by (simp add: gained_def)

lemma gained_trans: "gained g1 g2 \<Longrightarrow> gained g2 g3 \<Longrightarrow> gained g1 g3"
  by (auto simp: gained_def)

lemma receive_ok:
  assumes inv: "engine_inv h A B content (Suc k) (g, w)" and i: "i < length (ls_have (eg_share g))"
  shows "\<exists>g' w'. receive_piece h A B se peer i encoded (g, w) = Some (g', w') \<and> engine_inv h A B content k (g', w') \<and> gained g g'"
proof -
  obtain r s' w' where s': "store_piece h A B i encoded (eg_share g) w = Some (r, s', w')"
    "engine_inv h A B content (Suc k) (g\<lparr>eg_share := s'\<rparr>, w')" "ls_manifest s' = ls_manifest (eg_share g)"
    "length (ls_have s') = length (ls_have (eg_share g))" "held (eg_share g) \<subseteq> held s'" "(\<exists>b. r = Inr b) \<longrightarrow> i \<in> held s'"
    by (rule store_ok [OF inv i, of encoded])
  show ?thesis
  proof (cases r)
    case (Inl e)
    let ?g = "strike peer (g\<lparr>eg_share := s'\<rparr>)"
    obtain g1 where "give_back i peer True ?g = Some g1" "engine_inv h A B content k (g1, w')" "eg_share g1 = s'"
      using give_back_ok [of h A B content k ?g w' i peer True] s'(2,4) i by auto
    then show ?thesis using Inl s' by (simp add: receive_piece_def gained_def)
  next
    case (Inr b)
    let ?g = "g\<lparr>eg_share := s', eg_strikes := (eg_strikes g)(peer := 0)\<rparr>"
    have inv1: "engine_inv h A B content (Suc k) (?g, w')"
      using s'(2) by (simp add: engine_inv_def)
    note d = engine_invD [OF inv1]
    have held: "done_effect (Complete i :: endpoint_id sched_op) \<subseteq> held (eg_share ?g)" using s'(6) Inr by simp
    obtain sched where sched: "sched_exec (Complete i) (eg_sched ?g) = Some sched" "sched_room k sched"
      "length (pieces sched) = length (ls_have (eg_share ?g))" "done_set sched \<subseteq> held (eg_share ?g)"
      by (rule engine_sched [OF inv1 _ held]) (use i s'(4) in simp)
    then obtain newly where c: "complete_piece i (eg_sched ?g) = Some (newly, sched)" by auto
    have "dom (peers sched) = dom (peers (eg_sched ?g))"
      using dom_after(5) [OF _ _ _ c] room_Suc [OF d(3)] i d(4) s'(4) by simp
    then have inv2: "engine_inv h A B content k (?g\<lparr>eg_sched := sched\<rparr>, w')"
      using sched d by (intro engine_invI) auto
    obtain n where n: "piece_len s' i = Some n" using piece_len_Some [of s' i] d(8) i s'(4) by auto
    show ?thesis
      using Inr s'(1,3-5) c n inv2 by (cases newly) (simp_all add: receive_piece_def gained_def Let_def)
  qed
qed


lemma back_ok:
  assumes "engine_inv h A B content (Suc k) (g, w)" and "i < length (ls_have (eg_share g))"
  shows "\<exists>g'. give_back i peer b (g\<lparr>eg_strikes := f\<rparr>) = Some g' \<and> engine_inv h A B content k (g', w) \<and> eg_share g' = eg_share g"
  using give_back_ok [of h A B content k "g\<lparr>eg_strikes := f\<rparr>" w i peer b] assms by auto

lemma answer_ok:
  assumes inv: "engine_inv h A B content (Suc k) (g, w)" and i: "i < length (ls_have (eg_share g))"
  shows "\<exists>g' w'. answer_worker h A B se peer i answer (g, w) = Some (g', w') \<and> engine_inv h A B content k (g', w') \<and> gained g g'"
proof -
  define g0 where "g0 = g\<lparr>eg_requests := remove1 (peer, i) (eg_requests g)\<rparr>"
  have same: "eg_share g0 = eg_share g" "g0\<lparr>eg_strikes := eg_strikes g0\<rparr> = g0" by (simp_all add: g0_def)
  have inv1: "engine_inv h A B content (Suc k) (g0, w)" "i < length (ls_have (eg_share g0))"
    using inv i set_remove1_subset [of "(peer, i)" "eg_requests g"] by (auto simp: engine_inv_def g0_def)
  note ret = back_ok [OF inv1]
  have step: "answer_worker h A B se peer i answer (g, w) =
      (case answer of
        Inr (RespPiece encoded) \<Rightarrow> receive_piece h A B se peer i encoded (g0, w)
      | Inr DontHave \<Rightarrow> do { g1 \<leftarrow> give_back i peer True g0; Some (g1, w) }
      | Inr Busy \<Rightarrow> do { g1 \<leftarrow> give_back i peer False g0; Some (g1, w) }
      | Inr NotFound \<Rightarrow> do {
          g1 \<leftarrow> give_back i peer False (g0\<lparr>eg_strikes := (eg_strikes g0)(peer := MAX_STRIKES)\<rparr>);
          Some (g1, w) }
      | _ \<Rightarrow> do {
          g1 \<leftarrow> give_back i peer False (strike peer g0);
          Some (send_event (PieceFailed i ''request failed'') g1, w) })"
    by (simp only: answer_worker_def g0_def [symmetric] Let_def split_conv)
  obtain g1 where t: "give_back i peer True g0 = Some g1" "engine_inv h A B content k (g1, w)" "eg_share g1 = eg_share g"
    using ret [of peer True "eg_strikes g0"] unfolding same by auto
  obtain g2 where f: "give_back i peer False g0 = Some g2" "engine_inv h A B content k (g2, w)" "eg_share g2 = eg_share g"
    using ret [of peer False "eg_strikes g0"] unfolding same by auto
  obtain g3 where n: "give_back i peer False (g0\<lparr>eg_strikes := (eg_strikes g0)(peer := MAX_STRIKES)\<rparr>) = Some g3"
    "engine_inv h A B content k (g3, w)" "eg_share g3 = eg_share g"
    using ret [of peer False] unfolding same by blast
  obtain g4 where s: "give_back i peer False (strike peer g0) = Some g4"
    "engine_inv h A B content k (g4, w)" "eg_share g4 = eg_share g"
    using ret [of peer False] unfolding same strike_def by blast
  have p: "\<exists>g' w'. receive_piece h A B se peer i e (g0, w) = Some (g', w') \<and> engine_inv h A B content k (g', w') \<and> gained g g'" for e
    using receive_ok [OF inv1, of se peer e] same by (auto simp: gained_def)
  show ?thesis
    unfolding step using t f n s p
    by (auto simp: gained_def split: sum.split response.split)
qed

lemma open_ok:
  assumes inv: "engine_inv h A B content k (g, w)"
  shows "engine_inv h A B content k (snd (open_peer peer g), w) \<and> gained g (snd (open_peer peer g))"
  using inv by (auto simp: open_peer_def engine_inv_def gained_def)

lemma join_ok:
  assumes inv: "engine_inv h A B content (Suc k) (g, w)" and peer: "peer \<in> eg_connected g"
  shows "\<exists>b g'. join_peer sp peer first g = Some (b, g') \<and> engine_inv h A B content k (g', w) \<and> gained g g' \<and>
    (\<not> b \<longrightarrow> g' = g)"
proof (cases "\<exists>b. first = Inr (RespBitfield b)")
  case False
  then show ?thesis
    using engine_inv_weaken [OF inv] by (auto simp: join_peer_def gained_refl split: sum.split response.split)
next
  case True
  then obtain b where b: "first = Inr (RespBitfield b)" by auto
  note d = engine_invD [OF inv]
  let ?bits = "unpack_bits b (share_total_pieces (eg_share g))"
  have len: "length ?bits = length (ls_have (eg_share g))" by (simp add: unpack_bits_def total_is_length [OF d(8)])
  obtain s' where s': "add_peer peer ?bits (eg_sched g) = Some s'" "sched_room k s'"
    "length (pieces s') = length (ls_have (eg_share g))" "done_set s' \<subseteq> held (eg_share g)"
    using engine_sched [OF inv, of "AddPeer peer ?bits"] len by auto
  have "dom (peers s') \<subseteq> eg_connected g"
    using dom_after(1) [OF _ _ _ s'(1)] room_Suc [OF d(3)] len d(4,6) peer by auto
  then have "engine_inv h A B content k
      (g\<lparr>eg_share := emit e (eg_share g), eg_sched := s', eg_strikes := f\<rparr>, w)" for e f
    using s' d by (intro engine_invI) auto
  then show ?thesis
    using b s'(1) by (auto simp: join_peer_def Let_def send_event_def gained_def)
qed

lemma hear_ok:
  assumes inv: "engine_inv h A B content (Suc k) (g, w)" and peer: "peer \<in> eg_connected g"
  shows "\<exists>g'. hear_peer peer msg g = Some g' \<and> engine_inv h A B content k (g', w) \<and> gained g g'"
proof -
  note d = engine_invD [OF inv] and room = room_Suc [OF engine_invD(3) [OF inv]]
  have upd: "engine_inv h A B content k (g\<lparr>eg_sched := s'\<rparr>, w) \<and> gained g (g\<lparr>eg_sched := s'\<rparr>)"
    if "sched_room k s'" "length (pieces s') = length (ls_have (eg_share g))" "done_set s' \<subseteq> held (eg_share g)"
      "dom (peers s') \<subseteq> eg_connected g" for s'
  proof
    show "engine_inv h A B content k (g\<lparr>eg_sched := s'\<rparr>, w)" by (rule engine_invI) (use that d in simp_all)
  qed (simp add: gained_def)
  show ?thesis
  proof (cases msg)
    case (RespHave piece)
    obtain s' where s': "set_peer_has peer (unat piece) (eg_sched g) = Some s'" "sched_room k s'"
      "length (pieces s') = length (ls_have (eg_share g))" "done_set s' \<subseteq> held (eg_share g)"
      using engine_sched [OF inv, of "PeerHas peer (unat piece)"] by auto
    have "dom (peers s') \<subseteq> eg_connected g" using dom_after(2) [OF _ _ s'(1)] room d(6) by simp
    then show ?thesis using upd s' RespHave by (simp add: hear_peer_def)
  next
    case (RespBitfield b)
    let ?bits = "unpack_bits b (share_total_pieces (eg_share g))"
    have len: "length ?bits = length (ls_have (eg_share g))" by (simp add: unpack_bits_def total_is_length [OF d(8)])
    obtain s' where s': "add_peer peer ?bits (eg_sched g) = Some s'" "sched_room k s'"
      "length (pieces s') = length (ls_have (eg_share g))" "done_set s' \<subseteq> held (eg_share g)"
      using engine_sched [OF inv, of "AddPeer peer ?bits"] len by auto
    have "dom (peers s') \<subseteq> eg_connected g"
      using dom_after(1) [OF _ _ _ s'(1)] room len d(4,6) peer by auto
    then show ?thesis using upd s' RespBitfield by (simp add: hear_peer_def)
  qed (use engine_inv_weaken [OF inv] in \<open>auto simp: hear_peer_def gained_refl\<close>)
qed

lemma ask_ok:
  assumes inv: "engine_inv h A B content (Suc k) (g, w)"
  shows "\<exists>r g'. ask_peer peer g = Some (r, g') \<and> engine_inv h A B content k (g', w) \<and> gained g g'"
proof (cases "engine_is_done g \<or> eg_strikes g peer \<ge> MAX_STRIKES")
  case True
  then show ?thesis using engine_inv_weaken [OF inv] by (auto simp: ask_peer_def gained_refl)
next
  case False
  note d = engine_invD [OF inv] and room = room_Suc [OF engine_invD(3) [OF inv]]
  obtain s' where s': "sched_exec (Pick peer) (eg_sched g) = Some s'" "sched_room k s'"
    "length (pieces s') = length (ls_have (eg_share g))" "done_set s' \<subseteq> held (eg_share g)"
    using engine_sched [OF inv, of "Pick peer"] by auto
  then obtain r where r: "pick peer (eg_sched g) = Some (r, s')" by auto
  have dom: "dom (peers s') \<subseteq> eg_connected g" using dom_after(4) [OF _ _ r] room d(6) by simp
  have bound: "i < length (ls_have (eg_share g))" if ri: "r = Some i" for i
  proof -
    obtain bits where bits: "peers (eg_sched g) peer = Some bits"
      using r ri by (cases "peers (eg_sched g) peer") (auto simp: pick_unknown)
    obtain c where "chosen_by (eg_sched g) bits peer c"
      "pick peer (eg_sched g) = Some (c, case c of None \<Rightarrow> eg_sched g | Some i \<Rightarrow> picked peer i (eg_sched g))"
      using pick_Some [OF d(9) bits] by blast
    then show ?thesis using chosen_by_sound(1) [OF d(9)] r ri d(4) by fastforce
  qed
  show ?thesis
  proof (cases r)
    case None
    have "engine_inv h A B content k (g\<lparr>eg_sched := s'\<rparr>, w)" by (rule engine_invI) (use s' dom d in simp_all)
    then show ?thesis using False r None by (simp add: ask_peer_def gained_def Let_def)
  next
    case (Some i)
    have "engine_inv h A B content k (g\<lparr>eg_sched := s', eg_requests := (peer, i) # eg_requests g\<rparr>, w)"
      by (rule engine_invI) (use s' dom d bound [OF Some] in auto)
    then show ?thesis using False r Some by (simp add: ask_peer_def gained_def Let_def)
  qed
qed

lemma leave_ok:
  assumes inv: "engine_inv h A B content (Suc k) (g, w)"
  shows "\<exists>g'. leave_peer sp peer used g = Some g' \<and> engine_inv h A B content k (g', w) \<and> gained g g'"
proof -
  note d = engine_invD [OF inv] and room = room_Suc [OF engine_invD(3) [OF inv]]
  obtain s' where s': "remove_peer peer (eg_sched g) = Some s'" "sched_room k s'"
    "length (pieces s') = length (ls_have (eg_share g))" "done_set s' \<subseteq> held (eg_share g)"
    using engine_sched [OF inv, of "RemovePeer peer"] by auto
  let ?g = "g\<lparr>eg_sched := s', eg_connected := eg_connected g - {peer},
      eg_requests := filter (\<lambda>(q, _). q \<noteq> peer) (eg_requests g)\<rparr>"
  have "dom (peers s') \<subseteq> eg_connected g - {peer}" using dom_after(3) [OF _ _ s'(1)] room d(6) by auto
  then have inv1: "engine_inv h A B content k (?g, w)" using s' d by (intro engine_invI) auto
  then show ?thesis using s'(1) by (auto simp: leave_peer_def Let_def gained_def)
qed

lemma engine_exec_ok:
  assumes inv: "engine_inv h A B content (Suc (Suc k)) (g, w)"
  shows "\<exists>g' w'. engine_exec h A B sp se x (g, w) = Some (g', w') \<and> engine_inv h A B content k (g', w') \<and> gained g g'"
proof -
  note inv1 = engine_inv_weaken [OF inv] and inv0 = engine_inv_weaken [OF engine_inv_weaken [OF inv]]
  show ?thesis
  proof (cases x)
    case (Connect peer)
    then show ?thesis using open_ok [OF inv0, of peer] by simp
  next
    case (Join peer first)
    show ?thesis
    proof (cases "peer \<in> eg_connected g \<and> \<not> subscribed peer g")
      case True
      then obtain b g1 where g1: "join_peer sp peer first g = Some (b, g1)" "engine_inv h A B content (Suc k) (g1, w)"
        "gained g g1" "\<not> b \<longrightarrow> g1 = g"
        using join_ok [OF inv, of peer sp first] by blast
      obtain g2 where "leave_peer sp peer False g1 = Some g2" "engine_inv h A B content k (g2, w)" "gained g1 g2"
        using leave_ok [OF g1(2), of sp peer False] by blast
      then show ?thesis using Join True g1 engine_inv_weaken [OF g1(2)] gained_trans [OF g1(3)] by (cases b) auto
    qed (use Join inv0 in \<open>auto simp: gained_refl\<close>)
  next
    case (Hear peer msg)
    then show ?thesis using hear_ok [OF inv1, of peer msg] inv0 by (auto simp: gained_refl subscribed_def)
  next
    case (Ask peer)
    then show ?thesis using ask_ok [OF inv1, of peer] inv0 by (auto simp: gained_refl)
  next
    case (Answer peer i answer)
    then show ?thesis
      using answer_ok [OF inv1, of i se peer answer] engine_invD(7) [OF inv] inv0 by (auto simp: gained_refl)
  next
    case (Leave peer)
    then show ?thesis using leave_ok [OF inv1, of sp peer True] inv0 by (auto simp: gained_refl)
  next
    case (Detached i encoded)
    show ?thesis
    proof (cases "i < length (ls_have (eg_share g))")
      case True
      obtain r s' w' where s': "store_piece h A B i encoded (eg_share g) w = Some (r, s', w')"
        "engine_inv h A B content k (g\<lparr>eg_share := s'\<rparr>, w')" "ls_manifest s' = ls_manifest (eg_share g)"
        "length (ls_have s') = length (ls_have (eg_share g))" "held (eg_share g) \<subseteq> held s'"
        by (rule store_ok [OF inv0 True, of encoded])
      have "engine_exec h A B sp se x (g, w) = Some (g\<lparr>eg_share := s'\<rparr>, w')" using True Detached s'(1) by (simp add: store_detached_def)
      then show ?thesis using s' by (intro exI conjI) (assumption | simp add: gained_def)+
    next
      case False
      then show ?thesis using inv0 Detached by (simp add: gained_refl)
    qed
  qed
qed

interpretation engine: safe_ops "engine_exec h A B sp se" "\<lambda>_ _. True" "\<lambda>n. engine_inv h A B content (2 * n + left)"
  "\<lambda>gw gw'. gained (fst gw) (fst gw')"
proof unfold_locales
  fix n gw x assume "engine_inv h A B content (2 * Suc n + left) gw"
  then show "\<exists>gw'. engine_exec h A B sp se x gw = Some gw' \<and> engine_inv h A B content (2 * n + left) gw' \<and> gained (fst gw) (fst gw')"
    using engine_exec_ok [of h A B content "2 * n + left" "fst gw" "snd gw" sp se x] by fastforce
qed (auto intro: gained_refl gained_trans)

lemma engine_run_ok:
  assumes "engine_inv h A B content (2 * length ops + k) (g, w)"
  shows "\<exists>g' w'. run_ops (engine_exec h A B sp se) ops (g, w) = Some (g', w') \<and> engine_inv h A B content k (g', w') \<and> gained g g'"
  using engine.run_safe [where k = 0 and xs = ops and left = k and s = "(g, w)" and h = h and A = A and B = B and content = content and
      sp = sp and se = se] assms by fastforce

lemma engine_new_inv:
  assumes "share_ok h A content s w" "contents_ok B content (ls_manifest s)" "n < 2 ^ 32"
  shows "engine_inv h A B content n (engine_new s, w)"
proof -
  have "done_set (sched_new (ls_have s) URGENT_WINDOW :: endpoint_id scheduler) \<subseteq> held s"
    unfolding done_set_new by (auto simp: held_def has_idx)
  then show ?thesis
    using assms by (intro engine_invI) (simp_all add: engine_new_def sched_room_def sched_new_inv)
qed

lemma done_held:
  assumes "engine_inv h A B content k (g, w)" "engine_is_done g"
  shows "held (eg_share g) = {..<length (ls_have (eg_share g))}"
proof -
  note d = engine_invD [OF assms(1)]
  have "done_set (eg_sched g) = {..<length (ls_have (eg_share g))}"
    using assms(2) is_done_set [OF d(9)] d(4) by (simp add: engine_is_done_def)
  then show ?thesis using d(5) held_bound [of "eg_share g"] by simp
qed

text \<open>C3: whatever peers join, claim, answer or forge, in whatever order, and
  however their workers are cut off, the engine never panics, every piece the
  share counts as held is the true content, nothing held is lost, and when the
  engine is done every piece is held.\<close>

theorem engine_safe:
  assumes "share_ok h A content s w" and "contents_ok B content (ls_manifest s)" and "length ops < 2 ^ 31"
  shows "\<exists>g w'. run_ops (engine_exec h A B sp se) ops (engine_new s, w) = Some (g, w') \<and>
    share_ok h A content (eg_share g) w' \<and> ls_manifest (eg_share g) = ls_manifest s \<and> held s \<subseteq> held (eg_share g) \<and>
    (engine_is_done g \<longrightarrow> held (eg_share g) = {..<length (ls_have s)})"
proof -
  have inv: "engine_inv h A B content (2 * length ops + 0) (engine_new s, w)"
    using engine_new_inv [OF assms(1,2), of "2 * length ops"] assms(3) by simp
  obtain g w' where g: "run_ops (engine_exec h A B sp se) ops (engine_new s, w) = Some (g, w')"
    "engine_inv h A B content 0 (g, w')" "gained (engine_new s) g"
    using engine_run_ok [OF inv] by blast
  have new: "eg_share (engine_new s) = s" by (simp add: engine_new_def)
  show ?thesis using g engine_invD(1) [OF g(2)] done_held [OF g(2)] new by (auto simp: gained_def)
qed

theorem engine_safe_witness:
  "\<exists>g w'. run_ops (engine_exec plain_blake toy_aead toy_bao (\<lambda>_. []) (\<lambda>_. []))
      [Connect [1], Join [1] (Inr (RespBitfield [3])), Ask [1], Answer [1] 0 (Inr (RespPiece [5])), Detached 1 [9, 9], Leave [1]]
      (engine_new toy_share, plain_world) = Some (g, w') \<and>
    share_ok plain_blake toy_aead (\<lambda>_. toy_content) (eg_share g) w'"
  using engine_safe [OF toy_share_ok, of toy_bao "[Connect [1], Join [1] (Inr (RespBitfield [3])), Ask [1], Answer [1] 0 (Inr (RespPiece [5])),
      Detached 1 [9, 9], Leave [1]]" "\<lambda>_. []" "\<lambda>_. []"] toy_contents
  by (auto simp: toy_share_simps)

end
