(* ===== verification/Subscription.thy ===== *)
theory Subscription
  imports Engine_Safety Serving_Safety
begin

text \<open>
  A subscription from both ends: what the handler writes on the stream
  (\<open>serve_subscription\<close> of \<open>handler.rs\<close>), what the downloader reads off it
  (\<open>drive_peer\<close> of \<open>download.rs\<close>), and that the downloader then believes of
  the peer what it was told.
\<close>

subsection \<open>The downloader's end\<close>

definition new_stream :: send_stream where
  "new_stream = \<lparr>sd_bytes = [], sd_error = None\<rparr>"

text \<open>The first answer on a new stream, and what is left of the stream.\<close>

definition subscribe ::
  "request codec \<Rightarrow> response codec \<Rightarrow> share_id \<Rightarrow> token option \<Rightarrow> str + send_stream \<times> recv_stream \<Rightarrow>
     error + response \<times> recv_stream" where
  "subscribe qc rc share auth opened =
     bind_result (map_err (Protocol \<circ> ProtocolSend) opened) (\<lambda>(send, recv).
     bind_result (map_err Protocol (write_frame qc (ReqSubscribe share auth) send)) (\<lambda>_.
     map_err Protocol (expect_frame rc recv)))"

lemma read_exact_shorter: "read_exact n s = Inr (b, s1) \<Longrightarrow> length (rv_bytes s1) + n = length (rv_bytes s)"
  by (auto simp: read_exact_def split: if_splits stream_end.splits)

lemma read_frame_shorter:
  assumes "read_frame c s = Inr (Some m, s1)"
  shows "length (rv_bytes s1) < length (rv_bytes s)"
proof -
  from assms obtain b s0 where r: "read_exact 4 s = Inr (b, s0)"
    by (cases "read_exact 4 s") (auto simp: read_frame_def split: read_exact_error.splits nat.splits)
  with assms obtain body where "read_exact (unat (u32_from_le_bytes b)) s0 = Inr (body, s1)"
    by (auto simp: read_frame_def Let_def ok_or_def result_simps split: if_splits option.splits bind_splits)
  with read_exact_shorter [OF r] read_exact_shorter [OF this] show ?thesis by simp
qed

text \<open>The messages read until the stream ends or breaks.\<close>

function heard :: "response codec \<Rightarrow> recv_stream \<Rightarrow> response list" where
  "heard rc s = (case read_frame rc s of Inr (Some m, s1) \<Rightarrow> m # heard rc s1 | _ \<Rightarrow> [])"
  by pat_completeness auto
termination by (relation "measure (\<lambda>(_, s). length (rv_bytes s))") (auto dest: read_frame_shorter)

declare heard.simps [simp del]

fun hear_peers :: "endpoint_id \<Rightarrow> response list \<Rightarrow> engine \<Rightarrow> engine option" where
  "hear_peers peer [] g = Some g"
| "hear_peers peer (m # ms) g = do { g1 \<leftarrow> hear_peer peer m g; hear_peers peer ms g1 }"

subsection \<open>The seeder's end\<close>

text \<open>What a subscription sends after the bitfield.\<close>

fun sent_on :: "arc \<Rightarrow> (update \<times> hub) list \<Rightarrow> response list" where
  "sent_on a [] = []"
| "sent_on a ((NewPiece p, hub) # us) = RespHave p # sent_on a us"
| "sent_on a ((Lagged, hub) # us) = RespBitfield (packed_bitfield (hub_arcs hub a)) # sent_on a us"
| "sent_on a ((Closed, hub) # us) = []"
| "sent_on a ((Tick, hub) # us) = (if still_registered a hub then sent_on a us else [])"

lemma read_sent:
  assumes "sendable c x"
  shows "\<exists>body. write_frame c x new_stream = Inr \<lparr>sd_bytes = frame_of body, sd_error = None\<rparr> \<and>
    (\<forall>rest. expect_frame c \<lparr>rv_bytes = frame_of body @ rest, rv_end = Finished\<rparr> = Inr (x, \<lparr>rv_bytes = rest, rv_end = Finished\<rparr>))"
proof -
  obtain body where "write_frame c x new_stream = Inr \<lparr>sd_bytes = frame_of body, sd_error = None\<rparr>"
    "from_bytes c body = Some x" "length body \<le> MAX_FRAME"
    using write_frame_sendable [OF assms, of new_stream] by (auto simp: new_stream_def)
  then show ?thesis using read_frame_of [of body c x] by (auto simp: expect_frame_def ok_or_def)
qed

text \<open>The messages are what is heard, whatever was on the stream before.\<close>

lemma loop_heard:
  assumes "\<forall>m \<in> set (sent_on a us). sendable rc m" "sd_error send = None"
  shows "\<exists>sent. subscription_loop rc a us send = send\<lparr>sd_bytes := sd_bytes send @ sent\<rparr> \<and>
    heard rc \<lparr>rv_bytes = sent, rv_end = Finished\<rparr> = sent_on a us"
  using assms
proof (induction a us arbitrary: send rule: sent_on.induct)
  case (2 a p hub us)
  obtain body where b: "write_frame rc (RespHave p) send = Inr (send\<lparr>sd_bytes := sd_bytes send @ frame_of body\<rparr>)"
    "from_bytes rc body = Some (RespHave p)" "length body \<le> MAX_FRAME"
    by (rule write_frame_sendable [of rc "RespHave p" send]) (use "2.prems" in auto)
  then show ?case using "2.IH" [of "send\<lparr>sd_bytes := sd_bytes send @ frame_of body\<rparr>"] "2.prems"
    by (auto simp: heard.simps read_frame_of)
next
  case (3 a hub us)
  let ?m = "RespBitfield (packed_bitfield (hub_arcs hub a))"
  obtain body where b: "write_frame rc ?m send = Inr (send\<lparr>sd_bytes := sd_bytes send @ frame_of body\<rparr>)"
    "from_bytes rc body = Some ?m" "length body \<le> MAX_FRAME"
    by (rule write_frame_sendable [of rc ?m send]) (use "3.prems" in auto)
  then show ?case using "3.IH" [of "send\<lparr>sd_bytes := sd_bytes send @ frame_of body\<rparr>"] "3.prems"
    by (auto simp: heard.simps read_frame_of)
qed (auto simp: heard.simps read_frame_def read_exact_def intro!: exI [of _ "[]"] split: if_splits)

subsection \<open>What the downloader knows\<close>

text \<open>The pieces the other node was last told to be held.\<close>

fun told :: "nat set \<Rightarrow> arc \<Rightarrow> (update \<times> hub) list \<Rightarrow> nat set" where
  "told K a [] = K"
| "told K a ((NewPiece p, hub) # us) = told (insert (unat p) K) a us"
| "told K a ((Lagged, hub) # us) = told (held (hub_arcs hub a)) a us"
| "told K a ((Closed, hub) # us) = K"
| "told K a ((Tick, hub) # us) = (if still_registered a hub then told K a us else K)"

text \<open>The scheduler believes that the peer has exactly these pieces.\<close>

definition believes :: "endpoint_id \<Rightarrow> nat set \<Rightarrow> engine \<Rightarrow> bool" where
  "believes peer K g \<longleftrightarrow> sched_inv (eg_sched g) \<and> card (dom (peers (eg_sched g))) + 1 < 2 ^ 32 \<and>
     length (pieces (eg_sched g)) = share_total_pieces (eg_share g) \<and>
     (\<exists>bits. peers (eg_sched g) peer = Some bits \<and> length bits = share_total_pieces (eg_share g) \<and>
       (\<forall>i < length bits. bits ! i = (i \<in> K)))"

lemma packed_bits:
  assumes "length (ls_have s) = n"
  shows "length (unpack_bits (packed_bitfield s) n) = n" "\<forall>i < n. unpack_bits (packed_bitfield s) n ! i = (i \<in> held s)"
  using bit_field_round_trip [of "ls_have s"] assms by (auto simp: packed_bitfield_def held_def has_idx)

lemma add_believes:
  assumes inv: "sched_inv (eg_sched g)" and pcs: "length (pieces (eg_sched g)) = share_total_pieces (eg_share g)"
    and few: "Suc (card (dom (peers (eg_sched g)) \<union> {peer})) < 2 ^ 32" and s: "length (ls_have s) = share_total_pieces (eg_share g)"
  shows "\<exists>sched. add_peer peer (unpack_bits (packed_bitfield s) (share_total_pieces (eg_share g))) (eg_sched g) = Some sched \<and>
    believes peer (held s) (g\<lparr>eg_sched := sched\<rparr>)"
proof -
  let ?bits = "unpack_bits (packed_bitfield s) (share_total_pieces (eg_share g))"
  have fin: "finite (dom (peers (eg_sched g)))" using inv by (simp add: sched_inv_def peers_ok_def)
  then have "card (dom (peers (eg_sched g))) \<le> card (dom (peers (eg_sched g)) \<union> {peer})" by (intro card_mono) auto
  then have few1: "Suc (card (dom (peers (eg_sched g)))) < 2 ^ 32" using few by simp
  have "length ?bits = length (pieces (eg_sched g))" using packed_bits(1) [OF s] pcs by simp
  from add_peer_inv [OF inv this few1, of peer]
  obtain sched where a: "add_peer peer ?bits (eg_sched g) = Some sched" "sched_inv sched"
    "peers sched = (peers (eg_sched g))(peer \<mapsto> ?bits)"
    "pieces sched = (if peers (eg_sched g) peer = None then pieces (eg_sched g) else map (drop_piece peer) (pieces (eg_sched g)))"
    by (elim exE conjE) (rule that)
  have "dom (peers sched) = dom (peers (eg_sched g)) \<union> {peer}" using a(3) by auto
  then have "card (dom (peers sched)) + 1 < 2 ^ 32" using few by simp
  moreover have "length (pieces sched) = share_total_pieces (eg_share g)" using a(4) pcs by simp
  moreover have "peers sched peer = Some ?bits" using a(3) by simp
  ultimately have "believes peer (held s) (g\<lparr>eg_sched := sched\<rparr>)"
    unfolding believes_def using a(2) packed_bits [OF s] by simp
  with a(1) show ?thesis by blast
qed

lemma hears_believes:
  assumes "believes peer K g" and "\<forall>(u, hub) \<in> set us. length (ls_have (hub_arcs hub a)) = share_total_pieces (eg_share g)"
  shows "\<exists>g'. hear_peers peer (sent_on a us) g = Some g' \<and> believes peer (told K a us) g' \<and> eg_share g' = eg_share g"
  using assms
proof (induction a us arbitrary: K g rule: sent_on.induct)
  case (2 a p hub us)
  from "2.prems"(1) obtain bits where b: "peers (eg_sched g) peer = Some bits" "length bits = share_total_pieces (eg_share g)"
    "\<forall>i < length bits. bits ! i = (i \<in> K)" and g: "sched_inv (eg_sched g)"
    "Suc (card (dom (peers (eg_sched g)))) < 2 ^ 32" "length (pieces (eg_sched g)) = share_total_pieces (eg_share g)"
    by (auto simp: believes_def)
  obtain sched where s: "set_peer_has peer (unat p) (eg_sched g) = Some sched" "sched_inv sched" "pieces sched = pieces (eg_sched g)"
    "peers sched = (peers (eg_sched g))(peer \<mapsto> bits[unat p := True])"
    using set_peer_has_inv [OF g(1,2), of peer "unat p"] b(1) by auto
  have "\<forall>i < length bits. bits[unat p := True] ! i = (i \<in> insert (unat p) K)"
    using b(3) by (cases "unat p < length bits") (auto simp: nth_list_update)
  moreover have "dom (peers sched) = dom (peers (eg_sched g))" using s(4) b(1) by auto
  ultimately have "believes peer (insert (unat p) K) (g\<lparr>eg_sched := sched\<rparr>)"
    using s b(2) g by (simp add: believes_def)
  from "2.IH" [OF this] "2.prems"(2) s(1) show ?case by (auto simp: hear_peer_def)
next
  case (3 a hub us)
  have "dom (peers (eg_sched g)) \<union> {peer} = dom (peers (eg_sched g))" using "3.prems"(1) by (auto simp: believes_def)
  then obtain sched where "add_peer peer (unpack_bits (packed_bitfield (hub_arcs hub a)) (share_total_pieces (eg_share g))) (eg_sched g)
      = Some sched" "believes peer (held (hub_arcs hub a)) (g\<lparr>eg_sched := sched\<rparr>)"
    using add_believes [of g peer "hub_arcs hub a"] "3.prems" by (auto simp: believes_def)
  with "3.IH" [of "held (hub_arcs hub a)" "g\<lparr>eg_sched := sched\<rparr>"] "3.prems"(2) show ?case by (auto simp: hear_peer_def)
qed auto

text \<open>C8: a downloader believes of a peer exactly what the peer last told: reading
  the subscription another node writes, it takes the first message for the
  peer's bitfield, hears every later one in order, and its scheduler then has
  the peer down for the pieces held at the start or at the last full bitfield
  and those announced since; no message is lost or made up.\<close>

theorem progress_heard:
  assumes "sendable qc (ReqSubscribe share auth)"
    and "\<forall>m \<in> set (RespBitfield (packed_bitfield (hub_arcs hub a)) # sent_on a us). sendable rc m"
    and "sched_inv (eg_sched g)" and "length (pieces (eg_sched g)) = share_total_pieces (eg_share g)"
    and "card (dom (peers (eg_sched g))) + 2 < 2 ^ 32"
    and "\<forall>(u, hub') \<in> set ((Tick, hub) # us). length (ls_have (hub_arcs hub' a)) = share_total_pieces (eg_share g)"
  shows "\<exists>first rest g1 g2 bits.
    subscribe qc rc share auth (Inr (new_stream,
        \<lparr>rv_bytes = sd_bytes (serve_subscription rc a hub us new_stream), rv_end = Finished\<rparr>)) = Inr (first, rest) \<and>
    join_peer sp peer (Inr first) g = Some (True, g1) \<and>
    heard rc rest = sent_on a us \<and> hear_peers peer (heard rc rest) g1 = Some g2 \<and>
    peers (eg_sched g2) peer = Some bits \<and> length bits = share_total_pieces (eg_share g) \<and>
    (\<forall>i < share_total_pieces (eg_share g). bits ! i = (i \<in> told (held (hub_arcs hub a)) a us))"
proof -
  let ?first = "RespBitfield (packed_bitfield (hub_arcs hub a))" and ?n = "share_total_pieces (eg_share g)"
  obtain b where b: "write_frame rc ?first new_stream = Inr \<lparr>sd_bytes = frame_of b, sd_error = None\<rparr>"
    "\<And>rest. expect_frame rc \<lparr>rv_bytes = frame_of b @ rest, rv_end = Finished\<rparr> = Inr (?first, \<lparr>rv_bytes = rest, rv_end = Finished\<rparr>)"
    using read_sent [of rc ?first] assms(2) by auto
  obtain sent where sent: "subscription_loop rc a us \<lparr>sd_bytes = frame_of b, sd_error = None\<rparr> = \<lparr>sd_bytes = frame_of b @ sent, sd_error = None\<rparr>"
    "heard rc \<lparr>rv_bytes = sent, rv_end = Finished\<rparr> = sent_on a us"
    using loop_heard [of a us rc "\<lparr>sd_bytes = frame_of b, sd_error = None\<rparr>"] assms(2) by auto
  obtain q where q: "write_frame qc (ReqSubscribe share auth) new_stream = Inr q" using read_sent [OF assms(1)] by blast
  have sub: "subscribe qc rc share auth (Inr (new_stream,
      \<lparr>rv_bytes = sd_bytes (serve_subscription rc a hub us new_stream), rv_end = Finished\<rparr>))
    = Inr (?first, \<lparr>rv_bytes = sent, rv_end = Finished\<rparr>)"
    using b sent(1) q by (simp add: subscribe_def serve_subscription_def)
  have n: "length (ls_have (hub_arcs hub a)) = ?n" using assms(6) by simp
  let ?e = "PeerConnected (sp peer) (length (filter id (unpack_bits (packed_bitfield (hub_arcs hub a)) ?n))) ?n"
  have e: "eg_sched (send_event ?e g) = eg_sched g" "share_total_pieces (eg_share (send_event ?e g)) = ?n"
    by (simp_all add: send_event_def emit_def share_total_pieces_def)
  have "card (dom (peers (eg_sched g)) \<union> {peer}) \<le> Suc (card (dom (peers (eg_sched g))))" by (simp add: card_insert_le_m1)
  then have few: "Suc (card (dom (peers (eg_sched g)) \<union> {peer})) < 2 ^ 32" using assms(5) by simp
  obtain sched where sched: "add_peer peer (unpack_bits (packed_bitfield (hub_arcs hub a)) ?n) (eg_sched g) = Some sched"
    "believes peer (held (hub_arcs hub a)) ((send_event ?e g)\<lparr>eg_sched := sched\<rparr>)"
    using add_believes [of "send_event ?e g" peer "hub_arcs hub a", unfolded e, OF assms(3,4) few n] by blast
  let ?g1 = "(send_event ?e g)\<lparr>eg_sched := sched, eg_strikes := (eg_strikes g)(peer := 0)\<rparr>"
  have "believes peer (held (hub_arcs hub a)) ?g1" using sched(2) by (simp add: believes_def)
  from hears_believes [OF this, of us a] assms(6) e(2) obtain g2 where
    g2: "hear_peers peer (sent_on a us) ?g1 = Some g2" "believes peer (told (held (hub_arcs hub a)) a us) g2"
      "eg_share g2 = eg_share ?g1" by auto
  have join: "join_peer sp peer (Inr ?first) g = Some (True, ?g1)"
    using sched(1) e by (simp add: join_peer_def Let_def send_event_def)
  from g2(2,3) e(2) obtain bits where bits: "peers (eg_sched g2) peer = Some bits" "length bits = ?n"
    "\<forall>i < ?n. bits ! i = (i \<in> told (held (hub_arcs hub a)) a us)"
    by (auto simp: believes_def)
  with sub join sent(2) g2(1) show ?thesis by auto
qed

text \<open>A share of two pieces whose second is announced after the bitfield, then a tick.\<close>

definition toy_answers :: "response codec" where
  "toy_answers =
     \<lparr>to_allocvec = (\<lambda>r. case r of RespHave p \<Rightarrow> Some [1, ucast p] | RespBitfield b \<Rightarrow> Some (0 # b) | _ \<Rightarrow> None),
      from_bytes = (\<lambda>b. case b of [] \<Rightarrow> None | t # c \<Rightarrow> Some (if t = 1 then RespHave (ucast (hd c)) else RespBitfield c))\<rparr>"

definition half_share :: local_share where
  "half_share = toy_share\<lparr>ls_have := [True, False]\<rparr>"

definition half_hub :: hub where
  "half_hub = \<lparr>hub_shares = [ls_id half_share \<mapsto> 0], hub_arcs = (\<lambda>_. half_share)\<rparr>"

theorem progress_heard_witness:
  "\<exists>first rest g1 g2 bits.
    subscribe (const_codec (ReqSubscribe (ls_id toy_share) None)) toy_answers (ls_id toy_share) None (Inr (new_stream,
        \<lparr>rv_bytes = sd_bytes (serve_subscription toy_answers 0 half_hub [(NewPiece 1, half_hub), (Closed, half_hub)] new_stream),
         rv_end = Finished\<rparr>)) = Inr (first, rest) \<and>
    join_peer (\<lambda>_. []) [7] (Inr first) (engine_new toy_share) = Some (True, g1) \<and>
    heard toy_answers rest = [RespHave 1] \<and> hear_peers [7] [RespHave 1] g1 = Some g2 \<and>
    peers (eg_sched g2) [7] = Some bits \<and> length bits = 2 \<and> bits ! 0 \<and> bits ! 1"
proof -
  have total: "share_total_pieces (eg_share (engine_new toy_share)) = 2"
    using total_is_length [of toy_share] toy_share_ok by (simp add: engine_new_def share_ok_def toy_share_simps)
  have "packed_bitfield half_share = [1]" by (simp add: packed_bitfield_def half_share_def) code_simp
  then have codec: "\<forall>m \<in> set (RespBitfield (packed_bitfield (hub_arcs half_hub 0)) #
      sent_on 0 [(NewPiece 1, half_hub), (Closed, half_hub)]). sendable toy_answers m"
    by (simp add: half_hub_def sendable_def toy_answers_def MAX_FRAME_def)
  have request: "sendable (const_codec (ReqSubscribe (ls_id toy_share) None)) (ReqSubscribe (ls_id toy_share) None)"
    by (simp add: sendable_def const_codec_def MAX_FRAME_def)
  have "held half_share = {0}" by (auto simp: held_def has_idx half_share_def nth_Cons' split: if_splits)
  then have "told (held (hub_arcs half_hub 0)) 0 [(NewPiece 1, half_hub), (Closed, half_hub)] = {0, 1}"
    by (auto simp: half_hub_def)
  with progress_heard [OF request codec, of "engine_new toy_share" "\<lambda>_. []" "[7]"] total
  show ?thesis
    by (fastforce simp: engine_new_def sched_new_inv half_hub_def half_share_def toy_share_simps)
qed

end
