(* ===== verification/Liveness.thy ===== *)
theory Liveness
  imports Subscription
begin

text \<open>
  Seeder and downloader together: what an honest seeder encodes, a downloader
  stores; what it is asked over the network, its handler answers; and one such
  peer that holds everything is enough to finish, with one round of a worker
  (\<open>worker\<close> of \<open>download.rs\<close>) per missing piece.
\<close>

subsection \<open>A piece from an honest seeder\<close>

text \<open>Saving a node of the tree in memory does not fail.\<close>

definition bao_saves :: "bao \<Rightarrow> bool" where
  "bao_saves B \<longleftrightarrow> (\<forall>node ob. \<exists>ob1. bao_save B node ob = Inr ob1)"

text \<open>The decoder accepts \<open>encoded\<close> as piece \<open>p\<close> of the share.\<close>

definition decodes :: "bao \<Rightarrow> local_share \<Rightarrow> nat \<Rightarrow> bytes \<Rightarrow> bool" where
  "decodes B s p encoded \<longleftrightarrow>
     (\<exists>loc leaves nodes. locate (ls_layout s) p = Some loc \<and>
        bao_decode B (fe_root (m_files (ls_manifest s) ! loc_file loc)) (unat (fe_size (m_files (ls_manifest s) ! loc_file loc)))
          (round_up_to_chunks B (unat (loc_start loc), unat (loc_end loc))) encoded = (leaves, nodes, None))"

text \<open>A seeder of the same manifest whose trees have the manifest's roots.\<close>

definition same_content :: "bao \<Rightarrow> local_share \<Rightarrow> local_share \<Rightarrow> bool" where
  "same_content B s0 s \<longleftrightarrow> ls_layout s0 = ls_layout s \<and>
     (\<forall>i < length (m_files (ls_manifest s)).
        ob_root (lf_outboard (ls_files s0 ! i)) = fe_root (m_files (ls_manifest s) ! i) \<and>
        bao_accepts B (fe_root (m_files (ls_manifest s) ! i)) (unat (fe_size (m_files (ls_manifest s) ! i))))"

lemma encoded_decodes:
  assumes "same_content B s0 s" and "encode_piece h A B p s0 w0 = Some (Inr encoded)"
    and "share_shape s" and "p < length (ls_have s)"
  shows "decodes B s p encoded"
proof -
  obtain loc where loc: "locate (ls_layout s) p = Some loc" "loc_file loc < length (m_files (ls_manifest s))"
    by (rule share_shape_piece [OF assms(3,4)])
  let ?ob = "lf_outboard (ls_files s0 ! loc_file loc)"
  from assms(1,2) loc obtain rd where
    "bao_encode B rd ?ob (round_up_to_chunks B (unat (loc_start loc), unat (loc_end loc))) = Inr encoded"
    by (auto simp: encode_piece_def same_content_def encode_range_def result_simps split: bind_splits)
  with assms(1) loc show ?thesis by (fastforce simp: decodes_def same_content_def bao_accepts_def)
qed

lemma apply_proof_saves: "bao_saves B \<Longrightarrow> \<exists>ob1. apply_proof B ob nodes = (Inr (), ob1)"
proof (induction nodes arbitrary: ob)
  case (Cons node nodes)
  obtain ob1 where "bao_save B node ob = Inr ob1" using Cons.prems unfolding bao_saves_def by blast
  with Cons show ?case by simp
qed simp

lemma store_accepts:
  assumes ok: "share_ok h A content s w" and B: "contents_ok B content (ls_manifest s)"
    and p: "p < length (ls_have s)" and dec: "decodes B s p encoded" and saves: "bao_saves B"
  shows "\<exists>b s' w'. store_piece h A B p encoded s w = Some (Inr b, s', w')"
proof (cases "has s p")
  case True
  then show ?thesis by (auto simp: store_piece_def)
next
  case False
  have shape: "share_shape s" using ok by (simp add: share_ok_def)
  obtain loc where loc: "locate (ls_layout s) p = Some loc" "loc_file loc < length (ls_files s)"
    "loc_file loc < length (m_files (ls_manifest s))"
    by (rule share_shape_piece [OF shape p])
  let ?i = "loc_file loc"
  let ?f = "ls_files s ! ?i" and ?entry = "m_files (ls_manifest s) ! ?i"
  obtain hnd where ready: "file_ready h A w ?f (entry_size s ?i) hnd" using share_ok_file [OF ok loc(2)] by blast
  have content: "length (content ?i) = unat (fe_size ?entry)" "bao_sound B (fe_root ?entry) (content ?i)"
    "entry_size s ?i = length (content ?i)"
    using B loc(3) by (simp_all add: contents_ok_def entry_size_def)
  have opened: "(case lf_writer ?f of Some hnd \<Rightarrow> Inr hnd
      | None \<Rightarrow> map_err (ChunkerReceive (data_path (lf_data ?f))) (open_data h True (lf_data ?f) w)) = Inr hnd"
    using ready by (auto simp: file_ready_def)
  have hw: "handle_writable A hnd w" "length (handle_view A hnd w) = length (content ?i)" "handle_room hnd (length (content ?i))"
    using ready content by (simp_all add: file_ready_def)
  from dec loc(1) obtain leaves nodes where d: "bao_decode B (fe_root ?entry) (unat (fe_size ?entry))
      (round_up_to_chunks B (unat (loc_start loc), unat (loc_end loc))) encoded = (leaves, nodes, None)"
    by (auto simp: decodes_def)
  have "\<forall>(off, b) \<in> set leaves. off + length b \<le> length (content ?i) \<and> b = slice off (length b) (content ?i)"
    using content(2) d unfolding bao_sound_def content(1) [symmetric] by blast
  then obtain w1 where "write_leaves A hnd leaves w = (Inr (), w1)"
    using write_leaves_ok [OF hw] by blast
  with d have dr: "decode_range A B hnd (data_path (lf_data ?f)) (fe_root ?entry) (unat (fe_size ?entry))
      (unat (loc_start loc)) (unat (loc_end loc)) encoded w = (Inr nodes, w1)"
    by (simp add: decode_range_def)
  obtain ob where ap: "apply_proof B (lf_outboard ?f) nodes = (Inr (), ob)" using apply_proof_saves [OF saves] by blast
  obtain s' where s': "mark_have p (set_local_file ?i (?f\<lparr>lf_writer := Some hnd, lf_outboard := ob\<rparr>) s) = Some s'"
    by (rule mark_have_ok [of p "set_local_file ?i (?f\<lparr>lf_writer := Some hnd, lf_outboard := ob\<rparr>) s"]) (use p in simp_all)
  note step = store_piece_def [of h A B p encoded s w, unfolded if_not_P [OF False] loc(1) idx_Some [OF loc(2)]
      idx_Some [OF loc(3)] bind_assert_Some Let_def, unfolded opened sum.case dr prod.case]
  then show ?thesis using ap s' by auto
qed

subsection \<open>Asking a node over the network\<close>

text \<open>
  One exchange: the request as a frame on a new stream, what the other node
  does with that stream, and the first frame of what comes back.
\<close>

definition exchange ::
  "(recv_stream \<Rightarrow> send_stream \<Rightarrow> 'st \<Rightarrow> (send_stream \<times> 'st) option) \<Rightarrow> request codec \<Rightarrow> response codec \<Rightarrow> request \<Rightarrow> 'st \<Rightarrow>
     ((error + response) \<times> 'st) option" where
  "exchange serve qc rc req st =
     (case write_frame qc req new_stream of
        Inl e \<Rightarrow> Some (Inl (Protocol e), st)
      | Inr sent \<Rightarrow> do {
          (back, st1) \<leftarrow> serve \<lparr>rv_bytes = sd_bytes sent, rv_end = Finished\<rparr> new_stream st;
          Some (request_peer qc rc False (Inr (new_stream, \<lparr>rv_bytes = sd_bytes back, rv_end = Finished\<rparr>)) req, st1) })"

text \<open>The answer gets back when both messages fit in frames.\<close>

lemma exchange_answer:
  assumes "sendable qc req" "sendable rc r"
    and "\<And>recv rest. expect_frame qc recv = Inr (req, rest) \<Longrightarrow>
      \<exists>out tail. serve recv new_stream st = Some (out, st1) \<and>
        (\<forall>s1. write_frame rc r new_stream = Inr s1 \<longrightarrow> sd_bytes out = sd_bytes s1 @ tail)"
  shows "exchange serve qc rc req st = Some (Inr r, st1)"
proof -
  obtain q where q: "write_frame qc req new_stream = Inr \<lparr>sd_bytes = frame_of q, sd_error = None\<rparr>"
    "\<And>rest. expect_frame qc \<lparr>rv_bytes = frame_of q @ rest, rv_end = Finished\<rparr> = Inr (req, \<lparr>rv_bytes = rest, rv_end = Finished\<rparr>)"
    using read_sent [OF assms(1)] by blast
  obtain b where b: "write_frame rc r new_stream = Inr \<lparr>sd_bytes = frame_of b, sd_error = None\<rparr>"
    "\<And>rest. expect_frame rc \<lparr>rv_bytes = frame_of b @ rest, rv_end = Finished\<rparr> = Inr (r, \<lparr>rv_bytes = rest, rv_end = Finished\<rparr>)"
    using read_sent [OF assms(2)] by blast
  obtain out tail where "serve \<lparr>rv_bytes = frame_of q, rv_end = Finished\<rparr> new_stream st = Some (out, st1)"
    "sd_bytes out = frame_of b @ tail"
    using assms(3) [OF q(2) [of "[]", simplified]] b(1) by auto
  with q(1) b show ?thesis by (simp add: exchange_def request_peer_def new_stream_def [symmetric])
qed

text \<open>What a subscription writes comes after the bitfield.\<close>

lemma write_frame_appends: "write_frame c m s = Inr s1 \<Longrightarrow> \<exists>b. sd_bytes s1 = sd_bytes s @ b"
  by (cases "to_allocvec c m"; cases "sd_error s") (auto simp: write_frame_def write_all_def ok_or_def)

lemma subscription_appends: "\<exists>b. sd_bytes (subscription_loop rc a us s) = sd_bytes s @ b"
proof (induction us arbitrary: s)
  case (Cons x us)
  obtain u hub where x: "x = (u, hub)" by (cases x)
  have step: "\<exists>b. sd_bytes (case write_frame rc msg s of Inl e \<Rightarrow> s | Inr s1 \<Rightarrow> subscription_loop rc a us s1) = sd_bytes s @ b" for msg
  proof (cases "write_frame rc msg s")
    case (Inr s1)
    with write_frame_appends [OF Inr] Cons.IH [of s1] show ?thesis by auto
  qed simp
  show ?case using step Cons.IH [of s] x by (cases u) simp_all
qed simp

subsection \<open>A node that seeds a share\<close>

text \<open>The share \<open>s0\<close> is listed; serving it only adds to its events.\<close>

definition seeds :: "local_share \<Rightarrow> arc \<Rightarrow> hub \<Rightarrow> bool" where
  "seeds s0 a hub \<longleftrightarrow> hub_shares hub (ls_id s0) = Some a \<and> (\<exists>evs. hub_arcs hub a = s0\<lparr>ls_events := evs\<rparr>)"

lemma with_events [simp]:
  "authorized h (s\<lparr>ls_events := evs\<rparr>) = authorized h s" "has (s\<lparr>ls_events := evs\<rparr>) = has s"
  "encode_piece h A B i (s\<lparr>ls_events := evs\<rparr>) = encode_piece h A B i s" "piece_len (s\<lparr>ls_events := evs\<rparr>) i = piece_len s i"
  "share_total_pieces (s\<lparr>ls_events := evs\<rparr>) = share_total_pieces s" "packed_bitfield (s\<lparr>ls_events := evs\<rparr>) = packed_bitfield s"
  by (simp_all add: authorized_def has_def encode_piece_def piece_len_def share_total_pieces_def packed_bitfield_def fun_eq_iff)

lemma seeder_lists: "seeds s0 a hub \<Longrightarrow> authorized h s0 me auth \<Longrightarrow> lookup_share h hub (ls_id s0) me auth = Some a"
  by (auto simp: seeds_def lookup_share_Some)

lemma seeder_sends:
  assumes "seeds s0 a hub" "authorized h s0 me auth"
    and "i < share_total_pieces s0" "has s0 i" "piece_len s0 i = Some n" "encode_piece h A B i s0 w0 = Some (Inr b)" "i < 2 ^ 32"
  shows "\<exists>hub' limiter'. serve_request h A B stamp w0 True now me (piece_request (ls_id s0) auth i) (hub, limiter)
      = Some (Reply (RespPiece b), hub', limiter') \<and> seeds s0 a hub'"
proof -
  obtain l where l: "limit_upload now (Some n) limiter = Some l" by (cases limiter) (simp_all add: limit_upload_def)
  obtain evs where arc: "hub_shares hub (ls_id s0) = Some a" "hub_arcs hub a = s0\<lparr>ls_events := evs\<rparr>"
    using assms(1) by (auto simp: seeds_def)
  let ?hub = "set_arc a (emit (Uploaded (word_of_nat (length b))) (hub_arcs hub a)) hub"
  have "serve_piece h A B stamp w0 True now a i (hub, limiter) = Some (RespPiece b, ?hub, l)"
    using assms(3-6) arc(2) l by (simp add: serve_piece_def)
  moreover have "unat (word_of_nat i :: u32) = i" using assms(7) by (simp add: unat_of_nat)
  moreover have "seeds s0 a ?hub" using arc by (simp add: seeds_def set_arc_def emit_def) blast
  ultimately show ?thesis
    using seeder_lists [OF assms(1,2)] by (simp add: serve_request_def piece_request_def)
qed

text \<open>A stream of the seeding node.\<close>

abbreviation node_serves ::
  "blake3 \<Rightarrow> aead \<Rightarrow> bao \<Rightarrow> request codec \<Rightarrow> response codec \<Rightarrow> (path \<Rightarrow> (nat \<times> nat) option) \<Rightarrow> world \<Rightarrow> endpoint_id \<Rightarrow>
     (update \<times> hub) list \<Rightarrow> rat \<Rightarrow> recv_stream \<Rightarrow> send_stream \<Rightarrow> hub \<times> rate_limiter option \<Rightarrow>
     (send_stream \<times> hub \<times> rate_limiter option) option" where
  "node_serves h A B qc rc stamp w0 me us now \<equiv> \<lambda>recv send. serve_stream h A B qc rc stamp w0 True now me recv us send"

lemma piece_over_network:
  assumes "seeds s0 a (fst hl)" "authorized h s0 me auth"
    and "i < share_total_pieces s0" "has s0 i" "piece_len s0 i = Some n" "encode_piece h A B i s0 w0 = Some (Inr b)" "i < 2 ^ 32"
    and "sendable qc (piece_request (ls_id s0) auth i)" "sendable rc (RespPiece b)"
  shows "\<exists>hl'. exchange (node_serves h A B qc rc stamp w0 me us now) qc rc (piece_request (ls_id s0) auth i) hl
      = Some (Inr (RespPiece b), hl') \<and> seeds s0 a (fst hl')"
proof -
  obtain hub limiter where hl: "hl = (hub, limiter)" by (cases hl)
  obtain hub' limiter' where r: "serve_request h A B stamp w0 True now me (piece_request (ls_id s0) auth i) (hub, limiter)
      = Some (Reply (RespPiece b), hub', limiter')" "seeds s0 a hub'"
    using seeder_sends [OF _ assms(2-7)] assms(1) hl by fastforce
  have "exchange (node_serves h A B qc rc stamp w0 me us now) qc rc (piece_request (ls_id s0) auth i) hl
      = Some (Inr (RespPiece b), hub', limiter')"
    by (rule exchange_answer [OF assms(8,9)]) (use r(1) hl in \<open>auto simp: serve_stream_def split: sum.split\<close>)
  with r(2) show ?thesis by auto
qed

lemma bitfield_over_network:
  assumes "seeds s0 a (fst hl)" "authorized h s0 me auth"
    and "sendable qc (ReqSubscribe (ls_id s0) auth)" "sendable rc (RespBitfield (packed_bitfield s0))"
  shows "exchange (node_serves h A B qc rc stamp w0 me us now) qc rc (ReqSubscribe (ls_id s0) auth) hl
      = Some (Inr (RespBitfield (packed_bitfield s0)), hl)"
proof (rule exchange_answer [OF assms(3,4)])
  fix recv rest assume recv: "expect_frame qc recv = Inr (ReqSubscribe (ls_id s0) auth, rest)"
  obtain hub limiter where hl: "hl = (hub, limiter)" by (cases hl)
  obtain evs where arc: "hub_arcs hub a = s0\<lparr>ls_events := evs\<rparr>" using assms(1) hl by (auto simp: seeds_def)
  obtain s1 where s1: "write_frame rc (RespBitfield (packed_bitfield s0)) new_stream = Inr s1"
    using write_frame_sendable [OF assms(4), of new_stream] by (auto simp: new_stream_def)
  obtain tail where "sd_bytes (subscription_loop rc a us s1) = sd_bytes s1 @ tail" using subscription_appends by blast
  then show "\<exists>out tail. node_serves h A B qc rc stamp w0 me us now recv new_stream hl = Some (out, hl) \<and>
      (\<forall>s1. write_frame rc (RespBitfield (packed_bitfield s0)) new_stream = Inr s1 \<longrightarrow> sd_bytes out = sd_bytes s1 @ tail)"
    using recv seeder_lists [OF assms(1,2)] arc s1 hl
    by (simp add: serve_stream_def serve_request_def serve_subscription_def)
qed

subsection \<open>One worker and an honest peer\<close>

text \<open>
  A worker's rounds: it asks, and when the scheduler found a piece, requests it
  from the peer, whose state is \<open>st\<close>, and handles the answer.
\<close>

fun worker_rounds ::
  "(engine_op \<Rightarrow> engine \<times> world \<Rightarrow> (engine \<times> world) option) \<Rightarrow> (nat \<Rightarrow> nat \<Rightarrow> 'st \<Rightarrow> ((error + response) \<times> 'st) option) \<Rightarrow>
     endpoint_id \<Rightarrow> nat \<Rightarrow> 'st \<Rightarrow> engine \<times> world \<Rightarrow> ('st \<times> engine \<times> world) option" where
  "worker_rounds exec ask peer 0 st gw = Some (st, gw)"
| "worker_rounds exec ask peer (Suc n) st gw = do {
     (g1, w1) \<leftarrow> exec (Ask peer) gw;
     (case eg_requests g1 of
        [] \<Rightarrow> worker_rounds exec ask peer n st (g1, w1)
      | (q, i) # _ \<Rightarrow> do {
          (answer, st1) \<leftarrow> ask n i st;
          gw2 \<leftarrow> exec (Answer q i answer) (g1, w1);
          worker_rounds exec ask peer n st1 gw2 }) }"

text \<open>Between two rounds: nothing is in flight and the peer, in good standing, offers every piece.\<close>

definition between :: "endpoint_id \<Rightarrow> engine \<Rightarrow> bool" where
  "between peer g \<longleftrightarrow> eg_requests g = [] \<and> eg_strikes g peer < MAX_STRIKES \<and> peer \<in> eg_connected g \<and>
     (\<forall>i < length (pieces (eg_sched g)). pieces (eg_sched g) ! i \<in> {Missing, Done}) \<and>
     (\<exists>bits. peers (eg_sched g) peer = Some bits \<and> (\<forall>i < length (pieces (eg_sched g)). bits ! i))"

definition to_do :: "engine \<Rightarrow> nat" where
  "to_do g = card ({..<length (pieces (eg_sched g))} - done_set (eg_sched g))"

lemma to_do_0: "sched_inv (eg_sched g) \<Longrightarrow> to_do g = 0 \<longleftrightarrow> engine_is_done g"
  by (auto simp: to_do_def engine_is_done_def is_done_set done_set_def)

lemma completed_peers [simp]: "peers (completed i s) = peers s"
  by (simp add: completed_def advance_playhead_def)

lemma round_done:
  assumes "engine_is_done g" "between peer g"
  shows "engine_exec h A B sp se (Ask peer) (g, w) = Some (g, w)"
  using assms by (simp add: ask_peer_def subscribed_def between_def)

lemma stored_answer:
  assumes "store_piece h A B i encoded (eg_share g) w = Some (Inr b, s', w')"
    and "sched_inv (eg_sched g)" and "i < length (pieces (eg_sched g))"
    and "answer_worker h A B se peer i (Inr (RespPiece encoded)) (g, w) = Some (g2, w2)"
  shows "eg_sched g2 = completed i (eg_sched g) \<and> eg_requests g2 = remove1 (peer, i) (eg_requests g) \<and>
    eg_strikes g2 peer = 0 \<and> eg_connected g2 = eg_connected g"
  using assms(1,4) complete_Some(1) [OF assms(2,3)]
  by (auto simp: answer_worker_def receive_piece_def Let_def split: bind_splits if_splits)

text \<open>A round while pieces are missing gets one of them.\<close>

lemma round_gains:
  assumes inv: "engine_inv h A B content (Suc (Suc k)) (g, w)" and btw: "between peer g" and run: "\<not> engine_is_done g"
    and dec: "\<And>p. p < length (ls_have (eg_share g)) \<Longrightarrow> decodes B (eg_share g) p (enc p)" and saves: "bao_saves B"
  obtains g1 g2 w2 i where "engine_exec h A B sp se (Ask peer) (g, w) = Some (g1, w)" "eg_requests g1 = [(peer, i)]"
    "engine_exec h A B sp se (Answer peer i (Inr (RespPiece (enc i)))) (g1, w) = Some (g2, w2)"
    "engine_inv h A B content k (g2, w2)" "between peer g2" "Suc (to_do g2) = to_do g" "gained g g2"
    "i < length (ls_have (eg_share g))"
proof -
  let ?S = "eg_sched g" and ?n = "length (pieces (eg_sched g))"
  note d = engine_invD [OF inv]
  from btw obtain bits where b: "peers ?S peer = Some bits" "\<forall>i < ?n. bits ! i" "\<forall>i < ?n. pieces ?S ! i \<in> {Missing, Done}"
    and idle: "eg_requests g = []" "eg_strikes g peer < MAX_STRIKES" "peer \<in> eg_connected g"
    by (auto simp: between_def)
  obtain c where c: "chosen_by ?S bits peer c" "pick peer ?S = Some (c, case c of None \<Rightarrow> ?S | Some i \<Rightarrow> picked peer i ?S)"
    using pick_Some [OF d(9) b(1)] by blast
  obtain i where i: "c = Some i"
  proof (cases c)
    case None
    with c(2) pick_idle [OF d(9) b(1)] b(2) have "\<forall>i < ?n. pieces ?S ! i \<noteq> Missing" by force
    with b(3) have "\<forall>p \<in> set (pieces ?S). p = Done" by (auto simp: in_set_conv_nth)
    with run is_done_iff [OF d(9)] show ?thesis by (simp add: engine_is_done_def)
  qed
  have si: "i < ?n" "pieces ?S ! i = Missing"
    using chosen_by_sound [OF d(9) c(1) [unfolded i]] b(3) by (auto simp: wants_def endgame_ok_def split: piece.splits)
  define g1 where "g1 = g\<lparr>eg_sched := picked peer i ?S, eg_requests := [(peer, i)]\<rparr>"
  have asked: "ask_peer peer g = Some (Some i, g1)"
    using run idle c(2) i by (simp add: ask_peer_def g1_def Let_def)
  have inv1: "engine_inv h A B content (Suc k) (g1, w)" using ask_ok [OF inv, of peer] asked by auto
  note d1 = engine_invD [OF inv1]
  have share: "eg_share g1 = eg_share g" "length (ls_have (eg_share g)) = ?n" using d(4) by (simp_all add: g1_def)
  obtain b' s' w' where stored: "store_piece h A B i (enc i) (eg_share g1) w = Some (Inr b', s', w')"
    using store_accepts [OF d1(1,2) _ _ saves, of i "enc i"] dec [of i] si(1) share by auto
  obtain g2 w2 where g2: "answer_worker h A B se peer i (Inr (RespPiece (enc i))) (g1, w) = Some (g2, w2)"
    "engine_inv h A B content k (g2, w2)" "gained g1 g2"
    using answer_ok [OF inv1, of i se peer "Inr (RespPiece (enc i))"] si(1) share by auto
  have len1: "i < length (pieces (eg_sched g1))" using si(1) by (simp add: g1_def picked_def)
  note f = stored_answer [OF stored d1(9) len1 g2(1)]
  have pcs: "pieces (eg_sched g2) = (pieces ?S)[i := Done]"
    using f completed_pieces [OF len1] by (simp add: g1_def picked_def)
  have prs: "peers (eg_sched g2) = peers ?S" using f by (simp add: g1_def picked_def)
  have pcs2: "\<forall>j < length (pieces (eg_sched g2)). pieces (eg_sched g2) ! j \<in> {Missing, Done}"
    unfolding pcs using b(3) si(1) by (simp add: nth_list_update)
  moreover have "length (pieces (eg_sched g2)) = ?n" unfolding pcs by simp
  ultimately have "between peer g2"
    unfolding between_def prs using f b(1,2) idle by (simp add: g1_def MAX_STRIKES_def)
  moreover have "Suc (to_do g2) = to_do g"
  proof -
    have "done_set (eg_sched g2) = insert i (done_set ?S)" using pcs si(1) by (auto simp: done_set_def nth_list_update)
    moreover have "i \<in> {..<?n} - done_set ?S" using si by (simp add: done_set_def)
    moreover from this have "Suc (card ({..<?n} - done_set ?S - {i})) = card ({..<?n} - done_set ?S)"
      by (intro card_Suc_Diff1) simp_all
    moreover have "{..<?n} - insert i (done_set ?S) = {..<?n} - done_set ?S - {i}" by auto
    ultimately show ?thesis using pcs by (simp add: to_do_def)
  qed
  moreover have "gained g g2" using g2(3) by (simp add: gained_def g1_def)
  moreover have "engine_exec h A B sp se (Ask peer) (g, w) = Some (g1, w)"
    using asked b(1) idle(3) by (simp add: subscribed_def)
  moreover have "engine_exec h A B sp se (Answer peer i (Inr (RespPiece (enc i)))) (g1, w) = Some (g2, w2)"
    using g2(1) by (simp add: g1_def)
  ultimately show ?thesis using that g2(2) si(1) share(2) by (simp add: g1_def)
qed

lemma decodes_gained:
  assumes "engine_inv h A B content k (g, w)" "engine_inv h A B content k' (g', w')" "gained g g'"
  shows "decodes B (eg_share g') = decodes B (eg_share g)" "length (ls_have (eg_share g')) = length (ls_have (eg_share g))"
  using engine_invD(8) [OF assms(1)] engine_invD(8) [OF assms(2)] assms(3)
  by (auto simp: decodes_def gained_def share_shape_def fun_eq_iff)

lemma rounds_finish:
  assumes "engine_inv h A B content (2 * n + k) (g, w)" and "between peer g" and "to_do g \<le> n" and "bao_saves B"
    and "\<And>p. p < length (ls_have (eg_share g)) \<Longrightarrow> decodes B (eg_share g) p (enc p)" and "I st"
    and "\<And>m p st. I st \<Longrightarrow> p < length (ls_have (eg_share g)) \<Longrightarrow>
      \<exists>st'. ask m p st = Some (Inr (RespPiece (enc p)), st') \<and> I st'"
  shows "\<exists>st' g' w'. worker_rounds (engine_exec h A B sp se) ask peer n st (g, w) = Some (st', g', w') \<and> engine_is_done g' \<and>
    engine_inv h A B content k (g', w') \<and> gained g g'"
  using assms
proof (induction n arbitrary: g w st)
  case 0
  then have "engine_is_done g" using to_do_0 [OF engine_invD(9) [OF "0.prems"(1)]] by simp
  with 0 show ?case by (simp add: gained_refl)
next
  case (Suc n)
  note inv = engine_invD(9) [OF Suc.prems(1)]
  show ?case
  proof (cases "engine_is_done g")
    case True
    then have "to_do g \<le> n" using to_do_0 [OF inv] by simp
    moreover have "engine_inv h A B content (2 * n + k) (g, w)"
      using engine_inv_weaken [OF engine_inv_weaken] Suc.prems(1) by simp
    ultimately obtain st' g' w' where "worker_rounds (engine_exec h A B sp se) ask peer n st (g, w) = Some (st', g', w')"
      "engine_is_done g'" "engine_inv h A B content k (g', w')" "gained g g'"
      using Suc.IH [of g w st] Suc.prems by blast
    moreover have "eg_requests g = []" using Suc.prems(2) by (simp add: between_def)
    ultimately show ?thesis using round_done [OF True Suc.prems(2)] by simp
  next
    case False
    obtain g1 g2 w2 i where one: "engine_exec h A B sp se (Ask peer) (g, w) = Some (g1, w)" "eg_requests g1 = [(peer, i)]"
      "engine_exec h A B sp se (Answer peer i (Inr (RespPiece (enc i)))) (g1, w) = Some (g2, w2)"
      "engine_inv h A B content (2 * n + k) (g2, w2)" "between peer g2" "Suc (to_do g2) = to_do g" "gained g g2"
      "i < length (ls_have (eg_share g))"
      by (rule round_gains [OF _ Suc.prems(2) False _ Suc.prems(4), of h A content "2 * n + k" w enc sp se])
         (use Suc.prems in auto)
    obtain st1 where st1: "ask n i st = Some (Inr (RespPiece (enc i)), st1)" "I st1"
      using Suc.prems(7) [OF Suc.prems(6) one(8)] by blast
    note same = decodes_gained [OF Suc.prems(1) one(4,7)]
    have "decodes B (eg_share g2) p (enc p)" if "p < length (ls_have (eg_share g2))" for p
      using that Suc.prems(5) [of p] same by simp
    then obtain st' g' w' where "worker_rounds (engine_exec h A B sp se) ask peer n st1 (g2, w2) = Some (st', g', w')"
      "engine_is_done g'" "engine_inv h A B content k (g', w')" "gained g2 g'"
      using Suc.IH [OF one(4,5) _ Suc.prems(4) _ st1(2)] one(6) Suc.prems(3,7) same(2) by fastforce
    with one st1(1) gained_trans [OF one(7)] show ?thesis by (auto simp del: engine_exec.simps)
  qed
qed

text \<open>A peer joins that holds everything.\<close>

lemma join_between:
  assumes "engine_inv h A B content (Suc (Suc (Suc (Suc k)))) (engine_new s, w)"
    and "unpack_bits b (share_total_pieces s) = replicate (length (ls_have s)) True"
  obtains g where "run_ops (engine_exec h A B sp se) [Connect peer, Join peer (Inr (RespBitfield b))] (engine_new s, w) = Some (g, w)"
    "engine_inv h A B content k (g, w)" "between peer g" "to_do g = length (ls_have s) - card (held s)" "gained (engine_new s) g"
proof -
  obtain g w' where g: "run_ops (engine_exec h A B sp se) [Connect peer, Join peer (Inr (RespBitfield b))] (engine_new s, w) = Some (g, w')"
    "engine_inv h A B content k (g, w')" "gained (engine_new s) g"
  proof -
    have "engine_inv h A B content (2 * length [Connect peer, Join peer (Inr (RespBitfield b))] + k) (engine_new s, w)"
      using assms(1) by (simp add: numeral_eq_Suc)
    from engine_run_ok [OF this, of sp se] that show ?thesis by blast
  qed
  let ?S = "sched_new (ls_have s) URGENT_WINDOW :: endpoint_id scheduler"
  let ?bits = "replicate (length (ls_have s)) True"
  have S: "sched_inv ?S" "pieces ?S = map (\<lambda>b. if b then Done else Missing) (ls_have s)" "peers ?S = Map.empty"
    by (simp_all add: sched_new_inv) (simp add: sched_new_def Let_def)
  from g(1) obtain s1 where s1: "add_peer peer ?bits ?S = Some s1" "eg_sched g = s1" "w' = w" "eg_requests g = []"
    "eg_strikes g peer = 0" "peer \<in> eg_connected g"
    using assms(2) S(3)
    by (auto simp: open_peer_def subscribed_def engine_new_def join_peer_def Let_def split: bind_splits)
  have s1_fields: "pieces s1 = pieces ?S" "peers s1 peer = Some ?bits"
    using add_peer_inv [OF S(1), of ?bits peer] s1(1) S(2,3) by auto
  have "between peer g"
    using s1 s1_fields S(2) by (auto simp: between_def MAX_STRIKES_def)
  moreover have "to_do g = length (ls_have s) - card (held s)"
  proof -
    have "done_set s1 = held s" using s1_fields(1) S(2) by (auto simp: done_set_def held_def has_idx split: if_splits)
    then show ?thesis using s1(2) s1_fields(1) S(2) held_bound [of s]
      by (simp add: to_do_def card_Diff_subset finite_subset)
  qed
  ultimately show ?thesis using that g s1(3) by blast
qed

subsection \<open>Two nodes\<close>

lemma seeder_finishes:
  assumes "share_ok h A content s w" and "contents_ok B content (ls_manifest s)"
    and "same_content B seeder s" and "ls_have seeder = replicate (length (ls_have s)) True" and "bao_saves B"
    and "\<And>p. p < length (ls_have s) \<Longrightarrow> encode_piece h A B p seeder w0 = Some (Inr (enc p))"
    and "seeds seeder a (fst hl)" and "authorized h seeder me auth"
    and "sendable qc (ReqSubscribe (ls_id seeder) auth)" and "sendable rc (RespBitfield (packed_bitfield seeder))"
    and "\<And>p. p < length (ls_have s) \<Longrightarrow> sendable qc (piece_request (ls_id seeder) auth p) \<and> sendable rc (RespPiece (enc p))"
    and "length (ls_have s) \<le> 2 ^ 32" and "length (ls_have s) - card (held s) \<le> n" and "n < 2 ^ 30"
  shows "\<exists>first hl1 hl2 g g' w'.
    exchange (node_serves h A B qc rc stamp w0 me us now) qc rc (ReqSubscribe (ls_id seeder) auth) hl = Some (first, hl1) \<and>
    run_ops (engine_exec h A B sp se) [Connect peer, Join peer first] (engine_new s, w) = Some (g, w) \<and>
    worker_rounds (engine_exec h A B sp se)
        (\<lambda>m p. exchange (node_serves h A B qc rc stamp w0 me [] (time m)) qc rc (piece_request (ls_id seeder) auth p))
        peer n hl1 (g, w) = Some (hl2, g', w') \<and>
    engine_is_done g' \<and> engine_inv h A B content 0 (g', w') \<and> gained (engine_new s) g'"
proof -
  have inv: "engine_inv h A B content (Suc (Suc (Suc (Suc (2 * n + 0))))) (engine_new s, w)"
    by (rule engine_new_inv [OF assms(1,2)]) (use assms(14) in simp)
  have shape: "share_shape s" using assms(1) by (simp add: share_ok_def)
  have bits: "unpack_bits (packed_bitfield seeder) (share_total_pieces s) = replicate (length (ls_have s)) True"
    using bit_field_round_trip [of "ls_have seeder"] assms(4) total_is_length [OF shape] by (simp add: packed_bitfield_def)
  obtain g where g: "run_ops (engine_exec h A B sp se) [Connect peer, Join peer (Inr (RespBitfield (packed_bitfield seeder)))]
      (engine_new s, w) = Some (g, w)" "engine_inv h A B content (2 * n + 0) (g, w)" "between peer g"
    "to_do g = length (ls_have s) - card (held s)" "gained (engine_new s) g"
    by (rule join_between [OF inv bits])
  have new: "eg_share (engine_new s) = s" by (simp add: engine_new_def)
  have len: "length (ls_have (eg_share g)) = length (ls_have s)" using g(5) new by (simp add: gained_def)
  have dec: "decodes B (eg_share g) p (enc p)" if "p < length (ls_have (eg_share g))" for p
    using that encoded_decodes [OF assms(3) assms(6) shape] decodes_gained [OF inv g(2,5)] new by simp
  have layout: "ls_layout seeder = ls_layout s" using assms(3) by (simp add: same_content_def)
  have answered: "\<exists>hl'. exchange (node_serves h A B qc rc stamp w0 me [] (time m)) qc rc (piece_request (ls_id seeder) auth p) hl
      = Some (Inr (RespPiece (enc p)), hl') \<and> seeds seeder a (fst hl')"
    if "seeds seeder a (fst hl)" "p < length (ls_have (eg_share g))" for m p hl
  proof -
    have p: "p < length (ls_have s)" using that(2) len by simp
    obtain k where k: "piece_len s p = Some k" using piece_len_Some [OF shape p] by blast
    have "has seeder p" using assms(4) p by (simp add: has_idx idx_def)
    with k p layout total_is_length [OF shape] assms(6) [OF p] assms(11) [OF p] assms(12) show ?thesis
      by (intro piece_over_network [OF that(1) assms(8)]) (simp_all add: piece_len_def share_total_pieces_def)
  qed
  have "to_do g \<le> n" using g(4) assms(13) by simp
  from rounds_finish [where I = "\<lambda>hl. seeds seeder a (fst hl)" and
      ask = "\<lambda>m p. exchange (node_serves h A B qc rc stamp w0 me [] (time m)) qc rc (piece_request (ls_id seeder) auth p)",
      OF g(2,3) this assms(5) dec assms(7) answered, of sp se]
  obtain hl2 g' w' where g': "worker_rounds (engine_exec h A B sp se)
      (\<lambda>m p. exchange (node_serves h A B qc rc stamp w0 me [] (time m)) qc rc (piece_request (ls_id seeder) auth p))
      peer n hl (g, w) = Some (hl2, g', w')" "engine_is_done g'"
    "engine_inv h A B content 0 (g', w')" "gained g g'"
    by blast
  show ?thesis
    using g(1) g'(1-3) gained_trans [OF g(5) g'(4)] bitfield_over_network [OF assms(7-10)] by blast
qed

text \<open>C4: one honest seeder is enough, and it takes one request per missing piece.
  A node seeds the share, lets the downloader have it and can encode its
  pieces. The downloader subscribes over the network and one worker asks for
  pieces, every request and answer going through frames, the handler and the
  upload limit of the seeder: after as many rounds as pieces are missing the
  download is done, and every piece is held and true.\<close>

theorem one_seeder_finishes:
  assumes "share_ok h A content s w" and "contents_ok B content (ls_manifest s)"
    and "same_content B seeder s" and "ls_have seeder = replicate (length (ls_have s)) True" and "bao_saves B"
    and "\<And>p. p < length (ls_have s) \<Longrightarrow> encode_piece h A B p seeder w0 = Some (Inr (enc p))"
    and "seeds seeder a (fst hl)" and "authorized h seeder me auth"
    and "sendable qc (ReqSubscribe (ls_id seeder) auth)" and "sendable rc (RespBitfield (packed_bitfield seeder))"
    and "\<And>p. p < length (ls_have s) \<Longrightarrow> sendable qc (piece_request (ls_id seeder) auth p) \<and> sendable rc (RespPiece (enc p))"
    and "length (ls_have s) \<le> 2 ^ 32" and "length (ls_have s) - card (held s) \<le> n" and "n < 2 ^ 30"
  shows "\<exists>first hl1 hl2 g g' w'.
    exchange (node_serves h A B qc rc stamp w0 me us now) qc rc (ReqSubscribe (ls_id seeder) auth) hl = Some (first, hl1) \<and>
    run_ops (engine_exec h A B sp se) [Connect peer, Join peer first] (engine_new s, w) = Some (g, w) \<and>
    worker_rounds (engine_exec h A B sp se)
        (\<lambda>m p. exchange (node_serves h A B qc rc stamp w0 me [] (time m)) qc rc (piece_request (ls_id seeder) auth p))
        peer n hl1 (g, w) = Some (hl2, g', w') \<and>
    engine_is_done g' \<and> held (eg_share g') = {..<length (ls_have s)} \<and> share_ok h A content (eg_share g') w'"
proof -
  obtain first hl1 hl2 g g' w' where run:
    "exchange (node_serves h A B qc rc stamp w0 me us now) qc rc (ReqSubscribe (ls_id seeder) auth) hl = Some (first, hl1)"
    "run_ops (engine_exec h A B sp se) [Connect peer, Join peer first] (engine_new s, w) = Some (g, w)"
    "worker_rounds (engine_exec h A B sp se)
        (\<lambda>m p. exchange (node_serves h A B qc rc stamp w0 me [] (time m)) qc rc (piece_request (ls_id seeder) auth p))
        peer n hl1 (g, w) = Some (hl2, g', w')"
    and ended: "engine_is_done g'" "engine_inv h A B content 0 (g', w')" "gained (engine_new s) g'"
    using seeder_finishes [OF assms] by blast
  have "ls_have (eg_share (engine_new s)) = ls_have s" by (simp add: engine_new_def)
  then show ?thesis
    using run ended(1) engine_invD(1) [OF ended(2)] done_held [OF ended(2,1)] ended(3) by (auto simp: gained_def)
qed

text \<open>The seeder of the witness: the same share, all of it held, its file in place.\<close>

definition seeding_share :: local_share where
  "seeding_share = toy_share\<lparr>ls_have := [True, True]\<rparr>"

definition seeding_world :: world where
  "seeding_world = plain_world\<lparr>files := [[Normal ''x''] \<mapsto> toy_content]\<rparr>"

definition seeding_hub :: hub where
  "seeding_hub = \<lparr>hub_shares = [ls_id seeding_share \<mapsto> 0], hub_arcs = (\<lambda>_. seeding_share)\<rparr>"

text \<open>Codecs for messages about that share.\<close>

definition seeding_requests :: "request codec" where
  "seeding_requests =
     \<lparr>to_allocvec = (\<lambda>r. case r of ReqPiece _ _ i \<Rightarrow> Some (u32_to_le_bytes i) | _ \<Rightarrow> Some []),
      from_bytes = (\<lambda>b. Some (if b = [] then ReqSubscribe (ls_id seeding_share) None
        else ReqPiece (ls_id seeding_share) None (u32_from_le_bytes b)))\<rparr>"

definition seeding_responses :: "response codec" where
  "seeding_responses =
     \<lparr>to_allocvec = (\<lambda>r. case r of RespPiece b \<Rightarrow> Some (1 # b) | RespBitfield b \<Rightarrow> Some (0 # b) | _ \<Rightarrow> None),
      from_bytes = (\<lambda>b. case b of [] \<Rightarrow> None | t # c \<Rightarrow> Some (if t = 1 then RespPiece c else RespBitfield c))\<rparr>"

lemma seeding_codecs:
  "sendable seeding_requests (ReqSubscribe (ls_id seeding_share) None)"
  "sendable seeding_requests (piece_request (ls_id seeding_share) None p)"
  "length b < MAX_FRAME \<Longrightarrow> sendable seeding_responses (RespPiece b)"
  "length b < MAX_FRAME \<Longrightarrow> sendable seeding_responses (RespBitfield b)"
proof -
  have "u32_to_le_bytes i \<noteq> []" for i by (metis length_greater_0_conv u32_le_bytes_length zero_less_numeral)
  then show "sendable seeding_requests (piece_request (ls_id seeding_share) None p)"
    by (simp add: sendable_def seeding_requests_def piece_request_def MAX_FRAME_def)
qed (simp_all add: sendable_def seeding_requests_def seeding_responses_def MAX_FRAME_def)

definition seeded_piece :: "nat \<Rightarrow> bytes" where
  "seeded_piece p = (case encode_piece plain_blake toy_aead toy_bao p seeding_share seeding_world of
     Some (Inr b) \<Rightarrow> b | _ \<Rightarrow> [])"

lemma seeded_pieces:
  assumes "p < 2"
  shows "encode_piece plain_blake toy_aead toy_bao p seeding_share seeding_world = Some (Inr (seeded_piece p)) \<and>
    length (seeded_piece p) < MAX_FRAME"
proof -
  have shape: "share_shape toy_share" using toy_share_ok by (simp add: share_ok_def)
  obtain loc where loc: "locate (ls_layout toy_share) p = Some loc" "loc_file loc < length (ls_files toy_share)"
    "unat (loc_end loc) \<le> entry_size toy_share (loc_file loc)" "unat (loc_start loc) < unat (loc_end loc)"
    by (rule share_shape_piece [OF shape, of p]) (use assms in \<open>simp_all add: toy_share_simps\<close>)
  have zero: "loc_file loc = 0" using loc(2) by (simp add: toy_share_simps)
  then have le: "unat (loc_end loc) \<le> 70000"
    using loc(3) by (simp add: entry_size_def toy_share_simps toy_manifest_def)
  let ?hnd = "PlainHandle \<lparr>fh_path = [Normal ''x''], fh_read = True, fh_write = False\<rparr>"
  have opened: "open_data plain_blake False (lf_data toy_file) seeding_world = Inr ?hnd"
    by (simp add: toy_file_def local_file_new_def open_data_def open_with_def open_file_def open_options_def
        access_fault_def plain_world_def seeding_world_def)
  have "handle_readable toy_aead ?hnd seeding_world" by (simp add: handle_readable_def)
  from handle_serves [OF this] have "serves (handle_read_at toy_aead ?hnd seeding_world) toy_content"
    by (simp add: handle_view_def file_content_def seeding_world_def)
  then have read: "read_exact_loop (\<lambda>_. handle_read_at toy_aead ?hnd seeding_world) () a n = Inr (slice a n toy_content)"
    if "a + n \<le> 70000" for a n
    using that by (simp add: serves_def)
  have ob: "ob_root (lf_outboard toy_file) = toy_content"
    by (simp add: toy_file_def local_file_new_def empty_outboard_def)
  have "bao_encode toy_bao (handle_read_at toy_aead ?hnd seeding_world) (lf_outboard toy_file)
      (unat (loc_start loc), unat (loc_end loc))
    = Inr (slice (unat (loc_start loc)) (unat (loc_end loc) - unat (loc_start loc)) toy_content)"
    using le loc(4) read [of "unat (loc_start loc)" "unat (loc_end loc) - unat (loc_start loc)"]
    by (simp add: toy_bao_def ob)
  moreover have "round_up_to_chunks toy_bao r = r" for r by (simp add: toy_bao_def)
  moreover have "length (slice (unat (loc_start loc)) (unat (loc_end loc) - unat (loc_start loc)) toy_content) < MAX_FRAME"
    using le by (simp add: slice_def MAX_FRAME_def)
  ultimately have "\<exists>b. encode_piece plain_blake toy_aead toy_bao p seeding_share seeding_world = Some (Inr b) \<and> length b < MAX_FRAME"
    using loc(1) zero opened
    by (simp add: encode_piece_def seeding_share_def encode_range_def toy_share_simps result_simps idx_def)
  then show ?thesis by (auto simp: seeded_piece_def)
qed

theorem one_seeder_finishes_witness:
  "\<exists>first hl1 hl2 g g' w'.
    exchange (node_serves plain_blake toy_aead toy_bao seeding_requests seeding_responses (\<lambda>_. None) seeding_world [7] [] 0)
      seeding_requests seeding_responses (ReqSubscribe (ls_id seeding_share) None) (seeding_hub, None) = Some (first, hl1) \<and>
    run_ops (engine_exec plain_blake toy_aead toy_bao (\<lambda>_. []) (\<lambda>_. [])) [Connect [8], Join [8] first]
      (engine_new toy_share, plain_world) = Some (g, plain_world) \<and>
    worker_rounds (engine_exec plain_blake toy_aead toy_bao (\<lambda>_. []) (\<lambda>_. []))
      (\<lambda>m p. exchange (node_serves plain_blake toy_aead toy_bao seeding_requests seeding_responses (\<lambda>_. None) seeding_world [7] []
          (of_nat m)) seeding_requests seeding_responses (piece_request (ls_id seeding_share) None p))
      [8] 2 hl1 (g, plain_world) = Some (hl2, g', w') \<and>
    engine_is_done g' \<and> held (eg_share g') = {0, 1} \<and> share_ok plain_blake toy_aead (\<lambda>_. toy_content) (eg_share g') w'"
proof -
  have have_all: "ls_have seeding_share = replicate (length (ls_have toy_share)) True"
    by (simp add: seeding_share_def toy_share_simps numeral_2_eq_2)
  have same: "same_content toy_bao seeding_share toy_share"
    using toy_bao_accepts [of toy_content]
    by (simp add: same_content_def seeding_share_def toy_share_simps toy_manifest_def toy_file_def local_file_new_def
        empty_outboard_def)
  have saves: "bao_saves toy_bao" by (simp add: bao_saves_def toy_bao_def)
  have contents: "contents_ok toy_bao (\<lambda>_. toy_content) (ls_manifest toy_share)" using toy_contents by (simp add: toy_share_simps)
  have pieces: "length (ls_have toy_share) = 2" by (simp add: toy_share_simps)
  have listed: "seeds seeding_share 0 (fst (seeding_hub, None))" by (simp add: seeds_def seeding_hub_def exI [of _ "ls_events seeding_share"])
  have open_to_all: "authorized plain_blake seeding_share [7] None"
    by (simp add: authorized_def seeding_share_def toy_share_def from_parts_def Let_def)
  have "length (packed_bitfield seeding_share) < MAX_FRAME"
    using bit_field_round_trip [of "ls_have seeding_share" "[]" 0]
    by (simp add: packed_bitfield_def have_all pieces div_ceil_def MAX_FRAME_def)
  note bits = seeding_codecs(4) [OF this]
  have p: "encode_piece plain_blake toy_aead toy_bao p seeding_share seeding_world = Some (Inr (seeded_piece p))"
    "sendable seeding_requests (piece_request (ls_id seeding_share) None p) \<and> sendable seeding_responses (RespPiece (seeded_piece p))"
    if "p < length (ls_have toy_share)" for p
    using seeded_pieces [of p] seeding_codecs(2,3) that pieces by simp_all
  have set: "{..<length (ls_have toy_share)} = {0, 1}" using pieces by auto
  have size: "length (ls_have toy_share) \<le> 2 ^ 32" "length (ls_have toy_share) - card (held toy_share) \<le> 2" "(2::nat) < 2 ^ 30"
    using pieces by simp_all
  show ?thesis
    by (rule one_seeder_finishes [OF toy_share_ok contents same have_all saves p(1) listed open_to_all seeding_codecs(1)
          bits p(2) size, unfolded set])
qed

end
