(* ===== verification/Share_Steps.thy ===== *)
theory Share_Steps
  imports Share_Safety
begin

text \<open>
  What the operations of \<open>local.rs\<close> do to a share, as a contract: each is made
  of marking pieces and of replacing the progress of one file. A relation
  between a share and a later one that holds for those two holds for all.
\<close>

text \<open>The writer a file may get: the one it had, or a handle to the file itself.\<close>

definition own_writer :: "local_file \<Rightarrow> local_file \<Rightarrow> bool" where
  "own_writer f f' \<longleftrightarrow> lf_writer f' = lf_writer f \<or>
     (\<exists>hnd. lf_writer f' = Some hnd \<and> fh_path (handle_file hnd) = data_path (lf_data f))"

locale share_steps =
  fixes R :: "local_share \<Rightarrow> local_share \<Rightarrow> bool"
  assumes refl: "R s s"
    and trans: "R s s1 \<Longrightarrow> R s1 s2 \<Longrightarrow> R s s2"
    and mark: "mark_have p s = Some s' \<Longrightarrow> R s s'"
    and local_file: "i < length (ls_files s) \<Longrightarrow> lf_data f = lf_data (ls_files s ! i) \<Longrightarrow> own_writer (ls_files s ! i) f \<Longrightarrow>
      R s (set_local_file i f s)"
begin

lemma marked:
  assumes "mark_have p (set_local_file i f s) = Some s'" "i < length (ls_files s)" "lf_data f = lf_data (ls_files s ! i)"
    "own_writer (ls_files s ! i) f"
  shows "R s s'"
  by (rule trans [OF local_file [OF assms(2-4)] mark [OF assms(1)]])

lemma mark_all: "mark_all ps s = Some s' \<Longrightarrow> R s s'"
  by (induction ps arbitrary: s) (auto split: bind_splits dest!: mark intro: refl trans)

lemma mark_complete: "mark_complete is s = Some s' \<Longrightarrow> R s s'"
proof (induction "is" arbitrary: s)
  case (Cons i "is")
  then obtain a b s1 where "Local_Share.mark_all [a..<b] s = Some s1" "Local_Share.mark_complete is s1 = Some s'"
    by (auto split: bind_splits)
  then show ?case using trans [OF mark_all] Cons.IH by blast
qed (simp add: refl)

lemma mark_restored: "mark_restored first sz ranges written ps s = Some s' \<Longrightarrow> R s s'"
proof (induction ps arbitrary: s)
  case (Cons p ps)
  then show ?case by (auto simp: Let_def split: bind_splits if_splits dest!: mark intro: trans)
qed (simp add: refl)

lemma restore_files: "restore_files h A B w i outs s = Some (r, s') \<Longrightarrow> R s s'"
proof (induction outs arbitrary: i s)
  case (Cons saved rest)
  show ?case
  proof (cases "i < length (ls_files s)")
    case True
    let ?s1 = "set_local_file i ((ls_files s ! i)\<lparr>lf_outboard := (lf_outboard (ls_files s ! i))\<lparr>ob_data := saved\<rparr>\<rparr>) s"
    have first: "R s ?s1" using True by (intro local_file) (simp_all add: own_writer_def)
    have idx: "idx (ls_files s) i = Some (ls_files s ! i)" using True by (simp add: idx_def)
    have rest: "R s s'" if "Local_Share.restore_files h A B w (Suc i) rest s2 = Some (r, s')" "R s s2" for s2
      using trans [OF that(2) Cons.IH [OF that(1)]] .
    have restored: "R s s'" if "Local_Share.mark_restored n sz ranges written ps ?s1 = Some s2"
      "Local_Share.restore_files h A B w (Suc i) rest s2 = Some (r, s')" for n sz ranges written ps s2
      using rest [OF that(2) trans [OF first mark_restored [OF that(1)]]] .
    from Cons.prems show ?thesis
      unfolding restore_files.simps idx option.case Let_def
      by (auto split: bind_splits if_splits sum.splits intro: first dest: rest [OF _ refl]) (erule restored)
  qed (use Cons.prems in \<open>simp add: idx_def refl\<close>)
qed (simp add: refl)

lemma store_piece: "store_piece h A B p encoded s w = Some (r, s', w') \<Longrightarrow> R s s'"
  by (auto simp: store_piece_def Let_def own_writer_def refl split: if_splits option.splits bind_splits sum.splits prod.splits
      intro!: local_file dest: open_handle_path elim!: marked)

end

end
