(* ===== verification/Swarm.thy ===== *)
theory Swarm
  imports Engine
begin

text \<open>
  One whole download, \<open>run\<close> of \<open>download.rs\<close>: the search for the manifest, the
  files, the swarming loop and its end. Everything from outside comes as a
  list: the rounds of the search, then the events of the loop, between which
  the tasks of the engine take their steps.
\<close>

subsection \<open>The swarming loop\<close>

text \<open>
  \<open>Work\<close> is a step of some task; the others are the branches of the loop's
  \<open>select!\<close>, after each of which the loop looks whether it is finished. A found
  peer comes with the number of peers in use and the time.
\<close>

datatype loop_event =
    Work engine_op
  | FinishedNotified
  | FoundPeer endpoint_addr nat rat
  | CancelRequested
  | SaveTick

definition save_now :: "'d libs \<Rightarrow> path \<Rightarrow> engine \<Rightarrow> 'd store option \<times> world \<Rightarrow> 'd store option \<times> world" where
  "save_now E dest_dir g = (\<lambda>(store, w).
     (case store of
        None \<Rightarrow> (None, w)
      | Some st \<Rightarrow> (let (st1, w1) = save_progress E (eg_share g) dest_dir (st, w) in (Some st1, w1))))"

fun swarm ::
  "'d libs \<Rightarrow> (endpoint_id \<Rightarrow> str) \<Rightarrow> (chunker_error \<Rightarrow> str) \<Rightarrow> path \<Rightarrow> loop_event list \<Rightarrow>
     engine \<times> tracker \<times> 'd store option \<times> world \<Rightarrow>
     ((error + outcome) option \<times> engine \<times> 'd store option \<times> world) option" where
  "swarm E sp se dest_dir [] (g, t, store, w) = Some (None, g, store, w)"
| "swarm E sp se dest_dir (x # xs) (g, t, store, w) =
     (let continue = (\<lambda>(t1, store1, w1).
            if engine_is_done g then
              (let (r, store2, w2) = finish_download E dest_dir g (store1, w1) in Some (Some r, g, store2, w2))
            else swarm E sp se dest_dir xs (g, t1, store1, w1)) in
      case x of
        Work op \<Rightarrow> do {
          (g1, w1) \<leftarrow> engine_exec (lib_blake E) (lib_aead E) (lib_bao E) sp se op (g, w);
          swarm E sp se dest_dir xs (g1, t, store, w1) }
      | FinishedNotified \<Rightarrow> continue (t, store, w)
      | FoundPeer addr running now \<Rightarrow> continue (snd (dial_found sp now running addr g t), store, w)
      | SaveTick \<Rightarrow> continue (t, save_now E dest_dir g (store, w))
      | CancelRequested \<Rightarrow>
          (let (e, store1, w1) = cancel_download E dest_dir g (store, w) in Some (Some (Inl e), g, store1, w1)))"

subsection \<open>The whole download\<close>

record download_ctx =
  cx_me :: endpoint_id
  cx_reseed :: bool
  cx_discovery_timeout :: nat
  cx_key :: "master_key option"
  cx_allow :: "endpoint_id set option"

definition search_new :: "endpoint_id \<Rightarrow> search" where
  "search_new me = \<lparr>sh_candidates = [], sh_attempts = Map.empty, sh_next = 0, sh_tracker = tracker_new me\<rparr>"

text \<open>The peers of the share code wait in the channel, which holds 256, before the first round.\<close>

definition first_found :: "share_code \<Rightarrow> round list \<Rightarrow> round list" where
  "first_found code rounds =
     (case rounds of [] \<Rightarrow> [] | r # rs \<Rightarrow> r\<lparr>rd_drained := take 256 (sc_peers code) @ rd_drained r\<rparr> # rs)"

definition manifest_received :: "manifest \<Rightarrow> tracker \<Rightarrow> tracker" where
  "manifest_received m t =
     t\<lparr>tk_events := tk_events t @ [ManifestReceived (m_name m) (length (m_files m)) (total_size m) (total_pieces (layout_new m))]\<rparr>"

text \<open>
  How a run leaves the registry: the address \<open>a\<close> is the share's; a
  registration goes with a run that fails.
\<close>

definition settle :: "bool \<Rightarrow> arc \<Rightarrow> engine \<Rightarrow> (error + outcome) option \<Rightarrow> hub \<Rightarrow> hub" where
  "settle reseed a g r hub =
     (if \<not> reseed then hub
      else case r of
        None \<Rightarrow> set_arc a (eg_share g) hub
      | Some (Inl e) \<Rightarrow> drop_registration a (set_arc a (eg_share g) hub)
      | Some (Inr out) \<Rightarrow> set_arc a (oc_share out) hub)"

definition download_run ::
  "'d libs \<Rightarrow> (endpoint_id \<Rightarrow> str) \<Rightarrow> (chunker_error \<Rightarrow> str) \<Rightarrow> (endpoint_id set \<Rightarrow> endpoint_id list) \<Rightarrow>
     download_ctx \<Rightarrow> share_code \<Rightarrow> path \<Rightarrow> arc \<Rightarrow> round list \<Rightarrow> loop_event list \<Rightarrow> 'd store option \<times> hub \<times> world \<Rightarrow>
     ((error + outcome) option \<times> 'd store option \<times> hub \<times> world) option" where
  "download_run E sp se order ctx code dest_dir a rounds events = (\<lambda>(store, hub, w).
     (case search_rounds (lib_blake E) (pc_manifest E) (lib_lower E) sp code (cx_discovery_timeout ctx)
             (first_found code rounds) (search_new (cx_me ctx)) of
        Inr s \<Rightarrow> Some (None, store, hub, w)
      | Inl (Inl e) \<Rightarrow> Some (Some (Inl e), store, hub, w)
      | Inl (Inr (m, b, addr, t)) \<Rightarrow> do {
          (made, store1, hub1, w1) \<leftarrow> prepare_download E order (cx_reseed ctx) (cx_key ctx) (cx_allow ctx)
             code m b dest_dir a (store, hub, w);
          (case made of
             Inl e \<Rightarrow> Some (Some (Inl e), store1, hub1, w1)
           | Inr s \<Rightarrow> do {
               (r, g, store2, w2) \<leftarrow> swarm E sp se dest_dir (Work (Connect (ea_id addr)) # FinishedNotified # events)
                  (engine_new s, manifest_received m t, store1, w1);
               Some (r, store2, settle (cx_reseed ctx) a g r hub1, w2) }) }))"

end
