(* ===== verification/Engine_Steps.thy ===== *)
theory Engine_Steps
  imports Share_Steps Swarm
begin

text \<open>
  What the engine of \<open>download.rs\<close> does to a share: its tasks only store
  pieces and send events. A relation that holds for those two, such as one that
  satisfies the contract of \<open>Share_Steps\<close>, holds for every task and the loop.
\<close>

locale engine_steps =
  fixes h :: blake3 and A :: aead and B :: bao
    and R :: "local_share \<Rightarrow> local_share \<Rightarrow> bool"
  assumes refl: "R s s"
    and trans: "R s s1 \<Longrightarrow> R s1 s2 \<Longrightarrow> R s s2"
    and store_piece: "store_piece h A B p encoded s w = Some (r, s', w') \<Longrightarrow> R s s'"
    and emit: "R s (emit e s)"
begin

lemma give_back: "give_back p peer b g = Some g' \<Longrightarrow> eg_share g' = eg_share g"
  by (auto simp: give_back_def split: bind_splits)

lemma sent: "R s s1 \<Longrightarrow> R s (emit e s1)"
  by (rule trans [OF _ emit])

lemma receive_piece:
  assumes "receive_piece h A B se peer p encoded (g, w) = Some (g', w')"
  shows "R (eg_share g) (eg_share g')"
  using assms unfolding receive_piece_def
  by (auto simp: Let_def strike_def send_event_def emit refl split: option.splits sum.splits prod.splits bind_splits if_splits
      dest!: store_piece give_back intro!: sent)

lemma answer_worker:
  assumes "answer_worker h A B se peer p answer (g, w) = Some (g', w')"
  shows "R (eg_share g) (eg_share g')"
  using assms unfolding answer_worker_def
  by (auto simp: Let_def strike_def send_event_def refl split: sum.splits response.splits bind_splits
      dest!: receive_piece give_back intro!: sent)

lemma engine_exec: "engine_exec h A B sp se x (g, w) = Some (g', w') \<Longrightarrow> R (eg_share g) (eg_share g')"
proof (cases x)
  case (Join peer first)
  assume "Engine.engine_exec h A B sp se x (g, w) = Some (g', w')"
  then show ?thesis
    unfolding Join engine_exec.simps
    by (auto simp: join_peer_def leave_peer_def Let_def send_event_def refl emit
        split: if_splits sum.splits response.splits bind_splits)
qed (auto simp: open_peer_def hear_peer_def ask_peer_def leave_peer_def store_detached_def Let_def send_event_def refl emit
  split: if_splits response.splits bind_splits option.splits prod.splits dest!: answer_worker store_piece)

lemma resumed_event: "resumed_event s = Some s' \<Longrightarrow> R s s'"
  by (auto simp: resumed_event_def refl emit split: if_splits bind_splits)

lemma run_ops: "run_ops (engine_exec h A B sp se) ops (g, w) = Some (g', w') \<Longrightarrow> R (eg_share g) (eg_share g')"
proof (induction ops arbitrary: g w)
  case (Cons x ops)
  then obtain g1 w1 where x: "Engine.engine_exec h A B sp se x (g, w) = Some (g1, w1)"
    "Chorrent_Prelude.run_ops (Engine.engine_exec h A B sp se) ops (g1, w1) = Some (g', w')"
    by (auto split: bind_splits)
  show ?case by (rule trans [OF engine_exec [OF x(1)] Cons.IH [OF x(2)]])
qed (simp add: refl)

lemma swarm:
  "swarm E sp se dest xs (g, t, store, w) = Some (r, g', store', w') \<Longrightarrow> lib_blake E = h \<Longrightarrow> lib_aead E = A \<Longrightarrow> lib_bao E = B \<Longrightarrow>
    R (eg_share g) (eg_share g')"
proof (induction xs arbitrary: g t store w)
  case (Cons x xs)
  show ?case
  proof (cases x)
    case (Work op)
    with Cons.prems obtain g1 w1 where g1: "Engine.engine_exec h A B sp se op (g, w) = Some (g1, w1)"
      "Swarm.swarm E sp se dest xs (g1, t, store, w1) = Some (r, g', store', w')"
      by (auto split: bind_splits)
    show ?thesis using Cons.IH [OF g1(2)] Cons.prems(2-4) trans [OF engine_exec [OF g1(1)]] by blast
  next
    case SaveTick
    obtain st1 w1 where "save_now E dest g (store, w) = (st1, w1)" by fastforce
    with Cons SaveTick show ?thesis by (auto simp: Let_def refl split: if_splits prod.splits)
  qed (use Cons in \<open>auto simp: Let_def cancel_download_def refl split: if_splits prod.splits\<close>)
qed (simp add: refl)

end

end
