(* ===== verification/Swarm_Safety.thy ===== *)
theory Swarm_Safety
  imports Engine_Steps Engine_Safety Store_Reload
begin

text \<open>
  What a whole download guarantees, whatever the peers and the network do:
  when it ends well, the files on disk are the true content.
\<close>

subsection \<open>What no step changes\<close>

text \<open>The identity of a share: everything but its progress.\<close>

definition same_share :: "local_share \<Rightarrow> local_share \<Rightarrow> bool" where
  "same_share s s' \<longleftrightarrow> ls_id s' = ls_id s \<and> ls_manifest s' = ls_manifest s \<and> ls_root s' = ls_root s \<and>
     map lf_data (ls_files s') = map lf_data (ls_files s)"

lemma same_share_refl [simp]: "same_share s s"
  by (simp add: same_share_def)

lemma same_share_trans: "same_share s s' \<Longrightarrow> same_share s' s'' \<Longrightarrow> same_share s s''"
  by (simp add: same_share_def)

lemma same_share_emit [simp]: "same_share s (emit e s') = same_share s s'"
  by (simp add: same_share_def emit_def)

lemma same_share_allowed [simp]: "same_share s (set_allowed a s') = same_share s s'"
  by (simp add: same_share_def set_allowed_def)

lemma same_share_release [simp]: "same_share s (release_writers s') = same_share s s'"
  by (simp add: same_share_def release_writers_def comp_def)

lemma same_share_mark: "mark_have p s = Some s' \<Longrightarrow> same_share s s'"
  unfolding mark_have_def by (cases "idx (ls_have s) p") (auto simp: same_share_def split: if_splits)

lemma same_share_file:
  "i < length (ls_files s) \<Longrightarrow> lf_data f' = lf_data (ls_files s ! i) \<Longrightarrow> same_share s (set_local_file i f' s)"
  by (simp add: same_share_def set_local_file_def map_update list_update_same_conv)

interpretation same: share_steps same_share
  by unfold_locales (auto intro: same_share_trans same_share_mark same_share_file)

interpretation same_run: engine_steps h A B same_share
  by unfold_locales (auto intro: same_share_trans same.store_piece)

subsection \<open>The share a download works on\<close>

lemma download_files_length:
  "download_files B dest key n es w = (Inr (fs, fin), w') \<Longrightarrow> length fs = length es"
  by (induction es arbitrary: n w fs fin w') (auto simp: Let_def split: sum.splits prod.splits option.splits if_splits)

lemma download_files_data:
  "download_files B dest key n es w = (Inr (fs, fin), w') \<Longrightarrow> i < length es \<Longrightarrow>
     lf_data (fs ! i) = download_data dest key (n + i) (es ! i)"
proof (induction es arbitrary: n w fs fin w' i)
  case (Cons e es)
  obtain r w1 made fin' where r: "download_files B dest key (n + 1) es w1 = (Inr (made, fin'), w')" "fs = local_file_new (download_data dest key n e) r # made"
    using Cons.prems(1) by (auto simp: Let_def split: sum.splits prod.splits option.splits if_splits)
  show ?case using Cons.IH [OF r(1)] r(2) Cons.prems(2) by (cases i) (simp_all add: local_file_new_def)
qed simp

lemma for_download_share:
  assumes "for_download h B m b dest key secret w = Some (Inr s, w')"
  shows "ls_id s = id_of h b" "ls_manifest s = m" "length (ls_files s) = length (m_files m)"
    "ls_root s = (case key of Some _ \<Rightarrow> dest | None \<Rightarrow> path_join dest (path_of (m_name m)))"
    "i < length (m_files m) \<Longrightarrow> lf_data (ls_files s ! i) = download_data dest key i (m_files m ! i)"
proof -
  let ?root = "case key of Some _ \<Rightarrow> dest | None \<Rightarrow> path_join dest (path_of (m_name m))"
  from assms obtain fs fin where fs: "download_files B dest key 0 (m_files m) w = (Inr (fs, fin), w')"
    "mark_complete fin (from_parts h m b fs secret False ?root) = Some s"
    by (auto simp: for_download_def split: prod.splits sum.splits bind_splits)
  from same.mark_complete [OF fs(2)] download_files_length [OF fs(1)]
  show "ls_id s = id_of h b" "ls_manifest s = m" "length (ls_files s) = length (m_files m)" "ls_root s = ?root"
    by (auto simp: same_share_def from_parts_def Let_def dest: map_eq_imp_length_eq)
  have "map lf_data (ls_files s) = map lf_data fs"
    using same.mark_complete [OF fs(2)] by (simp add: same_share_def from_parts_def Let_def)
  then show "i < length (m_files m) \<Longrightarrow> lf_data (ls_files s ! i) = download_data dest key i (m_files m ! i)"
    using download_files_data [OF fs(1)] download_files_length [OF fs(1)] by (metis add_0 map_eq_imp_length_eq nth_map)
qed

lemma same_data: "same_share s s' \<Longrightarrow> i < length (ls_files s) \<Longrightarrow> lf_data (ls_files s' ! i) = lf_data (ls_files s ! i)"
  by (metis map_eq_imp_length_eq nth_map same_share_def)

lemma same_length: "same_share s s' \<Longrightarrow> length (ls_files s') = length (ls_files s)"
  by (auto simp: same_share_def dest: map_eq_imp_length_eq)

lemma restored_share_same:
  assumes "restored_share E m b dest key secret store w = Some (Inr s, w')"
  obtains s0 w0 where "for_download (lib_blake E) (lib_bao E) m b dest key secret w = Some (Inr s0, w')" "same_share s0 s"
  using assms that unfolding restored_share_def restore_progress_def
  by (auto split: option.splits prod.splits sum.splits dest!: same.restore_files)

lemma prepare_share:
  assumes "prepare_download E order reseed key allow code m b dest a (store, hub, w) = Some (Inr s, store', hub', w')"
  shows "ls_manifest s = m" "length (ls_files s) = length (m_files m)"
    "ls_root s = (case key of Some _ \<Rightarrow> dest | None \<Rightarrow> path_join dest (path_of (m_name m)))"
    "i < length (m_files m) \<Longrightarrow> lf_data (ls_files s ! i) = download_data dest key i (m_files m ! i)"
proof -
  from assms obtain s0 s1 w1 where s0: "restored_share E m b dest key (sc_secret code) store w = Some (Inr s0, w1)"
    and s1: "resumed_event (set_allowed allow s0) = Some s1" "s = s1"
    by (auto simp: prepare_download_def split: bind_splits sum.splits if_splits prod.splits)
  obtain s2 w2 where s2: "for_download (lib_blake E) (lib_bao E) m b dest key (sc_secret code) w = Some (Inr s2, w1)" "same_share s2 s0"
    by (rule restored_share_same [OF s0])
  have "same_share s2 s"
    using same_share_trans [OF s2(2)] same_run.resumed_event [OF s1(1)] s1(2) by (auto simp: same_share_def set_allowed_def)
  then show "i < length (m_files m) \<Longrightarrow> lf_data (ls_files s ! i) = download_data dest key i (m_files m ! i)"
    using for_download_share(3,5) [OF s2(1)] same_data by simp
  from \<open>same_share s2 s\<close> for_download_share [OF s2(1)] show "ls_manifest s = m" "length (ls_files s) = length (m_files m)"
    "ls_root s = (case key of Some _ \<Rightarrow> dest | None \<Rightarrow> path_join dest (path_of (m_name m)))"
    by (auto simp: same_share_def dest: map_eq_imp_length_eq)
qed

subsection \<open>How a download ends\<close>

lemma put_record_files: "put_record E tbl n v (st, w) = (r, st', w') \<Longrightarrow> files w' = files w"
  by (auto simp: put_record_def sealer_seal_def draw_def Let_def split: option.splits prod.splits sum.splits)

lemma save_progress_files: "save_progress E s dest (st, w) = (st', w') \<Longrightarrow> files w' = files w"
  by (cases "put_record E PROGRESS (download_key (lib_blake E) (ls_id s) dest) (the (to_allocvec (pc_outboards E) (outboard_snapshots s))) (st, w)")
     (auto simp: save_progress_def split: option.splits dest: put_record_files)

lemma remove_records_files: "remove_records E tbls n (st, w) = (r, st', w') \<Longrightarrow> w' = w"
  by (auto simp: remove_records_def split: sum.splits)

lemma finish_download_ok:
  assumes "finish_download E dest g (store, w) = (Inr out, store', w')"
  shows "verify (lib_blake E) (lib_aead E) (lib_bao E) (release_writers (eg_share g)) w = Inr ()"
    "same_share (eg_share g) (oc_share out)" "oc_path out = ls_root (eg_share g)" "files w' = files w"
proof -
  show v: "verify (lib_blake E) (lib_aead E) (lib_bao E) (release_writers (eg_share g)) w = Inr ()"
    using assms by (auto simp: finish_download_def Let_def split: sum.splits)
  have out: "out = \<lparr>oc_path = ls_root (release_writers (eg_share g)), oc_encrypted = share_is_encrypted (release_writers (eg_share g)),
      oc_share = emit Completed (release_writers (eg_share g))\<rparr>"
    using assms v by (auto simp: finish_download_def Let_def store_mark_complete_def result_simps split: option.splits prod.splits)
  show "same_share (eg_share g) (oc_share out)" unfolding out by simp
  show "oc_path out = ls_root (eg_share g)" unfolding out by (simp add: release_writers_def)
  show "files w' = files w"
  proof (cases store)
    case (Some st)
    obtain st1 w1 where w1: "save_progress E (release_writers (eg_share g)) dest (st, w) = (st1, w1)" by fastforce
    with assms v Some save_progress_files [OF w1] show ?thesis
      by (auto simp: finish_download_def Let_def store_mark_complete_def split: prod.splits dest!: remove_records_files)
  qed (use assms v in \<open>simp add: finish_download_def Let_def\<close>)
qed

lemma swarm_ended:
  assumes "swarm E sp se dest xs (g, t, store, w) = Some (Some (Inr out), g', store', w')"
  shows "engine_is_done g' \<and> (\<exists>store1 w1. finish_download E dest g' (store1, w1) = (Inr out, store', w'))"
  using assms
proof (induction xs arbitrary: g t store w)
  case (Cons x xs)
  show ?case
  proof (cases x)
    case (Work op)
    with Cons show ?thesis by (auto simp del: engine_exec.simps split: bind_splits)
  next
    case SaveTick
    obtain st1 w1 where "save_now E dest g (store, w) = (st1, w1)" by fastforce
    with Cons SaveTick show ?thesis by (auto simp: Let_def split: if_splits prod.splits)
  qed (use Cons in \<open>auto simp: Let_def cancel_download_def split: if_splits prod.splits\<close>)
qed simp

subsection \<open>A download that succeeds\<close>

lemma search_round_found:
  "search_round h pc lower sp code timeout r s = Inl (Inr (m, b, addr, t)) \<Longrightarrow>
     \<exists>answer. fetch_manifest h pc lower code answer = Inr (m, b)"
  by (auto simp: search_round_def Let_def split: prod.splits if_splits waited.splits option.splits sum.splits bind_splits)

lemma search_rounds_found:
  "search_rounds h pc lower sp code timeout rs s = Inl (Inr (m, b, addr, t)) \<Longrightarrow>
     \<exists>answer. fetch_manifest h pc lower code answer = Inr (m, b)"
  by (induction rs arbitrary: s) (auto split: sum.splits intro: search_round_found)

lemma fetch_manifest_ok:
  assumes "fetch_manifest h pc lower code answer = Inr (m, b)"
  shows "decode_verified h pc lower b (sc_id code) = Inr m" "m_name m = sc_name code" "total_size m = sc_total_size code"
    "length b \<le> MAX_MANIFEST_BYTES"
proof -
  obtain r where r: "answer = Inr r" using assms by (cases answer) (auto simp: fetch_manifest_def)
  then obtain b' where b': "r = RespManifest b'" using assms by (cases r) (auto simp: fetch_manifest_def)
  show "decode_verified h pc lower b (sc_id code) = Inr m" "m_name m = sc_name code" "total_size m = sc_total_size code"
    "length b \<le> MAX_MANIFEST_BYTES"
    using assms unfolding r b' by (auto simp: fetch_manifest_def result_simps split: if_splits)
qed

text \<open>What is on disk of a file: as it is, or as it decrypts, every block intact.\<close>

definition delivered :: "blake3 \<Rightarrow> aead \<Rightarrow> world \<Rightarrow> file_data \<Rightarrow> bytes \<Rightarrow> bool" where
  "delivered h A w d content \<longleftrightarrow>
     (case d of
        Plain path \<Rightarrow> files w path = Some content
      | Encrypted _ _ _ \<Rightarrow> \<exists>hnd. open_strict h d w = Inr hnd \<and> handle_read_exact A hnd w 0 (length content) = Inr content)"

lemma hash_data_delivered:
  assumes "bao_sound B rt content" "hash_data h A B d (length content) w = Inr ob" "ob_root ob = rt"
  shows "delivered h A w d content"
  using assms
  by (auto simp: hash_data_def hash_file_def delivered_def bao_sound_def resized_def result_simps open_file_def
      open_options_def file_content_def split: file_data.splits option.splits if_splits)

lemma verify_files_delivered:
  assumes "verify_files h A B w (zip fs es) = Inr ()" "length fs = length es" "i < length es"
    "length content = unat (fe_size (es ! i))" "bao_sound B (fe_root (es ! i)) content"
  shows "delivered h A w (lf_data (fs ! i)) content"
  using assms
proof (induction fs es arbitrary: i rule: list_induct2')
  case (4 f fs e es)
  then obtain ob where ob: "hash_data h A B (lf_data f) (unat (fe_size e)) w = Inr ob" "ob_root ob = fe_root e"
    "verify_files h A B w (zip fs es) = Inr ()"
    by (auto simp: result_simps split: if_splits)
  show ?case
  proof (cases i)
    case 0
    with 4 ob show ?thesis by (auto intro!: hash_data_delivered)
  next
    case (Suc j)
    with 4 ob(3) show ?thesis by simp
  qed
qed simp_all

text \<open>An example: three bytes from one peer, by way of a run of ten steps.\<close>

definition wit_manifest :: manifest where
  "wit_manifest = \<lparr>m_name = ''x'', m_files = [\<lparr>fe_path = [''x''], fe_size = 3, fe_root = [1, 2, 3]\<rparr>]\<rparr>"

definition wit_libs :: "toy_db libs" where
  "wit_libs = toy_libs\<lparr>pc_manifest := const_codec wit_manifest\<rparr>"

definition wit_code :: share_code where
  "wit_code = \<lparr>sc_id = ShareId [1, 7], sc_name = ''x'', sc_total_size = 3, 
     sc_peers = [\<lparr>ea_id = [9], ea_addrs = []\<rparr>], sc_secret = None\<rparr>"

definition wit_world :: world where
  "wit_world = \<lparr>files = Map.empty, faults = (\<lambda>_ _. None), tape = (\<lambda>_. 1)\<rparr>"

definition wit_ctx :: download_ctx where
  "wit_ctx = \<lparr>cx_me = [8], cx_reseed = False, cx_discovery_timeout = 30, cx_key = None, cx_allow = None\<rparr>"

definition wit_round :: round where
  "wit_round = \<lparr>rd_drained = [], rd_waited = WaitOver, rd_remaining = 30,
     rd_network = (\<lambda>_ _. Some (Inr (RespManifest [1, 7]))), rd_cancelled = False, rd_pause_cancelled = False\<rparr>"

definition wit_hub :: hub where
  "wit_hub = \<lparr>hub_shares = Map.empty, hub_arcs = (\<lambda>_. toy_share)\<rparr>"


lemma name_problem_x: "name_problem ''x'' = None"
  by code_simp

lemma wit_search:
  obtains t where "search_rounds (lib_blake wit_libs) (pc_manifest wit_libs) (lib_lower wit_libs) (\<lambda>_. []) wit_code 30
     (first_found wit_code [wit_round]) (search_new [8]) = Inl (Inr (wit_manifest, [1, 7], \<lparr>ea_id = [9], ea_addrs = []\<rparr>, t))"
proof -
  have ok: "decode_verified plain_blake (const_codec wit_manifest) (\<lambda>s. s) [1, 7] (ShareId [1, 7]) = Inr wit_manifest"
    by (simp add: decode_verified_Inr validate_iff entry_ok_def wit_manifest_def id_of_def plain_blake_def
        const_codec_def MANIFEST_VERSION_def name_problem_x)
  have "fetch_manifest plain_blake (const_codec wit_manifest) (\<lambda>s. s) wit_code (Inr (RespManifest [1, 7])) = Inr (wit_manifest, [1, 7])"
    using ok by (simp add: fetch_manifest_def wit_code_def MAX_MANIFEST_BYTES_def)
       (simp add: wit_manifest_def total_size_def)
  then show thesis
    using that by (simp add: first_found_def wit_round_def wit_code_def search_new_def tracker_new_def search_round_def
        add_candidate_def discover_def wit_libs_def toy_libs_def Let_def)
qed

definition wit_path :: path where
  "wit_path = [Normal ''d'', Normal ''x'']"

lemma wit_paths [simp]: "path_join [Normal ''d''] (path_join [] (path_of ''x'')) = wit_path"
    "path_join [Normal ''d''] (path_of ''x'') = wit_path"
  by code_simp+

definition wit_file :: local_file where
  "wit_file = local_file_new (Plain wit_path) (empty_outboard toy_bao [1, 2, 3] 3)"

definition wit_world1 :: world where
  "wit_world1 = put_file wit_path [0, 0, 0] wit_world"

lemma wit_parent: "ensure_parent wit_path wit_world = Inr ()"
  by (rule no_faults_parent) (simp add: no_faults_def wit_world_def)

lemma wit_prealloc: "file_len wit_path wit_world = None" "preallocate (Plain wit_path) 3 wit_world = Inr wit_world1"
proof -
  have 1: "open_file (open_options\<lparr>oo_write := True, oo_create := True\<rparr>) wit_path wit_world = Inr (put_file wit_path [] wit_world)"
    by (simp add: open_file_def open_options_def wit_world_def put_file_def access_fault_def)
  have 2: "open_file (open_options\<lparr>oo_write := True\<rparr>) wit_path (put_file wit_path [] wit_world) = Inr (put_file wit_path [] wit_world)"
    by (simp add: open_file_def open_options_def wit_world_def put_file_def access_fault_def)
  show "preallocate (Plain wit_path) 3 wit_world = Inr wit_world1"
    by (simp add: preallocate_def wit_parent 1 2 wit_world1_def set_len_def file_content_def) (simp add: put_file_def numeral_eq_Suc)
  show "file_len wit_path wit_world = None" by (simp add: wit_world_def file_len_def)
qed

lemma wit_files:
  "download_files toy_bao [Normal ''d''] None 0 (m_files wit_manifest) wit_world = (Inr ([wit_file], []), wit_world1)"
  using wit_prealloc by (simp add: wit_manifest_def download_data_def prepare_file_def Let_def file_entry_path_def wit_file_def)

definition wit_share :: local_share where
  "wit_share = from_parts plain_blake wit_manifest [1, 7] [wit_file] None False wit_path"

lemma wit_prepare:
  "prepare_download wit_libs (\<lambda>_. []) False None None wit_code wit_manifest [1, 7] [Normal ''d''] 0 (None, wit_hub, wit_world) =
     Some (Inr wit_share, None, wit_hub, wit_world1)"
proof -
  have "for_download plain_blake toy_bao wit_manifest [1, 7] [Normal ''d''] None None wit_world = Some (Inr wit_share, wit_world1)"
    unfolding for_download_def wit_files by (simp add: wit_share_def) (simp add: wit_manifest_def)
  moreover have "resumed_event (set_allowed None wit_share) = Some wit_share"
    by (simp add: resumed_event_def have_count_def wit_share_def from_parts_def set_allowed_def Let_def)
  ultimately show ?thesis
    by (simp add: prepare_download_def restored_share_def wit_libs_def toy_libs_def wit_code_def)
qed


lemma wit_shape: "share_total_pieces wit_share = 1" "ls_have wit_share = [False]" "ls_files wit_share = [wit_file]"
  "ls_manifest wit_share = wit_manifest"
  "locate (ls_layout wit_share) 0 = Some \<lparr>loc_file = 0, loc_start = 0, loc_end = 3\<rparr>"
  by (simp_all add: wit_share_def from_parts_def Let_def share_total_pieces_def layout_new_def wit_manifest_def
      file_pieces_def BLOCK_SIZE_def locate_def div_ceil_def)

definition wit_sched :: "endpoint_id piece \<Rightarrow> u32 \<Rightarrow> (endpoint_id \<rightharpoonup> bool list) \<Rightarrow> nat \<Rightarrow> nat \<Rightarrow> nat \<Rightarrow> endpoint_id scheduler" where
  "wit_sched p a ps first m d = \<lparr>pieces = [p], availability = [a], peers = ps, urgent_window = 3, first_not_done = first,
     missing = m, done_count = d\<rparr>"

lemma wit_new: "sched_new [False] 3 = wit_sched Missing 0 Map.empty 0 1 0"
  by (simp add: sched_new_def wit_sched_def advance_playhead_def playhead_from.simps)

lemma wit_add: "add_peer [9] [True] (wit_sched Missing 0 Map.empty 0 1 0) = Some (wit_sched Missing 1 [[9] \<mapsto> [True]] 0 1 0)"
  by (simp add: wit_sched_def add_peer_def remove_peer_def idx_def checked_inc_def)

lemma wit_pick: "pick [9] (wit_sched Missing 1 [[9] \<mapsto> [True]] 0 1 0) = Some (Some 0, wit_sched (InFlight [[9]]) 1 [[9] \<mapsto> [True]] 0 0 0)"
  by (simp add: wit_sched_def pick_def pick_choice_def wanted_def idx_def Let_def checked_pred_def)

lemma wit_complete: "complete_piece 0 (wit_sched (InFlight [[9]]) 1 [[9] \<mapsto> [True]] 0 0 0) = Some (True, wit_sched Done 1 [[9] \<mapsto> [True]] 1 0 1)"
  by (simp add: wit_sched_def complete_piece_def idx_def Let_def advance_playhead_def playhead_from.simps)


lemma wit_opened: "open_data plain_blake True (Plain wit_path) wit_world1 = Inr (PlainHandle \<lparr>fh_path = wit_path, fh_read = False, fh_write = True\<rparr>)"
  by (simp add: open_data_def open_with_def open_file_def open_options_def wit_world1_def put_file_def wit_world_def access_fault_def)

definition wit_stored :: local_share where
  "wit_stored = wit_share\<lparr>ls_files := [wit_file\<lparr>lf_writer := Some (PlainHandle \<lparr>fh_path = wit_path, fh_read = False, fh_write = True\<rparr>)\<rparr>],
     ls_have := [True], ls_announced := ls_announced wit_share @ [0]\<rparr>"

lemma wit_decode: "decode_range toy_aead toy_bao (PlainHandle \<lparr>fh_path = wit_path, fh_read = False, fh_write = True\<rparr>) wit_path [1, 2, 3] 3 0 3 [1, 2, 3] wit_world1
   = (Inr [], put_file wit_path [1, 2, 3] wit_world1)"
  by (simp add: decode_range_def toy_bao_def slice_def handle_write_all_def write_all_loop.simps handle_write_at_def file_write_def pwrite_def
      wit_world1_def put_file_def splice_def file_content_def)

lemma wit_store: "store_piece plain_blake toy_aead toy_bao 0 [1, 2, 3] wit_share wit_world1 =
  Some (Inr True, wit_stored, put_file wit_path [1, 2, 3] wit_world1)"
  unfolding store_piece_def
  by (simp add: wit_shape has_def idx_def wit_file_def local_file_new_def wit_opened wit_manifest_def wit_decode mark_have_def set_local_file_def wit_stored_def)


definition wit_events :: "loop_event list" where
  "wit_events = [Work (Join [9] (Inr (RespBitfield [1]))), Work (Ask [9]), Work (Answer [9] 0 (Inr (RespPiece [1, 2, 3]))), FinishedNotified]"

definition wit_engine :: "local_share \<Rightarrow> endpoint_id scheduler \<Rightarrow> (endpoint_id \<times> nat) list \<Rightarrow> engine" where
  "wit_engine s sch reqs = \<lparr>eg_share = s, eg_sched = sch, eg_connected = {[9]}, eg_strikes = (\<lambda>_. 0), eg_requests = reqs\<rparr>"

lemma wit_libs_simps [simp]: "lib_blake wit_libs = plain_blake" "lib_aead wit_libs = toy_aead" "lib_bao wit_libs = toy_bao"
  by (simp_all add: wit_libs_def toy_libs_def)

abbreviation "exec_wit \<equiv> engine_exec plain_blake toy_aead toy_bao (\<lambda>_. []) (\<lambda>_. [])"

lemma wit_connect: "exec_wit (Connect [9]) (engine_new wit_share, wit_world1) = Some (wit_engine wit_share (wit_sched Missing 0 Map.empty 0 1 0) [], wit_world1)"
  by (simp add: open_peer_def engine_new_def wit_shape wit_new URGENT_WINDOW_def wit_engine_def)

lemma wit_bits: "unpack_bits [1] (Suc 0) = [True]"
  by (simp add: unpack_bits_def idx_def)

lemma wit_peers: "peers (wit_sched p a ps k m d) = ps"
  by (simp add: wit_sched_def)

lemma wit_not_done: "d = 0 \<Longrightarrow> \<not> sched_is_done (wit_sched p a ps k m d)"
  by (simp add: wit_sched_def sched_is_done_def)

lemma wit_join: "exec_wit (Join [9] (Inr (RespBitfield [1]))) (wit_engine wit_share (wit_sched Missing 0 Map.empty 0 1 0) [], w) =
    Some (wit_engine (emit (PeerConnected [] 1 1) wit_share) (wit_sched Missing 1 [[9] \<mapsto> [True]] 0 1 0) [], w)"
  using wit_add
  by (simp add: wit_engine_def subscribed_def join_peer_def wit_shape wit_bits Let_def send_event_def wit_peers fun_eq_iff)

lemma wit_ask: "exec_wit (Ask [9]) (wit_engine s (wit_sched Missing 1 [[9] \<mapsto> [True]] 0 1 0) [], w) =
    Some (wit_engine s (wit_sched (InFlight [[9]]) 1 [[9] \<mapsto> [True]] 0 0 0) [([9], 0)], w)"
  using wit_pick by (simp add: wit_engine_def subscribed_def wit_peers ask_peer_def engine_is_done_def wit_not_done MAX_STRIKES_def Let_def)

lemma wit_store_emit: "store_piece plain_blake toy_aead toy_bao 0 [1, 2, 3] (emit e wit_share) wit_world1 =
  Some (Inr True, emit e wit_stored, put_file wit_path [1, 2, 3] wit_world1)"
  unfolding store_piece_def
  by (simp add: wit_shape has_def idx_def wit_file_def local_file_new_def wit_opened wit_manifest_def wit_decode mark_have_def
      set_local_file_def wit_stored_def emit_def)


lemma wit_answer: "exec_wit (Answer [9] 0 (Inr (RespPiece [1, 2, 3])))
      (wit_engine (emit e wit_share) (wit_sched (InFlight [[9]]) 1 [[9] \<mapsto> [True]] 0 0 0) [([9], 0)], wit_world1) =
    Some (wit_engine (emit (PieceVerified 0 3) (emit e wit_stored)) (wit_sched Done 1 [[9] \<mapsto> [True]] 1 0 1) [],
      put_file wit_path [1, 2, 3] wit_world1)"
proof -
  have "piece_len (emit e wit_stored) 0 = Some 3"
    using wit_shape(5) by (simp add: piece_len_def emit_def wit_stored_def)
  then show ?thesis
    using wit_complete
    by (simp add: wit_engine_def answer_worker_def receive_piece_def wit_store_emit Let_def send_event_def fun_eq_iff)
qed

definition wit_done :: local_share where
  "wit_done = emit (PieceVerified 0 3) (emit (PeerConnected [] 1 1) wit_stored)"

lemma wit_verify: "verify plain_blake toy_aead toy_bao (release_writers wit_done) (put_file wit_path [1, 2, 3] wit_world1) = Inr ()"
  by (simp add: verify_def release_writers_def wit_done_def emit_def wit_stored_def wit_shape wit_file_def wit_manifest_def
      hash_data_def hash_file_def open_file_def open_options_def access_fault_def put_file_def wit_world1_def wit_world_def
      file_content_def resized_def toy_bao_def local_file_new_def)

lemma wit_finish: "finish_download wit_libs [Normal ''d''] (wit_engine wit_done sch reqs) (None, put_file wit_path [1, 2, 3] wit_world1) =
    (Inr \<lparr>oc_path = wit_path, oc_encrypted = False, oc_share = emit Completed (release_writers wit_done)\<rparr>, None,
      put_file wit_path [1, 2, 3] wit_world1)"
  using wit_verify
  by (simp add: finish_download_def wit_engine_def Let_def)
     (simp add: release_writers_def wit_done_def emit_def wit_stored_def wit_share_def from_parts_def Let_def share_is_encrypted_def
       wit_file_def local_file_new_def)

lemma wit_done_manifest: "ls_manifest (emit e (release_writers wit_done)) = wit_manifest"
  by (simp add: emit_def release_writers_def wit_done_def wit_stored_def wit_share_def from_parts_def Let_def)

lemma wit_run:
  "\<exists>out. download_run wit_libs (\<lambda>_. []) (\<lambda>_. []) (\<lambda>_. []) wit_ctx wit_code [Normal ''d''] 0 [wit_round] wit_events
     (None, wit_hub, wit_world) = Some (Some (Inr out), None, wit_hub, put_file wit_path [1, 2, 3] wit_world1) \<and>
     ls_manifest (oc_share out) = wit_manifest"
proof -
  obtain t where t: "search_rounds (lib_blake wit_libs) (pc_manifest wit_libs) (lib_lower wit_libs) (\<lambda>_. []) wit_code 30
     (first_found wit_code [wit_round]) (search_new [8]) = Inl (Inr (wit_manifest, [1, 7], \<lparr>ea_id = [9], ea_addrs = []\<rparr>, t))"
    by (rule wit_search)
  have running: "\<not> engine_is_done (wit_engine s (wit_sched p a ps k m 0) reqs)"
    "engine_is_done (wit_engine s (wit_sched p a ps k m 1) reqs)" for s p a ps k m reqs
    by (simp_all add: wit_engine_def engine_is_done_def wit_sched_def sched_is_done_def)
  show ?thesis
    using t wit_prepare wit_join wit_ask wit_answer wit_finish running wit_done_manifest
    by (simp add: download_run_def wit_ctx_def wit_events_def wit_connect wit_done_def settle_def Let_def
        del: engine_exec.simps)
qed

text \<open>C2: a download that ends well leaves, at the place each file of the
  accepted manifest belongs, its true content, with the name and size the
  share code promised, whatever the peers sent and whatever happened on the
  way: every file is read back and hashed as the last step.\<close>

theorem download_delivers:
  assumes "download_run E sp se order ctx code dest a rounds events (store, hub, w) = Some (Some (Inr out), store', hub', w')"
    and "\<And>m b. decode_verified (lib_blake E) (pc_manifest E) (lib_lower E) b (sc_id code) = Inr m \<Longrightarrow> contents_ok (lib_bao E) content m"
  shows "\<exists>m w1. ls_manifest (oc_share out) = m \<and> m_name m = sc_name code \<and> total_size m = sc_total_size code \<and>
    files w1 = files w' \<and> oc_path out = (case cx_key ctx of Some _ \<Rightarrow> dest | None \<Rightarrow> path_join dest (path_of (m_name m))) \<and>
    (\<forall>i < length (m_files m). delivered (lib_blake E) (lib_aead E) w1 (download_data dest (cx_key ctx) i (m_files m ! i)) (content i))"
proof -
  from assms(1) obtain m b addr t s store1 hub1 w1 g where
    found: "search_rounds (lib_blake E) (pc_manifest E) (lib_lower E) sp code (cx_discovery_timeout ctx)
        (first_found code rounds) (search_new (cx_me ctx)) = Inl (Inr (m, b, addr, t))"
    and made: "prepare_download E order (cx_reseed ctx) (cx_key ctx) (cx_allow ctx) code m b dest a (store, hub, w) =
        Some (Inr s, store1, hub1, w1)"
    and run: "swarm E sp se dest (Work (Connect (ea_id addr)) # FinishedNotified # events)
        (engine_new s, manifest_received m t, store1, w1) = Some (Some (Inr out), g, store', w')"
    unfolding download_run_def by (auto simp del: swarm.simps split: sum.splits prod.splits bind_splits)
  obtain answer where "fetch_manifest (lib_blake E) (pc_manifest E) (lib_lower E) code answer = Inr (m, b)"
    using search_rounds_found [OF found] by blast
  note m = fetch_manifest_ok [OF this]
  obtain store2 w2 where fin: "finish_download E dest g (store2, w2) = (Inr out, store', w')"
    using swarm_ended [OF run] by blast
  have same: "same_share (eg_share (engine_new s)) (eg_share g)" by (rule same_run.swarm [OF run refl refl refl])
  note f = finish_download_ok [OF fin] and p = prepare_share [OF made]
  have new: "eg_share (engine_new s) = s" by (simp add: engine_new_def)
  have share: "ls_manifest (eg_share g) = m" "length (ls_files (eg_share g)) = length (m_files m)"
    "ls_root (eg_share g) = (case cx_key ctx of Some _ \<Rightarrow> dest | None \<Rightarrow> path_join dest (path_of (m_name m)))"
    using same p(1-3) same_length [OF same] unfolding new by (simp_all add: same_share_def)
  have "delivered (lib_blake E) (lib_aead E) w2 (download_data dest (cx_key ctx) i (m_files m ! i)) (content i)"
    if i: "i < length (m_files m)" for i
  proof -
    have c: "length (content i) = unat (fe_size (m_files m ! i))" "bao_sound (lib_bao E) (fe_root (m_files m ! i)) (content i)"
      using assms(2) [OF m(1)] i unfolding contents_ok_def by blast+
    have "verify_files (lib_blake E) (lib_aead E) (lib_bao E) w2
        (zip (ls_files (release_writers (eg_share g))) (m_files m)) = Inr ()"
      using f(1) share(1) unfolding verify_def by (simp add: release_writers_def)
    from verify_files_delivered [OF this _ i c] show ?thesis
      using i share(2) p(2,4) same_data [OF same] unfolding new by (simp add: release_writers_def)
  qed
  then show ?thesis
    using m(2,3) f share by (intro exI [of _ m] exI [of _ w2]) (auto simp: same_share_def)
qed

theorem download_delivers_witness:
  "\<exists>out w1. download_run wit_libs (\<lambda>_. []) (\<lambda>_. []) (\<lambda>_. []) wit_ctx wit_code [Normal ''d''] 0 [wit_round] wit_events
     (None, wit_hub, wit_world) = Some (Some (Inr out), None, wit_hub, w1) \<and>
   total_size (ls_manifest (oc_share out)) = 3"
proof -
  obtain out where run: "download_run wit_libs (\<lambda>_. []) (\<lambda>_. []) (\<lambda>_. []) wit_ctx wit_code [Normal ''d''] 0 [wit_round] wit_events
     (None, wit_hub, wit_world) = Some (Some (Inr out), None, wit_hub, put_file wit_path [1, 2, 3] wit_world1)"
    using wit_run by blast
  have ok: "contents_ok (lib_bao wit_libs) (\<lambda>_. [1, 2, 3]) m"
    if "decode_verified (lib_blake wit_libs) (pc_manifest wit_libs) (lib_lower wit_libs) b (sc_id wit_code) = Inr m" for m b
    using that toy_bao_sound by (auto simp: contents_ok_def decode_verified_Inr wit_libs_def const_codec_def wit_manifest_def toy_libs_def)
  have "total_size (ls_manifest (oc_share out)) = sc_total_size wit_code"
    using download_delivers [OF run, of "\<lambda>_. [1, 2, 3]"] ok by blast
  with run show ?thesis by (auto simp: wit_code_def)
qed

text \<open>C20: a cancelled download leaves its progress in the database, where the next
  run finds it, whenever the database takes the write; when it refuses it,
  the database is as it was, so what an earlier save left is still there.\<close>

theorem cancel_keeps_progress:
  assumes "displays_records E view known (st, w) m" and "(PROGRESS, download_key (lib_blake E) (ls_id (eg_share g)) dest) \<in> known"
    and "round_trips (pc_outboards E) (outboard_snapshots (eg_share g))"
    and "\<forall>b. to_allocvec (pc_outboards E) (outboard_snapshots (eg_share g)) = Some b \<longrightarrow>
      keepable E (download_key (lib_blake E) (ls_id (eg_share g)) dest) b"
    and "cancel_download E dest g (Some st, w) = (e, Some st', w')"
  shows "e = Cancelled \<and> (\<exists>b. to_allocvec (pc_outboards E) (outboard_snapshots (eg_share g)) = Some b \<and>
    (if fst (put_record E PROGRESS (download_key (lib_blake E) (ls_id (eg_share g)) dest) b (st, w)) = Inr ()
     then load_progress E (ls_id (eg_share g)) dest st' = Some (outboard_snapshots (eg_share g)) else st' = st))"
proof -
  let ?n = "download_key (lib_blake E) (ls_id (eg_share g)) dest"
  obtain b where b: "to_allocvec (pc_outboards E) (outboard_snapshots (eg_share g)) = Some b"
    "from_bytes (pc_outboards E) b = Some (outboard_snapshots (eg_share g))"
    using assms(3) by (auto simp: round_trips_def)
  obtain r where r: "put_record E PROGRESS ?n b (st, w) = (r, st', w')" "e = Cancelled"
    using assms(5) b(1)
    by (cases "put_record E PROGRESS ?n b (st, w)") (auto simp: cancel_download_def save_progress_def)
  show ?thesis
  proof (cases r)
    case (Inl err)
    then have "st' = st" using r(1) by (auto simp: put_record_def Let_def split: option.splits prod.splits sum.splits)
    then show ?thesis using r b(1) Inl by simp
  next
    case (Inr u)
    have "get_record E st' PROGRESS ?n = Inr (Some b)"
      using put_then_get [OF assms(1,2) _ _ assms(2)] assms(4) b(1) r(1) Inr by auto
    then show ?thesis using r b Inr by (simp add: load_progress_def)
  qed
qed

theorem cancel_keeps_progress_witness:
  "\<exists>st'. cancel_download seed_libs [] (engine_new seed_share) (Some empty_store, toy_world) = (Cancelled, Some st', toy_world) \<and>
     load_progress seed_libs (ls_id seed_share) [] st' = Some (outboard_snapshots seed_share)"
proof -
  let ?n = "download_key plain_blake (ShareId [1, 7]) []"
  have eng: "eg_share (engine_new seed_share) = seed_share" by (simp add: engine_new_def)
  have snaps: "outboard_snapshots seed_share = [[]]" "pc_outboards seed_libs = const_codec [[]]"
    by (simp_all add: outboard_snapshots_def local_file_new_def seed_libs_def toy_libs_def)
  have name: "length ?n < 256" by (simp add: download_key_def path_display_def seed_name)
  define st' where "st' = empty_store\<lparr>st_db := (st_db empty_store)(PROGRESS := AList.update ?n [7] (st_db empty_store PROGRESS))\<rparr>"
  have put: "put_record seed_libs PROGRESS ?n [7] (empty_store, toy_world) = (Inr (), st', toy_world)"
    unfolding st'_def by (rule put_empty) (simp_all add: empty_store_def)
  have run: "cancel_download seed_libs [] (engine_new seed_share) (Some empty_store, toy_world) = (Cancelled, Some st', toy_world)"
    using put snaps by (simp add: cancel_download_def save_progress_def eng const_codec_def)
  have id: "lib_blake seed_libs = plain_blake" "ls_id seed_share = ShareId [1, 7]" "to_allocvec (pc_outboards seed_libs) [[]] = Some [7]"
    using snaps by (simp_all add: seed_name const_codec_def)
  show ?thesis
    using run cancel_keeps_progress [OF empty_displays, of seed_libs "engine_new seed_share" "[]" UNIV toy_world Cancelled st' toy_world]
      eng snaps name put id
    by (simp add: keepable_seed_libs const_codec_round_trips)
qed

end
