(* ===== verification/Preparing.thy ===== *)
theory Preparing
  imports Swarm_Safety
begin

text \<open>
  Before the first piece: \<open>for_download\<close> of \<open>local.rs\<close> and what follows it in
  \<open>run\<close> of \<open>download.rs\<close>. On a disk without faults, preparing the files of
  an accepted manifest succeeds and establishes the invariant of
  \<open>Share_Safety\<close> that every later step keeps.
\<close>

subsection \<open>One file\<close>

text \<open>
  What is asked of the disk at the place of a file: no faults; and where an
  encrypted file is to go, either nothing with a full header or a store file
  of the right size, as an earlier run left it.
\<close>

definition store_file :: "nat \<Rightarrow> bytes \<Rightarrow> bool" where
  "store_file sz b \<longleftrightarrow> take 8 b = MAGIC \<and> HEADER + div_ceil sz block * slot \<le> length b"

definition place_ok :: "aead \<Rightarrow> world \<Rightarrow> file_data \<Rightarrow> bool" where
  "place_ok A w d \<longleftrightarrow> no_faults (data_path d) w \<and>
     (case d of
        Plain _ \<Rightarrow> True
      | Encrypted p _ sz \<Rightarrow> aead_ok A \<and> tape_ok w \<and> HEADER + div_ceil sz block * slot < 2 ^ 64 \<and>
          (case files w p of None \<Rightarrow> True | Some b \<Rightarrow> length b < HEADER \<or> store_file sz b))"

lemma place_ok_frame:
  assumes "place_ok A w d" "files w' (data_path d) = files w (data_path d)" "faults w' = faults w" "tape_ok w \<Longrightarrow> tape_ok w'"
  shows "place_ok A w' d"
  using assms by (cases d) (auto simp: place_ok_def no_faults_def)

text \<open>
  What changes at most the files \<open>P\<close>, and nothing else of the machine but the
  place on the tape of random bytes.
\<close>

definition only_files :: "path set \<Rightarrow> world \<Rightarrow> world \<Rightarrow> bool" where
  "only_files P w w' \<longleftrightarrow> (\<forall>q. q \<notin> P \<longrightarrow> files w' q = files w q) \<and> faults w' = faults w \<and> (tape_ok w \<longrightarrow> tape_ok w')"

abbreviation only_file :: "path \<Rightarrow> world \<Rightarrow> world \<Rightarrow> bool" where
  "only_file p \<equiv> only_files {p}"

abbreviation same_disk :: "world \<Rightarrow> world \<Rightarrow> bool" where
  "same_disk \<equiv> only_files {}"

lemma only_files_refl [simp]: "only_files P w w"
  by (simp add: only_files_def)

lemma only_files_trans: "only_files P w w1 \<Longrightarrow> only_files P w1 w2 \<Longrightarrow> only_files P w w2"
  by (simp add: only_files_def)

lemma only_files_mono: "only_files P w w' \<Longrightarrow> P \<subseteq> Q \<Longrightarrow> only_files Q w w'"
  by (auto simp: only_files_def)

lemma tape_ok_files [simp]: "tape_ok (w\<lparr>files := fs\<rparr>) = tape_ok w"
  by (simp add: tape_ok_def)

lemma only_files_put [simp]: "p \<in> P \<Longrightarrow> only_files P w (put_file p b w1) = only_files P w w1"
  by (auto simp: only_files_def)

lemma only_files_draw [simp]: "only_files P w (snd (draw n w))"
  by (simp add: only_files_def tape_ok_draw)

text \<open>Preparing touches the file alone.\<close>

lemma open_file_only:
  assumes "open_file opts p w = Inr w'"
  shows "only_file p w w'"
  using assms by (auto simp: open_file_def only_files_def split: if_splits option.splits)

lemma data_preallocate_only: "data_preallocate d w = Inr w' \<Longrightarrow> only_file (data_path d) w w'"
proof (cases d)
  case (Encrypted p key sz)
  assume "data_preallocate d w = Inr w'"
  then consider "w' = w" | w2 b where "open_file (open_options\<lparr>oo_write := True, oo_create := True, oo_truncate := True\<rparr>) p (snd (draw 16 w)) = Inr w2"
    "w' = put_file p b w2"
    unfolding Encrypted by (auto simp: result_simps Let_def case_prod_beta split: if_splits)
  then show ?thesis
    by cases (auto simp: Encrypted intro: only_files_trans [OF only_files_draw open_file_only])
qed (auto simp: result_simps dest: open_file_only)

lemma preallocate_only: "preallocate d sz w = Inr w' \<Longrightarrow> only_file (data_path d) w w'"
  by (cases d)
     (auto simp: preallocate_def result_simps simp del: data_preallocate.simps dest!: data_preallocate_only open_file_only
       intro: only_files_trans)

text \<open>A prepared file opens for writing at its full size.\<close>

lemma plain_ready:
  assumes "no_faults p w" "files w p = Some b" "length b = sz"
  shows "file_ready h A w (local_file_new (Plain p) ob) sz (PlainHandle \<lparr>fh_path = p, fh_read = False, fh_write = True\<rparr>)"
  using assms(2,3)
  by (simp add: file_ready_def local_file_new_def open_data_def open_with_def open_file_def no_faults_access [OF assms(1)]
      open_options_def handle_writable_def handle_view_def file_content_def handle_room_def)

lemma store_file_ready:
  assumes "aead_ok A" "tape_ok w" "no_faults p w" "HEADER + div_ceil sz block * slot < 2 ^ 64"
    and "files w p = Some b" "store_file sz b"
  shows "\<exists>hnd. file_ready h A w (local_file_new (Encrypted p key sz) ob) sz hnd"
proof -
  let ?e = "\<lparr>en_file = \<lparr>fh_path = p, fh_read = True, fh_write = True\<rparr>, en_cipher = file_key h key (drop 8 (take HEADER b)),
    en_size = sz, en_strict = False\<rparr>"
  have b: "take 8 b = MAGIC" "HEADER + div_ceil sz block * slot \<le> length b" "file_content p w = b"
    using assms(5,6) by (simp_all add: store_file_def file_content_def)
  have "open_data h True (Encrypted p key sz) w = Inr (EncHandle ?e)"
    using b assms(5) by (simp add: open_data_def open_with_cases no_faults_access [OF assms(3)])
  moreover have "handle_writable A (EncHandle ?e) w"
    using assms(1,2,4) b by (simp add: handle_writable_def enc_writable_def sized_def blocks_def)
  moreover have "length (handle_view A (EncHandle ?e) w) = sz"
    using enc_view_nth(1) [OF assms(1)] by (simp add: handle_view_def)
  ultimately show ?thesis by (auto simp: file_ready_def local_file_new_def handle_room_def)
qed

lemma set_len_length: "length (set_len n b) = n"
  by (simp add: set_len_def)

lemma preallocate_ready:
  assumes "place_ok A w d" "case d of Plain _ \<Rightarrow> True | Encrypted _ _ n \<Rightarrow> n = sz"
  shows "\<exists>w' hnd. preallocate d sz w = Inr w' \<and> file_ready h A w' (local_file_new d ob) sz hnd"
proof (cases d)
  case (Plain p)
  have nf: "no_faults p w" using assms(1) by (simp add: place_ok_def Plain)
  let ?w = "put_file p (file_content p w) w"
  have "open_file (open_options\<lparr>oo_write := True, oo_create := True\<rparr>) p w = Inr ?w"
    by (cases "files w p") (simp_all add: open_file_def no_faults_access [OF nf] open_options_def put_file_def file_content_def fun_upd_idem)
  moreover have nf': "no_faults p ?w" using nf by (simp add: no_faults_def)
  have "open_file (open_options\<lparr>oo_write := True\<rparr>) p ?w = Inr ?w"
    by (simp add: open_file_def no_faults_access [OF nf'] open_options_def)
  ultimately have "preallocate d sz w = Inr (put_file p (set_len sz (file_content p w)) ?w)"
    by (simp add: preallocate_def Plain no_faults_parent [OF nf])
  moreover have "no_faults p (put_file p b ?w)" for b using nf by (simp add: no_faults_def)
  then have "file_ready h A (put_file p (set_len sz (file_content p w)) ?w) (local_file_new (Plain p) ob) sz
      (PlainHandle \<lparr>fh_path = p, fh_read = False, fh_write = True\<rparr>)"
    by (rule plain_ready [where b = "set_len sz (file_content p w)"]) (simp_all add: set_len_length)
  ultimately show ?thesis unfolding Plain by blast
next
  case (Encrypted p key n)
  have n: "n = sz" using assms(2) by (simp add: Encrypted)
  have d: "preallocate d sz w = data_preallocate d w"
    by (cases "data_preallocate d w") (simp_all add: preallocate_def Encrypted)
  have pl: "aead_ok A" "tape_ok w" "no_faults p w" "HEADER + div_ceil sz block * slot < 2 ^ 64"
    "case files w p of None \<Rightarrow> True | Some b \<Rightarrow> length b < HEADER \<or> store_file sz b"
    using assms(1) by (simp_all add: place_ok_def Encrypted n)
  show ?thesis
  proof (cases "\<exists>b. files w p = Some b \<and> store_file sz b")
    case True
    then obtain b where b: "files w p = Some b" "store_file sz b" by blast
    have "data_preallocate d w = Inr w"
      using b by (simp add: Encrypted n no_faults_parent [OF pl(3)] no_faults_len [OF pl(3)] store_file_def)
    with store_file_ready [OF pl(1-4) b] show ?thesis unfolding d unfolding Encrypted n by auto
  next
    case False
    then have "case files w p of None \<Rightarrow> True | Some b \<Rightarrow> length b < HEADER" using pl(5) by (auto split: option.splits)
    from fresh_store_file [OF pl(1-4) this, of key h] obtain w' hnd where
      "data_preallocate (Encrypted p key sz) w = Inr w'" "open_data h True (Encrypted p key sz) w' = Inr hnd"
      "handle_writable A hnd w'" "length (handle_view A hnd w') = sz" by blast
    moreover from this(2) have "handle_room hnd sz"
      by (auto simp: open_data_def open_with_cases Let_def handle_room_def split: option.splits if_splits)
    ultimately show ?thesis unfolding d unfolding Encrypted n by (auto simp: file_ready_def local_file_new_def)
  qed
qed

text \<open>The file of one manifest entry, whose true content is \<open>c\<close>.\<close>

definition entry_true :: "bao \<Rightarrow> bytes \<Rightarrow> file_entry \<Rightarrow> bool" where
  "entry_true B c e \<longleftrightarrow> length c = unat (fe_size e) \<and> bao_sound B (fe_root e) c"

definition prepared :: "blake3 \<Rightarrow> aead \<Rightarrow> bytes \<Rightarrow> world \<Rightarrow> local_file \<Rightarrow> file_entry \<Rightarrow> bool \<Rightarrow> bool" where
  "prepared h A c w f e whole \<longleftrightarrow> ob_root (lf_outboard f) = fe_root e \<and>
     (\<exists>hnd. file_ready h A w f (unat (fe_size e)) hnd \<and> (whole \<longrightarrow> (\<forall>j < unat (fe_size e). byte_held A c w hnd j)))"

lemma prepared_frame:
  assumes "prepared h A c w f e whole" "files w' (data_path (lf_data f)) = files w (data_path (lf_data f))"
    "faults w' = faults w" "tape_ok w \<Longrightarrow> tape_ok w'"
  shows "prepared h A c w' f e whole"
  using assms(1) file_ready_frame [OF _ assms(2-4)] unfolding prepared_def by blast

lemma prepare_file_ok:
  assumes pl: "place_ok A w d" and d: "case d of Plain _ \<Rightarrow> True | Encrypted _ _ n \<Rightarrow> n = unat (fe_size e)"
    and c: "entry_true B c e"
  shows "\<exists>ob whole w'. prepare_file B d e w = (Inr (ob, whole), w') \<and> only_file (data_path d) w w' \<and>
    prepared h A c w' (local_file_new d ob) e whole \<and>
    (whole \<longrightarrow> files w (data_path d) = Some c)"
proof -
  have lf: "lf_outboard (local_file_new d ob) = ob" for ob by (simp add: local_file_new_def)
  let ?full = "if \<not> is_encrypted d \<and> file_len (data_path d) w = Some (unat (fe_size e)) then result_ok (hash_file B (data_path d) w) else None"
  show ?thesis
  proof (cases "\<exists>ob. ?full = Some ob \<and> ob_root ob = fe_root e")
    case True
    then obtain ob p where ob: "hash_file B p w = Inr ob" "ob_root ob = fe_root e" "d = Plain p" "file_len p w = Some (unat (fe_size e))"
      by (cases d) (auto split: if_splits elim!: result_ok.elims)
    have nf: "no_faults p w" using pl ob(3) by (simp add: place_ok_def)
    obtain b where b: "files w p = Some b" "length b = unat (fe_size e)"
      using ob(4) by (auto simp: no_faults_len [OF nf])
    have "b = c"
      using ob(1,2) b(1) c
      by (auto simp: hash_file_def result_simps open_file_def open_options_def file_content_def resized_def entry_true_def bao_sound_def
          split: option.splits)
    let ?hnd = "PlainHandle \<lparr>fh_path = p, fh_read = False, fh_write = True\<rparr>"
    have "file_ready h A w (local_file_new d ob) (unat (fe_size e)) ?hnd"
      unfolding ob(3) by (rule plain_ready [OF nf b])
    moreover have "byte_held A c w ?hnd j" for j
      using b(1) \<open>b = c\<close> by (simp add: byte_held_def handle_view_def file_content_def)
    ultimately have "prepared h A c w (local_file_new d ob) e True" using ob(2) unfolding prepared_def lf by blast
    moreover have "prepare_file B d e w = (Inr (ob, True), w)" using ob by (simp add: prepare_file_def)
    ultimately show ?thesis using b(1) \<open>b = c\<close> ob(3) by auto
  next
    case False
    let ?ob = "empty_outboard B (fe_root e) (fe_size e)"
    obtain w' hnd where w': "preallocate d (unat (fe_size e)) w = Inr w'"
      "file_ready h A w' (local_file_new d ?ob) (unat (fe_size e)) hnd"
      using preallocate_ready [OF pl d] by blast
    have "(case ?full of None \<Rightarrow> None | Some ob \<Rightarrow> if ob_root ob = fe_root e then Some ob else None) = None"
      using False by (cases ?full) auto
    then have "prepare_file B d e w = (Inr (?ob, False), w')" using w'(1) by (simp add: prepare_file_def Let_def)
    moreover have "prepared h A c w' (local_file_new d ?ob) e False"
      using w'(2) lf by (auto simp: prepared_def empty_outboard_def)
    ultimately show ?thesis using preallocate_only [OF w'(1)] by auto
  qed
qed

subsection \<open>All files of a manifest\<close>

abbreviation file_at :: "path \<Rightarrow> master_key option \<Rightarrow> nat \<Rightarrow> file_entry list \<Rightarrow> nat \<Rightarrow> file_data" where
  "file_at dest key n es i \<equiv> download_data dest key (n + i) (es ! i)"

lemma download_data_size: "case download_data dest key n e of Plain _ \<Rightarrow> True | Encrypted _ _ k \<Rightarrow> k = unat (fe_size e)"
  by (simp add: download_data_def split: option.split)

lemma download_files_ok:
  assumes "\<And>i. i < length es \<Longrightarrow> place_ok A w (file_at dest key n es i)"
    and "inj_on (\<lambda>i. data_path (file_at dest key n es i)) {..<length es}"
    and "\<And>i. i < length es \<Longrightarrow> entry_true B (content (n + i)) (es ! i)"
  shows "\<exists>fs fin w'. download_files B dest key n es w = (Inr (fs, fin), w') \<and> length fs = length es \<and>
    set fin \<subseteq> {n..<n + length es} \<and>
    (\<forall>p. (\<forall>i < length es. p \<noteq> data_path (file_at dest key n es i)) \<longrightarrow> files w' p = files w p) \<and>
    faults w' = faults w \<and> (tape_ok w \<longrightarrow> tape_ok w') \<and>
    (\<forall>i < length es. prepared h A (content (n + i)) w' (fs ! i) (es ! i) (n + i \<in> set fin))"
  using assms
proof (induction es arbitrary: n w)
  case (Cons e es)
  let ?d = "download_data dest key n e"
  have first: "place_ok A w ?d" "entry_true B (content n) e" using Cons.prems(1,3) [of 0] by simp_all
  obtain ob whole w1 where one: "prepare_file B ?d e w = (Inr (ob, whole), w1)" "only_file (data_path ?d) w w1"
    "prepared h A (content n) w1 (local_file_new ?d ob) e whole"
    using prepare_file_ok [OF first(1) download_data_size first(2)] by blast
  have other: "data_path (file_at dest key (Suc n) es i) \<noteq> data_path ?d" if "i < length es" for i
    using inj_onD [OF Cons.prems(2), of "Suc i" 0] that by auto
  have place: "place_ok A w1 (file_at dest key (Suc n) es i)" if "i < length es" for i
    using place_ok_frame [OF Cons.prems(1) [of "Suc i"], of w1] other [OF that] one(2) that by (simp add: only_files_def)
  have inj: "inj_on (\<lambda>i. data_path (file_at dest key (Suc n) es i)) {..<length es}"
  proof (rule inj_onI)
    fix i j assume "i \<in> {..<length es}" "j \<in> {..<length es}"
      "data_path (file_at dest key (Suc n) es i) = data_path (file_at dest key (Suc n) es j)"
    with inj_onD [OF Cons.prems(2), of "Suc i" "Suc j"] show "i = j" by simp
  qed
  have true: "entry_true B (content (Suc n + i)) (es ! i)" if "i < length es" for i
    using Cons.prems(3) [of "Suc i"] that by simp
  obtain fs fin w' where rest: "download_files B dest key (Suc n) es w1 = (Inr (fs, fin), w')" "length fs = length es"
    "set fin \<subseteq> {Suc n..<Suc n + length es}"
    "\<forall>p. (\<forall>i < length es. p \<noteq> data_path (file_at dest key (Suc n) es i)) \<longrightarrow> files w' p = files w1 p"
    "faults w' = faults w1" "tape_ok w1 \<longrightarrow> tape_ok w'"
    "\<forall>i < length es. prepared h A (content (Suc n + i)) w' (fs ! i) (es ! i) (Suc n + i \<in> set fin)"
    using Cons.IH [OF place inj true] by blast
  let ?fin = "if whole then n # fin else fin"
  have made: "download_files B dest key n (e # es) w = (Inr (local_file_new ?d ob # fs, ?fin), w')"
    using one(1) rest(1) by simp
  moreover have "lf_data (local_file_new ?d ob) = ?d" by (simp add: local_file_new_def)
  moreover have "files w' (data_path ?d) = files w1 (data_path ?d)" using rest(4) other by metis
  ultimately have "prepared h A (content n) w' (local_file_new ?d ob) e whole"
    using prepared_frame [OF one(3), of w'] rest(5,6) by simp
  moreover have in_rest: "n \<notin> set fin" using rest(3) by auto
  ultimately have "prepared h A (content (n + i)) w' ((local_file_new ?d ob # fs) ! i) ((e # es) ! i) (n + i \<in> set ?fin)"
    if "i < length (e # es)" for i
    using that rest(7) in_rest by (cases i) auto
  moreover have "files w' p = files w p" if p: "\<forall>i < length (e # es). p \<noteq> data_path (file_at dest key n (e # es) i)" for p
  proof -
    have "p \<noteq> data_path (file_at dest key (Suc n) es i)" if "i < length es" for i
      using p [THEN spec, of "Suc i"] that by simp
    then have "files w' p = files w1 p" using rest(4) by blast
    then show ?thesis using one(2) p [THEN spec, of 0] by (simp add: only_files_def)
  qed
  moreover have "faults w' = faults w" "tape_ok w \<longrightarrow> tape_ok w'" using rest(5,6) one(2) by (auto simp: only_files_def)
  moreover have "set ?fin \<subseteq> {n..<n + length (e # es)}" "length (local_file_new ?d ob # fs) = length (e # es)"
    using rest(2,3) by auto
  ultimately show ?case using made by blast
qed simp

subsection \<open>The share made of them\<close>

lemma mark_all_ok:
  assumes "share_ok h A content s w" and "set ps \<subseteq> {..<length (ls_have s)}"
    and "\<And>p i hnd j. p \<in> set ps \<Longrightarrow> i < length (ls_files s) \<Longrightarrow> file_ready h A w (ls_files s ! i) (entry_size s i) hnd \<Longrightarrow>
      in_piece s p i j \<Longrightarrow> byte_held A (content i) w hnd j"
  shows "\<exists>s'. mark_all ps s = Some s' \<and> share_ok h A content s' w \<and> held s' = held s \<union> set ps \<and>
    ls_manifest s' = ls_manifest s \<and> ls_layout s' = ls_layout s \<and> ls_files s' = ls_files s"
  using assms
proof (induction ps arbitrary: s)
  case (Cons p ps)
  have p: "p < length (ls_have s)" using Cons.prems(2) by simp
  obtain s1 where s1: "mark_have p s = Some s1" by (rule mark_have_ok [OF p])
  note m = share_ok_mark [OF Cons.prems(1) p s1 Cons.prems(3) [of p, OF list.set_intros(1)]]
  have eq: "in_piece s1 = in_piece s" "entry_size s1 = entry_size s" using m(3,4) by (auto simp: in_piece_def entry_size_def fun_eq_iff)
  have "length (ls_have s1) = length (ls_have s)" using Cons.prems(1) m(1,4) by (simp add: share_ok_def share_shape_def)
  then have "\<exists>s'. mark_all ps s1 = Some s' \<and> share_ok h A content s' w \<and> held s' = held s1 \<union> set ps \<and>
      ls_manifest s' = ls_manifest s1 \<and> ls_layout s' = ls_layout s1 \<and> ls_files s' = ls_files s1"
    using Cons.prems(2,3) m(5) by (intro Cons.IH [OF m(1)]) (auto simp: eq)
  with s1 m show ?case by auto
qed simp

text \<open>Every piece of a file is in it alone.\<close>

lemma piece_of_file:
  assumes "share_shape s" "i < length (ls_files s)" "pieces_of (ls_layout s) i = Some (a, b)" "a \<le> p" "p < b" "in_piece s p k j"
  shows "k = i" "j < entry_size s i"
proof -
  obtain loc where loc: "locate (ls_layout s) p = Some loc" "loc_file loc = i" "unat (loc_end loc) \<le> entry_size s i"
    by (rule file_piece [OF assms(1-5)])
  with assms(6) show "k = i" "j < entry_size s i" by (auto simp: in_piece_def)
qed

lemma mark_complete_ok:
  assumes "share_ok h A content s w" and "set fin \<subseteq> {..<length (ls_files s)}"
    and "\<And>i hnd j. i \<in> set fin \<Longrightarrow> file_ready h A w (ls_files s ! i) (entry_size s i) hnd \<Longrightarrow> j < entry_size s i \<Longrightarrow>
      byte_held A (content i) w hnd j"
  shows "\<exists>s'. mark_complete fin s = Some s' \<and> share_ok h A content s' w \<and> held s \<subseteq> held s' \<and>
    ls_manifest s' = ls_manifest s \<and> ls_layout s' = ls_layout s \<and> ls_files s' = ls_files s"
  using assms
proof (induction fin arbitrary: s)
  case (Cons i fin)
  have shape: "share_shape s" using Cons.prems(1) by (simp add: share_ok_def)
  have i: "i < length (ls_files s)" using Cons.prems(2) by simp
  then obtain a b where ab: "pieces_of (ls_layout s) i = Some (a, b)"
    using pieces_of_file [of "ls_manifest s" i] shape by (auto simp: share_shape_def)
  have sub: "set [a..<b] \<subseteq> {..<length (ls_have s)}"
  proof
    fix p assume "p \<in> set [a..<b]"
    then have p: "a \<le> p" "p < b" by simp_all
    show "p \<in> {..<length (ls_have s)}" by (rule file_piece [OF shape i ab p]) simp
  qed
  have held: "byte_held A (content k) w hnd j"
    if "p \<in> set [a..<b]" "file_ready h A w (ls_files s ! k) (entry_size s k) hnd" "in_piece s p k j" for p k hnd j
  proof -
    have p: "a \<le> p" "p < b" using that(1) by simp_all
    note k = piece_of_file [OF shape i ab p that(3)]
    show ?thesis using Cons.prems(3) [of i hnd j] that(2) k by simp
  qed
  obtain s1 where s1: "mark_all [a..<b] s = Some s1" "share_ok h A content s1 w" "held s1 = held s \<union> set [a..<b]"
    "ls_manifest s1 = ls_manifest s" "ls_layout s1 = ls_layout s" "ls_files s1 = ls_files s"
    using mark_all_ok [OF Cons.prems(1) sub] held by blast
  have "entry_size s1 = entry_size s" using s1(4) by (simp add: entry_size_def fun_eq_iff)
  then have "\<exists>s'. mark_complete fin s1 = Some s' \<and> share_ok h A content s' w \<and> held s1 \<subseteq> held s' \<and>
      ls_manifest s' = ls_manifest s1 \<and> ls_layout s' = ls_layout s1 \<and> ls_files s' = ls_files s1"
    using Cons.prems(2,3) s1(6) by (intro Cons.IH [OF s1(2)]) auto
  with s1 ab show ?case by auto
qed simp

text \<open>The places of the files of a manifest are good and all different.\<close>

definition places_ok :: "aead \<Rightarrow> world \<Rightarrow> path \<Rightarrow> master_key option \<Rightarrow> manifest \<Rightarrow> bool" where
  "places_ok A w dest key m \<longleftrightarrow> fits m \<and>
     inj_on (\<lambda>i. data_path (download_data dest key i (m_files m ! i))) {..<length (m_files m)} \<and>
     (\<forall>i < length (m_files m). place_ok A w (download_data dest key i (m_files m ! i)))"

lemma for_download_ok:
  assumes pl: "places_ok A w dest key m" and c: "contents_ok B content m"
  shows "\<exists>s w'. for_download h B m b dest key secret w = Some (Inr s, w') \<and> share_ok h A content s w' \<and> roots_ok s \<and>
    ls_manifest s = m \<and> ls_id s = id_of h b \<and>
    (\<forall>p. (\<forall>i < length (m_files m). p \<noteq> data_path (download_data dest key i (m_files m ! i))) \<longrightarrow> files w' p = files w p) \<and>
    faults w' = faults w \<and> (tape_ok w \<longrightarrow> tape_ok w')"
proof -
  let ?es = "m_files m" and ?root = "case key of Some _ \<Rightarrow> dest | None \<Rightarrow> path_join dest (path_of (m_name m))"
  have "place_ok A w (file_at dest key 0 ?es i)" if "i < length ?es" for i using pl that by (simp add: places_ok_def)
  moreover have "inj_on (\<lambda>i. data_path (file_at dest key 0 ?es i)) {..<length ?es}" using pl by (simp add: places_ok_def)
  moreover have "entry_true B (content (0 + i)) (?es ! i)" if "i < length ?es" for i
    using c that by (simp add: contents_ok_def entry_true_def)
  ultimately obtain fs fin w' where d: "download_files B dest key 0 ?es w = (Inr (fs, fin), w')" "length fs = length ?es"
    "set fin \<subseteq> {0..<0 + length ?es}"
    "\<forall>p. (\<forall>i < length ?es. p \<noteq> data_path (file_at dest key 0 ?es i)) \<longrightarrow> files w' p = files w p"
    "faults w' = faults w" "tape_ok w \<longrightarrow> tape_ok w'"
    "\<forall>i < length ?es. prepared h A (content (0 + i)) w' (fs ! i) (?es ! i) (0 + i \<in> set fin)"
    using download_files_ok [of ?es A w dest key 0 B content h] by blast
  define s0 where "s0 = from_parts h m b fs secret False ?root"
  have s0: "ls_manifest s0 = m" "ls_layout s0 = layout_new m" "ls_files s0 = fs" "ls_id s0 = id_of h b"
    "ls_have s0 = replicate (total_pieces (layout_new m)) False"
    by (simp_all add: s0_def from_parts_def Let_def)
  have data: "lf_data (fs ! i) = download_data dest key i (?es ! i)" if "i < length ?es" for i
    using download_files_data [OF d(1) that] by simp
  have "distinct (map (data_path \<circ> lf_data) fs)"
    using pl data d(2) by (auto simp: distinct_conv_nth places_ok_def inj_on_def)
  then have "share_shape s0" using pl d(2) s0 by (simp add: share_shape_def places_ok_def)
  moreover have "\<not> has s0 p" for p by (simp add: has_idx s0(5))
  moreover have "\<exists>hnd. file_ready h A w' (fs ! i) (entry_size s0 i) hnd" if "i < length fs" for i
    using d(2,7) that s0(1) by (auto simp: prepared_def entry_size_def)
  ultimately have ok: "share_ok h A content s0 w'" by (simp add: share_ok_def s0(3))
  have bytes: "byte_held A (content i) w' hnd j"
    if fin: "i \<in> set fin" and ready: "file_ready h A w' (ls_files s0 ! i) (entry_size s0 i) hnd" and j: "j < entry_size s0 i" for i hnd j
  proof -
    have i: "i < length ?es" using d(3) fin by auto
    then have "prepared h A (content i) w' (fs ! i) (?es ! i) (i \<in> set fin)" using d(7) by simp
    then obtain hnd' where "file_ready h A w' (fs ! i) (unat (fe_size (?es ! i))) hnd'"
      "i \<in> set fin \<longrightarrow> (\<forall>j < unat (fe_size (?es ! i)). byte_held A (content i) w' hnd' j)"
      unfolding prepared_def by (elim conjE exE) (rule that)
    moreover from this(1) ready have "hnd' = hnd" unfolding s0(3) by (rule file_ready_unique [THEN sym])
    ultimately show ?thesis using fin j s0(1) by (simp add: entry_size_def)
  qed
  have "set fin \<subseteq> {..<length (ls_files s0)}" using d(2,3) s0(3) by auto
  from mark_complete_ok [where fin = fin, OF ok this bytes] obtain s where s: "mark_complete fin s0 = Some s"
    "share_ok h A content s w'" "ls_manifest s = m" "ls_files s = fs"
    unfolding s0(1,3) by blast
  have "roots_ok s" using d(2,7) s(3,4) by (simp add: roots_ok_def prepared_def)
  moreover have "for_download h B m b dest key secret w = Some (Inr s, w')"
    using d(1) s(1) by (simp add: for_download_def s0_def)
  moreover from for_download_share(1) [OF this] have "ls_id s = id_of h b" .
  ultimately show ?thesis using s(2,3) d(4-6) by auto
qed

subsection \<open>With the progress of an earlier run\<close>

lemma restored_share_ok:
  assumes "places_ok (lib_aead E) w dest key m" and "contents_ok (lib_bao E) content m"
  shows "\<exists>r w'. restored_share E m b dest key secret store w = Some (r, w') \<and> faults w' = faults w \<and> (store = None \<longrightarrow> \<not> isl r) \<and>
    (\<forall>s. r = Inr s \<longrightarrow> share_ok (lib_blake E) (lib_aead E) content s w' \<and> roots_ok s \<and> ls_manifest s = m)"
proof -
  obtain s w' where s: "for_download (lib_blake E) (lib_bao E) m b dest key secret w = Some (Inr s, w')"
    "share_ok (lib_blake E) (lib_aead E) content s w'" "roots_ok s" "ls_manifest s = m" "faults w' = faults w"
    using for_download_ok [OF assms] by blast
  show ?thesis
  proof (cases "Option.bind store (load_progress E (ls_id s) dest)")
    case None
    then show ?thesis using s by (simp add: restored_share_def)
  next
    case (Some progress)
    obtain r s' where "restore_progress (lib_blake E) (lib_aead E) (lib_bao E) progress s w' = Some (r, s')"
      "share_ok (lib_blake E) (lib_aead E) content s' w'" "roots_ok s'" "ls_manifest s' = m"
      using restore_files_ok [OF s(2) _ s(3)] assms(2) s(4) unfolding restore_progress_def by blast
    moreover have "store \<noteq> None" using Some by (cases store) simp_all
    ultimately show ?thesis using s(1,5) Some by (cases r) (auto simp: restored_share_def)
  qed
qed

text \<open>Nothing of the database is a file of the download.\<close>

lemma put_record_disk: "put_record E tbl n v (st, w) = (r, st', w') \<Longrightarrow> same_disk w w'"
  by (auto simp: put_record_def sealer_seal_def only_files_def Let_def case_prod_beta tape_ok_draw
      split: option.splits prod.splits sum.splits dest!: arg_cong [where f = snd, of "draw _ _"])

lemma share_ok_frame:
  assumes ok: "share_ok h A content s w" and same: "same_disk w w'"
  shows "share_ok h A content s w'"
proof -
  have "\<exists>hnd. file_ready h A w' (ls_files s ! i) (entry_size s i) hnd \<and>
      (\<forall>p j. has s p \<and> in_piece s p i j \<longrightarrow> byte_held A (content i) w' hnd j)" if i: "i < length (ls_files s)" for i
  proof -
    obtain hnd where "file_ready h A w (ls_files s ! i) (entry_size s i) hnd"
      "\<And>p j. has s p \<Longrightarrow> in_piece s p i j \<Longrightarrow> byte_held A (content i) w hnd j"
      using share_ok_file [OF ok i] by blast
    with file_ready_frame [of h A w "ls_files s ! i" "entry_size s i" hnd w'] same show ?thesis
      unfolding only_files_def by (metis empty_iff)
  qed
  with ok show ?thesis by (simp add: share_ok_def)
qed

lemma remember_download_disk: "remember_download E code dest (st, w) = Some (r, st', w') \<Longrightarrow> same_disk w w'"
  by (auto simp: remember_download_def split: bind_splits option.splits dest: put_record_disk)

lemma remember_allowed_disk: "remember_allowed E order i allow (st, w) = (r, st', w') \<Longrightarrow> same_disk w w'"
  by (auto simp: remember_allowed_def Let_def split: option.splits dest: put_record_disk remove_records_files)

lemma share_ok_allowed [simp]:
  "share_ok h A content (set_allowed allow s) w = share_ok h A content s w" "roots_ok (set_allowed allow s) = roots_ok s"
  by (simp_all add: set_allowed_def share_ok_def share_shape_def entry_size_def in_piece_def has_def roots_ok_def)

lemma held_bytes_Some: "share_shape s \<Longrightarrow> set is \<subseteq> {..<length (ls_have s)} \<Longrightarrow> \<exists>n. held_bytes s is = Some n"
  by (induction "is") (auto dest: piece_len_Some)

lemma resumed_event_ok:
  assumes "share_ok h A content s w"
  shows "\<exists>s'. resumed_event s = Some s' \<and> share_ok h A content s' w \<and> roots_ok s' = roots_ok s \<and> ls_manifest s' = ls_manifest s"
proof -
  have shape: "share_shape s" using assms by (simp add: share_ok_def)
  obtain n where "held_bytes s [0..<share_total_pieces s] = Some n"
    using held_bytes_Some [OF shape, of "[0..<share_total_pieces s]"] total_is_length [OF shape] by fastforce
  then show ?thesis using assms by (simp add: resumed_event_def roots_ok_def)
qed

lemma prepare_ok:
  assumes pl: "places_ok (lib_aead E) w dest key m" and c: "contents_ok (lib_bao E) content m"
    and "prepare_download E order reseed key allow code m b dest a (store, hub, w) = Some (Inr s, store', hub', w')"
  shows "share_ok (lib_blake E) (lib_aead E) content s w' \<and> roots_ok s \<and> ls_manifest s = m \<and> faults w' = faults w"
proof -
  obtain r w1 where r: "restored_share E m b dest key (sc_secret code) store w = Some (r, w1)" "faults w1 = faults w"
    "\<And>s. r = Inr s \<Longrightarrow> share_ok (lib_blake E) (lib_aead E) content s w1 \<and> roots_ok s \<and> ls_manifest s = m"
    using restored_share_ok [OF pl c] by blast
  with assms(3) obtain s0 where s0: "r = Inr s0" by (cases r) (simp_all add: prepare_download_def)
  have allowed: "share_ok (lib_blake E) (lib_aead E) content (set_allowed allow s0) w1" "roots_ok (set_allowed allow s0)"
    "ls_manifest (set_allowed allow s0) = m"
    using r(3) [OF s0] by (simp_all, simp add: set_allowed_def)
  from resumed_event_ok [OF allowed(1)] allowed(2,3)
  obtain s1 where s1: "resumed_event (set_allowed allow s0) = Some s1" "share_ok (lib_blake E) (lib_aead E) content s1 w1"
    "roots_ok s1" "ls_manifest s1 = m" by auto
  have "s = s1 \<and> same_disk w1 w'"
    using assms(3) r(1) s0 s1(1)
    by (auto simp: prepare_download_def Let_def split: bind_splits option.splits sum.splits prod.splits if_splits
        dest!: remember_download_disk remember_allowed_disk dest: only_files_trans)
  with s1 r(2) show ?thesis using share_ok_frame by (auto simp: only_files_def)
qed

text \<open>Without a database it cannot fail.\<close>

lemma prepare_without_store:
  assumes pl: "places_ok (lib_aead E) w dest key m" and c: "contents_ok (lib_bao E) content m"
    and "reseed \<longrightarrow> hub_shares hub (id_of (lib_blake E) b) = None"
  shows "\<exists>s hub' w'. prepare_download E order reseed key allow code m b dest a (None, hub, w) = Some (Inr s, None, hub', w')"
proof -
  obtain r w1 where r: "restored_share E m b dest key (sc_secret code) None w = Some (r, w1)" "\<not> isl r"
    "\<And>s. r = Inr s \<Longrightarrow> share_ok (lib_blake E) (lib_aead E) content s w1"
    using restored_share_ok [OF pl c, of b "sc_secret code" None] by blast
  then obtain s0 where s0: "r = Inr s0" by (cases r) simp_all
  from restored_share_same [OF r(1) [unfolded s0]] for_download_share(1) have id: "ls_id s0 = id_of (lib_blake E) b"
    by (metis same_share_def)
  from resumed_event_ok [of "lib_blake E" "lib_aead E" content "set_allowed allow s0" w1] r(3) [OF s0]
  obtain s1 where s1: "resumed_event (set_allowed allow s0) = Some s1" by auto
  have "ls_id s1 = id_of (lib_blake E) b"
    using same_run.resumed_event [OF s1] id by (simp add: same_share_def set_allowed_def)
  then show ?thesis
    using r(1) s0 s1 assms(3)
    by (cases reseed) (simp_all add: prepare_download_def register_def set_arc_def Let_def)
qed

text \<open>C7: preparing a download makes a well-formed share: its bitfield, its layout
  and its files fit the manifest, every file opens for writing at its full
  size, and every piece marked as held, whether because a finished file was
  found in place or because the database says so, is the true content. So the
  engine starts in its invariant, with room for as many steps as its counters
  allow.\<close>

theorem prepared_download_ok:
  assumes "places_ok (lib_aead E) w dest key m" and "contents_ok (lib_bao E) content m" and "n < 2 ^ 32"
    and "prepare_download E order reseed key allow code m b dest a (store, hub, w) = Some (Inr s, store', hub', w')"
  shows "ls_manifest s = m \<and> roots_ok s \<and>
    engine_inv (lib_blake E) (lib_aead E) (lib_bao E) content n (engine_new s, w')"
  using prepare_ok [OF assms(1,2,4)] engine_new_inv [of "lib_blake E" "lib_aead E" content s w' "lib_bao E" n] assms(2,3) by simp

lemma wit_contents: "contents_ok toy_bao (\<lambda>_. [1, 2, 3]) wit_manifest"
  using toy_bao_sound by (simp add: contents_ok_def wit_manifest_def)

lemma wit_places: "places_ok toy_aead wit_world [Normal ''d''] None wit_manifest"
  by (simp add: places_ok_def wit_manifest_def fits_def file_pieces_def div_ceil_def BLOCK_SIZE_def place_ok_def download_data_def no_faults_def inj_on_def
      wit_world_def)

theorem prepared_download_ok_witness:
  "engine_inv plain_blake toy_aead toy_bao (\<lambda>_. [1, 2, 3]) 100 (engine_new wit_share, wit_world1)"
  using prepared_download_ok [OF _ _ _ wit_prepare, of "\<lambda>_. [1, 2, 3]" 100] wit_contents wit_places by simp

end
