(* ===== verification/Confinement.thy ===== *)
theory Confinement
  imports Preparing
begin

text \<open>
  Which files a download can change: only those of the manifest it accepted,
  inside the folder it was given, whatever the peers send and however it ends.
\<close>

subsection \<open>Writing through a handle\<close>

lemma pwrite_only [simp]: "p \<in> P \<Longrightarrow> only_files P w (pwrite p pos b w1) = only_files P w w1"
  by (simp add: pwrite_def)

lemma file_write_only: "file_write f pos b w = (r, w') \<Longrightarrow> only_file (fh_path f) w w'"
  by (auto simp: file_write_def split: if_splits)

lemma write_block_only: "write_block A e w i plain = (r, w') \<Longrightarrow> only_file (fh_path (en_file e)) w w'"
  by (auto simp: write_block_def Let_def case_prod_beta split: option.splits
      intro: only_files_trans [OF only_files_draw file_write_only [OF surjective_pairing]])

lemma handle_write_at_only: "handle_write_at A hnd w pos b = (r, w') \<Longrightarrow> only_file (fh_path (handle_file hnd)) w w'"
  by (cases hnd) (auto simp: handle_write_at_def Let_def split: if_splits sum.splits prod.splits dest: file_write_only write_block_only)

lemma handle_write_all_only: "handle_write_all A hnd w pos b = (r, w') \<Longrightarrow> only_file (fh_path (handle_file hnd)) w w'"
  unfolding handle_write_all_def
proof (induction "handle_write_at A hnd" w pos b rule: write_all_loop.induct)
  case (1 w pos b)
  obtain r1 w1 where one: "handle_write_at A hnd w pos b = (r1, w1)" by fastforce
  note step = handle_write_at_only [OF one]
  show ?case
  proof (cases r1)
    case (Inr n)
    show ?thesis
    proof (cases "b = [] \<or> n = 0")
      case True
      with 1(2) one Inr step show ?thesis by (subst (asm) write_all_loop.simps) (auto split: if_splits)
    next
      case False
      with 1(2) one Inr have "write_all_loop (handle_write_at A hnd) w1 (pos + n) (drop n b) = (r, w')"
        by (subst (asm) write_all_loop.simps) simp
      with 1(1) False one Inr have "only_file (fh_path (handle_file hnd)) w1 w'" by auto
      then show ?thesis by (rule only_files_trans [OF step])
    qed
  qed (use 1(2) one step in \<open>subst (asm) write_all_loop.simps, auto split: if_splits\<close>)
qed

lemma write_leaves_only: "write_leaves A hnd leaves w = (r, w') \<Longrightarrow> only_file (fh_path (handle_file hnd)) w w'"
proof (induction leaves arbitrary: w)
  case (Cons leaf leaves)
  then show ?case
    by (cases leaf) (auto split: prod.splits sum.splits dest!: handle_write_all_only intro: only_files_trans)
qed simp

lemma decode_range_only:
  "decode_range A B hnd path rt sz start stop encoded w = (r, w') \<Longrightarrow> only_file (fh_path (handle_file hnd)) w w'"
  by (auto simp: decode_range_def split: prod.splits sum.splits option.splits dest: write_leaves_only)

subsection \<open>The files of a share\<close>

definition share_paths :: "local_share \<Rightarrow> path set" where
  "share_paths s = data_path ` lf_data ` set (ls_files s)"

text \<open>Every writer kept open is on its own file.\<close>

definition writers_own :: "local_share \<Rightarrow> bool" where
  "writers_own s \<longleftrightarrow> (\<forall>f \<in> set (ls_files s). \<forall>hnd. lf_writer f = Some hnd \<longrightarrow> fh_path (handle_file hnd) = data_path (lf_data f))"

lemma writers_own_emit [simp]: "writers_own (emit e s) = writers_own s"
  by (simp add: writers_own_def)

lemma writers_own_mark: "mark_have p s = Some s' \<Longrightarrow> writers_own s' = writers_own s"
  unfolding mark_have_def by (cases "idx (ls_have s) p") (auto simp: writers_own_def split: if_splits)

lemma writers_own_file:
  assumes "i < length (ls_files s)" "lf_data f = lf_data (ls_files s ! i)" "own_writer (ls_files s ! i) f" "writers_own s"
  shows "writers_own (set_local_file i f s)"
  unfolding writers_own_def
proof (intro ballI allI impI)
  fix f' hnd assume f': "f' \<in> set (ls_files (set_local_file i f s))" "lf_writer f' = Some hnd"
  show "fh_path (handle_file hnd) = data_path (lf_data f')"
  proof (cases "f' = f")
    case True
    with f'(2) assms show ?thesis by (auto simp: own_writer_def writers_own_def)
  next
    case False
    then have "f' \<in> set (ls_files s)" using f'(1) set_update_subset_insert [of "ls_files s" i f] by auto
    with f'(2) assms(4) show ?thesis by (simp add: writers_own_def)
  qed
qed

interpretation own: share_steps "\<lambda>s s'. writers_own s \<longrightarrow> writers_own s'"
  by unfold_locales (auto simp: writers_own_mark writers_own_file)

interpretation own_run: engine_steps h A B "\<lambda>s s'. writers_own s \<longrightarrow> writers_own s'"
  by unfold_locales (auto dest: own.store_piece)

lemma share_paths_same: "same_share s s' \<Longrightarrow> share_paths s' = share_paths s"
  by (simp add: share_paths_def same_share_def image_image flip: set_map)

lemma decode_in_share:
  assumes "decode_range A B hnd path rt sz start stop encoded w = (r, w')" "i < length (ls_files s)"
    "fh_path (handle_file hnd) = data_path (lf_data (ls_files s ! i))"
  shows "only_files (share_paths s) w w'"
  using only_files_mono [OF decode_range_only [OF assms(1)]] assms(2,3) by (simp add: share_paths_def)

lemma store_piece_only:
  assumes "store_piece h A B p encoded s w = Some (r, s', w')" "writers_own s"
  shows "only_files (share_paths s) w w'"
proof -
  have own: "fh_path (handle_file hnd) = data_path (lf_data (ls_files s ! i))"
    if "i < length (ls_files s)" "lf_writer (ls_files s ! i) = Some hnd" for i hnd
    using that assms(2) by (simp add: writers_own_def)
  show ?thesis
    using assms(1)
    by (auto simp: store_piece_def Let_def split: if_splits option.splits bind_splits sum.splits prod.splits
        elim!: decode_in_share intro: own open_handle_path)
qed

subsection \<open>The engine and the whole run\<close>

lemma engine_exec_only:
  assumes "engine_exec h A B sp se x (g, w) = Some (g', w')" "writers_own (eg_share g)"
  shows "only_files (share_paths (eg_share g)) w w'"
proof -
  have answered: "only_files (share_paths (eg_share g)) w w'"
    if "answer_worker h A B se peer i answer (g, w) = Some (g', w')" for peer i answer
    using that assms(2)
    by (auto simp: answer_worker_def receive_piece_def Let_def split: sum.splits response.splits bind_splits option.splits prod.splits if_splits
        dest: store_piece_only)
  show ?thesis
  proof (cases x)
    case (Answer peer i answer)
    with assms answered show ?thesis by (auto split: if_splits)
  next
    case (Detached i encoded)
    with assms show ?thesis
      by (auto simp: store_detached_def split: if_splits option.splits prod.splits dest: store_piece_only)
  qed (use assms(1) in \<open>auto split: if_splits bind_splits\<close>)
qed

lemma save_progress_disk: "save_progress E s dest (st, w) = (st', w') \<Longrightarrow> same_disk w w'"
  by (cases "put_record E PROGRESS (download_key (lib_blake E) (ls_id s) dest) (the (to_allocvec (pc_outboards E) (outboard_snapshots s))) (st, w)")
     (auto simp: save_progress_def split: option.splits dest: put_record_disk)

lemma save_now_disk: "save_now E dest g (store, w) = (store', w') \<Longrightarrow> same_disk w w'"
  by (auto simp: save_now_def split: option.splits prod.splits dest: save_progress_disk)

lemma finish_disk: "finish_download E dest g (store, w) = (r, store', w') \<Longrightarrow> same_disk w w'"
proof (cases store)
  case (Some st)
  assume run: "finish_download E dest g (store, w) = (r, store', w')"
  obtain st1 w1 where w1: "save_progress E (release_writers (eg_share g)) dest (st, w) = (st1, w1)" by fastforce
  show ?thesis
    using run w1 Some save_progress_disk [OF w1]
    by (auto simp: finish_download_def Let_def store_mark_complete_def split: sum.splits prod.splits dest!: remove_records_files)
qed (auto simp: finish_download_def Let_def split: sum.splits)

lemma cancel_disk: "cancel_download E dest g (store, w) = (e, store', w') \<Longrightarrow> same_disk w w'"
  by (auto simp: cancel_download_def Let_def split: option.splits prod.splits dest: save_progress_disk)

lemma disk: "same_disk w w' \<Longrightarrow> only_files P w w'"
  by (erule only_files_mono) simp

lemma swarm_only:
  assumes "swarm E sp se dest xs (g, t, store, w) = Some (r, g', store', w')" "writers_own (eg_share g)"
  shows "only_files (share_paths (eg_share g)) w w'"
  using assms
proof (induction xs arbitrary: g t store w)
  case (Cons x xs)
  show ?case
  proof (cases x)
    case (Work op)
    with Cons.prems obtain g1 w1 where g1: "engine_exec (lib_blake E) (lib_aead E) (lib_bao E) sp se op (g, w) = Some (g1, w1)"
      "swarm E sp se dest xs (g1, t, store, w1) = Some (r, g', store', w')"
      by (auto split: bind_splits)
    have "only_files (share_paths (eg_share g)) w1 w'"
      using Cons.IH [OF g1(2)] own_run.engine_exec [OF g1(1)] Cons.prems(2) share_paths_same [OF same_run.engine_exec [OF g1(1)]] by simp
    with engine_exec_only [OF g1(1) Cons.prems(2)] show ?thesis by (rule only_files_trans)
  next
    case SaveTick
    obtain st1 w1 where st1: "save_now E dest g (store, w) = (st1, w1)" by fastforce
    note w1 = disk [OF save_now_disk [OF st1]]
    show ?thesis
    proof (cases "engine_is_done g")
      case True
      with Cons.prems(1) SaveTick st1 obtain r1 where "finish_download E dest g (st1, w1) = (r1, store', w')"
        by (auto simp: Let_def split: prod.splits)
      from disk [OF finish_disk [OF this]] show ?thesis by (rule only_files_trans [OF w1])
    next
      case False
      with Cons SaveTick st1 show ?thesis by (auto simp: Let_def intro: only_files_trans [OF w1])
    qed
  qed (use Cons in \<open>auto simp: Let_def split: if_splits prod.splits dest!: finish_disk cancel_disk intro: disk\<close>)
qed simp

subsection \<open>Preparing the files\<close>

lemma prepare_file_only: "prepare_file B d e w = (r, w') \<Longrightarrow> only_file (data_path d) w w'"
  by (auto simp: prepare_file_def Let_def split: option.splits sum.splits dest: preallocate_only)

text \<open>The places of the files of a manifest.\<close>

definition manifest_paths :: "path \<Rightarrow> master_key option \<Rightarrow> nat \<Rightarrow> file_entry list \<Rightarrow> path set" where
  "manifest_paths dest key n es = (\<lambda>i. data_path (file_at dest key n es i)) ` {..<length es}"

lemma manifest_paths_Cons:
  "manifest_paths dest key n (e # es) = insert (data_path (download_data dest key n e)) (manifest_paths dest key (Suc n) es)"
  by (simp add: manifest_paths_def lessThan_Suc_eq_insert_0 image_image)

lemma download_files_only:
  "download_files B dest key n es w = (r, w') \<Longrightarrow> only_files (manifest_paths dest key n es) w w'"
proof (induction es arbitrary: n w r)
  case (Cons e es)
  obtain r1 w1 where one: "prepare_file B (download_data dest key n e) e w = (r1, w1)" by fastforce
  have first: "only_files (manifest_paths dest key n (e # es)) w w1"
    using only_files_mono [OF prepare_file_only [OF one]] by (simp add: manifest_paths_Cons)
  show ?case
  proof (cases r1)
    case (Inr x)
    obtain r2 where "download_files B dest key (Suc n) es w1 = (r2, w')"
      using Cons.prems one Inr by (cases x) (auto simp: Let_def split: prod.splits sum.splits)
    from only_files_mono [OF Cons.IH [OF this]] have "only_files (manifest_paths dest key n (e # es)) w1 w'"
      by (auto simp: manifest_paths_Cons)
    with first show ?thesis by (rule only_files_trans)
  qed (use Cons.prems one first in \<open>simp add: Let_def\<close>)
qed simp

lemma download_files_idle:
  "download_files B dest key n es w = (Inr (fs, fin), w') \<Longrightarrow> f \<in> set fs \<Longrightarrow> lf_writer f = None"
  by (induction es arbitrary: n w fs fin w')
     (auto simp: Let_def local_file_new_def split: sum.splits prod.splits)

lemma for_download_only:
  assumes "for_download h B m b dest key secret w = Some (r, w')"
  shows "only_files (manifest_paths dest key 0 (m_files m)) w w'" "r = Inr s \<Longrightarrow> writers_own s"
proof -
  from assms obtain r1 where r1: "download_files B dest key 0 (m_files m) w = (r1, w')"
    by (auto simp: for_download_def split: prod.splits sum.splits bind_splits)
  then show "only_files (manifest_paths dest key 0 (m_files m)) w w'" by (rule download_files_only)
  assume "r = Inr s"
  with assms r1 obtain fs fin where fs: "r1 = Inr (fs, fin)"
    "mark_complete fin (from_parts h m b fs secret False (case key of Some _ \<Rightarrow> dest | None \<Rightarrow> path_join dest (path_of (m_name m)))) = Some s"
    by (auto simp: for_download_def split: prod.splits sum.splits bind_splits)
  show "writers_own s"
    using own.mark_complete [OF fs(2)] download_files_idle [OF r1 [unfolded fs(1)]]
    by (simp add: writers_own_def from_parts_def Let_def)
qed

lemma restored_share_only:
  assumes "restored_share E m b dest key secret store w = Some (r, w')"
  shows "only_files (manifest_paths dest key 0 (m_files m)) w w' \<and> (\<forall>s. r = Inr s \<longrightarrow> writers_own s)"
proof (cases "for_download (lib_blake E) (lib_bao E) m b dest key secret w")
  case None
  with assms show ?thesis by (auto simp: restored_share_def)
next
  case (Some rw)
  then obtain r1 w1 where r1: "for_download (lib_blake E) (lib_bao E) m b dest key secret w = Some (r1, w1)" by (cases rw) simp
  note f = for_download_only [OF r1]
  from assms r1 f show ?thesis
    by (auto simp: restored_share_def restore_progress_def split: sum.splits option.splits prod.splits dest!: own.restore_files)
qed

lemma prepare_only:
  assumes "prepare_download E order reseed key allow code m b dest a (store, hub, w) = Some (r, store', hub', w')"
  shows "only_files (manifest_paths dest key 0 (m_files m)) w w' \<and> (\<forall>s. r = Inr s \<longrightarrow> writers_own s)"
proof -
  from assms obtain r1 w1 where r1: "restored_share E m b dest key (sc_secret code) store w = Some (r1, w1)"
    by (auto simp: prepare_download_def split: bind_splits)
  note f = restored_share_only [OF r1]
  show ?thesis
  proof (cases r1)
    case (Inr s0)
    have allowed: "writers_own (set_allowed allow s0) = writers_own s0" by (simp add: writers_own_def set_allowed_def)
    obtain s1 where s1: "resumed_event (set_allowed allow s0) = Some s1" "r = Inr s \<Longrightarrow> s = s1" for s
      using assms r1 Inr
      by (auto simp: prepare_download_def Let_def split: bind_splits option.splits sum.splits prod.splits if_splits)
    have "same_disk w1 w'"
      using assms r1 Inr
      by (auto simp: prepare_download_def Let_def split: bind_splits option.splits sum.splits prod.splits if_splits
          dest!: remember_download_disk remember_allowed_disk dest: only_files_trans)
    with f Inr own_run.resumed_event [OF s1(1)] allowed s1(2) show ?thesis by (blast intro: only_files_trans disk)
  qed (use assms r1 f in \<open>auto simp: prepare_download_def\<close>)
qed

lemma download_run_only:
  assumes "download_run E sp se order ctx code dest a rounds events (store, hub, w) = Some (r, store', hub', w')"
  shows "w' = w \<or> (\<exists>m b. decode_verified (lib_blake E) (pc_manifest E) (lib_lower E) b (sc_id code) = Inr m \<and>
    m_name m = sc_name code \<and> only_files (manifest_paths dest (cx_key ctx) 0 (m_files m)) w w')"
proof (cases "\<exists>m b addr t. search_rounds (lib_blake E) (pc_manifest E) (lib_lower E) sp code (cx_discovery_timeout ctx)
      (first_found code rounds) (search_new (cx_me ctx)) = Inl (Inr (m, b, addr, t))")
  case True
  then obtain m b addr t where found: "search_rounds (lib_blake E) (pc_manifest E) (lib_lower E) sp code (cx_discovery_timeout ctx)
      (first_found code rounds) (search_new (cx_me ctx)) = Inl (Inr (m, b, addr, t))" by blast
  obtain answer where "fetch_manifest (lib_blake E) (pc_manifest E) (lib_lower E) code answer = Inr (m, b)"
    using search_rounds_found [OF found] by blast
  note ok = fetch_manifest_ok(1,2) [OF this]
  let ?P = "manifest_paths dest (cx_key ctx) 0 (m_files m)"
  obtain r1 store1 hub1 w1 where made: "prepare_download E order (cx_reseed ctx) (cx_key ctx) (cx_allow ctx) code m b dest a
      (store, hub, w) = Some (r1, store1, hub1, w1)"
    using assms found by (auto simp: download_run_def simp del: swarm.simps split: bind_splits)
  note p = prepare_only [OF made]
  have "only_files ?P w w'"
  proof (cases r1)
    case (Inr s)
    obtain r2 g where run: "swarm E sp se dest (Work (Connect (ea_id addr)) # FinishedNotified # events)
        (engine_new s, manifest_received m t, store1, w1) = Some (r2, g, store', w')"
      using assms found made Inr by (auto simp: download_run_def simp del: swarm.simps split: bind_splits)
    have new: "eg_share (engine_new s) = s" by (simp add: engine_new_def)
    note share = prepare_share(2,4) [OF made [unfolded Inr]]
    have "share_paths s = ?P"
      by (auto simp: share_paths_def manifest_paths_def set_conv_nth share image_iff) (metis share)+
    then have "only_files ?P w1 w'" using swarm_only [OF run] p Inr new by simp
    with p show ?thesis by (blast intro: only_files_trans)
  qed (use assms found made p in \<open>auto simp: download_run_def simp del: swarm.simps\<close>)
  with ok show ?thesis by blast
qed (use assms in \<open>auto simp: download_run_def simp del: swarm.simps split: sum.splits prod.splits\<close>)

text \<open>C6: whatever the peers send and however the download ends, either the disk
  is as it was or there is a manifest, one that passes the checks for the id
  and the name in the share code, and every file that changed is the place of
  one of its entries: the entry's own path, of proper names below the share's
  name, under the folder the download was given; or, encrypted, the file of
  the store that has the entry's number.\<close>

theorem download_confined:
  assumes "download_run E sp se order ctx code dest a rounds events (store, hub, w) = Some (r, store', hub', w')"
  shows "w' = w \<or> (\<exists>m b. decode_verified (lib_blake E) (pc_manifest E) (lib_lower E) b (sc_id code) = Inr m \<and> m_name m = sc_name code \<and>
    (\<forall>p. files w' p \<noteq> files w p \<longrightarrow> (\<exists>i < length (m_files m). case cx_key ctx of
        None \<Rightarrow> p = dest @ map Normal (fe_path (m_files m ! i)) \<and>
          (\<exists>names. fe_path (m_files m ! i) = sc_name code # names) \<and> (\<forall>n \<in> set (fe_path (m_files m ! i)). name_problem n = None)
      | Some _ \<Rightarrow> p = path_join dest (path_of (show_nat i @ ''.enc'')))))"
proof -
  have place: "\<exists>i < length (m_files m). case cx_key ctx of
        None \<Rightarrow> p = dest @ map Normal (fe_path (m_files m ! i)) \<and>
          (\<exists>names. fe_path (m_files m ! i) = sc_name code # names) \<and> (\<forall>n \<in> set (fe_path (m_files m ! i)). name_problem n = None)
      | Some _ \<Rightarrow> p = path_join dest (path_of (show_nat i @ ''.enc''))"
    if m: "decode_verified (lib_blake E) (pc_manifest E) (lib_lower E) b (sc_id code) = Inr m" "m_name m = sc_name code"
      and p: "p \<in> manifest_paths dest (cx_key ctx) 0 (m_files m)" for m b p
  proof -
    from p obtain i where i: "i < length (m_files m)" "p = data_path (download_data dest (cx_key ctx) i (m_files m ! i))"
      by (auto simp: manifest_paths_def)
    have ok: "entry_ok (sc_name code) (m_files m ! i)" using m i(1) by (auto simp: decode_verified_Inr validate_iff)
    obtain names where "fe_path (m_files m ! i) = sc_name code # names"
      using ok by (cases "fe_path (m_files m ! i)") (auto simp: entry_ok_def)
    with i join_entry_path [OF ok, of dest] ok show ?thesis
      by (intro exI [of _ i] conjI) (auto simp: download_data_def entry_ok_def split: option.splits)
  qed
  from download_run_only [OF assms] show ?thesis
  proof (elim disjE exE conjE)
    fix m b assume m: "decode_verified (lib_blake E) (pc_manifest E) (lib_lower E) b (sc_id code) = Inr m" "m_name m = sc_name code"
      "only_files (manifest_paths dest (cx_key ctx) 0 (m_files m)) w w'"
    from m(3) have "p \<in> manifest_paths dest (cx_key ctx) 0 (m_files m)" if "files w' p \<noteq> files w p" for p
      using that by (auto simp: only_files_def)
    with m(1,2) place show ?thesis by meson
  qed simp
qed

theorem download_confined_witness:
  "\<exists>out w1 m b i. download_run wit_libs (\<lambda>_. []) (\<lambda>_. []) (\<lambda>_. []) wit_ctx wit_code [Normal ''d''] 0 [wit_round] wit_events
     (None, wit_hub, wit_world) = Some (Some (Inr out), None, wit_hub, w1) \<and> files w1 wit_path \<noteq> files wit_world wit_path \<and>
   decode_verified (lib_blake wit_libs) (pc_manifest wit_libs) (lib_lower wit_libs) b (sc_id wit_code) = Inr m \<and>
   i < length (m_files m) \<and> wit_path = [Normal ''d''] @ map Normal (fe_path (m_files m ! i))"
proof -
  obtain out where run: "download_run wit_libs (\<lambda>_. []) (\<lambda>_. []) (\<lambda>_. []) wit_ctx wit_code [Normal ''d''] 0 [wit_round] wit_events
     (None, wit_hub, wit_world) = Some (Some (Inr out), None, wit_hub, put_file wit_path [1, 2, 3] wit_world1)"
    using wit_run by blast
  have changed: "files (put_file wit_path [1, 2, 3] wit_world1) wit_path \<noteq> files wit_world wit_path"
    by (simp add: put_file_def wit_world_def)
  then have other: "put_file wit_path [1, 2, 3] wit_world1 \<noteq> wit_world" by metis
  from download_confined [OF run] other obtain m b where
    m: "decode_verified (lib_blake wit_libs) (pc_manifest wit_libs) (lib_lower wit_libs) b (sc_id wit_code) = Inr m"
    "\<exists>i < length (m_files m). case cx_key wit_ctx of
        None \<Rightarrow> wit_path = [Normal ''d''] @ map Normal (fe_path (m_files m ! i)) \<and>
          (\<exists>names. fe_path (m_files m ! i) = sc_name wit_code # names) \<and> (\<forall>n \<in> set (fe_path (m_files m ! i)). name_problem n = None)
      | Some _ \<Rightarrow> wit_path = path_join [Normal ''d''] (path_of (show_nat i @ ''.enc''))"
    using changed by meson
  have "cx_key wit_ctx = None" by (simp add: wit_ctx_def)
  with m(2) obtain i where "i < length (m_files m)" "wit_path = [Normal ''d''] @ map Normal (fe_path (m_files m ! i))" by auto
  with run changed m(1) show ?thesis by blast
qed

end
