(* ===== verification/Fetching.thy ===== *)
theory Fetching
  imports Liveness Confinement Share_Reading
begin

text \<open>
  A whole download from one honest seeder, from the share code to the files:
  \<open>run\<close> of \<open>download.rs\<close> against \<open>handler.rs\<close> at the other end.
\<close>

subsection \<open>The worker's steps as events of the loop\<close>

text \<open>The steps that \<open>worker_rounds\<close> takes.\<close>

fun worker_ops ::
  "(engine_op \<Rightarrow> engine \<times> world \<Rightarrow> (engine \<times> world) option) \<Rightarrow> (nat \<Rightarrow> nat \<Rightarrow> 'st \<Rightarrow> ((error + response) \<times> 'st) option) \<Rightarrow>
     endpoint_id \<Rightarrow> nat \<Rightarrow> 'st \<Rightarrow> engine \<times> world \<Rightarrow> engine_op list option" where
  "worker_ops exec ask peer 0 st gw = Some []"
| "worker_ops exec ask peer (Suc n) st gw = do {
     (g1, w1) \<leftarrow> exec (Ask peer) gw;
     (case eg_requests g1 of
        [] \<Rightarrow> map_option ((#) (Ask peer)) (worker_ops exec ask peer n st (g1, w1))
      | (q, i) # _ \<Rightarrow> do {
          (answer, st1) \<leftarrow> ask n i st;
          gw2 \<leftarrow> exec (Answer q i answer) (g1, w1);
          ops \<leftarrow> worker_ops exec ask peer n st1 gw2;
          Some (Ask peer # Answer q i answer # ops) }) }"

lemma worker_ops_run:
  assumes "worker_rounds exec ask peer n st gw = Some (st', gw')"
  shows "\<exists>ops. worker_ops exec ask peer n st gw = Some ops \<and> run_ops exec ops gw = Some gw'"
  using assms
proof (induction n arbitrary: st gw)
  case (Suc n)
  from Suc.prems obtain g1 w1 where one: "exec (Ask peer) gw = Some (g1, w1)" by (auto split: bind_splits)
  show ?case
  proof (cases "eg_requests g1")
    case Nil
    with Suc.prems one have "worker_rounds exec ask peer n st (g1, w1) = Some (st', gw')" by simp
    from Suc.IH [OF this] one Nil show ?thesis by auto
  next
    case (Cons req reqs)
    obtain q i where req: "req = (q, i)" by (cases req)
    from Suc.prems one Cons req obtain answer st1 gw2 where two: "ask n i st = Some (answer, st1)"
      "exec (Answer q i answer) (g1, w1) = Some gw2" "worker_rounds exec ask peer n st1 gw2 = Some (st', gw')"
      by (auto split: bind_splits)
    from Suc.IH [OF two(3)] one Cons req two show ?thesis by auto
  qed
qed simp

lemma swarm_work:
  "run_ops (engine_exec (lib_blake E) (lib_aead E) (lib_bao E) sp se) ops (g, w) = Some (g1, w1) \<Longrightarrow>
     swarm E sp se dest (map Work ops @ xs) (g, t, store, w) = swarm E sp se dest xs (g1, t, store, w1)"
proof (induction ops arbitrary: g w)
  case (Cons x ops)
  then obtain g2 w2 where "engine_exec (lib_blake E) (lib_aead E) (lib_bao E) sp se x (g, w) = Some (g2, w2)"
    "run_ops (engine_exec (lib_blake E) (lib_aead E) (lib_bao E) sp se) ops (g2, w2) = Some (g1, w1)"
    by (auto split: bind_splits)
  with Cons.IH show ?case by simp
qed simp

lemma run_ops_only:
  assumes "run_ops (engine_exec h A B sp se) ops (g, w) = Some (g', w')" "writers_own (eg_share g)"
  shows "only_files (share_paths (eg_share g)) w w'"
  using assms
proof (induction ops arbitrary: g w)
  case (Cons x ops)
  from Cons.prems(1) obtain g1 w1 where one: "engine_exec h A B sp se x (g, w) = Some (g1, w1)"
    "run_ops (engine_exec h A B sp se) ops (g1, w1) = Some (g', w')"
    by (auto split: bind_splits)
  have "only_files (share_paths (eg_share g)) w1 w'"
    using Cons.IH [OF one(2)] own_run.engine_exec [OF one(1)] Cons.prems(2) share_paths_same [OF same_run.engine_exec [OF one(1)]] by simp
  then show ?case using only_files_trans [OF engine_exec_only [OF one(1) Cons.prems(2)]] by blast
qed simp

subsection \<open>A finished download verifies\<close>

definition hashes_to :: "bao \<Rightarrow> (nat \<Rightarrow> bytes) \<Rightarrow> manifest \<Rightarrow> bool" where
  "hashes_to B content m \<longleftrightarrow> (\<forall>i < length (m_files m). ob_root (bao_create B (content i)) = fe_root (m_files m ! i))"

lemma file_hashes:
  assumes "file_ready h A w f (length c) hnd" "handle_view A hnd w = c"
    "\<And>e k. hnd = EncHandle e \<Longrightarrow> k < blocks e \<Longrightarrow> block_written A e w k" "no_faults (data_path (lf_data f)) w"
  shows "hash_data h A B (lf_data f) (length c) w = Inr (resized B (bao_create B c))"
proof (cases "lf_data f")
  case (Plain p)
  with assms(1,2,4) show ?thesis
    by (auto simp: file_ready_def open_data_def open_with_cases hash_data_def hash_file_def open_file_def open_options_def
        no_faults_access result_simps handle_view_def file_content_def split: option.splits if_splits)
next
  case (Encrypted p key sz)
  have opened: "open_data h True (lf_data f) w = Inr hnd" and hw: "handle_writable A hnd w"
    using assms(1) by (simp_all add: file_ready_def)
  obtain hs where hs: "open_strict h (lf_data f) w = Inr hs"
    using opened assms(4) by (auto simp: Encrypted open_data_def open_strict_def open_with_cases no_faults_access Let_def
        split: option.splits if_splits)
  have eq: "hs = strict_reading hnd" by (rule open_strict_reading [OF opened hs])
  note view = strict_reading_view [OF hw assms(3), folded eq]
  have "handle_read_exact A hs w 0 (length c) = Inr c"
    using handle_read_exact_ok [OF view(1), of 0 "length c"] view(2) assms(2) by (simp add: slice_def)
  then show ?thesis using hs by (simp add: hash_data_def Encrypted result_simps)
qed

lemma verify_files_ok:
  assumes "length fs = length es"
    and "\<And>i. i < length es \<Longrightarrow> \<exists>ob. hash_data h A B (lf_data (fs ! i)) (unat (fe_size (es ! i))) w = Inr ob \<and> ob_root ob = fe_root (es ! i)"
  shows "verify_files h A B w (zip fs es) = Inr ()"
  using assms
proof (induction fs es rule: list_induct2)
  case (Cons f fs e es)
  have "\<exists>ob. hash_data h A B (lf_data (fs ! i)) (unat (fe_size (es ! i))) w = Inr ob \<and> ob_root ob = fe_root (es ! i)"
    if "i < length es" for i using Cons.prems [of "Suc i"] that by simp
  with Cons.IH Cons.prems [of 0] show ?case by (auto simp: result_simps)
qed simp

lemma held_file_complete:
  assumes "share_shape s" "held s = {..<length (ls_have s)}" "i < length (ls_files s)"
  shows "file_complete s i = Some True"
proof -
  obtain a b where ab: "pieces_of (ls_layout s) i = Some (a, b)"
    using pieces_of_file [of "ls_manifest s" i] assms(1,3) by (auto simp: share_shape_def)
  have "has s p" if "a \<le> p" "p < b" for p
  proof -
    have "p < length (ls_have s)" by (rule file_piece [OF assms(1,3) ab that]) simp
    with assms(2) show ?thesis by (auto simp: held_def)
  qed
  with ab show ?thesis by (auto simp: file_complete_def list_all_iff)
qed

lemma verify_ok:
  assumes ok: "share_ok h A content s w" and B: "contents_ok B content (ls_manifest s)" "hashes_to B content (ls_manifest s)"
    and full: "held s = {..<length (ls_have s)}" and nf: "\<And>f. f \<in> set (ls_files s) \<Longrightarrow> no_faults (data_path (lf_data f)) w"
  shows "verify h A B (release_writers s) w = Inr ()"
  unfolding verify_def
proof (rule verify_files_ok)
  have shape: "share_shape s" using ok by (simp add: share_ok_def)
  then have len: "length (ls_files s) = length (m_files (ls_manifest s))" by (simp add: share_shape_def)
  then show "length (ls_files (release_writers s)) = length (m_files (ls_manifest (release_writers s)))"
    by (simp add: release_writers_def)
  fix i assume "i < length (m_files (ls_manifest (release_writers s)))"
  then have i: "i < length (ls_files s)" "i < length (m_files (ls_manifest s))" using len by (simp_all add: release_writers_def)
  obtain hnd where hnd: "file_ready h A w (ls_files s ! i) (entry_size s i) hnd" "handle_view A hnd w = content i"
    "\<And>e k. hnd = EncHandle e \<Longrightarrow> k < blocks e \<Longrightarrow> block_written A e w k"
    using complete_file_held [OF ok B(1) i(1) held_file_complete [OF shape full i(1)]] by blast
  have size: "length (content i) = entry_size s i" using B(1) i(2) by (simp add: contents_ok_def entry_size_def)
  have "hash_data h A B (lf_data (ls_files s ! i)) (length (content i)) w = Inr (resized B (bao_create B (content i)))"
    using file_hashes [OF hnd(1) [folded size] hnd(2,3)] nf i(1) by simp
  then show "\<exists>ob. hash_data h A B (lf_data (ls_files (release_writers s) ! i))
      (unat (fe_size (m_files (ls_manifest (release_writers s)) ! i))) w = Inr ob \<and>
      ob_root ob = fe_root (m_files (ls_manifest (release_writers s)) ! i)"
    using B(2) i size by (simp add: release_writers_def entry_size_def hashes_to_def resized_def)
qed

subsection \<open>An honest seeder\<close>

text \<open>
  The token a downloader shows; and a share that has every piece of a manifest
  with its encoding, whose trees have the manifest's roots, which are those of
  the content, and that can encode piece \<open>p\<close> as \<open>enc p\<close>.
\<close>

definition code_auth :: "blake3 \<Rightarrow> share_code \<Rightarrow> endpoint_id \<Rightarrow> token option" where
  "code_auth h code me = map_option (\<lambda>s. access_token h s me) (sc_secret code)"

definition honest_seeder :: "'d libs \<Rightarrow> (nat \<Rightarrow> bytes) \<Rightarrow> local_share \<Rightarrow> world \<Rightarrow> (nat \<Rightarrow> bytes) \<Rightarrow> bool" where
  "honest_seeder E content s0 w0 enc \<longleftrightarrow>
     decode_verified (lib_blake E) (pc_manifest E) (lib_lower E) (ls_manifest_bytes s0) (ls_id s0) = Inr (ls_manifest s0) \<and>
     length (ls_manifest_bytes s0) \<le> MAX_MANIFEST_BYTES \<and> ls_layout s0 = layout_new (ls_manifest s0) \<and>
     ls_have s0 = replicate (total_pieces (ls_layout s0)) True \<and>
     contents_ok (lib_bao E) content (ls_manifest s0) \<and> hashes_to (lib_bao E) content (ls_manifest s0) \<and>
     (\<forall>i < length (m_files (ls_manifest s0)).
        ob_root (lf_outboard (ls_files s0 ! i)) = fe_root (m_files (ls_manifest s0) ! i) \<and>
        bao_accepts (lib_bao E) (fe_root (m_files (ls_manifest s0) ! i)) (unat (fe_size (m_files (ls_manifest s0) ! i)))) \<and>
     (\<forall>p < total_pieces (ls_layout s0). encode_piece (lib_blake E) (lib_aead E) (lib_bao E) p s0 w0 = Some (Inr (enc p)))"

text \<open>A code made for the share, and messages about it that fit in frames.\<close>

definition code_for :: "share_code \<Rightarrow> local_share \<Rightarrow> bool" where
  "code_for code s0 \<longleftrightarrow> sc_id code = ls_id s0 \<and> sc_name code = m_name (ls_manifest s0) \<and>
     sc_total_size code = total_size (ls_manifest s0) \<and> sc_secret code = ls_secret s0"

definition frames_fit :: "request codec \<Rightarrow> response codec \<Rightarrow> token option \<Rightarrow> local_share \<Rightarrow> (nat \<Rightarrow> bytes) \<Rightarrow> bool" where
  "frames_fit qc rc auth s0 enc \<longleftrightarrow>
     sendable qc (ReqManifest (ls_id s0) auth) \<and> sendable rc (RespManifest (ls_manifest_bytes s0)) \<and>
     sendable qc (ReqSubscribe (ls_id s0) auth) \<and> sendable rc (RespBitfield (packed_bitfield s0)) \<and>
     (\<forall>p < total_pieces (ls_layout s0). sendable qc (piece_request (ls_id s0) auth p) \<and> sendable rc (RespPiece (enc p)))"

definition allows :: "local_share \<Rightarrow> endpoint_id \<Rightarrow> bool" where
  "allows s0 me \<longleftrightarrow> (case ls_allowed s0 of None \<Rightarrow> True | Some ps \<Rightarrow> me \<in> ps)"

lemma code_authorized: "code_for code s0 \<Longrightarrow> allows s0 me \<Longrightarrow> authorized h s0 me (code_auth h code me)"
  by (auto simp: authorized_def code_for_def allows_def code_auth_def split: option.splits)

lemma manifest_over_network:
  assumes "seeds s0 a (fst hl)" "authorized h s0 me auth"
    and "sendable qc (ReqManifest (ls_id s0) auth)" "sendable rc (RespManifest (ls_manifest_bytes s0))"
  shows "exchange (node_serves h A B qc rc stamp w0 me us now) qc rc (ReqManifest (ls_id s0) auth) hl
      = Some (Inr (RespManifest (ls_manifest_bytes s0)), hl)"
proof (rule exchange_answer [OF assms(3,4)])
  fix recv rest assume recv: "expect_frame qc recv = Inr (ReqManifest (ls_id s0) auth, rest)"
  obtain hub limiter where hl: "hl = (hub, limiter)" by (cases hl)
  obtain evs where arc: "hub_arcs hub a = s0\<lparr>ls_events := evs\<rparr>" using assms(1) hl by (auto simp: seeds_def)
  show "\<exists>out tail. node_serves h A B qc rc stamp w0 me us now recv new_stream hl = Some (out, hl) \<and>
      (\<forall>s1. write_frame rc (RespManifest (ls_manifest_bytes s0)) new_stream = Inr s1 \<longrightarrow> sd_bytes out = sd_bytes s1 @ tail)"
    using recv seeder_lists [OF assms(1,2)] arc hl by (auto simp: serve_stream_def serve_request_def split: sum.split)
qed

subsection \<open>The whole run\<close>

text \<open>
  A round of the search in which the first peer answers, and the events of the
  loop from then on: a subscription to the seeder, and one worker's exchanges
  with it.
\<close>

definition answering_round :: "rat \<Rightarrow> error + response \<Rightarrow> round" where
  "answering_round t answer = \<lparr>rd_drained = [], rd_waited = WaitOver, rd_remaining = t,
     rd_network = (\<lambda>_ _. Some answer), rd_cancelled = False, rd_pause_cancelled = False\<rparr>"

definition session ::
  "(engine_op \<Rightarrow> engine \<times> world \<Rightarrow> (engine \<times> world) option) \<Rightarrow> (request \<Rightarrow> nat \<Rightarrow> 'st \<Rightarrow> ((error + response) \<times> 'st) option) \<Rightarrow>
     share_id \<Rightarrow> token option \<Rightarrow> endpoint_id \<Rightarrow> nat \<Rightarrow> 'st \<Rightarrow> engine \<times> world \<Rightarrow> loop_event list option" where
  "session exec ask i auth peer n st gw = do {
     (first, st1) \<leftarrow> ask (ReqSubscribe i auth) n st;
     gw1 \<leftarrow> run_ops exec [Connect peer, Join peer first] gw;
     ops \<leftarrow> worker_ops exec (\<lambda>m p. ask (piece_request i auth p) m) peer n st1 gw1;
     Some (map Work (Join peer first # ops) @ [FinishedNotified]) }"

text \<open>Every file of a share is on disk as it should be.\<close>

definition all_delivered :: "'d libs \<Rightarrow> world \<Rightarrow> (nat \<Rightarrow> bytes) \<Rightarrow> local_share \<Rightarrow> bool" where
  "all_delivered E w content s \<longleftrightarrow>
     (\<forall>i < length (ls_files s). delivered (lib_blake E) (lib_aead E) w (lf_data (ls_files s ! i)) (content i))"

lemma all_delivered_same:
  assumes "all_delivered E w content s'" "same_share s s'"
  shows "all_delivered E w content s"
  using assms same_length [OF assms(2)] same_data [OF assms(2)] by (simp add: all_delivered_def)

lemma finish_succeeds:
  assumes inv: "engine_inv (lib_blake E) (lib_aead E) (lib_bao E) content k (g, w)" and "engine_is_done g"
    and "hashes_to (lib_bao E) content (ls_manifest (eg_share g))"
    and "\<And>f. f \<in> set (ls_files (eg_share g)) \<Longrightarrow> no_faults (data_path (lf_data f)) w"
  shows "\<exists>out. finish_download E dest g (None, w) = (Inr out, None, w) \<and> all_delivered E w content (eg_share g)"
proof -
  let ?s = "eg_share g"
  note d = engine_invD [OF inv]
  have verified: "verify (lib_blake E) (lib_aead E) (lib_bao E) (release_writers ?s) w = Inr ()"
    by (rule verify_ok [OF d(1,2) assms(3) done_held [OF inv assms(2)] assms(4)])
  have len: "length (ls_files ?s) = length (m_files (ls_manifest ?s))" using d(8) by (simp add: share_shape_def)
  have "all_delivered E w content ?s"
    unfolding all_delivered_def
  proof (intro allI impI)
    fix i assume i: "i < length (ls_files ?s)"
    then have "length (content i) = unat (fe_size (m_files (ls_manifest ?s) ! i))"
      "bao_sound (lib_bao E) (fe_root (m_files (ls_manifest ?s) ! i)) (content i)"
      using d(2) len by (simp_all add: contents_ok_def)
    moreover have "ls_manifest (release_writers ?s) = ls_manifest ?s" by (simp add: release_writers_def)
    then have "verify_files (lib_blake E) (lib_aead E) (lib_bao E) w
        (zip (ls_files (release_writers ?s)) (m_files (ls_manifest ?s))) = Inr ()"
      using verified unfolding verify_def by simp
    ultimately have "delivered (lib_blake E) (lib_aead E) w (lf_data (ls_files (release_writers ?s) ! i)) (content i)"
      using i len by (intro verify_files_delivered) (simp_all add: release_writers_def)
    then show "delivered (lib_blake E) (lib_aead E) w (lf_data (ls_files ?s ! i)) (content i)"
      using i by (simp add: release_writers_def)
  qed
  with verified show ?thesis by (simp add: finish_download_def Let_def)
qed

text \<open>The steps of a session, after the connection: they end with every piece held.\<close>

lemma session_runs:
  assumes s: "share_ok (lib_blake E) (lib_aead E) content s w"
    and honest: "honest_seeder E content seeder w0 enc" and m: "ls_manifest s = ls_manifest seeder"
    and saves: "bao_saves (lib_bao E)" and net: "seeds seeder a (fst hl)" "authorized (lib_blake E) seeder me auth"
    and fit: "frames_fit qc rc auth seeder enc"
    and n: "total_pieces (ls_layout seeder) \<le> n" "n < 2 ^ 30"
  shows "\<exists>ops g' w'.
    session (engine_exec (lib_blake E) (lib_aead E) (lib_bao E) sp se)
      (\<lambda>req k. exchange (node_serves (lib_blake E) (lib_aead E) (lib_bao E) qc rc stamp w0 me [] (time k)) qc rc req)
      (ls_id seeder) auth peer n hl (engine_new s, w) = Some (map Work ops @ [FinishedNotified]) \<and>
    run_ops (engine_exec (lib_blake E) (lib_aead E) (lib_bao E) sp se) ops (snd (open_peer peer (engine_new s)), w) = Some (g', w') \<and>
    engine_is_done g' \<and> engine_inv (lib_blake E) (lib_aead E) (lib_bao E) content 0 (g', w')"
proof -
  let ?h = "lib_blake E" and ?A = "lib_aead E" and ?B = "lib_bao E"
  let ?exec = "engine_exec ?h ?A ?B sp se"
  let ?ask = "\<lambda>req k. exchange (node_serves ?h ?A ?B qc rc stamp w0 me [] (time k)) qc rc req"
  have shape: "share_shape s" using s by (simp add: share_ok_def)
  have layout: "ls_layout seeder = ls_layout s" using honest shape m by (simp add: honest_seeder_def share_shape_def)
  have len: "length (ls_have s) = total_pieces (ls_layout seeder)" using shape layout by (simp add: share_shape_def)
  have c: "contents_ok ?B content (ls_manifest s)" "hashes_to ?B content (ls_manifest s)"
    using honest m by (simp_all add: honest_seeder_def)
  have same: "same_content ?B seeder s" using honest layout m by (simp add: honest_seeder_def same_content_def)
  have full: "ls_have seeder = replicate (length (ls_have s)) True" using honest len by (simp add: honest_seeder_def)
  have enc: "encode_piece ?h ?A ?B p seeder w0 = Some (Inr (enc p))" if "p < length (ls_have s)" for p
    using honest that len by (simp add: honest_seeder_def)
  have sends: "sendable qc (piece_request (ls_id seeder) auth p) \<and> sendable rc (RespPiece (enc p))" if "p < length (ls_have s)" for p
    using fit that len by (simp add: frames_fit_def)
  have sub: "sendable qc (ReqSubscribe (ls_id seeder) auth)" "sendable rc (RespBitfield (packed_bitfield seeder))"
    using fit by (simp_all add: frames_fit_def)
  have small: "length (ls_have s) \<le> 2 ^ 32" "length (ls_have s) - card (held s) \<le> n" using n len by simp_all
  from seeder_finishes [where sp = sp and se = se and stamp = stamp and us = "[]" and now = "time n" and peer = peer and time = time,
      OF s c(1) same full saves enc net sub sends small n(2)]
  obtain first hl1 hl2 g g' w' where run:
    "?ask (ReqSubscribe (ls_id seeder) auth) n hl = Some (first, hl1)"
    "run_ops ?exec [Connect peer, Join peer first] (engine_new s, w) = Some (g, w)"
    "worker_rounds ?exec (\<lambda>k p. ?ask (piece_request (ls_id seeder) auth p) k) peer n hl1 (g, w) = Some (hl2, g', w')"
    and ended: "engine_is_done g'" "engine_inv ?h ?A ?B content 0 (g', w')" "gained (engine_new s) g'"
    by blast
  obtain ops where ops: "worker_ops ?exec (\<lambda>k p. ?ask (piece_request (ls_id seeder) auth p) k) peer n hl1 (g, w) = Some ops"
    "run_ops ?exec ops (g, w) = Some (g', w')"
    using worker_ops_run [OF run(3)] by blast
  have "run_ops ?exec (Join peer first # ops) (snd (open_peer peer (engine_new s)), w) = Some (g', w')"
    using run(2) ops(2) by (auto simp del: engine_exec.simps(2-) split: bind_splits)
  moreover have "session ?exec ?ask (ls_id seeder) auth peer n hl (engine_new s, w) =
      Some (map Work (Join peer first # ops) @ [FinishedNotified])"
    using run(1,2) ops(1) by (simp add: session_def del: engine_exec.simps run_ops.simps)
  ultimately show ?thesis using ended(1,2) by blast
qed

lemma session_finishes:
  assumes s: "share_ok (lib_blake E) (lib_aead E) content s w" "writers_own s"
    and honest: "honest_seeder E content seeder w0 enc" and m: "ls_manifest s = ls_manifest seeder"
    and saves: "bao_saves (lib_bao E)" and net: "seeds seeder a (fst hl)" "authorized (lib_blake E) seeder me auth"
    and fit: "frames_fit qc rc auth seeder enc"
    and n: "total_pieces (ls_layout seeder) \<le> n" "n < 2 ^ 30"
    and nf: "\<And>f. f \<in> set (ls_files s) \<Longrightarrow> no_faults (data_path (lf_data f)) w"
  shows "\<exists>events out g' w'.
    session (engine_exec (lib_blake E) (lib_aead E) (lib_bao E) sp se)
      (\<lambda>req k. exchange (node_serves (lib_blake E) (lib_aead E) (lib_bao E) qc rc stamp w0 me [] (time k)) qc rc req)
      (ls_id seeder) auth peer n hl (engine_new s, w) = Some events \<and>
    swarm E sp se dest (Work (Connect peer) # FinishedNotified # events) (engine_new s, t, None, w) =
      Some (Some (Inr out), g', None, w') \<and> all_delivered E w' content s"
proof -
  let ?h = "lib_blake E" and ?A = "lib_aead E" and ?B = "lib_bao E"
  let ?exec = "engine_exec ?h ?A ?B sp se"
  obtain ops g' w' where events: "session ?exec
      (\<lambda>req k. exchange (node_serves ?h ?A ?B qc rc stamp w0 me [] (time k)) qc rc req)
      (ls_id seeder) auth peer n hl (engine_new s, w) = Some (map Work ops @ [FinishedNotified])"
    and rest: "run_ops ?exec ops (snd (open_peer peer (engine_new s)), w) = Some (g', w')"
    and ended: "engine_is_done g'" "engine_inv ?h ?A ?B content 0 (g', w')"
    using session_runs [where sp = sp and se = se and stamp = stamp and peer = peer and time = time, OF s(1) honest m saves net fit n] by blast
  have c: "contents_ok ?B content (ls_manifest s)" "hashes_to ?B content (ls_manifest s)"
    using honest m by (simp_all add: honest_seeder_def)
  define g0 where "g0 = snd (open_peer peer (engine_new s))"
  note rest = rest [folded g0_def]
  have connect: "?exec (Connect peer) (engine_new s, w) = Some (g0, w)" by (simp add: g0_def)
  let ?events = "map Work ops @ [FinishedNotified]"
  have own0: "eg_share g0 = s" "writers_own (eg_share g0)"
    using s(2) by (auto simp: g0_def open_peer_def engine_new_def)
  have end0: "\<exists>out. finish_download E dest g0 (None, w) = (Inr out, None, w) \<and> all_delivered E w content s" if "engine_is_done g0"
  proof -
    have "engine_inv ?h ?A ?B content (Suc (Suc 0)) (engine_new s, w)" by (rule engine_new_inv [OF s(1) c(1)]) simp
    from engine_exec_ok [OF this, of sp se "Connect peer"] connect have "engine_inv ?h ?A ?B content 0 (g0, w)" by auto
    from finish_succeeds [OF this that] c(2) own0(1) nf show ?thesis by simp
  qed
  note frame = run_ops_only [OF rest own0(2), unfolded own0(1)] same_run.run_ops [OF rest, unfolded own0(1)]
  have end1: "\<exists>out. finish_download E dest g' (None, w') = (Inr out, None, w') \<and> all_delivered E w' content (eg_share g')"
  proof (rule finish_succeeds [OF ended(2,1)])
    show "hashes_to ?B content (ls_manifest (eg_share g'))" using c(2) frame by (simp add: same_share_def)
    fix f assume f: "f \<in> set (ls_files (eg_share g'))"
    have "set (map lf_data (ls_files (eg_share g'))) = set (map lf_data (ls_files s))" using frame by (simp add: same_share_def)
    with f obtain f0 where "f0 \<in> set (ls_files s)" "lf_data f0 = lf_data f" by force
    with nf [of f0] frame show "no_faults (data_path (lf_data f)) w'" by (simp add: only_files_def no_faults_def)
  qed
  have "\<exists>out g'' w''. swarm E sp se dest (Work (Connect peer) # FinishedNotified # ?events) (engine_new s, t, None, w) =
      Some (Some (Inr out), g'', None, w'') \<and> all_delivered E w'' content s"
  proof (cases "engine_is_done g0")
    case True
    with end0 connect show ?thesis by (auto simp: Let_def simp del: engine_exec.simps)
  next
    case False
    have "swarm E sp se dest ?events (g0, t, None, w) = swarm E sp se dest [FinishedNotified] (g', t, None, w')"
      by (rule swarm_work [OF rest])
    with False end1 all_delivered_same frame ended(1) connect show ?thesis by (auto simp: Let_def simp del: engine_exec.simps)
  qed
  with events show ?thesis by blast
qed

text \<open>The first peer of the code is the first candidate.\<close>

lemma candidates_first:
  "\<exists>more t'. fold (add_candidate sp) found (c # cs, t) = (c # more, t')"
proof (induction found arbitrary: cs t)
  case (Cons x found)
  have "\<exists>cs1 t1. add_candidate sp x (c # cs, t) = (c # cs1, t1)" by (auto simp: add_candidate_def)
  with Cons show ?case by auto
qed simp

lemma search_answered:
  assumes "sc_peers code = addr # rest" "ea_id addr \<noteq> me" "remaining \<noteq> 0"
    and "fetch_manifest h pc lower code answer = Inr (m, b)"
  shows "\<exists>t. search_rounds h pc lower sp code timeout (first_found code [answering_round remaining answer]) (search_new me) =
    Inl (Inr (m, b, addr, t))"
proof -
  have "take 256 (sc_peers code) = addr # take 255 rest" using assms(1) by (simp add: numeral_eq_Suc)
  moreover have "\<exists>t1. add_candidate sp addr ([], tracker_new me) = ([addr], t1)"
    using assms(2) by (auto simp: add_candidate_def tracker_new_def)
  ultimately obtain more t where "fold (add_candidate sp) (take 256 (sc_peers code)) ([], tracker_new me) = (addr # more, t)"
    using candidates_first [of sp "take 255 rest" addr "[]"] by fastforce
  then show ?thesis
    using assms(3,4) by (simp add: first_found_def answering_round_def search_new_def search_round_def Let_def)
qed

lemma honest_manifest:
  assumes "honest_seeder E content s0 w0 enc" "code_for code s0"
  shows "fetch_manifest (lib_blake E) (pc_manifest E) (lib_lower E) code (Inr (RespManifest (ls_manifest_bytes s0))) =
    Inr (ls_manifest s0, ls_manifest_bytes s0)"
  using assms by (simp add: fetch_manifest_def honest_seeder_def code_for_def result_simps)

lemma accepted_id: "honest_seeder E content s0 w0 enc \<Longrightarrow> id_of (lib_blake E) (ls_manifest_bytes s0) = ls_id s0"
  by (simp add: honest_seeder_def decode_verified_Inr)

lemma fetch_succeeds:
  assumes honest: "honest_seeder E content seeder w0 enc" and code: "code_for code seeder"
    and peers: "sc_peers code = addr # rest" "ea_id addr \<noteq> cx_me ctx" "remaining \<noteq> 0"
    and saves: "bao_saves (lib_bao E)" and net: "seeds seeder sa (fst hl)" "allows seeder (cx_me ctx)"
    and fit: "frames_fit qc rc (code_auth (lib_blake E) code (cx_me ctx)) seeder enc"
    and n: "total_pieces (ls_layout seeder) \<le> n" "n < 2 ^ 30"
    and places: "places_ok (lib_aead E) w dest (cx_key ctx) (ls_manifest seeder)"
    and fresh: "cx_reseed ctx \<longrightarrow> hub_shares hub (ls_id seeder) = None"
  shows "\<exists>answer s hub1 w1 events out hub2 w2.
    exchange (node_serves (lib_blake E) (lib_aead E) (lib_bao E) qc rc stamp w0 (cx_me ctx) [] now) qc rc
      (ReqManifest (ls_id seeder) (code_auth (lib_blake E) code (cx_me ctx))) hl = Some (answer, hl) \<and>
    prepare_download E order (cx_reseed ctx) (cx_key ctx) (cx_allow ctx) code (ls_manifest seeder) (ls_manifest_bytes seeder) dest a
      (None, hub, w) = Some (Inr s, None, hub1, w1) \<and>
    session (engine_exec (lib_blake E) (lib_aead E) (lib_bao E) sp se)
      (\<lambda>req k. exchange (node_serves (lib_blake E) (lib_aead E) (lib_bao E) qc rc stamp w0 (cx_me ctx) [] (time k)) qc rc req)
      (ls_id seeder) (code_auth (lib_blake E) code (cx_me ctx)) (ea_id addr) n hl (engine_new s, w1) = Some events \<and>
    download_run E sp se order ctx code dest a [answering_round remaining answer] events (None, hub, w) =
      Some (Some (Inr out), None, hub2, w2) \<and>
    (\<forall>i < length (m_files (ls_manifest seeder)). delivered (lib_blake E) (lib_aead E) w2
      (download_data dest (cx_key ctx) i (m_files (ls_manifest seeder) ! i)) (content i))"
proof -
  let ?m = "ls_manifest seeder" and ?auth = "code_auth (lib_blake E) code (cx_me ctx)"
  have auth: "authorized (lib_blake E) seeder (cx_me ctx) ?auth" by (rule code_authorized [OF code net(2)])
  have asked: "exchange (node_serves (lib_blake E) (lib_aead E) (lib_bao E) qc rc stamp w0 (cx_me ctx) [] now) qc rc
      (ReqManifest (ls_id seeder) ?auth) hl = Some (Inr (RespManifest (ls_manifest_bytes seeder)), hl)"
    by (rule manifest_over_network [OF net(1) auth]) (use fit in \<open>simp_all add: frames_fit_def\<close>)
  have contents: "contents_ok (lib_bao E) content ?m" using honest by (simp add: honest_seeder_def)
  obtain s hub1 w1 where made: "prepare_download E order (cx_reseed ctx) (cx_key ctx) (cx_allow ctx) code ?m (ls_manifest_bytes seeder)
      dest a (None, hub, w) = Some (Inr s, None, hub1, w1)"
    using prepare_without_store [OF places contents, of "cx_reseed ctx" hub "ls_manifest_bytes seeder"] fresh accepted_id [OF honest]
    by metis
  have s: "share_ok (lib_blake E) (lib_aead E) content s w1" "ls_manifest s = ?m" "faults w1 = faults w"
    using prepare_ok [OF places contents made] by simp_all
  have own1: "writers_own s" using prepare_only [OF made] by simp
  have nf: "no_faults (data_path (lf_data f)) w1" if f: "f \<in> set (ls_files s)" for f
  proof -
    obtain i where "i < length (m_files ?m)" "lf_data f = download_data dest (cx_key ctx) i (m_files ?m ! i)"
      using f prepare_share(2,4) [OF made] by (auto simp: in_set_conv_nth)
    with places s(3) show ?thesis by (simp add: places_ok_def place_ok_def no_faults_def)
  qed
  obtain t where found: "search_rounds (lib_blake E) (pc_manifest E) (lib_lower E) sp code (cx_discovery_timeout ctx)
      (first_found code [answering_round remaining (Inr (RespManifest (ls_manifest_bytes seeder)))]) (search_new (cx_me ctx)) =
      Inl (Inr (?m, ls_manifest_bytes seeder, addr, t))"
    using search_answered [OF peers honest_manifest [OF honest code]] by blast
  from session_finishes [where peer = "ea_id addr" and sp = sp and se = se and stamp = stamp and time = time and dest = dest and
      t = "manifest_received ?m t", OF s(1) own1 honest s(2) saves net(1) auth fit n nf]
  obtain events out g' w' where session: "session (engine_exec (lib_blake E) (lib_aead E) (lib_bao E) sp se)
      (\<lambda>req k. exchange (node_serves (lib_blake E) (lib_aead E) (lib_bao E) qc rc stamp w0 (cx_me ctx) [] (time k)) qc rc req)
      (ls_id seeder) ?auth (ea_id addr) n hl (engine_new s, w1) = Some events"
    and run: "swarm E sp se dest (Work (Connect (ea_id addr)) # FinishedNotified # events)
      (engine_new s, manifest_received ?m t, None, w1) = Some (Some (Inr out), g', None, w')" "all_delivered E w' content s"
    by blast
  have "download_run E sp se order ctx code dest a [answering_round remaining (Inr (RespManifest (ls_manifest_bytes seeder)))] events
      (None, hub, w) = Some (Some (Inr out), None, settle (cx_reseed ctx) a g' (Some (Inr out)) hub1, w')"
    using found made run(1) by (simp add: download_run_def del: swarm.simps)
  moreover have "delivered (lib_blake E) (lib_aead E) w' (download_data dest (cx_key ctx) i (m_files ?m ! i)) (content i)"
    if "i < length (m_files ?m)" for i
    using run(2) that prepare_share(2,4) [OF made] by (simp add: all_delivered_def)
  ultimately show ?thesis using asked made session by blast
qed

end
