(* ===== verification/Saved_Trees.thy ===== *)
theory Saved_Trees
  imports Fetching
begin

text \<open>
  The hash trees a download leaves in the database (\<open>outboard_snapshots\<close> of
  \<open>local.rs\<close>): what is relied on of bao-tree, and the invariant that the tree
  of each file proves every piece the share holds, which storing a piece, and
  so the whole engine, keeps.
\<close>

subsection \<open>What the tree keeps\<close>

text \<open>The byte ranges of the pieces of a file with content \<open>c\<close>.\<close>

definition piece_range :: "bytes \<Rightarrow> nat \<Rightarrow> nat \<Rightarrow> bool" where
  "piece_range c start stop \<longleftrightarrow>
     (\<exists>k. start = k * BLOCK_SIZE \<and> start < length c \<and> stop = min (start + BLOCK_SIZE) (length c))"

text \<open>A tree of the root \<open>rt\<close>, as large as it is for a file with content \<open>c\<close>.\<close>

definition tree_fits :: "bao \<Rightarrow> bytes \<Rightarrow> bytes \<Rightarrow> outboard \<Rightarrow> bool" where
  "tree_fits B rt c ob \<longleftrightarrow> ob_root ob = rt \<and> ob_size ob = word_of_nat (length c) \<and>
     length (ob_data ob) = bao_outboard_size B (ob_size ob)"

text \<open>With the tree \<open>ob\<close> a range is found valid wherever its bytes are true.\<close>

definition proves :: "bao \<Rightarrow> bytes \<Rightarrow> outboard \<Rightarrow> nat \<Rightarrow> nat \<Rightarrow> bool" where
  "proves B c ob start stop \<longleftrightarrow>
     (\<forall>rd v. serves rd v \<and> length v = length c \<and> (\<forall>j. start \<le> j \<and> j < stop \<longrightarrow> v ! j = c ! j) \<longrightarrow>
        (\<exists>a b. Inr (a, b) \<in> set (bao_valid B ob rd) \<and> a \<le> start \<and> stop \<le> b))"

text \<open>
  What the tree promises: hashing a file gives a tree that proves every piece;
  saving the nodes of a decoded range makes the tree prove its piece, and loses
  no other; whether a piece is found valid depends on its bytes alone; and
  searching a file that can be read meets no error.
\<close>

definition hash_proves :: "bao \<Rightarrow> bytes \<Rightarrow> bytes \<Rightarrow> bool" where
  "hash_proves B rt c \<longleftrightarrow> (\<forall>b x y. ob_root (bao_create B b) = rt \<longrightarrow>
     ob_size (bao_create B b) = word_of_nat (length c) \<and> (piece_range c x y \<longrightarrow> proves B c (resized B (bao_create B b)) x y))"

definition saving_proves :: "bao \<Rightarrow> bytes \<Rightarrow> bytes \<Rightarrow> bool" where
  "saving_proves B rt c \<longleftrightarrow> (\<forall>ob encoded leaves nodes r ob' x y. tree_fits B rt c ob \<and>
     bao_decode B rt (length c) (round_up_to_chunks B (x, y)) encoded = (leaves, nodes, None) \<and> apply_proof B ob nodes = (r, ob') \<longrightarrow>
       tree_fits B rt c ob' \<and> (r = Inr () \<and> piece_range c x y \<longrightarrow> proves B c ob' x y) \<and>
       (\<forall>x' y'. piece_range c x' y' \<and> proves B c ob x' y' \<longrightarrow> proves B c ob' x' y'))"

definition search_proves :: "bao \<Rightarrow> bytes \<Rightarrow> bytes \<Rightarrow> bool" where
  "search_proves B rt c \<longleftrightarrow> (\<forall>ob rd v. tree_fits B rt c ob \<and> serves rd v \<and> length v = length c \<longrightarrow>
     (\<forall>e. Inl e \<notin> set (bao_valid B ob rd)) \<and>
     (\<forall>a b x y. Inr (a, b) \<in> set (bao_valid B ob rd) \<and> piece_range c x y \<and> a \<le> x \<and> y \<le> b \<longrightarrow> proves B c ob x y))"

definition bao_resumes :: "bao \<Rightarrow> bytes \<Rightarrow> bytes \<Rightarrow> bool" where
  "bao_resumes B rt c \<longleftrightarrow> hash_proves B rt c \<and> saving_proves B rt c \<and> search_proves B rt c"

definition resumable :: "bao \<Rightarrow> (nat \<Rightarrow> bytes) \<Rightarrow> manifest \<Rightarrow> bool" where
  "resumable B content m \<longleftrightarrow> contents_ok B content m \<and>
     (\<forall>i < length (m_files m). bao_resumes B (fe_root (m_files m ! i)) (content i))"

lemma saving_provesD:
  assumes "saving_proves B rt c" "tree_fits B rt c ob" "apply_proof B ob nodes = (r, ob')"
    "bao_decode B rt (length c) (round_up_to_chunks B (x, y)) encoded = (leaves, nodes, None)"
  shows "tree_fits B rt c ob'" "r = Inr () \<Longrightarrow> piece_range c x y \<Longrightarrow> proves B c ob' x y"
    "piece_range c x' y' \<Longrightarrow> proves B c ob x' y' \<Longrightarrow> proves B c ob' x' y'"
  using assms(1) [unfolded saving_proves_def, rule_format, OF conjI [OF assms(2) conjI [OF assms(4,3)]]] by blast+

lemma search_provesD:
  assumes "search_proves B rt c" "tree_fits B rt c ob" "serves rd v" "length v = length c"
  shows "Inl e \<notin> set (bao_valid B ob rd)"
    "Inr (a, b) \<in> set (bao_valid B ob rd) \<Longrightarrow> piece_range c x y \<Longrightarrow> a \<le> x \<Longrightarrow> y \<le> b \<Longrightarrow> proves B c ob x y"
  using assms(1) [unfolded search_proves_def, rule_format, OF conjI [OF assms(2) conjI [OF assms(3,4)]]] by blast+

subsection \<open>A share whose trees prove what it holds\<close>

definition located :: "local_share \<Rightarrow> nat \<Rightarrow> nat \<Rightarrow> nat \<Rightarrow> nat \<Rightarrow> bool" where
  "located s p i x y \<longleftrightarrow> (\<exists>loc. locate (ls_layout s) p = Some loc \<and> loc_file loc = i \<and> unat (loc_start loc) = x \<and> unat (loc_end loc) = y)"

definition piece_proved :: "bao \<Rightarrow> (nat \<Rightarrow> bytes) \<Rightarrow> local_share \<Rightarrow> nat \<Rightarrow> bool" where
  "piece_proved B content s p \<longleftrightarrow> (\<forall>i x y. located s p i x y \<longrightarrow> proves B (content i) (lf_outboard (ls_files s ! i)) x y)"

definition trees_fit :: "bao \<Rightarrow> (nat \<Rightarrow> bytes) \<Rightarrow> local_share \<Rightarrow> bool" where
  "trees_fit B content s \<longleftrightarrow> (\<forall>i < length (ls_files s).
     tree_fits B (fe_root (m_files (ls_manifest s) ! i)) (content i) (lf_outboard (ls_files s ! i)))"

definition remembers :: "bao \<Rightarrow> (nat \<Rightarrow> bytes) \<Rightarrow> local_share \<Rightarrow> bool" where
  "remembers B content s \<longleftrightarrow> share_shape s \<and> resumable B content (ls_manifest s) \<and> trees_fit B content s \<and>
     (\<forall>p. has s p \<longrightarrow> piece_proved B content s p)"

lemma located_range:
  assumes "share_shape s" "contents_ok B content (ls_manifest s)" "located s p i x y" "p < length (ls_have s)"
  shows "i < length (ls_files s)" "piece_range (content i) x y"
proof -
  have shape: "fits (ls_manifest s)" "p < total_pieces (layout_new (ls_manifest s))" "ls_layout s = layout_new (ls_manifest s)"
    "length (ls_files s) = length (m_files (ls_manifest s))"
    using assms(1,4) by (simp_all add: share_shape_def)
  obtain loc where loc: "locate (ls_layout s) p = Some loc" "loc_file loc = i" "unat (loc_start loc) = x" "unat (loc_end loc) = y"
    using assms(3) by (auto simp: located_def)
  obtain f q where f: "f < length (m_files (ls_manifest s))" "q < file_pieces (m_files (ls_manifest s) ! f)"
    and at: "locate (layout_new (ls_manifest s)) p = Some \<lparr>loc_file = f, loc_start = word_of_nat (q * BLOCK_SIZE),
      loc_end = word_of_nat (min (q * BLOCK_SIZE + BLOCK_SIZE) (unat (fe_size (m_files (ls_manifest s) ! f))))\<rparr>"
    by (rule locate_piece [OF shape(1,2)])
  note b = piece_bytes [OF shape(1) f]
  have eq: "i = f" "x = q * BLOCK_SIZE" "y = min (q * BLOCK_SIZE + BLOCK_SIZE) (unat (fe_size (m_files (ls_manifest s) ! f)))"
    using loc at b(1,2) by (auto simp: shape(3) simp del: of_nat_mult of_nat_add)
  have "length (content f) = unat (fe_size (m_files (ls_manifest s) ! f))" using assms(2) f(1) by (simp add: contents_ok_def)
  then show "piece_range (content i) x y" using b(3) unfolding piece_range_def eq by auto
  show "i < length (ls_files s)" using f(1) by (simp add: eq shape(4))
qed

interpretation shape: share_steps "\<lambda>s s'. share_shape s \<longrightarrow> share_shape s'"
proof unfold_locales
  fix p s s' assume "mark_have p s = Some s'"
  then show "share_shape s \<longrightarrow> share_shape s'"
    unfolding mark_have_def by (cases "idx (ls_have s) p") (auto simp: share_shape_def split: if_splits)
next
  fix i and s :: local_share and f :: local_file assume i: "i < length (ls_files s)" "lf_data f = lf_data (ls_files s ! i)"
  then have "map (data_path \<circ> lf_data) ((ls_files s)[i := f]) = map (data_path \<circ> lf_data) (ls_files s)"
    by (simp add: map_update list_update_same_conv)
  then show "share_shape s \<longrightarrow> share_shape (set_local_file i f s)" by (simp add: share_shape_def)
qed auto

lemma located_file [simp]: "located (set_local_file k f s) = located s"
  by (simp add: located_def fun_eq_iff)

lemma trees_fit_file:
  assumes "trees_fit B content s" "tree_fits B (fe_root (m_files (ls_manifest s) ! i)) (content i) (lf_outboard f)"
  shows "trees_fit B content (set_local_file i f s)"
  unfolding trees_fit_def
proof (intro allI impI)
  fix k assume "k < length (ls_files (set_local_file i f s))"
  with assms show "tree_fits B (fe_root (m_files (ls_manifest (set_local_file i f s)) ! k)) (content k)
      (lf_outboard (ls_files (set_local_file i f s) ! k))"
    by (cases "k = i") (simp_all add: trees_fit_def)
qed

lemma remembers_file:
  assumes s: "remembers B content s" and i: "i < length (ls_files s)" and f: "lf_data f = lf_data (ls_files s ! i)" "own_writer (ls_files s ! i) f"
    and ob: "tree_fits B (fe_root (m_files (ls_manifest s) ! i)) (content i) (lf_outboard f)"
    and kept: "\<And>p x y. has s p \<Longrightarrow> located s p i x y \<Longrightarrow> piece_range (content i) x y \<Longrightarrow>
      proves B (content i) (lf_outboard (ls_files s ! i)) x y \<Longrightarrow> proves B (content i) (lf_outboard f) x y"
  shows "remembers B content (set_local_file i f s)"
proof -
  have shape: "share_shape s" and c: "contents_ok B content (ls_manifest s)" using s by (simp_all add: remembers_def resumable_def)
  have "piece_proved B content (set_local_file i f s) p" if p: "has s p" for p
    unfolding piece_proved_def located_file
  proof (intro allI impI)
    fix k x y assume loc: "located s p k x y"
    have "p < length (ls_have s)" using p by (simp add: has_idx)
    note range = located_range [OF shape c loc this]
    have "proves B (content k) (lf_outboard (ls_files s ! k)) x y"
      using s p loc by (simp add: remembers_def piece_proved_def)
    then show "proves B (content k) (lf_outboard (ls_files (set_local_file i f s) ! k)) x y"
      using kept [OF p] loc range i by (cases "k = i") simp_all
  qed
  moreover have "share_shape (set_local_file i f s)" using shape.local_file [OF i f] shape by blast
  ultimately show ?thesis using s trees_fit_file [of B content s i f] ob by (simp add: remembers_def)
qed

text \<open>Pieces may be marked that the trees prove.\<close>

lemma remembers_more:
  assumes "remembers B content s" "share_shape s'"
    and "ls_layout s' = ls_layout s" "ls_files s' = ls_files s" "ls_manifest s' = ls_manifest s"
    and "\<And>p. has s' p \<Longrightarrow> has s p \<or> piece_proved B content s p"
  shows "remembers B content s'"
  using assms unfolding remembers_def piece_proved_def trees_fit_def located_def by metis

lemma mark_have_more:
  assumes "mark_have p s = Some s'"
  shows "ls_layout s' = ls_layout s" "ls_files s' = ls_files s" "ls_manifest s' = ls_manifest s" "has s' q \<longleftrightarrow> q = p \<or> has s q"
  using assms unfolding mark_have_def
  by (cases "idx (ls_have s) p"; auto simp: has_def idx_def nth_list_update split: if_splits option.splits)+

lemma remembers_mark:
  assumes s: "remembers B content s" and m: "mark_have p s = Some s'" and p: "piece_proved B content s p"
  shows "remembers B content s'"
  by (rule remembers_more [OF s _ mark_have_more(1-3) [OF m]])
     (use shape.mark [OF m] s mark_have_more(4) [OF m] p in \<open>auto simp: remembers_def\<close>)

lemma remembers_emit [simp]: "remembers B content (emit e s) = remembers B content s"
  by (simp add: remembers_def emit_def share_shape_def trees_fit_def piece_proved_def located_def has_def)


lemma remembers_store:
  assumes "store_piece h A B p encoded s w = Some (r, s', w')" "remembers B content s"
  shows "remembers B content s'"
proof (cases "has s p")
  case True
  with assms show ?thesis by (simp add: store_piece_def)
next
  case False
  from assms(1) False obtain loc where loc: "locate (ls_layout s) p = Some loc" "loc_file loc < length (ls_files s)"
    "loc_file loc < length (m_files (ls_manifest s))"
    by (auto simp: store_piece_def idx_def split: bind_splits if_splits)
  let ?i = "loc_file loc"
  let ?f = "ls_files s ! ?i" and ?e = "m_files (ls_manifest s) ! ?i"
  have shape: "share_shape s" and c: "contents_ok B content (ls_manifest s)"
    and law: "saving_proves B (fe_root ?e) (content ?i)" and fit: "tree_fits B (fe_root ?e) (content ?i) (lf_outboard ?f)"
    using assms(2) loc by (simp_all add: remembers_def resumable_def bao_resumes_def trees_fit_def)
  define opened where "opened = (case lf_writer ?f of Some hnd \<Rightarrow> Inr hnd
      | None \<Rightarrow> map_err (ChunkerReceive (data_path (lf_data ?f))) (open_data h True (lf_data ?f) w))"
  note step = store_piece_def [of h A B p encoded s w, unfolded if_not_P [OF False] loc(1) idx_Some [OF loc(2)]
      idx_Some [OF loc(3)] bind_assert_Some Let_def, folded opened_def]
  show ?thesis
  proof (cases opened)
    case (Inl e)
    with assms step show ?thesis by simp
  next
    case (Inr hnd)
    have own: "own_writer ?f (?f\<lparr>lf_writer := Some hnd, lf_outboard := ob\<rparr>)" "own_writer ?f (?f\<lparr>lf_writer := Some hnd\<rparr>)" for ob
      using Inr by (auto simp: opened_def own_writer_def dest: open_handle_path split: option.splits)
    obtain r1 w1 where d: "decode_range A B hnd (data_path (lf_data ?f)) (fe_root ?e) (unat (fe_size ?e))
        (unat (loc_start loc)) (unat (loc_end loc)) encoded w = (r1, w1)" by fastforce
    note step = step [unfolded Inr sum.case d prod.case]
    show ?thesis
    proof (cases r1)
      case (Inl e)
      with assms step have "s' = set_local_file ?i (?f\<lparr>lf_writer := Some hnd\<rparr>) s" by simp
      then show ?thesis using remembers_file [OF assms(2) loc(2), of "?f\<lparr>lf_writer := Some hnd\<rparr>"] own fit by simp
    next
      case (Inr nodes)
      obtain res ob where ap: "apply_proof B (lf_outboard ?f) nodes = (res, ob)" by fastforce
      let ?s1 = "set_local_file ?i (?f\<lparr>lf_writer := Some hnd, lf_outboard := ob\<rparr>) s"
      have "unat (fe_size ?e) = length (content ?i)" using c loc(3) by (simp add: contents_ok_def)
      then obtain leaves where "bao_decode B (fe_root ?e) (length (content ?i))
          (round_up_to_chunks B (unat (loc_start loc), unat (loc_end loc))) encoded = (leaves, nodes, None)"
        using d Inr by (auto simp: decode_range_def split: prod.splits sum.splits option.splits)
      note saved = saving_provesD [OF law fit ap this]
      have s1: "remembers B content ?s1" by (rule remembers_file [OF assms(2) loc(2)]) (use saved own in auto)
      show ?thesis
      proof (cases res)
        case (Inl e)
        with assms step Inr ap s1 show ?thesis by simp
      next
        case ok: (Inr u)
        then have m: "mark_have p ?s1 = Some s'" using assms(1) step Inr ap by (auto split: bind_splits)
        then have "p < length (ls_have s)" by (cases "idx (ls_have s) p") (auto simp: mark_have_def)
        have "located s p ?i (unat (loc_start loc)) (unat (loc_end loc))" using loc(1) by (simp add: located_def)
        from located_range(2) [OF shape c this \<open>p < length (ls_have s)\<close>] have "piece_proved B content ?s1 p"
          using saved(2) ok loc by (auto simp: piece_proved_def located_def)
        from remembers_mark [OF s1 m this] show ?thesis .
      qed
    qed
  qed
qed

interpretation remembering: engine_steps h A B "\<lambda>s s'. remembers B content s \<longrightarrow> remembers B content s'"
  by unfold_locales (auto dest: remembers_store)

end
