(* ===== verification/Resuming.thy ===== *)
theory Resuming
  imports Saved_Trees
begin

text \<open>
  A download taken up again: the pieces an earlier run held, whose trees it
  left in the database, are held again from the start (\<open>restore_progress\<close> of
  \<open>local.rs\<close> on the files \<open>for_download\<close> makes ready).
\<close>

subsection \<open>The pieces of a file\<close>

definition pieces_in :: "local_share \<Rightarrow> nat \<Rightarrow> nat set" where
  "pieces_in s i = (case pieces_of (ls_layout s) i of None \<Rightarrow> {} | Some (a, b) \<Rightarrow> {a..<b})"

lemma pieces_in_located:
  assumes "share_shape s" "i < length (ls_files s)" "p \<in> pieces_in s i"
  shows "p < length (ls_have s)" "\<exists>x y. located s p i x y \<and> y \<le> entry_size s i"
proof -
  obtain a b where ab: "pieces_of (ls_layout s) i = Some (a, b)" "a \<le> p" "p < b"
    using assms(3) by (auto simp: pieces_in_def split: option.splits)
  obtain loc where "p < length (ls_have s)" "locate (ls_layout s) p = Some loc" "loc_file loc = i" "unat (loc_end loc) \<le> entry_size s i"
    using file_piece [OF assms(1,2) ab] by blast
  then show "p < length (ls_have s)" "\<exists>x y. located s p i x y \<and> y \<le> entry_size s i" by (auto simp: located_def)
qed

lemma located_unique: "located s p i x y \<Longrightarrow> located s p i' x' y' \<Longrightarrow> i' = i \<and> x' = x \<and> y' = y"
  by (auto simp: located_def)

lemma pieces_in_unique:
  "share_shape s \<Longrightarrow> i < length (ls_files s) \<Longrightarrow> k < length (ls_files s) \<Longrightarrow> p \<in> pieces_in s i \<Longrightarrow> p \<in> pieces_in s k \<Longrightarrow> k = i"
  by (meson located_unique pieces_in_located(2))

lemma located_pieces_in:
  assumes "share_shape s" "located s p i x y" "p < length (ls_have s)"
  shows "i < length (ls_files s)" "p \<in> pieces_in s i"
proof -
  let ?m = "ls_manifest s"
  have shape: "fits ?m" "p < total_pieces (layout_new ?m)" "ls_layout s = layout_new ?m" "length (ls_files s) = length (m_files ?m)"
    using assms(1,3) by (simp_all add: share_shape_def)
  obtain f q where f: "f < length (m_files ?m)" "q < file_pieces (m_files ?m ! f)" "p = sum_pieces (take f (m_files ?m)) + q"
    and at: "locate (layout_new ?m) p = Some \<lparr>loc_file = f, loc_start = word_of_nat (q * BLOCK_SIZE),
      loc_end = word_of_nat (min (q * BLOCK_SIZE + BLOCK_SIZE) (unat (fe_size (m_files ?m ! f))))\<rparr>"
    by (rule locate_piece [OF shape(1,2)])
  have i: "i = f" using at assms(2) by (auto simp: located_def shape(3))
  show "i < length (ls_files s)" using f(1) i shape(4) by simp
  show "p \<in> pieces_in s i"
    using pieces_of_file [OF shape(1) f(1)] f by (simp add: pieces_in_def shape(3) i sum_pieces_take_Suc)
qed

lemma in_some_file:
  assumes "share_shape s" "has s p"
  obtains i where "i < length (ls_files s)" "p \<in> pieces_in s i"
proof -
  have p: "fits (ls_manifest s)" "p < total_pieces (layout_new (ls_manifest s))" "ls_layout s = layout_new (ls_manifest s)"
    "p < length (ls_have s)"
    using assms by (simp_all add: share_shape_def has_idx)
  have "\<exists>loc. locate (ls_layout s) p = Some loc" unfolding p(3) by (rule locate_piece [OF p(1,2)]) blast
  then obtain i x y where "located s p i x y" by (auto simp: located_def)
  from located_pieces_in [OF assms(1) this p(4)] show thesis by (rule that)
qed

lemma file_complete_in:
  assumes "share_shape s" "i < length (ls_files s)"
  shows "file_complete s i = Some (\<forall>p \<in> pieces_in s i. has s p)"
proof -
  obtain a b where "pieces_of (ls_layout s) i = Some (a, b)"
    using pieces_of_file [of "ls_manifest s" i] assms by (auto simp: share_shape_def)
  then show ?thesis by (simp add: file_complete_def pieces_in_def list_all_iff)
qed

subsection \<open>A share made ready\<close>

text \<open>
  A file no piece of which was restored yet: complete, or with nothing held
  and an empty tree.
\<close>

definition empty_tree :: "bao \<Rightarrow> manifest \<Rightarrow> nat \<Rightarrow> outboard" where
  "empty_tree B m i = empty_outboard B (fe_root (m_files m ! i)) (fe_size (m_files m ! i))"

definition untouched :: "bao \<Rightarrow> local_share \<Rightarrow> nat \<Rightarrow> bool" where
  "untouched B s i \<longleftrightarrow> (\<forall>p \<in> pieces_in s i. has s p) \<or>
     (\<forall>p \<in> pieces_in s i. \<not> has s p) \<and> lf_outboard (ls_files s ! i) = empty_tree B (ls_manifest s) i"

definition fresh_tree :: "bao \<Rightarrow> file_entry \<Rightarrow> outboard \<Rightarrow> bool \<Rightarrow> bool" where
  "fresh_tree B e ob whole \<longleftrightarrow>
     (if whole then \<exists>b. ob = resized B (bao_create B b) \<and> ob_root ob = fe_root e else ob = empty_outboard B (fe_root e) (fe_size e))"

lemma prepare_file_tree:
  assumes "prepare_file B d e w = (Inr (ob, whole), w')"
  shows "fresh_tree B e ob whole"
proof -
  have hashed: "\<exists>b. ob = resized B (bao_create B b)" if "result_ok (hash_file B p w) = Some ob" for p
    using that by (cases "hash_file B p w") (auto simp: hash_file_def result_simps)
  with assms show ?thesis
    by (auto simp: prepare_file_def Let_def fresh_tree_def split: option.splits sum.splits if_splits)
qed

lemma download_files_fin:
  "download_files B dest key n es w = (Inr (fs, fin), w') \<Longrightarrow> set fin \<subseteq> {n..<n + length es}"
  by (induction es arbitrary: n w fs fin) (force simp: Let_def split: prod.splits sum.splits if_splits)+

lemma download_files_tree:
  "download_files B dest key n es w = (Inr (fs, fin), w') \<Longrightarrow> i < length es \<Longrightarrow>
     fresh_tree B (es ! i) (lf_outboard (fs ! i)) (n + i \<in> set fin)"
proof (induction es arbitrary: n w fs fin i)
  case (Cons e es)
  then obtain ob whole w1 fs1 fin1 where one: "prepare_file B (download_data dest key n e) e w = (Inr (ob, whole), w1)"
    and rest: "download_files B dest key (Suc n) es w1 = (Inr (fs1, fin1), w')"
    and out: "fs = local_file_new (download_data dest key n e) ob # fs1" "fin = (if whole then n # fin1 else fin1)"
    by (auto simp: Let_def split: prod.splits sum.splits if_splits)
  have "n \<notin> set fin1" using download_files_fin [OF rest] by auto
  with prepare_file_tree [OF one] have "fresh_tree B e ob (n \<in> set fin)" by (cases whole) (simp_all add: out(2))
  with Cons.IH [OF rest] Cons.prems(2) show ?case by (cases i) (auto simp: out local_file_new_def)
qed simp

lemma mark_all_more:
  "mark_all ps s = Some s' \<Longrightarrow> ls_layout s' = ls_layout s \<and> ls_files s' = ls_files s \<and> ls_manifest s' = ls_manifest s \<and>
     (\<forall>q. has s' q \<longleftrightarrow> q \<in> set ps \<or> has s q)"
  by (induction ps arbitrary: s) (auto split: bind_splits dest: mark_have_more)

lemma mark_complete_more:
  "mark_complete fin s = Some s' \<Longrightarrow> ls_layout s' = ls_layout s \<and> ls_files s' = ls_files s \<and> ls_manifest s' = ls_manifest s \<and>
     (\<forall>q. has s' q \<longleftrightarrow> (\<exists>i \<in> set fin. q \<in> pieces_in s i) \<or> has s q)"
proof (induction fin arbitrary: s)
  case (Cons i fin)
  then obtain a b s1 where ab: "pieces_of (ls_layout s) i = Some (a, b)" "mark_all [a..<b] s = Some s1" "mark_complete fin s1 = Some s'"
    by (auto split: bind_splits)
  note one = mark_all_more [OF ab(2)] and rest = Cons.IH [OF ab(3)]
  have "pieces_in s1 = pieces_in s" using one by (simp add: pieces_in_def fun_eq_iff)
  with one rest ab(1) show ?case by (auto simp: pieces_in_def)
qed simp

lemma fresh_tree_fits:
  assumes "fresh_tree B e ob whole" "length c = unat (fe_size e)" "bao_resumes B (fe_root e) c"
  shows "tree_fits B (fe_root e) c ob" "whole \<Longrightarrow> piece_range c x y \<Longrightarrow> proves B c ob x y"
proof -
  have law: "hash_proves B (fe_root e) c" using assms(3) by (simp add: bao_resumes_def)
  have size: "word_of_nat (length c) = fe_size e" by (simp add: assms(2))
  show "tree_fits B (fe_root e) c ob"
    using assms(1) law size
    by (auto simp: fresh_tree_def tree_fits_def hash_proves_def empty_outboard_def resized_def set_len_length split: if_splits)
  assume "whole" "piece_range c x y"
  with assms(1) law show "proves B c ob x y" by (auto simp: fresh_tree_def hash_proves_def resized_def)
qed

lemma for_download_remembers:
  assumes made: "for_download h B m b dest key secret w = Some (Inr s, w')" and m: "resumable B content m" and shape: "share_shape s"
  shows "remembers B content s" "i < length (ls_files s) \<Longrightarrow> untouched B s i"
proof -
  from made obtain fs fin rt where d: "download_files B dest key 0 (m_files m) w = (Inr (fs, fin), w')"
    and s: "mark_complete fin (from_parts h m b fs secret False rt) = Some s"
    by (auto simp: for_download_def split: prod.splits sum.splits bind_splits)
  let ?s0 = "from_parts h m b fs secret False rt"
  have s0: "ls_layout s = ls_layout ?s0" "ls_files s = fs" "ls_manifest s = m" "\<And>q. \<not> has ?s0 q"
    using mark_complete_more [OF s] by (simp_all add: from_parts_def Let_def has_idx)
  have len: "length fs = length (m_files m)" using shape s0 by (simp add: share_shape_def)
  have "pieces_in ?s0 = pieces_in s" using s0 by (simp add: pieces_in_def fun_eq_iff)
  with mark_complete_more [OF s] s0(4) have held: "has s q \<longleftrightarrow> (\<exists>i \<in> set fin. q \<in> pieces_in s i)" for q by simp
  have tree: "fresh_tree B (m_files m ! i) (lf_outboard (fs ! i)) (i \<in> set fin)" if "i < length fs" for i
    using download_files_tree [OF d] that len by simp
  have law: "length (content i) = unat (fe_size (m_files m ! i))" "bao_resumes B (fe_root (m_files m ! i)) (content i)" if "i < length fs" for i
    using m that len by (simp_all add: resumable_def contents_ok_def)
  have sub: "k < length fs" if "k \<in> set fin" for k
    using download_files_fin [OF d] that len by auto
  have "piece_proved B content s p" if p: "has s p" for p
    unfolding piece_proved_def
  proof (intro allI impI)
    fix i x y assume loc: "located s p i x y"
    obtain k where k: "k \<in> set fin" "p \<in> pieces_in s k" using held p by blast
    then have kl: "k < length (ls_files s)" using sub s0 by simp
    then have "p < length (ls_have s)" "k = i"
      using pieces_in_located [OF shape kl k(2)] located_unique [OF loc] by blast+
    moreover have "contents_ok B content (ls_manifest s)" using m s0(3) by (simp add: resumable_def)
    ultimately have "piece_range (content i) x y" using located_range(2) [OF shape _ loc] by blast
    with fresh_tree_fits(2) [OF tree law] k(1) \<open>k = i\<close> kl s0(2) show "proves B (content i) (lf_outboard (ls_files s ! i)) x y"
      by simp
  qed
  moreover have "trees_fit B content s"
    using fresh_tree_fits(1) [OF tree law] by (simp add: trees_fit_def s0(2,3))
  ultimately show "remembers B content s" using shape m s0(3) by (simp add: remembers_def)
  assume i: "i < length (ls_files s)"
  show "untouched B s i"
  proof (cases "i \<in> set fin")
    case True
    then show ?thesis using held by (auto simp: untouched_def)
  next
    case False
    then have "\<not> has s p" if "p \<in> pieces_in s i" for p
      using held sub pieces_in_unique [OF shape i _ that] s0(2) by metis
    moreover have "lf_outboard (fs ! i) = empty_tree B m i"
      using tree [of i] i False by (simp add: fresh_tree_def s0(2) empty_tree_def)
    ultimately show ?thesis by (simp add: untouched_def s0(2,3))
  qed
qed


subsection \<open>Restoring\<close>

text \<open>Whether a tree of file \<open>i\<close> and the disk show the piece \<open>p\<close>; and the tree as the database has it.\<close>

definition shown :: "blake3 \<Rightarrow> aead \<Rightarrow> bao \<Rightarrow> (nat \<Rightarrow> bytes) \<Rightarrow> local_share \<Rightarrow> world \<Rightarrow> nat \<Rightarrow> outboard \<Rightarrow> nat \<Rightarrow> bool" where
  "shown h A B content s w i ob p \<longleftrightarrow> (\<forall>x y. located s p i x y \<longrightarrow> proves B (content i) ob x y \<and>
     (\<forall>hnd j. open_data h True (lf_data (ls_files s ! i)) w = Inr hnd \<and> x \<le> j \<and> j < y \<longrightarrow> byte_held A (content i) w hnd j))"

definition restorable :: "blake3 \<Rightarrow> aead \<Rightarrow> bao \<Rightarrow> (nat \<Rightarrow> bytes) \<Rightarrow> local_share \<Rightarrow> world \<Rightarrow> nat \<Rightarrow> bytes \<Rightarrow> nat \<Rightarrow> bool" where
  "restorable h A B content s w i saved p \<longleftrightarrow>
     length saved = bao_outboard_size B (fe_size (m_files (ls_manifest s) ! i)) \<and>
     shown h A B content s w i ((empty_tree B (ls_manifest s) i)\<lparr>ob_data := saved\<rparr>) p"

lemma collect_ranges_ok: "(\<And>e. Inl e \<notin> set rs) \<Longrightarrow> \<exists>xs. collect_ranges rs = Inr xs \<and> Inr ` set xs = set rs"
proof (induction rs)
  case (Cons r rs)
  then obtain x where "r = Inr x" by (cases r) auto
  with Cons show ?case by (fastforce simp: bind_result_Inr)
qed simp

lemma open_for_reading:
  assumes "no_faults (data_path d) w" "open_data h True d w = Inr hnd"
  shows "open_data h False d w = Inr (reading hnd)"
proof -
  have "\<exists>hr. open_data h False d w = Inr hr"
    using assms by (cases d) (auto simp: open_data_def open_with_cases Let_def no_faults_access split: option.splits if_splits)
  with open_reading [OF assms(2)] show ?thesis by blast
qed


text \<open>What reading a file and its tree shows: the ranges found and the slots written.\<close>

definition searched :: "aead \<Rightarrow> bao \<Rightarrow> bytes \<Rightarrow> outboard \<Rightarrow> world \<Rightarrow> handle \<Rightarrow> (nat \<times> nat) list \<Rightarrow> bool list option \<Rightarrow> bool" where
  "searched A B c ob w hnd ranges written \<longleftrightarrow>
     (\<forall>(a, b) \<in> set ranges. \<forall>x y. piece_range c x y \<and> a \<le> x \<and> y \<le> b \<longrightarrow> proves B c ob x y) \<and>
     (\<forall>x y. proves B c ob x y \<and> (\<forall>j. x \<le> j \<and> j < y \<longrightarrow> byte_held A c w hnd j) \<longrightarrow> (\<exists>(a, b) \<in> set ranges. a \<le> x \<and> y \<le> b)) \<and>
     (\<forall>x < length c. byte_held A c w hnd x \<longrightarrow> slot_written written (x div block))"

lemma search_file:
  assumes ready: "file_ready h A w f sz hnd" and nf: "no_faults (data_path (lf_data f)) w" and c: "length c = sz"
    and law: "search_proves B rt c" and fit: "tree_fits B rt c ob"
  shows "\<exists>ranges written. valid_byte_ranges h A B (lf_data f) ob w = Inr ranges \<and>
    written_pieces h A (lf_data f) w = Inr written \<and> searched A B c ob w hnd ranges written"
proof -
  note hnd = ready [unfolded file_ready_def]
  have opened: "open_data h False (lf_data f) w = Inr (reading hnd)" using open_for_reading [OF nf] hnd by blast
  have "handle_writable A hnd w" using hnd by blast
  note view = reading_view [OF this]
  let ?rd = "handle_read_at A (reading hnd) w"
  have serves: "serves ?rd (handle_view A hnd w)" "length (handle_view A hnd w) = length c"
    using handle_serves [OF view(1)] view(2) hnd c by simp_all
  note found = search_provesD [OF law fit serves]
  obtain ranges where ranges: "collect_ranges (bao_valid B ob ?rd) = Inr ranges" "Inr ` set ranges = set (bao_valid B ob ?rd)"
    using collect_ranges_ok [of "bao_valid B ob ?rd"] found(1) by blast
  have in_ranges: "Inr (a, b) \<in> set (bao_valid B ob ?rd) \<longleftrightarrow> (a, b) \<in> set ranges" for a b
    unfolding ranges(2) [symmetric] by auto
  have valid: "valid_byte_ranges h A B (lf_data f) ob w = Inr ranges"
    using opened ranges(1) by (simp add: valid_byte_ranges_def)
  have covered: "\<exists>(a, b) \<in> set ranges. a \<le> x \<and> y \<le> b"
    if "proves B c ob x y" "\<forall>j. x \<le> j \<and> j < y \<longrightarrow> byte_held A c w hnd j" for x y
  proof -
    have "\<forall>j. x \<le> j \<and> j < y \<longrightarrow> handle_view A hnd w ! j = c ! j" using that(2) by (simp add: byte_held_def)
    with that(1) [unfolded proves_def, rule_format, of ?rd "handle_view A hnd w"] serves
    obtain a b where "Inr (a, b) \<in> set (bao_valid B ob ?rd)" "a \<le> x" "y \<le> b" by blast
    then show ?thesis unfolding in_ranges by blast
  qed
  have ranges_ok: "\<forall>(a, b) \<in> set ranges. \<forall>x y. piece_range c x y \<and> a \<le> x \<and> y \<le> b \<longrightarrow> proves B c ob x y"
    "\<forall>x y. proves B c ob x y \<and> (\<forall>j. x \<le> j \<and> j < y \<longrightarrow> byte_held A c w hnd j) \<longrightarrow> (\<exists>(a, b) \<in> set ranges. a \<le> x \<and> y \<le> b)"
    using found(2) [unfolded in_ranges] covered by blast+
  show ?thesis
  proof (cases hnd)
    case (PlainHandle fh)
    then obtain q where "lf_data f = Plain q"
      using hnd by (cases "lf_data f") (auto simp: open_data_def open_with_cases Let_def split: option.splits if_splits)
    then have "written_pieces h A (lf_data f) w = Inr None" by (simp add: written_pieces_def)
    moreover have "slot_written None k" for k by (simp add: slot_written_def)
    ultimately show ?thesis using valid ranges_ok by (auto simp: searched_def)
  next
    case (EncHandle e)
    then obtain q key n where d: "lf_data f = Encrypted q key n" "en_size e = n"
      using hnd by (cases "lf_data f") (auto simp: open_data_def open_with_cases Let_def split: option.splits if_splits)
    let ?e = "e\<lparr>en_file := (en_file e)\<lparr>fh_write := False\<rparr>\<rparr>"
    have fr: "fh_read (en_file e)" using hnd EncHandle by (simp add: handle_writable_def enc_writable_def)
    have "aead_ok A" using hnd EncHandle by (simp add: handle_writable_def enc_writable_def)
    then have "length (handle_view A hnd w) = n" using EncHandle d(2) by (simp add: handle_view_def enc_view_nth(1))
    then have n: "n = sz" using hnd by simp
    have wp: "written_pieces h A (lf_data f) w = Inr (Some (map (block_written A ?e w) [0..<div_ceil n block]))"
      using opened EncHandle d(1) by (simp add: written_pieces_def)
    have sl: "slot_written (Some (map (block_written A ?e w) [0..<div_ceil n block])) (x div block)"
      if "x < sz" "byte_held A c w hnd x" for x
    proof -
      have "x div block < div_ceil n block" using block_of_pos [of x e] that(1) d(2) n by (simp add: blocks_def)
      with that(2) EncHandle block_written_reading [OF fr] show ?thesis by (simp add: slot_written_def idx_def byte_held_def)
    qed
    show ?thesis using valid wp sl ranges_ok c by (auto simp: searched_def)
  qed
qed

lemma mark_restored_more:
  "mark_restored a sz ranges written ps s = Some s' \<Longrightarrow>
     ls_layout s' = ls_layout s \<and> ls_files s' = ls_files s \<and> ls_manifest s' = ls_manifest s \<and>
     (\<forall>q. has s' q \<longleftrightarrow> has s q \<or> q \<in> set ps \<and>
       (\<exists>loc. locate (ls_layout s) q = Some loc \<and> range_verified ranges sz loc \<and> slot_written written (q - a)))"
proof (induction ps arbitrary: s)
  case (Cons p ps)
  then obtain loc where loc: "locate (ls_layout s) p = Some loc" by (auto split: bind_splits)
  note step = mark_restored_step [OF loc, of a sz ranges written ps]
  show ?case
  proof (cases "range_verified ranges sz loc \<and> slot_written written (p - a)")
    case True
    with Cons.prems step obtain s1 where s1: "mark_have p s = Some s1" "mark_restored a sz ranges written ps s1 = Some s'"
      by (auto split: bind_splits)
    with Cons.IH [OF s1(2)] mark_have_more [OF s1(1)] loc True show ?thesis by auto
  next
    case False
    with Cons step have "mark_restored a sz ranges written ps s = Some s'" by simp
    with Cons.IH [OF this] loc False show ?thesis by auto
  qed
qed simp


lemma list_ex_ranges: "list_ex (\<lambda>(a, b). P a b) xs \<longleftrightarrow> (\<exists>(a, b) \<in> set xs. P a b)"
  by (auto simp: list_ex_iff)

lemma verified_iff:
  assumes "unat (loc_end loc) \<le> unat sz"
  shows "range_verified ranges sz loc \<longleftrightarrow> (\<exists>(a, b) \<in> set ranges. a \<le> unat (loc_start loc) \<and> unat (loc_end loc) \<le> b)"
proof -
  have "min (loc_end loc) sz = loc_end loc" using assms by (simp add: min_def word_le_nat_alt)
  then show ?thesis using assms by (auto simp: range_verified_def list_ex_ranges)
qed

text \<open>
  One file restored: the pieces marked are those its tree and the disk show,
  whatever the other files are like.
\<close>

definition restored_from :: "blake3 \<Rightarrow> aead \<Rightarrow> bao \<Rightarrow> (nat \<Rightarrow> bytes) \<Rightarrow> world \<Rightarrow> local_share \<Rightarrow> local_share \<Rightarrow> bool" where
  "restored_from h A B content w s s' \<longleftrightarrow> share_ok h A content s' w \<and> remembers B content s' \<and> held s \<subseteq> held s' \<and>
     ls_manifest s' = ls_manifest s \<and> ls_layout s' = ls_layout s \<and> map lf_data (ls_files s') = map lf_data (ls_files s)"

lemma restored_from_trans: "restored_from h A B content w s s1 \<Longrightarrow> restored_from h A B content w s1 s2 \<Longrightarrow> restored_from h A B content w s s2"
  by (auto simp: restored_from_def)

text \<open>The tree the database has takes the place of an empty one.\<close>

lemma load_tree:
  assumes ok: "share_ok h A content s w" and rem: "remembers B content s" and i: "i < length (ls_files s)"
    and none: "\<forall>p \<in> pieces_in s i. \<not> has s p" and len: "length saved = length (ob_data (lf_outboard (ls_files s ! i)))"
  defines "s1 \<equiv> set_local_file i ((ls_files s ! i)\<lparr>lf_outboard := (lf_outboard (ls_files s ! i))\<lparr>ob_data := saved\<rparr>\<rparr>) s"
  shows "share_ok h A content s1 w" "remembers B content s1"
proof -
  let ?ob = "(lf_outboard (ls_files s ! i))\<lparr>ob_data := saved\<rparr>"
  have shape: "share_shape s" and fits: "trees_fit B content s" using rem by (simp_all add: remembers_def)
  then have fit: "tree_fits B (fe_root (m_files (ls_manifest s) ! i)) (content i) ?ob" using i len by (simp add: trees_fit_def tree_fits_def)
  show "share_ok h A content s1 w"
    unfolding s1_def by (rule other_outboard_ok [OF ok _ i]) (use fits in \<open>auto simp: roots_ok_def trees_fit_def tree_fits_def\<close>)
  show "remembers B content s1"
    unfolding s1_def
  proof (rule remembers_file [OF rem i])
    fix p x y assume "has s p" "located s p i x y"
    then have "p \<in> pieces_in s i" using located_pieces_in [OF shape] by (simp add: has_idx)
    with none \<open>has s p\<close> show "proves B (content i) (lf_outboard ((ls_files s ! i)\<lparr>lf_outboard := ?ob\<rparr>)) x y" by blast
  qed (use fit in \<open>simp_all add: own_writer_def\<close>)
qed

text \<open>A range found shows the piece proved; a piece that is shown has its range found and its slot written.\<close>

lemma piece_end:
  assumes "share_shape s" "i < length (ls_files s)" "p \<in> pieces_in s i" "locate (ls_layout s) p = Some loc"
  shows "loc_file loc = i" "unat (loc_end loc) \<le> unat (fe_size (m_files (ls_manifest s) ! i))"
    "located s p i (unat (loc_start loc)) (unat (loc_end loc))"
  using pieces_in_located(2) [OF assms(1-3)] assms(4) by (auto simp: located_def entry_size_def)

lemma found_proved:
  assumes rem: "remembers B content s" and i: "i < length (ls_files s)" and p: "p \<in> pieces_in s i"
    and found: "searched A B (content i) (lf_outboard (ls_files s ! i)) w hnd ranges written"
    and loc: "locate (ls_layout s) p = Some loc" "range_verified ranges (fe_size (m_files (ls_manifest s) ! i)) loc"
  shows "piece_proved B content s p"
  unfolding piece_proved_def
proof (intro allI impI)
  fix k x y assume at: "located s p k x y"
  have shape: "share_shape s" and c: "contents_ok B content (ls_manifest s)" using rem by (simp_all add: remembers_def resumable_def)
  note e = piece_end [OF shape i p loc(1)]
  note eq = located_unique [OF e(3) at]
  obtain a b where "(a, b) \<in> set ranges" "a \<le> x" "y \<le> b" using loc(2) verified_iff [OF e(2)] eq by blast
  moreover have "piece_range (content i) x y"
    using located_range(2) [OF shape c at pieces_in_located(1) [OF shape i p]] eq by simp
  ultimately show "proves B (content k) (lf_outboard (ls_files s ! k)) x y" using found eq by (auto simp: searched_def)
qed

lemma shown_found:
  assumes rem: "remembers B content s" and i: "i < length (ls_files s)" and p: "p \<in> pieces_in s i"
    and ab: "pieces_of (ls_layout s) i = Some (a, b)"
    and found: "searched A B (content i) (lf_outboard (ls_files s ! i)) w hnd ranges written"
    and shown: "shown h A B content s w i (lf_outboard (ls_files s ! i)) p"
    and hnd: "open_data h True (lf_data (ls_files s ! i)) w = Inr hnd"
  shows "\<exists>loc. locate (ls_layout s) p = Some loc \<and> range_verified ranges (fe_size (m_files (ls_manifest s) ! i)) loc \<and>
    slot_written written (p - a)"
proof -
  have shape: "share_shape s" and c: "contents_ok B content (ls_manifest s)" using rem by (simp_all add: remembers_def resumable_def)
  obtain loc where loc: "p < length (ls_have s)" "locate (ls_layout s) p = Some loc"
    and blk: "\<And>j. unat (loc_start loc) \<le> j \<Longrightarrow> j < unat (loc_end loc) \<Longrightarrow> j div block = p - a"
    using file_piece [OF shape i ab, of p] p ab by (auto simp: pieces_in_def)
  note e = piece_end [OF shape i p loc(2)]
  have pr: "proves B (content i) (lf_outboard (ls_files s ! i)) (unat (loc_start loc)) (unat (loc_end loc))"
    and held: "\<forall>j. unat (loc_start loc) \<le> j \<and> j < unat (loc_end loc) \<longrightarrow> byte_held A (content i) w hnd j"
    using shown e(3) hnd by (auto simp: shown_def)
  have "range_verified ranges (fe_size (m_files (ls_manifest s) ! i)) loc"
    using found pr held unfolding verified_iff [OF e(2)] searched_def by blast
  moreover have start: "unat (loc_start loc) < unat (loc_end loc)" "unat (loc_start loc) < length (content i)"
    using located_range(2) [OF shape c e(3) loc(1)] by (auto simp: piece_range_def BLOCK_SIZE_def)
  then have "slot_written written (unat (loc_start loc) div block)" using found held by (simp add: searched_def)
  then have "slot_written written (p - a)" using blk start by simp
  ultimately show ?thesis using loc(2) by blast
qed

text \<open>Every piece of a file that its tree and the disk show is marked, and no piece of another file.\<close>

lemma search_marks:
  assumes ok: "share_ok h A content s w" and rem: "remembers B content s" and i: "i < length (ls_files s)"
    and nf: "no_faults (data_path (lf_data (ls_files s ! i))) w" and ab: "pieces_of (ls_layout s) i = Some (a, b)"
  obtains ranges written s2 where "valid_byte_ranges h A B (lf_data (ls_files s ! i)) (lf_outboard (ls_files s ! i)) w = Inr ranges"
    "written_pieces h A (lf_data (ls_files s ! i)) w = Inr written"
    "mark_restored a (fe_size (m_files (ls_manifest s) ! i)) ranges written [a..<b] s = Some s2"
    "restored_from h A B content w s s2" "ls_files s2 = ls_files s" "\<And>p. has s2 p \<Longrightarrow> has s p \<or> p \<in> pieces_in s i"
    "\<And>p. p \<in> pieces_in s i \<Longrightarrow> shown h A B content s w i (lf_outboard (ls_files s ! i)) p \<Longrightarrow> has s2 p"
proof -
  let ?f = "ls_files s ! i" and ?e = "m_files (ls_manifest s) ! i"
  have m: "i < length (m_files (ls_manifest s))" using rem i by (simp add: remembers_def share_shape_def)
  have in_ab: "pieces_in s i = {a..<b}" using ab by (simp add: pieces_in_def)
  have size: "length (content i) = entry_size s i" and fit: "tree_fits B (fe_root ?e) (content i) (lf_outboard ?f)"
    and law: "search_proves B (fe_root ?e) (content i)" "bao_sound B (fe_root ?e) (content i)"
    using rem m i by (simp_all add: remembers_def resumable_def bao_resumes_def trees_fit_def contents_ok_def entry_size_def)
  obtain hnd where ready: "file_ready h A w ?f (entry_size s i) hnd" using share_ok_file [OF ok i] by blast
  obtain ranges written where read: "valid_byte_ranges h A B (lf_data ?f) (lf_outboard ?f) w = Inr ranges"
    "written_pieces h A (lf_data ?f) w = Inr written" and found: "searched A B (content i) (lf_outboard ?f) w hnd ranges written"
    using search_file [OF ready nf size law(1) fit] by blast
  have "ob_root (lf_outboard ?f) = fe_root ?e" using fit by (simp add: tree_fits_def)
  from mark_restored_ok [OF ok law(2) size i ab this read _ refl, of "[a..<b]"]
  obtain s2 where s2: "mark_restored a (fe_size ?e) ranges written [a..<b] s = Some s2" "share_ok h A content s2 w"
    "held s \<subseteq> held s2" "ls_manifest s2 = ls_manifest s" "ls_layout s2 = ls_layout s" "ls_files s2 = ls_files s"
    by auto
  have has2: "has s2 q \<longleftrightarrow> has s q \<or> q \<in> pieces_in s i \<and>
     (\<exists>loc. locate (ls_layout s) q = Some loc \<and> range_verified ranges (fe_size ?e) loc \<and> slot_written written (q - a))" for q
    using mark_restored_more [OF s2(1)] by (simp add: in_ab)
  have "share_shape s2" using s2(2) by (simp add: share_ok_def)
  then have "remembers B content s2"
    by (rule remembers_more [OF rem _ s2(5,6,4)]) (use has2 found_proved [OF rem i _ found] in blast)
  then have from_s: "restored_from h A B content w s s2" using s2 by (simp add: restored_from_def)
  have "open_data h True (lf_data ?f) w = Inr hnd" using ready by (simp add: file_ready_def)
  then have "has s2 p" if "p \<in> pieces_in s i" "shown h A B content s w i (lf_outboard ?f) p" for p
    using shown_found [OF rem i that(1) ab found that(2)] has2 that(1) by blast
  with that [OF read s2(1) from_s s2(6)] has2 show thesis by blast
qed

lemma restore_step:
  assumes ok: "share_ok h A content s w" and rem: "remembers B content s" and i: "i < length (ls_files s)"
    and nf: "no_faults (data_path (lf_data (ls_files s ! i))) w" and un: "untouched B s i"
  obtains s2 where "restore_files h A B w i (saved # rest) s = restore_files h A B w (Suc i) rest s2"
    "restored_from h A B content w s s2"
    "\<And>k. k < length (ls_files s) \<Longrightarrow> k \<noteq> i \<Longrightarrow> untouched B s k \<Longrightarrow> untouched B s2 k"
    "\<And>p. p \<in> pieces_in s i \<Longrightarrow> restorable h A B content s w i saved p \<Longrightarrow> has s2 p"
proof -
  let ?f = "ls_files s ! i" and ?e = "m_files (ls_manifest s) ! i"
  have shape: "share_shape s" using rem by (simp add: remembers_def)
  have m: "i < length (m_files (ls_manifest s))" using shape i by (simp add: share_shape_def)
  obtain a b where ab: "pieces_of (ls_layout s) i = Some (a, b)"
    using pieces_of_file [of "ls_manifest s" i] shape m by (auto simp: share_shape_def)
  note fc = file_complete_in [OF shape i]
  show thesis
  proof (cases "(\<forall>p \<in> pieces_in s i. has s p) \<or> length saved \<noteq> length (ob_data (lf_outboard ?f))")
    case True
    then have "restore_files h A B w i (saved # rest) s = restore_files h A B w (Suc i) rest s"
      using i fc by (simp add: idx_Some)
    moreover have "length (ob_data (lf_outboard ?f)) = bao_outboard_size B (fe_size ?e)"
      using rem m i by (simp add: remembers_def resumable_def contents_ok_def trees_fit_def tree_fits_def)
    then have "has s p" if "p \<in> pieces_in s i" "restorable h A B content s w i saved p" for p
      using True that by (auto simp: restorable_def)
    ultimately show thesis by (intro that [of s]) (use ok rem in \<open>simp_all add: restored_from_def\<close>)
  next
    case False
    then have none: "\<forall>p \<in> pieces_in s i. \<not> has s p" and tree: "lf_outboard ?f = empty_tree B (ls_manifest s) i"
      and len: "length saved = length (ob_data (lf_outboard ?f))"
      using un by (auto simp: untouched_def)
    let ?ob = "(lf_outboard ?f)\<lparr>ob_data := saved\<rparr>"
    let ?s1 = "set_local_file i (?f\<lparr>lf_outboard := ?ob\<rparr>) s"
    note s1 = load_tree [OF ok rem i none len]
    obtain ranges written s2 where read: "valid_byte_ranges h A B (lf_data ?f) ?ob w = Inr ranges" "written_pieces h A (lf_data ?f) w = Inr written"
      "mark_restored a (fe_size ?e) ranges written [a..<b] ?s1 = Some s2"
      and s2: "restored_from h A B content w ?s1 s2" "ls_files s2 = ls_files ?s1"
      and old: "\<And>p. has s2 p \<Longrightarrow> has ?s1 p \<or> p \<in> pieces_in ?s1 i"
      and new: "\<And>p. p \<in> pieces_in ?s1 i \<Longrightarrow> shown h A B content ?s1 w i ?ob p \<Longrightarrow> has s2 p"
      using search_marks [OF s1, of i a b] i nf ab by auto
    have same: "pieces_in ?s1 = pieces_in s" "pieces_in s2 = pieces_in s" "has ?s1 = has s"
      using s2(1) by (simp_all add: restored_from_def pieces_in_def has_def fun_eq_iff)
    show thesis
    proof (rule that)
      show "restore_files h A B w i (saved # rest) s = restore_files h A B w (Suc i) rest s2"
        using False i m ab fc read by (auto simp: idx_Some Let_def)
      show from_s: "restored_from h A B content w s s2"
        using s2(1) i by (simp add: restored_from_def map_update list_update_same_conv)
      fix k assume k: "k < length (ls_files s)" "k \<noteq> i" "untouched B s k"
      have "has s2 p \<longleftrightarrow> has s p" if "p \<in> pieces_in s k" for p
        using old pieces_in_unique [OF shape i k(1) _ that] k(2) from_s unfolding same by (auto simp: restored_from_def held_def)
      then show "untouched B s2 k" using k s2 by (simp add: untouched_def same restored_from_def)
    next
      fix p assume p: "p \<in> pieces_in s i" "restorable h A B content s w i saved p"
      have "located ?s1 = located s" by (rule located_file)
      with p(2) i tree have "shown h A B content ?s1 w i ?ob p" by (simp add: restorable_def shown_def)
      with new p(1) show "has s2 p" unfolding same by blast
    qed
  qed
qed

lemma pieces_in_same: "ls_layout s' = ls_layout s \<Longrightarrow> pieces_in s' = pieces_in s"
  by (simp add: pieces_in_def fun_eq_iff)

lemma restore_files_resumes:
  assumes "share_ok h A content s w" "remembers B content s"
    and "\<And>k. k < length (ls_files s) \<Longrightarrow> no_faults (data_path (lf_data (ls_files s ! k))) w"
    and "\<And>k. i \<le> k \<Longrightarrow> k < length (ls_files s) \<Longrightarrow> untouched B s k"
  shows "\<exists>s'. restore_files h A B w i outs s = Some (Inr (), s') \<and> restored_from h A B content w s s' \<and>
    (\<forall>k < length outs. \<forall>p. i + k < length (ls_files s) \<and> p \<in> pieces_in s (i + k) \<and> restorable h A B content s w (i + k) (outs ! k) p \<longrightarrow> has s' p)"
  using assms
proof (induction outs arbitrary: i s)
  case Nil
  then show ?case by (simp add: restored_from_def)
next
  case (Cons saved rest)
  show ?case
  proof (cases "i < length (ls_files s)")
    case False
    then have "idx (ls_files s) i = None" by simp
    with False Cons.prems show ?thesis by (simp add: restored_from_def del: idx_eq_None)
  next
    case i: True
    obtain s2 where step: "restore_files h A B w i (saved # rest) s = restore_files h A B w (Suc i) rest s2"
      and from_s: "restored_from h A B content w s s2"
      and later: "\<And>k. k < length (ls_files s) \<Longrightarrow> k \<noteq> i \<Longrightarrow> untouched B s k \<Longrightarrow> untouched B s2 k"
      and first: "\<And>p. p \<in> pieces_in s i \<Longrightarrow> restorable h A B content s w i saved p \<Longrightarrow> has s2 p"
      using restore_step [OF Cons.prems(1,2) i Cons.prems(3) [OF i] Cons.prems(4) [OF order_refl i]] by blast
    have "map lf_data (ls_files s2) = map lf_data (ls_files s)" using from_s by (simp add: restored_from_def)
    then have len: "length (ls_files s2) = length (ls_files s)"
      and data: "k < length (ls_files s) \<Longrightarrow> lf_data (ls_files s2 ! k) = lf_data (ls_files s ! k)" for k
      by (metis length_map, metis length_map nth_map)
    have eq: "ls_layout s2 = ls_layout s" "ls_manifest s2 = ls_manifest s" using from_s by (simp_all add: restored_from_def)
    have same: "pieces_in s2 = pieces_in s" "k < length (ls_files s) \<Longrightarrow>
        restorable h A B content s2 w k saved' p = restorable h A B content s w k saved' p" for k saved' p
      by (rule pieces_in_same [OF eq(1)]) (simp only: restorable_def shown_def located_def eq data)
    have "\<exists>s'. restore_files h A B w (Suc i) rest s2 = Some (Inr (), s') \<and> restored_from h A B content w s2 s' \<and>
        (\<forall>k < length rest. \<forall>p. Suc i + k < length (ls_files s2) \<and> p \<in> pieces_in s2 (Suc i + k) \<and>
           restorable h A B content s2 w (Suc i + k) (rest ! k) p \<longrightarrow> has s' p)"
      by (rule Cons.IH) (use from_s later Cons.prems(3,4) in \<open>auto simp: restored_from_def len data\<close>)
    then obtain s' where s': "restore_files h A B w (Suc i) rest s2 = Some (Inr (), s')" "restored_from h A B content w s2 s'"
      and after: "\<forall>k < length rest. \<forall>p. Suc i + k < length (ls_files s2) \<and> p \<in> pieces_in s2 (Suc i + k) \<and>
           restorable h A B content s2 w (Suc i + k) (rest ! k) p \<longrightarrow> has s' p"
      by (elim exE conjE)
    have rest: "has s' p" if "k < length rest" "Suc i + k < length (ls_files s)" "p \<in> pieces_in s (Suc i + k)"
      "restorable h A B content s w (Suc i + k) (rest ! k) p" for k p
      using after that same(2) [OF that(2)] by (simp add: len same(1))
    have "has s' p" if "k < length (saved # rest)" "i + k < length (ls_files s)" "p \<in> pieces_in s (i + k)"
      "restorable h A B content s w (i + k) ((saved # rest) ! k) p" for k p
    proof (cases k)
      case 0
      with that first have "p \<in> held s2" by (simp add: held_def)
      then show ?thesis using s'(2) by (auto simp: restored_from_def held_def)
    qed (use that rest in simp)
    then show ?thesis using step s' restored_from_trans [OF from_s s'(2)] by auto
  qed
qed


subsection \<open>Making the files ready again\<close>

text \<open>A file that is ready is a good place for it, and preparing it again changes nothing.\<close>

lemma ready_place:
  assumes "file_ready h A w f sz hnd" "no_faults (data_path (lf_data f)) w"
    "case lf_data f of Plain _ \<Rightarrow> True | Encrypted _ _ n \<Rightarrow> n = sz"
  shows "place_ok A w (lf_data f)" "case lf_data f of Plain p \<Rightarrow> \<exists>b. files w p = Some b \<and> length b = sz
      | Encrypted p _ n \<Rightarrow> \<exists>b. files w p = Some b \<and> store_file sz b"
proof -
  note ready = assms(1) [unfolded file_ready_def]
  have both: "place_ok A w (lf_data f) \<and> (case lf_data f of Plain p \<Rightarrow> \<exists>b. files w p = Some b \<and> length b = sz
      | Encrypted p _ n \<Rightarrow> \<exists>b. files w p = Some b \<and> store_file sz b)"
  proof (cases "lf_data f")
    case (Plain p)
    with ready assms(2) show ?thesis
      by (auto simp: place_ok_def open_data_def open_with_cases handle_view_def file_content_def split: option.splits if_splits)
  next
    case (Encrypted p key n)
    then obtain b e where b: "files w p = Some b" "hnd = EncHandle e" "en_size e = n" "fh_path (en_file e) = p" "take 8 b = MAGIC"
      using ready by (auto simp: open_data_def open_with_cases Let_def file_content_def split: option.splits if_splits)
    with ready Encrypted assms(2,3) show ?thesis
      by (simp add: place_ok_def handle_writable_def enc_writable_def sized_def blocks_def store_file_def file_content_def)
  qed
  then show "place_ok A w (lf_data f)" "case lf_data f of Plain p \<Rightarrow> \<exists>b. files w p = Some b \<and> length b = sz
      | Encrypted p _ n \<Rightarrow> \<exists>b. files w p = Some b \<and> store_file sz b" by blast+
qed

definition in_place :: "world \<Rightarrow> file_data \<Rightarrow> nat \<Rightarrow> bool" where
  "in_place w d sz \<longleftrightarrow> no_faults (data_path d) w \<and>
     (case d of Plain p \<Rightarrow> \<exists>b. files w p = Some b \<and> length b = sz | Encrypted p _ n \<Rightarrow> n = sz \<and> (\<exists>b. files w p = Some b \<and> store_file sz b))"

lemma set_len_same: "length b = n \<Longrightarrow> set_len n b = b"
  by (simp add: set_len_def)

lemma put_same: "files w p = Some b \<Longrightarrow> put_file p b w = w"
  by (simp add: put_file_def fun_upd_idem)

lemma prepare_in_place:
  assumes "in_place w d (unat (fe_size e))" "prepare_file B d e w = (r, w')"
  shows "w' = w"
proof -
  have "preallocate d (unat (fe_size e)) w = Inr w"
  proof (cases d)
    case (Plain p)
    with assms(1) obtain b where b: "files w p = Some b" "length b = unat (fe_size e)" "no_faults p w"
      by (auto simp: in_place_def)
    have opened: "open_file (open_options\<lparr>oo_write := True, oo_create := True\<rparr>) p w = Inr w" "open_file (open_options\<lparr>oo_write := True\<rparr>) p w = Inr w"
      using b by (simp_all add: open_file_def no_faults_access [OF b(3)] open_options_def)
    then show ?thesis
      using b by (simp add: preallocate_def Plain no_faults_parent [OF b(3)] file_content_def set_len_same put_same)
  next
    case (Encrypted p key n)
    with assms(1) obtain b where b: "files w p = Some b" "store_file n b" "no_faults p w"
      by (auto simp: in_place_def)
    then have "data_preallocate d w = Inr w"
      by (simp add: Encrypted no_faults_parent [OF b(3)] no_faults_len [OF b(3)] store_file_def)
    then show ?thesis by (simp add: preallocate_def Encrypted)
  qed
  with assms(2) show ?thesis by (auto simp: prepare_file_def Let_def split: option.splits)
qed

lemma download_files_in_place:
  "download_files B dest key n es w = (r, w') \<Longrightarrow>
     (\<And>i. i < length es \<Longrightarrow> in_place w (file_at dest key n es i) (unat (fe_size (es ! i)))) \<Longrightarrow> w' = w"
proof (induction es arbitrary: n r w')
  case (Cons e es)
  obtain r1 w1 where one: "prepare_file B (download_data dest key n e) e w = (r1, w1)" by fastforce
  with prepare_in_place [OF _ one] Cons.prems(2) [of 0] have w1: "w1 = w" by simp
  obtain r2 w2 where rest: "download_files B dest key (Suc n) es w = (r2, w2)" by fastforce
  have "w2 = w" by (rule Cons.IH [OF rest]) (use Cons.prems(2) [of "Suc _"] in simp)
  with Cons.prems(1) one w1 rest show ?case by (auto simp: Let_def split: prod.splits sum.splits)
qed simp

subsection \<open>A download taken up again\<close>

lemma prepare_remembers:
  assumes pl: "places_ok (lib_aead E) w dest key m" and m: "resumable (lib_bao E) content m"
    and made: "prepare_download E order reseed key allow code m b dest a (store, hub, w) = Some (Inr s, store', hub', w')"
  shows "remembers (lib_bao E) content s"
proof -
  let ?h = "lib_blake E" and ?A = "lib_aead E" and ?B = "lib_bao E"
  have c: "contents_ok ?B content m" using m by (simp add: resumable_def)
  obtain s0 w0 where s0: "for_download ?h ?B m b dest key (sc_secret code) w = Some (Inr s0, w0)" "share_ok ?h ?A content s0 w0"
    "ls_manifest s0 = m" "faults w0 = faults w"
    using for_download_ok [OF pl c] by blast
  note fresh = for_download_remembers [OF s0(1) m]
  have shape: "share_shape s0" using s0(2) by (simp add: share_ok_def)
  have nf: "no_faults (data_path (lf_data (ls_files s0 ! k))) w0" if "k < length (ls_files s0)" for k
    using that pl s0(4) for_download_share(3,5) [OF s0(1)] by (simp add: places_ok_def place_ok_def no_faults_def)
  obtain s1 w1 where s1: "restored_share E m b dest key (sc_secret code) store w = Some (Inr s1, w1)"
    and s: "resumed_event (set_allowed allow s1) = Some s"
    using made by (auto simp: prepare_download_def split: bind_splits sum.splits if_splits prod.splits)
  have "remembers ?B content s1"
  proof (cases "Option.bind store (load_progress E (ls_id s0) dest)")
    case None
    with s1 s0(1) fresh(1) [OF shape] show ?thesis by (simp add: restored_share_def)
  next
    case (Some outs)
    obtain s' where "restore_files ?h ?A ?B w0 0 outs s0 = Some (Inr (), s')" "restored_from ?h ?A ?B content w0 s0 s'"
      using restore_files_resumes [OF s0(2) fresh(1) [OF shape] nf fresh(2) [OF shape], of 0 outs] by blast
    with s1 s0(1) Some show ?thesis by (simp add: restored_share_def restore_progress_def restored_from_def)
  qed
  then have "remembers ?B content (set_allowed allow s1)"
    by (simp add: remembers_def set_allowed_def share_shape_def trees_fit_def piece_proved_def located_def has_def)
  then show ?thesis using remembering.resumed_event [OF s] by blast
qed


text \<open>What is held and proved of a share is restorable in any share for the same manifest and files.\<close>

lemma held_restorable:
  assumes rem: "remembers B content t" and held: "has t p"
    and ok: "share_ok h A content t' w" and more: "held t \<subseteq> held t'"
    and same: "ls_manifest t' = ls_manifest t" "ls_layout t' = ls_layout t" "ls_manifest s = ls_manifest t" "ls_layout s = ls_layout t"
      "map lf_data (ls_files t') = map lf_data (ls_files s)"
    and i: "i < length (ls_files t)" "p \<in> pieces_in t i"
  shows "restorable h A B content s w i (outboard_snapshots t ! i) p"
proof -
  let ?m = "ls_manifest t" and ?f = "ls_files t ! i"
  have shape: "share_shape t" using rem by (simp add: remembers_def)
  have m: "i < length (m_files ?m)" using shape i(1) by (simp add: share_shape_def)
  have fit: "tree_fits B (fe_root (m_files ?m ! i)) (content i) (lf_outboard ?f)" and "length (content i) = unat (fe_size (m_files ?m ! i))"
    using rem i(1) m by (simp_all add: remembers_def resumable_def contents_ok_def trees_fit_def)
  then have fit: "ob_root (lf_outboard ?f) = fe_root (m_files ?m ! i)" "ob_size (lf_outboard ?f) = fe_size (m_files ?m ! i)"
    "length (ob_data (lf_outboard ?f)) = bao_outboard_size B (fe_size (m_files ?m ! i))"
    by (simp_all add: tree_fits_def)
  then have tree: "(empty_tree B ?m i)\<lparr>ob_data := ob_data (lf_outboard ?f)\<rparr> = lf_outboard ?f"
    by (simp add: empty_tree_def empty_outboard_def)
  have snap: "outboard_snapshots t ! i = ob_data (lf_outboard ?f)" using i(1) by (simp add: outboard_snapshots_def)
  have t': "i < length (ls_files t')" using ok same(1) m by (simp add: share_ok_def share_shape_def)
  have "lf_data (ls_files t' ! i) = lf_data (ls_files s ! i)" using same(5) t' by (metis length_map nth_map)
  moreover obtain hnd where "file_ready h A w (ls_files t' ! i) (entry_size t' i) hnd"
    "\<And>p j. has t' p \<Longrightarrow> in_piece t' p i j \<Longrightarrow> byte_held A (content i) w hnd j"
    using share_ok_file [OF ok t'] by blast
  moreover have "has t' p" using more held by (auto simp: held_def)
  ultimately have "byte_held A (content i) w hnd' j"
    if "open_data h True (lf_data (ls_files s ! i)) w = Inr hnd'" "located t p i x y" "x \<le> j" "j < y" for hnd' x y j
    using that by (auto simp: file_ready_def in_piece_def located_def same(2))
  moreover have "located s = located t" by (simp add: located_def same(4) fun_eq_iff)
  moreover have "proves B (content i) (lf_outboard ?f) x y" if "located t p i x y" for x y
    using rem held that by (simp add: remembers_def piece_proved_def)
  ultimately show ?thesis unfolding restorable_def shown_def same(3) snap tree using fit(3) by auto
qed

text \<open>The files of a share are good places, and in place, for the same download.\<close>

lemma ready_again:
  assumes ok: "share_ok h A content t w" and m: "ls_manifest t = m"
    and data: "\<And>i. i < length (m_files m) \<Longrightarrow> lf_data (ls_files t ! i) = download_data dest key i (m_files m ! i)"
    and nf: "\<And>i. i < length (m_files m) \<Longrightarrow> no_faults (data_path (download_data dest key i (m_files m ! i))) w"
    and i: "i < length (m_files m)"
  shows "place_ok A w (download_data dest key i (m_files m ! i))"
    "in_place w (download_data dest key i (m_files m ! i)) (unat (fe_size (m_files m ! i)))"
proof -
  let ?d = "download_data dest key i (m_files m ! i)"
  have "i < length (ls_files t)" using ok m i by (simp add: share_ok_def share_shape_def)
  then obtain hnd where "file_ready h A w (ls_files t ! i) (entry_size t i) hnd" using share_ok_file [OF ok] by blast
  from ready_place [OF this] nf [OF i] data [OF i] m
    download_data_size [where dest = dest and key = key and n = i and e = "m_files m ! i"]
  show "place_ok A w ?d" "in_place w ?d (unat (fe_size (m_files m ! i)))"
    by (simp_all add: entry_size_def in_place_def split: file_data.splits)
qed

text \<open>
  What a share \<open>t\<close> held and proved is restored from its trees, when the disk
  is one that a share \<open>t'\<close> with at least the same pieces goes with.
\<close>

lemma restore_again:
  assumes places: "places_ok (lib_aead E) w dest key m" and m: "resumable (lib_bao E) content m"
    and rem: "remembers (lib_bao E) content t" and ok: "share_ok (lib_blake E) (lib_aead E) content t' w"
    and more: "held t \<subseteq> held t'" and man: "ls_manifest t = m" "ls_manifest t' = m"
    and data: "\<And>i. i < length (m_files m) \<Longrightarrow> lf_data (ls_files t' ! i) = download_data dest key i (m_files m ! i)"
    and saved: "load_progress E (id_of (lib_blake E) b) dest st = Some (outboard_snapshots t)"
  shows "\<exists>s'. restored_share E m b dest key secret (Some st) w = Some (Inr s', w) \<and> held t \<subseteq> held s'"
proof -
  let ?h = "lib_blake E" and ?A = "lib_aead E" and ?B = "lib_bao E"
  have c: "contents_ok ?B content m" using m by (simp add: resumable_def)
  have nf: "no_faults (data_path (download_data dest key i (m_files m ! i))) w" if "i < length (m_files m)" for i
    using places that by (simp add: places_ok_def place_ok_def)
  from for_download_ok [OF places c] obtain s0 w' where s0: "for_download ?h ?B m b dest key secret w = Some (Inr s0, w')"
    "share_ok ?h ?A content s0 w'" "ls_manifest s0 = m" "ls_id s0 = id_of ?h b" by blast
  have shape: "share_shape t" "share_shape t'" "share_shape s0" using rem ok s0(2) by (simp_all add: remembers_def share_ok_def)
  have same: "w' = w"
    using s0(1) ready_again(2) [OF ok man(2) data nf]
    by (auto simp: for_download_def split: prod.splits sum.splits bind_splits intro: download_files_in_place)
  note fresh = for_download_remembers [OF s0(1) m shape(3)] and data0 = for_download_share(3,5) [OF s0(1)]
  have lay: "ls_layout t = layout_new m" "ls_layout t' = layout_new m" "ls_layout s0 = layout_new m"
    and len: "length (ls_files t) = length (m_files m)" "length (ls_files t') = length (m_files m)"
    using shape man s0(3) by (simp_all add: share_shape_def)
  obtain s' where s': "restore_files ?h ?A ?B w 0 (outboard_snapshots t) s0 = Some (Inr (), s')"
    and found: "\<forall>k < length (outboard_snapshots t). \<forall>p. 0 + k < length (ls_files s0) \<and> p \<in> pieces_in s0 (0 + k) \<and>
      restorable ?h ?A ?B content s0 w (0 + k) (outboard_snapshots t ! k) p \<longrightarrow> has s' p"
    using restore_files_resumes [OF s0(2) [unfolded same] fresh(1) _ fresh(2), of 0 "outboard_snapshots t"] nf data0 by auto
  have "map lf_data (ls_files t') = map lf_data (ls_files s0)" using data data0 len by (simp add: list_eq_iff_nth_eq)
  note restorable = held_restorable [OF rem _ ok more, where s = s0, unfolded man lay s0(3), OF _ refl refl refl refl this]
  have "has s' p" if p: "has t p" for p
  proof -
    obtain i where "i < length (ls_files t)" "p \<in> pieces_in t i" by (rule in_some_file [OF shape(1) p])
    with restorable [OF p] found len(1) data0(1) lay show ?thesis by (simp add: outboard_snapshots_def pieces_in_def)
  qed
  then have "held t \<subseteq> held s'" by (auto simp: held_def)
  moreover have "restored_share E m b dest key secret (Some st) w = Some (Inr s', w)"
    using s0(1,4) saved s' same by (simp add: restored_share_def restore_progress_def)
  ultimately show ?thesis by blast
qed

text \<open>C5: a download that stops and is taken up again loses nothing it had saved:
  whatever happened between the last save of its progress and its end, and
  whatever the peers sent, every piece held at that save is shown by the trees
  saved and the files on disk and is held again from the start; and making the
  files ready again leaves them as they are.\<close>

theorem resume_keeps_pieces:
  assumes places: "places_ok (lib_aead E) w dest key m" and m: "resumable (lib_bao E) content m"
    and first: "prepare_download E order reseed key allow code m b dest a (store, hub, w) = Some (Inr s, store1, hub1, w1)"
    and saved: "run_ops (engine_exec (lib_blake E) (lib_aead E) (lib_bao E) sp se) ops (engine_new s, w1) = Some (g, w2)"
      "load_progress E (id_of (lib_blake E) b) dest st = Some (outboard_snapshots (eg_share g))"
    and stopped: "run_ops (engine_exec (lib_blake E) (lib_aead E) (lib_bao E) sp se) ops' (g, w2) = Some (g', w3)"
    and len: "length ops + length ops' < 2 ^ 31"
  shows "\<exists>s'. restored_share E m b dest key (sc_secret code) (Some st) w3 = Some (Inr s', w3) \<and> held (eg_share g) \<subseteq> held s'"
proof -
  let ?h = "lib_blake E" and ?A = "lib_aead E" and ?B = "lib_bao E"
  have c: "contents_ok ?B content m" using m by (simp add: resumable_def)
  note prep = prepare_ok [OF places c first] and share = prepare_share [OF first]
  have new: "eg_share (engine_new s) = s" by (simp add: engine_new_def)
  have "engine_inv ?h ?A ?B content (2 * length ops + 2 * length ops') (engine_new s, w1)"
    using engine_new_inv [of ?h ?A content s w1 ?B] prep c len by simp
  from engine_run_ok [OF this, of sp se] saved(1) have inv: "engine_inv ?h ?A ?B content (2 * length ops' + 0) (g, w2)" by auto
  from engine_run_ok [OF this, of sp se] stopped have last: "engine_inv ?h ?A ?B content 0 (g', w3)" "gained g g'" by auto
  have rem: "remembers ?B content (eg_share g)"
    using remembering.run_ops [OF saved(1)] prepare_remembers [OF places m first] new by simp
  have same: "same_share s (eg_share g)" "same_share (eg_share g) (eg_share g')"
    using same_run.run_ops [OF saved(1)] same_run.run_ops [OF stopped] new by simp_all
  have ok: "share_ok ?h ?A content (eg_share g') w3" and more: "held (eg_share g) \<subseteq> held (eg_share g')"
    using engine_invD(1) [OF last(1)] last(2) by (simp_all add: gained_def)
  have man: "ls_manifest (eg_share g) = m" "ls_manifest (eg_share g') = m" using same share(1) by (simp_all add: same_share_def)
  have data: "lf_data (ls_files (eg_share g') ! i) = download_data dest key i (m_files m ! i)" if "i < length (m_files m)" for i
    using same_data [OF same_share_trans [OF same]] share(2,4) that by simp
  have own: "writers_own s" "writers_own (eg_share g)"
    using prepare_only [OF first] own_run.run_ops [OF saved(1)] new by simp_all
  have "faults w3 = faults w"
    using run_ops_only [OF saved(1)] run_ops_only [OF stopped] own new prep by (simp add: only_files_def)
  then have "no_faults (data_path (download_data dest key i (m_files m ! i))) w3" if "i < length (m_files m)" for i
    using places that by (simp add: places_ok_def place_ok_def no_faults_def)
  from ready_again(1) [OF ok man(2) data this] have "places_ok ?A w3 dest key m" using places by (simp add: places_ok_def)
  from restore_again [OF this m rem ok more man data saved(2)] show ?thesis .
qed

subsection \<open>A download of one piece, stopped and taken up\<close>

lemma toy_bao_resumes:
  assumes "c \<noteq> []" "length c \<le> BLOCK_SIZE"
  shows "bao_resumes toy_bao c c"
proof -
  have range: "piece_range c x y \<longleftrightarrow> x = 0 \<and> y = length c" for x y
    using assms by (auto simp: piece_range_def BLOCK_SIZE_def)
  have valid: "bao_valid toy_bao ob rd = (if v = c then [Inr (0, length c)] else [])"
    if "ob_root ob = c" "serves rd v" "length v = length c" for ob rd v
  proof -
    have "read_exact_loop (\<lambda>_. rd) () 0 (length c) = Inr v"
      using that(2,3) unfolding serves_def by (metis add_0 order_refl slice_0_all)
    then show ?thesis using that(1) by (auto simp: toy_bao_def)
  qed
  have proved: "proves toy_bao c ob 0 (length c)" if "ob_root ob = c" for ob
    using valid [OF that] by (auto simp: proves_def nth_equalityI)
  have saved: "apply_proof toy_bao ob nodes = (Inr (), ob)" for ob nodes
    by (induction nodes) (simp_all add: toy_bao_def)
  show ?thesis
    unfolding bao_resumes_def hash_proves_def saving_proves_def search_proves_def range tree_fits_def
    using proved valid by (auto simp: saved) (auto simp: toy_bao_def resized_def)
qed

lemma wit_resumable: "resumable toy_bao (\<lambda>_. [1, 2, 3]) wit_manifest"
  using wit_contents toy_bao_resumes [of "[1, 2, 3]"] by (simp add: resumable_def wit_manifest_def BLOCK_SIZE_def)

text \<open>The database after the progress was saved.\<close>

definition wit_saved :: "toy_db store" where
  "wit_saved = \<lparr>st_db = (\<lambda>_. [(download_key plain_blake (ShareId [1, 7]) [Normal ''d''], [7])]), st_sealer = None\<rparr>"

lemma wit_loads: "load_progress wit_libs (ShareId [1, 7]) [Normal ''d''] wit_saved = Some [[]]"
  by (simp add: load_progress_def wit_saved_def get_record_def wit_libs_def toy_libs_def const_codec_def raw_get_def toy_redb_def
      stored_name_def)

lemma wit_detached: "run_ops exec_wit [Detached 0 [1, 2, 3]] (engine_new wit_share, wit_world1) =
    Some ((engine_new wit_share)\<lparr>eg_share := wit_stored\<rparr>, put_file wit_path [1, 2, 3] wit_world1)"
  using wit_store by (simp add: store_detached_def engine_new_def wit_shape)

lemma wit_stored_simps: "outboard_snapshots wit_stored = [[]]" "held wit_stored = {0}"
  by (auto simp: outboard_snapshots_def wit_stored_def wit_file_def local_file_new_def empty_outboard_def toy_bao_def held_def has_idx)

theorem resume_keeps_pieces_witness:
  "\<exists>s'. restored_share wit_libs wit_manifest [1, 7] [Normal ''d''] None None (Some wit_saved) (put_file wit_path [1, 2, 3] wit_world1) =
     Some (Inr s', put_file wit_path [1, 2, 3] wit_world1) \<and> {0} \<subseteq> held s'"
proof -
  have "id_of plain_blake [1, 7] = ShareId [1, 7]" by (simp add: id_of_def plain_blake_def)
  then show ?thesis
    using resume_keeps_pieces [of wit_libs wit_world "[Normal ''d'']" None wit_manifest "\<lambda>_. [1, 2, 3]" "\<lambda>_. []" False None wit_code "[1, 7]" 0 None
        wit_hub wit_share None wit_hub wit_world1 "\<lambda>_. []" "\<lambda>_. []" "[Detached 0 [1, 2, 3]]" _ _ wit_saved "[]", OF _ _ wit_prepare]
      wit_places wit_resumable wit_detached wit_loads wit_stored_simps
    by (simp add: wit_code_def del: engine_exec.simps)
qed

end
