(* ===== verification/Node.thy ===== *)
theory Node
  imports Share_Code
begin

text \<open>
  The network side of a client (\<open>src/crates/chorrent/src/node.rs\<close>): an iroh
  endpoint, our own or one the embedding application runs. What iroh and
  iroh-gossip do is a parameter: binding an endpoint, connecting, the ALPN of
  gossip. Our own endpoint has a router, which accepts by ALPN.
\<close>

text \<open>An endpoint as it is at the moment: its id, its address, the relays it uses and whether each is connected.\<close>

record endpoint =
  ep_id :: endpoint_id
  ep_addr :: endpoint_addr
  ep_relays :: "(bool \<times> str) list"

record node =
  nd_endpoint :: endpoint
  nd_gossip :: bool
  nd_router :: "bytes list option"

text \<open>\<open>bind_endpoint\<close> takes the secret key and whether to use the Mainline DHT.\<close>

definition node_bind :: "bytes \<Rightarrow> (bytes \<Rightarrow> bool \<Rightarrow> str + endpoint) \<Rightarrow> bytes \<Rightarrow> bool \<Rightarrow> bool \<Rightarrow> node_error + node" where
  "node_bind gossip_alpn bind_endpoint secret_key gossip mainline_dht =
     bind_result (map_err NodeBind (bind_endpoint secret_key mainline_dht)) (\<lambda>endpoint. Inr
       \<lparr>nd_endpoint = endpoint, nd_gossip = gossip, nd_router = Some (ALPN # (if gossip then [gossip_alpn] else []))\<rparr>)"

definition node_attach :: "endpoint \<Rightarrow> bool \<Rightarrow> node" where
  "node_attach endpoint gossip = \<lparr>nd_endpoint = endpoint, nd_gossip = gossip, nd_router = None\<rparr>"

definition alpns :: "bytes \<Rightarrow> node \<Rightarrow> bytes list" where
  "alpns gossip_alpn n = [ALPN] @ (if nd_gossip n then [gossip_alpn] else [])"

text \<open>What becomes of a connection: the request handler, gossip, or closed with a code and a reason.\<close>

datatype route = ToHandler | ToGossip | Close nat str

definition node_handle :: "bytes \<Rightarrow> node \<Rightarrow> bytes \<Rightarrow> route" where
  "node_handle gossip_alpn n alpn =
     (if alpn = ALPN then ToHandler
      else if nd_gossip n \<and> alpn = gossip_alpn then ToGossip
      else Close 0 ''unknown protocol'')"

definition node_id :: "node \<Rightarrow> endpoint_id" where
  "node_id n = ep_id (nd_endpoint n)"

definition node_addr :: "node \<Rightarrow> endpoint_addr" where
  "node_addr n = ep_addr (nd_endpoint n)"

text \<open>\<open>online\<close> is how long the endpoint takes to connect to a relay, if it ever does.\<close>

definition wait_for_relay :: "nat option \<Rightarrow> nat \<Rightarrow> bool" where
  "wait_for_relay online timeout = (case online of None \<Rightarrow> False | Some t \<Rightarrow> t \<le> timeout)"

definition node_connect :: "(endpoint_addr \<Rightarrow> bytes \<Rightarrow> str + 'c) \<Rightarrow> endpoint_addr \<Rightarrow> node_error + 'c" where
  "node_connect dial addr = map_err NodeConnect (dial addr ALPN)"

definition node_relay :: "node \<Rightarrow> str option" where
  "node_relay n = map_option snd (find fst (ep_relays (nd_endpoint n)))"

text \<open>What is shut down, in order: the router closes our own endpoint, an attached one is left running.\<close>

datatype service = RouterService | GossipService

definition node_shutdown :: "node \<Rightarrow> service list" where
  "node_shutdown n = (case nd_router n of None \<Rightarrow> [] | Some _ \<Rightarrow> [RouterService]) @ (if nd_gossip n then [GossipService] else [])"

subsection \<open>Routing\<close>

text \<open>An attached node serves exactly the protocols it lists, and a bound one routes the same ones.\<close>

lemma handled_alpns: "node_handle g n a = Close 0 ''unknown protocol'' \<longleftrightarrow> a \<notin> set (alpns g n)"
  by (auto simp: node_handle_def alpns_def)

lemma bound_alpns: "node_bind g e k gossip dht = Inr n \<Longrightarrow> nd_router n = Some (alpns g n)"
  by (auto simp: node_bind_def alpns_def bind_result_Inr)

lemma relay_connected: "node_relay n = Some url \<Longrightarrow> (True, url) \<in> set (ep_relays (nd_endpoint n))"
  by (auto simp: node_relay_def find_Some_iff in_set_conv_nth prod_eq_iff)

end
