(* ===== verification/Discovery.thy ===== *)
theory Discovery
  imports Node Complex_Main
begin

text \<open>
  Staying in a share's swarm (\<open>src/crates/chorrent/src/discovery.rs\<close>). The
  keeper is a state machine: what gossip delivers and the ticks of its timer
  are its inputs, what it sends and reports its outputs. Times are seconds.
  Gossip, the serialization of announcements and the result of dialing an
  address are parameters; a dial ends in a connection or nothing within
  \<open>DIAL_TIMEOUT\<close>.
\<close>

definition ANNOUNCE_EVERY :: rat where
  "ANNOUNCE_EVERY = 5"

definition REJOIN_EVERY :: rat where
  "REJOIN_EVERY = 15"

definition DIAL_TIMEOUT :: rat where
  "DIAL_TIMEOUT = 10"

record announcement =
  an_addr :: endpoint_addr

text \<open>Connections are kept only to keep their paths warm; the source lists them as they come up.\<close>

definition predial :: "endpoint_id \<Rightarrow> (endpoint_addr \<Rightarrow> 'c option) \<Rightarrow> endpoint_addr list \<Rightarrow> 'c list" where
  "predial me dial ps = List.map_filter dial (filter (\<lambda>p. ea_id p \<noteq> me \<and> ea_addrs p \<noteq> []) ps)"

text \<open>
  What a keeper needs; whether it announces itself is switched on while it
  runs, so it comes with each tick. \<open>ks_found\<close>: someone wants the peers found.
\<close>

record keeper_setup =
  ks_node :: node
  ks_topic :: bytes
  ks_bootstrap :: "endpoint_addr list"
  ks_found :: bool

definition join_ids :: "keeper_setup \<Rightarrow> endpoint_id list" where
  "join_ids k = filter (\<lambda>i. i \<noteq> node_id (ks_node k)) (map ea_id (ks_bootstrap k))"

text \<open>\<open>subscribe\<close> is gossip's: a topic and the peers to join through, or why it failed.\<close>

definition swarm_join ::
  "(bytes \<Rightarrow> endpoint_id list \<Rightarrow> str + 'sub) \<Rightarrow> (endpoint_addr \<Rightarrow> 'c option) \<Rightarrow> keeper_setup \<Rightarrow> error + 'sub \<times> 'c list" where
  "swarm_join subscribe dial k =
     (if \<not> nd_gossip (ks_node k) then Inl (Gossip ''gossip is disabled'')
      else
        (let warm = predial (node_id (ks_node k)) dial (ks_bootstrap k) in
         bind_result (map_err Gossip (subscribe (ks_topic k) (join_ids k))) (\<lambda>sub. Inr (sub, warm))))"

record 'c keeper =
  kp_neighbours :: "endpoint_id set"
  kp_known :: "endpoint_id \<rightharpoonup> endpoint_addr"
  kp_last_rejoin :: rat
  kp_warm :: "'c list"

text \<open>An item of the gossip stream; errors and all other events are \<open>OtherItem\<close>.\<close>

datatype gossip_item = NeighborUp endpoint_id | NeighborDown endpoint_id | Received bytes | OtherItem

text \<open>
  A tick comes with the time, whether announcing is on, our current address
  and the outcome of dialing; the stream's end stops the loop.
\<close>

datatype 'c keep_input = Item gossip_item | Tick rat bool endpoint_addr "endpoint_addr \<Rightarrow> 'c option" | StreamEnd

datatype keep_output = Report event | SendFound endpoint_addr | Broadcast bytes | JoinPeers "endpoint_id list"

definition keep_start :: "keeper_setup \<Rightarrow> 'c list \<Rightarrow> rat \<Rightarrow> 'c keeper" where
  "keep_start k warm now =
     \<lparr>kp_neighbours = {},
      kp_known = map_of (rev (map (\<lambda>p. (ea_id p, p)) (filter (\<lambda>p. ea_id p \<noteq> node_id (ks_node k)) (ks_bootstrap k)))),
      kp_last_rejoin = now, kp_warm = warm\<rparr>"

fun hear_item ::
  "announcement codec \<Rightarrow> keeper_setup \<Rightarrow> gossip_item \<Rightarrow> 'c keeper \<Rightarrow> 'c keeper \<times> keep_output list" where
  "hear_item pc k (NeighborUp i) s = (s\<lparr>kp_neighbours := insert i (kp_neighbours s)\<rparr>, [])"
| "hear_item pc k (NeighborDown i) s = (s\<lparr>kp_neighbours := kp_neighbours s - {i}\<rparr>, [])"
| "hear_item pc k (Received content) s =
     (case from_bytes pc content of
        None \<Rightarrow> (s, [])
      | Some an \<Rightarrow>
          if ea_id (an_addr an) \<noteq> node_id (ks_node k) then
            (s\<lparr>kp_known := (kp_known s)(ea_id (an_addr an) \<mapsto> an_addr an)\<rparr>,
             if ks_found k then [SendFound (an_addr an)] else [])
          else (s, []))"
| "hear_item pc k OtherItem s = (s, [])"

definition on_item ::
  "announcement codec \<Rightarrow> keeper_setup \<Rightarrow> gossip_item \<Rightarrow> 'c keeper \<Rightarrow> 'c keeper \<times> keep_output list" where
  "on_item pc k item s =
     (let before = card (kp_neighbours s); (s1, out) = hear_item pc k item s in
      if card (kp_neighbours s1) \<noteq> before then
        (if kp_neighbours s1 \<noteq> {} then s1\<lparr>kp_warm := []\<rparr> else s1,
         out @ [Report (SwarmPeers (card (kp_neighbours s1)))])
      else (s1, out))"

text \<open>\<open>order\<close> is the order the hash map lists its keys in. A panic is \<open>None\<close>.\<close>

definition on_tick ::
  "announcement codec \<Rightarrow> (endpoint_id set \<Rightarrow> endpoint_id list) \<Rightarrow> keeper_setup \<Rightarrow>
     rat \<Rightarrow> bool \<Rightarrow> endpoint_addr \<Rightarrow> (endpoint_addr \<Rightarrow> 'c option) \<Rightarrow> 'c keeper \<Rightarrow> ('c keeper \<times> keep_output list) option" where
  "on_tick pc order k now announce addr dial s = do {
     out \<leftarrow> (if announce then do { content \<leftarrow> to_allocvec pc \<lparr>an_addr = addr\<rparr>; Some [Broadcast content] } else Some []);
     Some (if kp_neighbours s = {} \<and> kp_known s \<noteq> Map.empty \<and> REJOIN_EVERY \<le> now - kp_last_rejoin s then
         (let ps = map (\<lambda>i. the (kp_known s i)) (order (dom (kp_known s))) in
          (s\<lparr>kp_last_rejoin := now, kp_warm := predial (node_id (ks_node k)) dial ps\<rparr>, out @ [JoinPeers (map ea_id ps)]))
       else (s, out)) }"

fun keep_loop ::
  "announcement codec \<Rightarrow> (endpoint_id set \<Rightarrow> endpoint_id list) \<Rightarrow> keeper_setup \<Rightarrow>
     'c keep_input list \<Rightarrow> 'c keeper \<Rightarrow> ('c keeper \<times> keep_output list) option" where
  "keep_loop pc order k [] s = Some (s, [])"
| "keep_loop pc order k (StreamEnd # _) s = Some (s, [])"
| "keep_loop pc order k (Item item # ins) s =
     (let (s1, out) = on_item pc k item s in
      do { (s2, out2) \<leftarrow> keep_loop pc order k ins s1; Some (s2, out @ out2) })"
| "keep_loop pc order k (Tick now announce addr dial # ins) s = do {
     (s1, out) \<leftarrow> on_tick pc order k now announce addr dial s;
     (s2, out2) \<leftarrow> keep_loop pc order k ins s1;
     Some (s2, out @ out2) }"

definition keep ::
  "announcement codec \<Rightarrow> (endpoint_id set \<Rightarrow> endpoint_id list) \<Rightarrow> keeper_setup \<Rightarrow>
     'c list \<Rightarrow> rat \<Rightarrow> 'c keep_input list \<Rightarrow> ('c keeper \<times> keep_output list) option" where
  "keep pc order k warm now ins = do {
     (s, out) \<leftarrow> keep_loop pc order k ins (keep_start k warm now);
     Some (s, Report (SwarmPeers 0) # out) }"

subsection \<open>What the keeper knows and says\<close>

definition reports :: "keep_output list \<Rightarrow> nat list" where
  "reports out = concat (map (\<lambda>x. case x of Report (SwarmPeers n) \<Rightarrow> [n] | _ \<Rightarrow> []) out)"

definition joins :: "keep_output list \<Rightarrow> endpoint_id list list" where
  "joins out = concat (map (\<lambda>x. case x of JoinPeers ids \<Rightarrow> [ids] | _ \<Rightarrow> []) out)"

lemma reports_simps [simp]:
  "reports [] = []" "reports (x # out) = (case x of Report (SwarmPeers n) \<Rightarrow> [n] | _ \<Rightarrow> []) @ reports out"
  "reports (out @ out2) = reports out @ reports out2"
  by (simp_all add: reports_def)

lemma joins_simps [simp]:
  "joins [] = []" "joins (x # out) = (case x of JoinPeers ids \<Rightarrow> [ids] | _ \<Rightarrow> []) @ joins out"
  "joins (out @ out2) = joins out @ joins out2"
  by (simp_all add: joins_def)

text \<open>The addresses announced by others, the latest of each peer.\<close>

fun announced :: "announcement codec \<Rightarrow> endpoint_id \<Rightarrow> 'c keep_input list \<Rightarrow> endpoint_id \<rightharpoonup> endpoint_addr" where
  "announced pc me [] = Map.empty"
| "announced pc me (StreamEnd # _) = Map.empty"
| "announced pc me (Item (Received content) # ins) =
     (case from_bytes pc content of
        Some an \<Rightarrow> if ea_id (an_addr an) \<noteq> me then [ea_id (an_addr an) \<mapsto> an_addr an] ++ announced pc me ins
           else announced pc me ins
      | None \<Rightarrow> announced pc me ins)"
| "announced pc me (_ # ins) = announced pc me ins"

definition keeper_ok :: "endpoint_id \<Rightarrow> 'c keeper \<Rightarrow> bool" where
  "keeper_ok me s \<longleftrightarrow> finite (kp_neighbours s) \<and> finite (dom (kp_known s)) \<and> kp_known s me = None \<and> (\<forall>i a. kp_known s i = Some a \<longrightarrow> ea_id a = i)"

definition others_only :: "endpoint_id \<Rightarrow> keep_output \<Rightarrow> bool" where
  "others_only me x = (case x of SendFound a \<Rightarrow> ea_id a \<noteq> me | JoinPeers ids \<Rightarrow> ids \<noteq> [] \<and> me \<notin> set ids | _ \<Rightarrow> True)"

text \<open>A hash map lists each key, in some order.\<close>

definition lists_keys :: "(endpoint_id set \<Rightarrow> endpoint_id list) \<Rightarrow> bool" where
  "lists_keys order \<longleftrightarrow> (\<forall>A. finite A \<longrightarrow> set (order A) = A)"

lemma keep_start_ok: "keeper_ok (node_id (ks_node k)) (keep_start k warm now)"
  by (auto simp: keeper_ok_def keep_start_def map_of_eq_None_iff finite_dom_map_of dest!: map_of_SomeD)

lemma on_item_ok:
  fixes s :: "'c keeper"
  assumes "on_item pc k item s = (s1, out)" and "keeper_ok (node_id (ks_node k)) s"
  shows "keeper_ok (node_id (ks_node k)) s1" and "\<forall>x \<in> set out. others_only (node_id (ks_node k)) x"
    and "last (n # reports out) = (if reports out = [] then n else card (kp_neighbours s1))"
    and "reports out = [] \<Longrightarrow> card (kp_neighbours s1) = card (kp_neighbours s)"
    and "joins out = []" and "kp_last_rejoin s1 = kp_last_rejoin s"
    and "kp_known s1 = kp_known s ++ announced pc (node_id (ks_node k)) [Item item :: 'c keep_input]"
  using assms
  by (cases item; force simp: on_item_def keeper_ok_def others_only_def Let_def map_add_def
        split: option.splits if_splits)+

lemma rejoin_ids:
  assumes "keeper_ok me s" and "lists_keys order"
  shows "set (map ea_id (map (\<lambda>i. the (kp_known s i)) (order (dom (kp_known s))))) = dom (kp_known s)"
proof -
  have "set (order (dom (kp_known s))) = dom (kp_known s)"
    using assms by (simp add: lists_keys_def keeper_ok_def)
  moreover have "ea_id (the (kp_known s i)) = i" if "i \<in> dom (kp_known s)" for i
    using assms(1) that by (force simp: keeper_ok_def)
  ultimately show ?thesis by (simp add: image_comp)
qed

lemma on_tick_ok:
  assumes "on_tick pc order k now announce addr dial s = Some (s1, out)" and "keeper_ok (node_id (ks_node k)) s"
    and "lists_keys order"
  shows "keeper_ok (node_id (ks_node k)) s1" and "\<forall>x \<in> set out. others_only (node_id (ks_node k)) x"
    and "reports out = []" and "kp_neighbours s1 = kp_neighbours s" and "kp_known s1 = kp_known s"
proof -
  let ?ps = "map (\<lambda>i. the (kp_known s i)) (order (dom (kp_known s)))"
  have ids: "map ea_id ?ps \<noteq> [] \<and> node_id (ks_node k) \<notin> set (map ea_id ?ps)" if "kp_known s \<noteq> Map.empty"
  proof -
    have "set (map ea_id ?ps) = dom (kp_known s)" by (rule rejoin_ids [OF assms(2,3)])
    moreover have "node_id (ks_node k) \<notin> dom (kp_known s)" using assms(2) by (simp add: keeper_ok_def domIff)
    moreover have "dom (kp_known s) \<noteq> {}" using that by simp
    ultimately show ?thesis by fastforce
  qed
  have tick: "\<exists>out0. (out0 = [] \<or> (\<exists>b. out0 = [Broadcast b])) \<and>
      (kp_neighbours s = {} \<and> kp_known s \<noteq> Map.empty \<and> REJOIN_EVERY \<le> now - kp_last_rejoin s \<and>
        s1 = s\<lparr>kp_last_rejoin := now, kp_warm := predial (node_id (ks_node k)) dial ?ps\<rparr> \<and>
        out = out0 @ [JoinPeers (map ea_id ?ps)]
      \<or> s1 = s \<and> out = out0)"
    using assms(1) unfolding on_tick_def Let_def by (auto split: Option.bind_splits if_splits)
  then show "keeper_ok (node_id (ks_node k)) s1" using assms(2) by (auto simp: keeper_ok_def)
  from tick show "\<forall>x \<in> set out. others_only (node_id (ks_node k)) x"
    using ids by (auto simp: others_only_def)
  from tick show "reports out = []" "kp_neighbours s1 = kp_neighbours s" "kp_known s1 = kp_known s"
    by auto
qed

lemma announced_Cons:
  fixes ins :: "'c keep_input list"
  shows "announced pc me (Item item # ins) = announced pc me [Item item :: 'c keep_input] ++ announced pc me ins"
  by (cases item) (auto split: option.splits)

lemma keep_loop_ok:
  assumes "keep_loop pc order k ins s = Some (s1, out)" and "keeper_ok (node_id (ks_node k)) s"
    and "lists_keys order"
  shows "keeper_ok (node_id (ks_node k)) s1 \<and> (\<forall>x \<in> set out. others_only (node_id (ks_node k)) x) \<and>
    last (card (kp_neighbours s) # reports out) = card (kp_neighbours s1) \<and>
    kp_known s1 = kp_known s ++ announced pc (node_id (ks_node k)) ins"
  using assms
proof (induction pc order k ins s arbitrary: s1 out rule: keep_loop.induct)
  case (3 pc order k item ins s)
  obtain s2 o2 where item: "on_item pc k item s = (s2, o2)" by fastforce
  with "3.prems"(1) obtain o3 where rest: "keep_loop pc order k ins s2 = Some (s1, o3)" "out = o2 @ o3"
    by (auto split: Option.bind_splits)
  note one = on_item_ok [OF item "3.prems"(2)]
  note IH = "3.IH" [OF item [symmetric] refl rest(1) one(1) "3.prems"(3)]
  have "last (card (kp_neighbours s) # reports out) = card (kp_neighbours s1)"
    using IH one(3) [of "card (kp_neighbours s)"] one(4) rest(2)
    by (cases "reports o3 = []"; cases "reports o2 = []") simp_all
  moreover have "kp_known s1 = kp_known s ++ announced pc (node_id (ks_node k)) (Item item # ins)"
    unfolding announced_Cons [of pc "node_id (ks_node k)" item ins] map_add_assoc one(7) [symmetric] using IH by blast
  ultimately show ?case using IH one rest(2) by auto
next
  case (4 pc order k now announce addr dial ins s)
  from "4.prems"(1) obtain s2 o2 o3 where tick: "on_tick pc order k now announce addr dial s = Some (s2, o2)"
    and rest: "keep_loop pc order k ins s2 = Some (s1, o3)" "out = o2 @ o3"
    by (auto split: Option.bind_splits)
  note one = on_tick_ok [OF tick "4.prems"(2,3)]
  note IH = "4.IH" [OF tick refl rest(1) one(1) "4.prems"(3)]
  have "\<forall>x \<in> set out. others_only (node_id (ks_node k)) x" using IH one(2) rest(2) by auto
  then show ?case using IH one rest(2) by simp
qed simp_all

lemma keep_loop_total:
  assumes "\<forall>a. to_allocvec pc \<lparr>an_addr = a\<rparr> \<noteq> None"
  shows "\<exists>s1 out. keep_loop pc order k ins s = Some (s1, out)"
  using assms
proof (induction pc order k ins s rule: keep_loop.induct)
  case (3 pc order k item ins s)
  obtain s2 o2 where item: "on_item pc k item s = (s2, o2)" by fastforce
  obtain s3 o3 where "keep_loop pc order k ins s2 = Some (s3, o3)"
    using "3.IH" [OF item [symmetric] refl "3.prems"] by blast
  with item show ?case by simp
next
  case (4 pc order k now announce addr dial ins s)
  obtain content where "to_allocvec pc \<lparr>an_addr = addr\<rparr> = Some content" using "4.prems" by fast
  then have "on_tick pc order k now announce addr dial s \<noteq> None"
    unfolding on_tick_def Let_def by (cases announce) simp_all
  then obtain s2 o2 where tick: "on_tick pc order k now announce addr dial s = Some (s2, o2)" by fastforce
  obtain s3 o3 where "keep_loop pc order k ins s2 = Some (s3, o3)"
    using "4.IH" [OF tick refl "4.prems"] by blast
  with tick show ?case by simp
qed simp_all

lemma keepE:
  assumes "keep pc order k warm now ins = Some (s, out)" and "lists_keys order"
  obtains out1 where "out = Report (SwarmPeers 0) # out1" and "keeper_ok (node_id (ks_node k)) s"
    and "\<forall>x \<in> set out1. others_only (node_id (ks_node k)) x"
    and "last (0 # reports out1) = card (kp_neighbours s)"
    and "kp_known s = kp_known (keep_start k warm now) ++ announced pc (node_id (ks_node k)) ins"
proof -
  from assms(1) obtain out1 where loop: "keep_loop pc order k ins (keep_start k warm now) = Some (s, out1)"
    "out = Report (SwarmPeers 0) # out1"
    by (auto simp: keep_def split: Option.bind_splits)
  have start: "card (kp_neighbours (keep_start k warm now)) = 0"
    by (simp add: keep_start_def)
  from keep_loop_ok [OF loop(1) keep_start_ok assms(2), unfolded start] loop(2) that show ?thesis by blast
qed

text \<open>What is heard before the stream ends; and who came as a neighbour and has not gone since.\<close>

definition before_end :: "'c keep_input list \<Rightarrow> 'c keep_input list" where
  "before_end ins = takeWhile (\<lambda>x. case x of StreamEnd \<Rightarrow> False | _ \<Rightarrow> True) ins"

definition linked :: "'c keep_input list \<Rightarrow> endpoint_id set" where
  "linked ins = {i. \<exists>before after. before_end ins = before @ Item (NeighborUp i) # after \<and> Item (NeighborDown i) \<notin> set after}"

lemma before_end_simps [simp]:
  "before_end [] = []" "before_end (StreamEnd # ins) = []" "before_end (Item item # ins) = Item item # before_end ins"
  "before_end (Tick now announce addr dial # ins) = Tick now announce addr dial # before_end ins"
  by (simp_all add: before_end_def)

lemma linked_Nil [simp]: "linked [] = {}" "linked (StreamEnd # ins) = {}"
  by (simp_all add: linked_def)

lemma linked_step:
  assumes "before_end (x # ins) = x # before_end ins"
  shows "i \<in> linked (x # ins) \<longleftrightarrow> i \<in> linked ins \<or> x = Item (NeighborUp i) \<and> Item (NeighborDown i) \<notin> set (before_end ins)"
proof
  assume "i \<in> linked (x # ins)"
  then obtain before after where "x # before_end ins = before @ Item (NeighborUp i) # after" "Item (NeighborDown i) \<notin> set after"
    by (auto simp: linked_def assms)
  then show "i \<in> linked ins \<or> x = Item (NeighborUp i) \<and> Item (NeighborDown i) \<notin> set (before_end ins)"
    by (cases before) (auto simp: linked_def)
next
  assume "i \<in> linked ins \<or> x = Item (NeighborUp i) \<and> Item (NeighborDown i) \<notin> set (before_end ins)"
  then show "i \<in> linked (x # ins)"
    unfolding linked_def assms mem_Collect_eq by (metis append_Cons append_Nil)
qed

lemma keep_loop_linked:
  assumes "keep_loop pc order k ins s = Some (s1, out)"
  shows "i \<in> kp_neighbours s1 \<longleftrightarrow>
    i \<in> linked ins \<or> i \<in> kp_neighbours s \<and> Item (NeighborDown i) \<notin> set (before_end ins)"
  using assms
proof (induction pc order k ins s arbitrary: s1 out rule: keep_loop.induct)
  case (3 pc order k item ins s)
  obtain s2 o2 where item: "on_item pc k item s = (s2, o2)" by fastforce
  with "3.prems"(1) obtain o3 where rest: "keep_loop pc order k ins s2 = Some (s1, o3)"
    by (auto split: Option.bind_splits)
  have step: "i \<in> kp_neighbours s2 \<longleftrightarrow> item = NeighborUp i \<or> i \<in> kp_neighbours s \<and> item \<noteq> NeighborDown i"
    using item by (cases item) (auto simp: on_item_def Let_def split: option.splits if_splits)
  show ?case
    using "3.IH" [OF item [symmetric] refl rest] step by (auto simp: linked_step)
next
  case (4 pc order k now announce addr dial ins s)
  from "4.prems"(1) obtain s2 o2 o3 where tick: "on_tick pc order k now announce addr dial s = Some (s2, o2)"
    and rest: "keep_loop pc order k ins s2 = Some (s1, o3)"
    by (auto split: Option.bind_splits)
  have "kp_neighbours s2 = kp_neighbours s"
    using tick unfolding on_tick_def Let_def by (auto split: Option.bind_splits if_splits)
  then show ?case using "4.IH" [OF tick refl rest] by (simp add: linked_step)
qed simp_all

lemma keep_linked: "keep pc order k warm now ins = Some (s, out) \<Longrightarrow> kp_neighbours s = linked ins"
  by (auto simp: keep_def keep_loop_linked keep_start_def split: Option.bind_splits)

subsection \<open>Attempts to rejoin\<close>

text \<open>
  The peers it has tried to rejoin through, attempt by attempt; and the times
  of the attempts: of the ticks that added one.
\<close>

definition joined ::
  "announcement codec \<Rightarrow> (endpoint_id set \<Rightarrow> endpoint_id list) \<Rightarrow> keeper_setup \<Rightarrow>
     'c list \<Rightarrow> rat \<Rightarrow> 'c keep_input list \<Rightarrow> endpoint_id list list" where
  "joined pc order k warm now ins = (case keep pc order k warm now ins of Some (_, out) \<Rightarrow> joins out | None \<Rightarrow> [])"

definition attempts ::
  "announcement codec \<Rightarrow> (endpoint_id set \<Rightarrow> endpoint_id list) \<Rightarrow> keeper_setup \<Rightarrow>
     'c list \<Rightarrow> rat \<Rightarrow> 'c keep_input list \<Rightarrow> rat list" where
  "attempts pc order k warm now ins = concat (map (\<lambda>n. case ins ! n of
       Tick t _ _ _ \<Rightarrow> if joined pc order k warm now (take (Suc n) ins) \<noteq> joined pc order k warm now (take n ins) then [t] else []
     | _ \<Rightarrow> []) [0..<length ins])"

text \<open>Everybody it knows: those of the share code and those who announced themselves, but not itself.\<close>

definition heard_of :: "announcement codec \<Rightarrow> keeper_setup \<Rightarrow> 'c keep_input list \<Rightarrow> endpoint_id set" where
  "heard_of pc k ins = ea_id ` set (ks_bootstrap k) - {node_id (ks_node k)} \<union> dom (announced pc (node_id (ks_node k)) ins)"

lemma attempts_Nil [simp]: "attempts pc order k warm now [] = []"
  by (simp add: attempts_def)

lemma attempts_snoc:
  "attempts pc order k warm now (ins @ [x]) = attempts pc order k warm now ins @ (case x of
       Tick t _ _ _ \<Rightarrow> if joined pc order k warm now (ins @ [x]) \<noteq> joined pc order k warm now ins then [t] else []
     | _ \<Rightarrow> [])"
proof -
  have e: "map (\<lambda>n. case (ins @ [x]) ! n of
       Tick t _ _ _ \<Rightarrow> if joined pc order k warm now (take (Suc n) (ins @ [x])) \<noteq> joined pc order k warm now (take n (ins @ [x])) then [t] else []
     | _ \<Rightarrow> []) [0..<length ins] = map (\<lambda>n. case ins ! n of
       Tick t _ _ _ \<Rightarrow> if joined pc order k warm now (take (Suc n) ins) \<noteq> joined pc order k warm now (take n ins) then [t] else []
     | _ \<Rightarrow> []) [0..<length ins]"
    by (intro map_cong refl) (simp add: nth_append split: keep_input.split)
  show ?thesis
    by (simp only: attempts_def length_append_singleton upt_Suc_append [OF le0] map_append concat_append e) (simp split: keep_input.split)
qed

lemma keep_loop_append:
  assumes "StreamEnd \<notin> set ins"
  shows "keep_loop pc order k (ins @ ins2) s = do {
    (s1, out) \<leftarrow> keep_loop pc order k ins s;
    (s2, out2) \<leftarrow> keep_loop pc order k ins2 s1;
    Some (s2, out @ out2) }"
  using assms
proof (induction ins arbitrary: s)
  case (Cons x ins)
  show ?case
  proof (cases x)
    case (Item item)
    obtain s1 o1 where "on_item pc k item s = (s1, o1)" by fastforce
    with Cons Item show ?thesis by (simp add: Option.bind_assoc case_prod_beta)
  next
    case (Tick now announce addr dial)
    show ?thesis
    proof (cases "on_tick pc order k now announce addr dial s")
      case (Some r)
      with Cons Tick show ?thesis by (cases r) (simp add: Option.bind_assoc case_prod_beta)
    qed (use Tick in simp)
  qed (use Cons.prems in simp)
qed (simp add: case_prod_beta)

lemma keep_snoc:
  assumes "keep pc order k warm now ins = Some (s, out)" and "StreamEnd \<notin> set ins"
  shows "keep pc order k warm now (ins @ [Tick t announce addr dial]) = do {
      (s1, out1) \<leftarrow> on_tick pc order k t announce addr dial s; Some (s1, out @ out1) }"
    and "keep pc order k warm now (ins @ [Item item]) = Some (let (s1, out1) = on_item pc k item s in (s1, out @ out1))"
  using assms(1) by (auto simp: keep_def keep_loop_append [OF assms(2)] case_prod_beta split: Option.bind_splits)

lemma keep_total:
  assumes "\<forall>a. to_allocvec pc \<lparr>an_addr = a\<rparr> \<noteq> None"
  obtains s out where "keep pc order k warm now ins = Some (s, out)"
proof -
  obtain s out2 where "keep_loop pc order k ins (keep_start k warm now) = Some (s, out2)"
    using keep_loop_total [OF assms] by blast
  then have "keep pc order k warm now ins = Some (s, Report (SwarmPeers 0) # out2)" by (simp add: keep_def)
  then show thesis by (rule that)
qed

lemma keep_known:
  assumes "keep pc order k warm now ins = Some (s, out)" and "lists_keys order"
  shows "dom (kp_known s) = heard_of pc k ins"
proof -
  have "dom (kp_known (keep_start k warm now)) = ea_id ` set (ks_bootstrap k) - {node_id (ks_node k)}"
    by (force simp: keep_start_def dom_map_of_conv_image_fst)
  moreover have "kp_known s = kp_known (keep_start k warm now) ++ announced pc (node_id (ks_node k)) ins"
    using keepE [OF assms] by metis
  ultimately show ?thesis by (simp add: heard_of_def Un_commute)
qed

lemma on_tick_joins:
  assumes "\<forall>a. to_allocvec pc \<lparr>an_addr = a\<rparr> \<noteq> None" and "keeper_ok (node_id (ks_node k)) s" and "lists_keys order"
  obtains s1 out1 ids where "on_tick pc order k t announce addr dial s = Some (s1, out1)" and "set ids = dom (kp_known s)"
    and "if kp_neighbours s = {} \<and> dom (kp_known s) \<noteq> {} \<and> REJOIN_EVERY \<le> t - kp_last_rejoin s
      then joins out1 = [ids] \<and> kp_last_rejoin s1 = t else joins out1 = [] \<and> kp_last_rejoin s1 = kp_last_rejoin s"
proof -
  obtain b where "to_allocvec pc \<lparr>an_addr = addr\<rparr> = Some b" using assms(1) by blast
  then show thesis
    using that [OF _ rejoin_ids [OF assms(2,3)]]
    by (cases announce; cases "kp_neighbours s = {} \<and> kp_known s \<noteq> Map.empty \<and> REJOIN_EVERY \<le> t - kp_last_rejoin s")
       (simp_all add: on_tick_def Let_def)
qed

lemma keep_attempts:
  assumes "\<forall>a. to_allocvec pc \<lparr>an_addr = a\<rparr> \<noteq> None" and "lists_keys order"
    and "StreamEnd \<notin> set ins" and "keep pc order k warm now ins = Some (s, out)"
  shows "kp_last_rejoin s = last (now # attempts pc order k warm now ins) \<and>
    successively (\<lambda>t1 t2. REJOIN_EVERY \<le> t2 - t1) (now # attempts pc order k warm now ins)"
  using assms(3,4)
proof (induction ins arbitrary: s out rule: rev_induct)
  case Nil
  then show ?case by (auto simp: keep_def keep_start_def)
next
  case (snoc x ins)
  obtain s0 out0 where run: "keep pc order k warm now ins = Some (s0, out0)" by (rule keep_total [OF assms(1)])
  have live: "StreamEnd \<notin> set ins" using snoc.prems(1) by simp
  note IH = snoc.IH [OF live run] and ok = keepE [OF run assms(2)]
  show ?case
  proof (cases x)
    case (Item item)
    obtain s1 o1 where item: "on_item pc k item s0 = (s1, o1)" by fastforce
    have "keeper_ok (node_id (ks_node k)) s0" using ok by metis
    from on_item_ok(6) [OF item this] IH snoc.prems(2) item Item show ?thesis
      by (auto simp: keep_snoc [OF run live] attempts_snoc)
  next
    case (Tick t announce addr dial)
    have "keeper_ok (node_id (ks_node k)) s0" using ok by metis
    from on_tick_joins [OF assms(1) this assms(2), of t announce addr dial]
    obtain s1 o1 ids where one: "on_tick pc order k t announce addr dial s0 = Some (s1, o1)"
      "if kp_neighbours s0 = {} \<and> dom (kp_known s0) \<noteq> {} \<and> REJOIN_EVERY \<le> t - kp_last_rejoin s0
       then joins o1 = [ids] \<and> kp_last_rejoin s1 = t else joins o1 = [] \<and> kp_last_rejoin s1 = kp_last_rejoin s0"
      by metis
    have s: "s = s1" and j: "joined pc order k warm now (ins @ [x]) = joined pc order k warm now ins @ joins o1"
      using snoc.prems(2) one(1) run Tick by (auto simp: keep_snoc [OF run live] joined_def)
    show ?thesis
      using one(2) IH unfolding s attempts_snoc j
      by (auto simp: Tick successively_append_iff successively_Cons split: if_splits)
  qed (use snoc.prems in simp)
qed

text \<open>C23: a keeper never takes itself for a peer and always tells the truth about
  the swarm. Whatever gossip delivers, and however ticks and messages
  interleave, it does not panic as long as announcements serialize; its
  neighbours are those who came and have not gone since, and the last number
  of peers reported is theirs; it knows, of every other peer, exactly the
  address that peer announced last, or else the one the share code gave; and
  it hands on or joins through others only.\<close>

theorem keeper_truthful:
  assumes "\<forall>a. to_allocvec pc \<lparr>an_addr = a\<rparr> \<noteq> None" and "lists_keys order"
  shows "\<exists>s out. keep pc order k warm now ins = Some (s, out) \<and>
    kp_neighbours s = linked ins \<and> last (reports out) = card (linked ins) \<and> finite (linked ins) \<and>
    kp_known s = kp_known (keep_start k warm now) ++ announced pc (node_id (ks_node k)) ins \<and>
    kp_known s (node_id (ks_node k)) = None \<and> (\<forall>x \<in> set out. others_only (node_id (ks_node k)) x)"
proof -
  obtain s out where run: "keep pc order k warm now ins = Some (s, out)" by (rule keep_total [OF assms(1)])
  from keepE [OF this assms(2)] obtain out1 where out1: "out = Report (SwarmPeers 0) # out1"
    and ok: "keeper_ok (node_id (ks_node k)) s" "\<forall>x \<in> set out1. others_only (node_id (ks_node k)) x"
      "last (0 # reports out1) = card (kp_neighbours s)"
      "kp_known s = kp_known (keep_start k warm now) ++ announced pc (node_id (ks_node k)) ins"
    by metis
  have "others_only (node_id (ks_node k)) (Report (SwarmPeers 0))" by (simp add: others_only_def)
  with ok out1 have "last (reports out) = card (kp_neighbours s)" "\<forall>x \<in> set out. others_only (node_id (ks_node k)) x"
    by auto
  with run ok keep_linked [OF run] show ?thesis unfolding keeper_ok_def by metis
qed

text \<open>C24: a keeper rejoins exactly when it is lonely and the time has come. At any
  tick before the stream ends, when no neighbour is left, somebody else is
  known and the last attempt (or the start) is 15 seconds or more ago, it
  joins through all those it knows; otherwise it makes no attempt. So attempts
  are at least 15 seconds apart.\<close>

theorem lonely_keeper_rejoins:
  assumes "\<forall>a. to_allocvec pc \<lparr>an_addr = a\<rparr> \<noteq> None" and "lists_keys order" and "StreamEnd \<notin> set ins"
  shows "\<exists>ids. set ids = heard_of pc k ins \<and>
    joined pc order k warm now (ins @ [Tick t announce addr dial]) = joined pc order k warm now ins @
      (if linked ins = {} \<and> heard_of pc k ins \<noteq> {} \<and> REJOIN_EVERY \<le> t - last (now # attempts pc order k warm now ins)
       then [ids] else []) \<and>
    successively (\<lambda>t1 t2. REJOIN_EVERY \<le> t2 - t1) (now # attempts pc order k warm now ins)"
proof -
  obtain s out where run: "keep pc order k warm now ins = Some (s, out)" by (rule keep_total [OF assms(1)])
  have "keeper_ok (node_id (ks_node k)) s" using keepE [OF run assms(2)] by metis
  from on_tick_joins [OF assms(1) this assms(2), of t announce addr dial]
  obtain s1 out1 ids where one: "on_tick pc order k t announce addr dial s = Some (s1, out1)" "set ids = dom (kp_known s)"
    "if kp_neighbours s = {} \<and> dom (kp_known s) \<noteq> {} \<and> REJOIN_EVERY \<le> t - kp_last_rejoin s
     then joins out1 = [ids] \<and> kp_last_rejoin s1 = t else joins out1 = [] \<and> kp_last_rejoin s1 = kp_last_rejoin s"
    by metis
  have "joined pc order k warm now (ins @ [Tick t announce addr dial]) = joined pc order k warm now ins @ joins out1"
    using one(1) run by (simp add: joined_def keep_snoc [OF run assms(3)])
  with one(2,3) keep_attempts [OF assms run] show ?thesis
    unfolding keep_known [OF run assms(2)] keep_linked [OF run] by (intro exI [of _ ids]) (auto split: if_splits)
qed


subsection \<open>An example\<close>

definition wit_setup :: keeper_setup where
  "wit_setup = \<lparr>ks_node = node_attach \<lparr>ep_id = [1], ep_addr = \<lparr>ea_id = [1], ea_addrs = [''a'']\<rparr>, ep_relays = []\<rparr> True,
     ks_topic = [9], ks_bootstrap = [\<lparr>ea_id = [2], ea_addrs = [''b'']\<rparr>, \<lparr>ea_id = [1], ea_addrs = [''a'']\<rparr>], ks_found = True\<rparr>"

definition wit_announcements :: "announcement codec" where
  "wit_announcements = \<lparr>to_allocvec = (\<lambda>_. Some [0]), from_bytes = (\<lambda>b. Some \<lparr>an_addr = \<lparr>ea_id = b, ea_addrs = [''c'']\<rparr>\<rparr>)\<rparr>"

lemma wit_order: "lists_keys sorted_list_of_set"
  by (simp add: lists_keys_def)

text \<open>A neighbour comes, somebody announces, the neighbour goes, and 20 seconds after the start the keeper rejoins.\<close>

definition wit_inputs :: "unit keep_input list" where
  "wit_inputs = [Item (NeighborUp [2]), Item (Received [3]), Item (NeighborDown [2]),
     Tick 20 True \<lparr>ea_id = [1], ea_addrs = [''a'']\<rparr> (\<lambda>_. None)]"

theorem keeper_truthful_witness:
  "\<exists>s out. keep wit_announcements sorted_list_of_set wit_setup [] 0 (Item (NeighborUp [4]) # wit_inputs) = Some (s, out) \<and>
     last (reports out) = 1 \<and> kp_neighbours s = {[4]} \<and> kp_known s [1] = None"
proof -
  have "\<forall>a. to_allocvec wit_announcements \<lparr>an_addr = a\<rparr> \<noteq> None" by (simp add: wit_announcements_def)
  note all = keeper_truthful [OF this wit_order, of wit_setup "[]" 0 "Item (NeighborUp [4]) # wit_inputs"]
  have "linked (Item (NeighborUp [4]) # wit_inputs) = {[4]}"
    by (auto simp: wit_inputs_def linked_step)
  with all show ?thesis by (auto simp: wit_setup_def node_id_def node_attach_def)
qed

theorem lonely_keeper_rejoins_witness:
  "\<exists>ids. joined wit_announcements sorted_list_of_set wit_setup [] 0 wit_inputs = [ids] \<and> set ids = {[2], [3]}"
proof -
  have total: "\<forall>a. to_allocvec wit_announcements \<lparr>an_addr = a\<rparr> \<noteq> None" by (simp add: wit_announcements_def)
  let ?ins = "[Item (NeighborUp [2]), Item (Received [3]), Item (NeighborDown [2])] :: unit keep_input list"
  have "StreamEnd \<notin> set ?ins" by simp
  note rejoins = lonely_keeper_rejoins [OF total wit_order this, of wit_setup "[]" 0 20 True "\<lparr>ea_id = [1], ea_addrs = [''a'']\<rparr>" "\<lambda>_. None"]
  have "linked ?ins = {}" by (auto simp: linked_step)
  moreover have "heard_of wit_announcements wit_setup ?ins = {[2], [3]}"
    by (auto simp: heard_of_def wit_setup_def wit_announcements_def node_id_def node_attach_def)
  moreover have "attempts wit_announcements sorted_list_of_set wit_setup [] 0 ?ins = []" by (simp add: attempts_def)
  moreover have "joined wit_announcements sorted_list_of_set wit_setup [] 0 ?ins = []"
    by (simp add: joined_def keep_def keep_start_def on_item_def Let_def wit_announcements_def wit_setup_def node_id_def node_attach_def)
  ultimately show ?thesis using rejoins by (auto simp: wit_inputs_def REJOIN_EVERY_def)
qed

end
