(* ===== verification/Client.thy ===== *)
theory Client
  imports Swarm Discovery
begin

text \<open>
  The client of \<open>src/crates/chorrent/src/client.rs\<close>: what an application
  calls. Its state is the database, the registry and the settings; every
  operation is a function on it and the machine. A share that is put behind an
  \<open>Arc\<close> gets the fresh address \<open>a\<close>. Work done in a blocking task turns a panic
  into an error. \<open>cwd\<close> is the current directory, \<open>tree\<close> what is on disk at a
  path, \<open>chunks\<close> how reads of a file are cut.
\<close>

subsection \<open>Paths on disk\<close>

text \<open>\<open>std::path::absolute\<close>: \<open>..\<close> components stay.\<close>

definition absolute_path :: "io_error + path \<Rightarrow> path \<Rightarrow> error + path" where
  "absolute_path cwd p = map_err (Io p)
     (case p of
        [] \<Rightarrow> Inl IoInvalidInput
      | RootDir # _ \<Rightarrow> Inr p
      | _ \<Rightarrow> bind_result cwd (\<lambda>c. Inr (c @ filter (\<lambda>x. x \<noteq> CurDir) p)))"

text \<open>Where a path leads, without symbolic links.\<close>

fun step_to :: "component \<Rightarrow> path \<Rightarrow> path" where
  "step_to RootDir p = [RootDir]"
| "step_to CurDir p = p"
| "step_to ParentDir p = (if p = [RootDir] \<or> p = [] then p else butlast p)"
| "step_to (Normal n) p = p @ [Normal n]"

definition resolve :: "path \<Rightarrow> path" where
  "resolve p = fold step_to p []"

definition beneath :: "path \<Rightarrow> path \<Rightarrow> bool" where
  "beneath dir p \<longleftrightarrow> path_strip_prefix (resolve p) (resolve dir) \<noteq> None"

text \<open>\<open>remove_dir_all\<close>: an absent folder is the caller's \<open>NotFound\<close> case and changes nothing either.\<close>

definition remove_dir_all :: "path \<Rightarrow> world \<Rightarrow> io_error + world" where
  "remove_dir_all dir w =
     (case faults w ForWrite dir of
        Some e \<Rightarrow> Inl e
      | None \<Rightarrow> Inr (w\<lparr>files := \<lambda>p. if beneath dir p then None else files w p\<rparr>))"

subsection \<open>Settings and state\<close>

record client_builder =
  cb_data_dir :: "path option"
  cb_endpoint :: "endpoint option"
  cb_storage_key :: "bytes option"
  cb_gossip :: "bool option"
  cb_reseed :: bool
  cb_max_uploads :: nat
  cb_upload_limit :: "u64 option"
  cb_download_limit :: "u64 option"
  cb_discovery_timeout :: nat
  cb_mainline_dht :: bool
  cb_relay_wait :: "nat option"

definition builder_default :: client_builder where
  "builder_default = \<lparr>cb_data_dir = None, cb_endpoint = None, cb_storage_key = None, cb_gossip = None, cb_reseed = True,
     cb_max_uploads = 32, cb_upload_limit = None, cb_download_limit = None, cb_discovery_timeout = 30,
     cb_mainline_dht = False, cb_relay_wait = None\<rparr>"

definition builder_data_dir :: "path \<Rightarrow> client_builder \<Rightarrow> client_builder" where
  "builder_data_dir dir b = b\<lparr>cb_data_dir := Some dir\<rparr>"

definition builder_endpoint :: "endpoint \<Rightarrow> client_builder \<Rightarrow> client_builder" where
  "builder_endpoint e b = b\<lparr>cb_endpoint := Some e\<rparr>"

definition encrypted_storage :: "bytes \<Rightarrow> client_builder \<Rightarrow> client_builder" where
  "encrypted_storage key b = b\<lparr>cb_storage_key := Some key\<rparr>"

definition builder_gossip :: "bool \<Rightarrow> client_builder \<Rightarrow> client_builder" where
  "builder_gossip enabled b = b\<lparr>cb_gossip := Some enabled\<rparr>"

definition builder_reseed :: "bool \<Rightarrow> client_builder \<Rightarrow> client_builder" where
  "builder_reseed r b = b\<lparr>cb_reseed := r\<rparr>"

definition max_concurrent_uploads :: "nat \<Rightarrow> client_builder \<Rightarrow> client_builder" where
  "max_concurrent_uploads n b = b\<lparr>cb_max_uploads := max n 1\<rparr>"

definition builder_upload_limit :: "u64 option \<Rightarrow> client_builder \<Rightarrow> client_builder" where
  "builder_upload_limit r b = b\<lparr>cb_upload_limit := r\<rparr>"

definition builder_download_limit :: "u64 option \<Rightarrow> client_builder \<Rightarrow> client_builder" where
  "builder_download_limit r b = b\<lparr>cb_download_limit := r\<rparr>"

definition builder_discovery_timeout :: "nat \<Rightarrow> client_builder \<Rightarrow> client_builder" where
  "builder_discovery_timeout t b = b\<lparr>cb_discovery_timeout := t\<rparr>"

definition builder_mainline_dht :: "bool \<Rightarrow> client_builder \<Rightarrow> client_builder" where
  "builder_mainline_dht enabled b = b\<lparr>cb_mainline_dht := enabled\<rparr>"

definition builder_wait_for_relay :: "nat \<Rightarrow> client_builder \<Rightarrow> client_builder" where
  "builder_wait_for_relay t b = b\<lparr>cb_relay_wait := Some t\<rparr>"

record 'd client =
  cl_node :: node
  cl_hub :: hub
  cl_reseed :: bool
  cl_upload_slots :: nat
  cl_upload_rate :: "rate_limiter option"
  cl_download_rate :: "rate_limiter option"
  cl_store :: "'d store option"
  cl_cfg :: "store_config option"
  cl_discovery_timeout :: nat

text \<open>
  \<open>build\<close>: \<open>bind_endpoint\<close> and the ALPN of gossip are the libraries', \<open>now\<close> is
  the time, \<open>hub0\<close> an empty registry. An embedded client uses the endpoint it
  is given, and has gossip off unless asked. Waiting for a relay only takes
  time; how long is \<open>relay_wait\<close>.
\<close>

definition builder_cfg :: "client_builder \<Rightarrow> store_config option" where
  "builder_cfg b = map_option (\<lambda>dir. \<lparr>st_blobs = path_join dir (path_of ''blobs''),
     st_key = map_option MasterKey (cb_storage_key b)\<rparr>) (cb_data_dir b)"

definition builder_node_key :: "'d libs \<Rightarrow> 'd store option \<times> world \<Rightarrow> (error + bytes) \<times> 'd store option \<times> world" where
  "builder_node_key E = (\<lambda>(store, w).
     (case store of
        Some st \<Rightarrow> (let (r, st1, w1) = node_key E (st, w) in (r, Some st1, w1))
      | None \<Rightarrow> (let (key, w1) = draw 32 w in (Inr key, None, w1))))"

definition builder_node ::
  "'d libs \<Rightarrow> bytes \<Rightarrow> (bytes \<Rightarrow> bool \<Rightarrow> str + endpoint) \<Rightarrow> client_builder \<Rightarrow> 'd store option \<times> world \<Rightarrow>
     (error + node) \<times> 'd store option \<times> world" where
  "builder_node E gossip_alpn bind_endpoint b sw =
     (case cb_endpoint b of
        Some endpoint \<Rightarrow> (Inr (node_attach endpoint (case cb_gossip b of None \<Rightarrow> False | Some g \<Rightarrow> g)), sw)
      | None \<Rightarrow> and_then (builder_node_key E sw) (\<lambda>key sw1.
          (map_err Node (node_bind gossip_alpn bind_endpoint key (case cb_gossip b of None \<Rightarrow> True | Some g \<Rightarrow> g)
             (cb_mainline_dht b)), sw1)))"

definition relay_wait :: "client_builder \<Rightarrow> nat" where
  "relay_wait b = (case cb_relay_wait b of Some t \<Rightarrow> t | None \<Rightarrow> if cb_endpoint b \<noteq> None then 0 else 10)"

definition client_build ::
  "'d libs \<Rightarrow> bytes \<Rightarrow> (bytes \<Rightarrow> bool \<Rightarrow> str + endpoint) \<Rightarrow> rat \<Rightarrow> hub \<Rightarrow> client_builder \<Rightarrow> 'd \<Rightarrow> world \<Rightarrow>
     (error + 'd client) \<times> 'd \<times> world" where
  "client_build E gossip_alpn bind_endpoint now hub0 b d w =
     (if cb_storage_key b \<noteq> None \<and> cb_data_dir b = None then
        (Inl (Storage ''encrypted storage needs a data_dir''), d, w)
      else
        (case (case cb_data_dir b of
                 None \<Rightarrow> (Inr None, d)
               | Some dir \<Rightarrow> (let (r, d1) = store_open E dir (cb_storage_key b) d w in (bind_result r (\<lambda>st. Inr (Some st)), d1))) of
           (Inl e, d1) \<Rightarrow> (Inl e, d1, w)
         | (Inr store, d1) \<Rightarrow>
             (let (started, store1, w1) = builder_node E gossip_alpn bind_endpoint b (store, w);
                  d2 = (case store1 of None \<Rightarrow> d1 | Some st \<Rightarrow> st_db st) in
              (bind_result started (\<lambda>node. Inr
                 \<lparr>cl_node = node, cl_hub = hub0, cl_reseed = cb_reseed b, cl_upload_slots = cb_max_uploads b,
                  cl_upload_rate = map_option (\<lambda>r. limiter_new r now) (cb_upload_limit b),
                  cl_download_rate = map_option (\<lambda>r. limiter_new r now) (cb_download_limit b),
                  cl_store = store1, cl_cfg = builder_cfg b, cl_discovery_timeout = cb_discovery_timeout b\<rparr>),
               d2, w1))))"

definition client_new ::
  "'d libs \<Rightarrow> bytes \<Rightarrow> (bytes \<Rightarrow> bool \<Rightarrow> str + endpoint) \<Rightarrow> rat \<Rightarrow> hub \<Rightarrow> 'd \<Rightarrow> world \<Rightarrow> (error + 'd client) \<times> 'd \<times> world" where
  "client_new E gossip_alpn bind_endpoint now hub0 = client_build E gossip_alpn bind_endpoint now hub0 builder_default"

subsection \<open>The network\<close>

text \<open>\<open>show_peer\<close> prints a node id, \<open>ip_addrs\<close> is the library's selection of an address's IP addresses, as text.\<close>

record network_status =
  ns_id :: str
  ns_relay :: "str option"
  ns_direct_addresses :: "str list"

definition client_id :: "(endpoint_id \<Rightarrow> str) \<Rightarrow> 'd client \<Rightarrow> str" where
  "client_id show_peer c = show_peer (node_id (cl_node c))"

definition client_network_status :: "(endpoint_id \<Rightarrow> str) \<Rightarrow> (endpoint_addr \<Rightarrow> str list) \<Rightarrow> 'd client \<Rightarrow> network_status" where
  "client_network_status show_peer ip_addrs c =
     \<lparr>ns_id = client_id show_peer c, ns_relay = node_relay (cl_node c), ns_direct_addresses = ip_addrs (node_addr (cl_node c))\<rparr>"

text \<open>
  One check per peer of the code; what the network answers is given per peer.
  The checks run at the same time and the source lists them as they end.
\<close>

definition client_check_peers :: "(endpoint_addr \<Rightarrow> peer_check) \<Rightarrow> share_code \<Rightarrow> peer_check list" where
  "client_check_peers check code = map check (sc_peers code)"

definition client_alpns :: "bytes \<Rightarrow> 'd client \<Rightarrow> bytes list" where
  "client_alpns gossip_alpn c = alpns gossip_alpn (cl_node c)"

definition client_handle_connection :: "bytes \<Rightarrow> 'd client \<Rightarrow> bytes \<Rightarrow> route" where
  "client_handle_connection gossip_alpn c alpn = node_handle gossip_alpn (cl_node c) alpn"

definition client_shutdown :: "'d client \<Rightarrow> service list" where
  "client_shutdown c = node_shutdown (cl_node c)"

text \<open>A call of the database if there is one.\<close>

definition with_store ::
  "('d store \<times> world \<Rightarrow> (error + unit) \<times> 'd store \<times> world) \<Rightarrow> 'd client \<times> world \<Rightarrow> (error + unit) \<times> 'd client \<times> world" where
  "with_store f = (\<lambda>(c, w).
     (case cl_store c of
        None \<Rightarrow> (Inr (), c, w)
      | Some st \<Rightarrow> (let (r, st1, w1) = f (st, w) in (r, c\<lparr>cl_store := Some st1\<rparr>, w1))))"

subsection \<open>Seeding\<close>

record seed_options =
  so_private :: bool
  so_join :: "share_code option"
  so_allow_peers :: "endpoint_id set option"
  so_name :: "str option"
  so_in_place :: bool

definition seed_options_default :: seed_options where
  "seed_options_default =
     \<lparr>so_private = False, so_join = None, so_allow_peers = None, so_name = None, so_in_place = False\<rparr>"

definition seed_private :: "bool \<Rightarrow> seed_options \<Rightarrow> seed_options" where
  "seed_private private options = options\<lparr>so_private := private\<rparr>"

definition seed_join :: "share_code \<Rightarrow> seed_options \<Rightarrow> seed_options" where
  "seed_join share options = options\<lparr>so_join := Some share\<rparr>"

definition seed_allow_peers :: "endpoint_id list \<Rightarrow> seed_options \<Rightarrow> seed_options" where
  "seed_allow_peers ids options = options\<lparr>so_allow_peers := Some (set ids)\<rparr>"

definition seed_named :: "str \<Rightarrow> seed_options \<Rightarrow> seed_options" where
  "seed_named name options = options\<lparr>so_name := Some name\<rparr>"

definition seed_in_place :: "bool \<Rightarrow> seed_options \<Rightarrow> seed_options" where
  "seed_in_place in_place options = options\<lparr>so_in_place := in_place\<rparr>"

record seed_handle =
  hd_code :: share_code
  hd_known :: "endpoint_addr list"
  hd_arc :: arc

text \<open>\<open>new_secret\<close> draws 32 random bytes.\<close>

definition secret_for :: "seed_options \<Rightarrow> world \<Rightarrow> bytes option \<times> world" where
  "secret_for options w =
     (case so_join options of
        Some join \<Rightarrow> (sc_secret join, w)
      | None \<Rightarrow> if so_private options then (let (s, w1) = draw 32 w in (Some s, w1)) else (None, w))"

definition start_seed ::
  "'d libs \<Rightarrow> (path \<Rightarrow> (nat \<times> nat) option) \<Rightarrow> arc \<Rightarrow> local_share \<Rightarrow> endpoint_addr list \<Rightarrow> 'd client \<times> world \<Rightarrow>
     (error + seed_handle) \<times> 'd client \<times> world" where
  "start_seed E modified a s known = (\<lambda>(c, w).
     (case register a (set_arc a s (cl_hub c)) of
        Inl e \<Rightarrow> (Inl e, c, w)
      | Inr hub1 \<Rightarrow>
          (case with_store (remember_seed E modified s) (c\<lparr>cl_hub := hub1\<rparr>, w) of
             (Inl e, c1, w1) \<Rightarrow> (Inl e, c1\<lparr>cl_hub := drop_registration a (cl_hub c1)\<rparr>, w1)
           | (Inr _, c1, w1) \<Rightarrow>
               (Inr \<lparr>hd_code = \<lparr>sc_id = ls_id s, sc_name = m_name (ls_manifest s),
                       sc_total_size = total_size (ls_manifest s), sc_peers = [], sc_secret = ls_secret s\<rparr>,
                     hd_known = known, hd_arc = a\<rparr>, c1, w1))))"

definition finish_seed ::
  "'d libs \<Rightarrow> (path \<Rightarrow> (nat \<times> nat) option) \<Rightarrow> (endpoint_id set \<Rightarrow> endpoint_id list) \<Rightarrow> arc \<Rightarrow> local_share \<Rightarrow> seed_options \<Rightarrow>
     'd client \<times> world \<Rightarrow> (error + seed_handle) \<times> 'd client \<times> world" where
  "finish_seed E modified order a s options cw =
     (if (case so_join options of None \<Rightarrow> False | Some join \<Rightarrow> sc_id join \<noteq> ls_id s) then
        (Inl (InvalidShareCode ''the --join share code is for different content''), cw)
      else
        and_then (with_store (remember_allowed E order (ls_id s) (so_allow_peers options)) cw) (\<lambda>_.
          start_seed E modified a (set_allowed (so_allow_peers options) s)
            (case so_join options of None \<Rightarrow> [] | Some join \<Rightarrow> sc_peers join)))"

text \<open>A share made in a blocking task: a panic of the task is an error.\<close>

definition seed_made ::
  "'d libs \<Rightarrow> (path \<Rightarrow> (nat \<times> nat) option) \<Rightarrow> (endpoint_id set \<Rightarrow> endpoint_id list) \<Rightarrow> arc \<Rightarrow> seed_options \<Rightarrow>
     ((error + local_share) \<times> world) option \<Rightarrow> 'd client \<times> world \<Rightarrow> (error + seed_handle) \<times> 'd client \<times> world" where
  "seed_made E modified order a options made = (\<lambda>(c, w).
     (case made of
        None \<Rightarrow> (Inl (Task ''panic''), c, w)
      | Some (Inl e, w1) \<Rightarrow> (Inl e, c, w1)
      | Some (Inr s, w1) \<Rightarrow> finish_seed E modified order a s options (c, w1)))"

definition seed_with ::
  "'d libs \<Rightarrow> (path \<Rightarrow> (nat \<times> nat) option) \<Rightarrow> (endpoint_id set \<Rightarrow> endpoint_id list) \<Rightarrow> (path \<Rightarrow> fsnode) \<Rightarrow> (bytes \<Rightarrow> bytes list) \<Rightarrow>
     io_error + path \<Rightarrow> arc \<Rightarrow> path \<Rightarrow> seed_options \<Rightarrow> 'd client \<times> world \<Rightarrow> (error + seed_handle) \<times> 'd client \<times> world" where
  "seed_with E modified order tree chunks cwd a path options = (\<lambda>(c, w).
     (case absolute_path cwd path of
        Inl e \<Rightarrow> (Inl e, c, w)
      | Inr p \<Rightarrow>
          (let (secret, w1) = secret_for options w in
           seed_made E modified order a options
             (share_from_disk (lib_blake E) (lib_aead E) (lib_bao E) (pc_manifest E) (lib_lower E) modified chunks p (tree p)
                (so_name options) secret (if so_in_place options then None else cl_cfg c) w1)
             (c, w1))))"

definition seed_reader ::
  "'d libs \<Rightarrow> (path \<Rightarrow> (nat \<times> nat) option) \<Rightarrow> (endpoint_id set \<Rightarrow> endpoint_id list) \<Rightarrow>
     arc \<Rightarrow> str \<Rightarrow> u64 \<Rightarrow> bytes list \<Rightarrow> seed_options \<Rightarrow> 'd client \<times> world \<Rightarrow> (error + seed_handle) \<times> 'd client \<times> world" where
  "seed_reader E modified order a name sz reads options = (\<lambda>(c, w).
     (case cl_cfg c of
        None \<Rightarrow> (Inl (Storage ''seed_reader needs a data_dir''), c, w)
      | Some cfg \<Rightarrow>
          (let (secret, w1) = secret_for options w in
           seed_made E modified order a options
             (share_from_reader (lib_blake E) (lib_aead E) (lib_bao E) (pc_manifest E) modified
                (case so_name options of Some n \<Rightarrow> n | None \<Rightarrow> name) sz reads secret cfg w1)
             (c, w1))))"

definition client_seed ::
  "'d libs \<Rightarrow> (path \<Rightarrow> (nat \<times> nat) option) \<Rightarrow> (endpoint_id set \<Rightarrow> endpoint_id list) \<Rightarrow> (path \<Rightarrow> fsnode) \<Rightarrow> (bytes \<Rightarrow> bytes list) \<Rightarrow>
     io_error + path \<Rightarrow> arc \<Rightarrow> path \<Rightarrow> 'd client \<times> world \<Rightarrow> (error + seed_handle) \<times> 'd client \<times> world" where
  "client_seed E modified order tree chunks cwd a path = seed_with E modified order tree chunks cwd a path seed_options_default"

subsection \<open>A seed's handle\<close>

text \<open>
  The swarm keeper of a seed announces from the start and wants no peers; the
  one of a download passes on those it hears of. Without gossip there is none.
\<close>

definition seed_keeper :: "blake3 \<Rightarrow> node \<Rightarrow> seed_handle \<Rightarrow> keeper_setup option" where
  "seed_keeper h n sh =
     (if nd_gossip n then Some \<lparr>ks_node = n, ks_topic = topic h (hd_code sh), ks_bootstrap = hd_known sh, ks_found = False\<rparr>
      else None)"

definition download_keeper :: "blake3 \<Rightarrow> node \<Rightarrow> share_code \<Rightarrow> keeper_setup option" where
  "download_keeper h n code =
     (if nd_gossip n then Some \<lparr>ks_node = n, ks_topic = topic h code, ks_bootstrap = sc_peers code, ks_found = True\<rparr> else None)"

text \<open>The task a keeper runs in: if joining fails it ends quietly.\<close>

definition keeper_task ::
  "(bytes \<Rightarrow> endpoint_id list \<Rightarrow> str + 'sub) \<Rightarrow> (endpoint_addr \<Rightarrow> 'c option) \<Rightarrow> announcement codec \<Rightarrow>
     (endpoint_id set \<Rightarrow> endpoint_id list) \<Rightarrow> keeper_setup \<Rightarrow> rat \<Rightarrow> 'c keep_input list \<Rightarrow> keep_output list option" where
  "keeper_task subscribe dial pc order k now ins =
     (case swarm_join subscribe dial k of
        Inl _ \<Rightarrow> Some []
      | Inr (sub, warm) \<Rightarrow> map_option snd (keep pc order k warm now ins))"

definition seed_path :: "seed_handle \<Rightarrow> 'd client \<Rightarrow> path" where
  "seed_path sh c = ls_root (hub_arcs (cl_hub c) (hd_arc sh))"

definition seed_share_code :: "endpoint_addr \<Rightarrow> seed_handle \<Rightarrow> share_code" where
  "seed_share_code me sh = (hd_code sh)\<lparr>sc_peers := me # filter (\<lambda>p. ea_id p \<noteq> ea_id me) (hd_known sh)\<rparr>"

definition set_allowed_peers ::
  "'d libs \<Rightarrow> (endpoint_id set \<Rightarrow> endpoint_id list) \<Rightarrow> seed_handle \<Rightarrow> endpoint_id set option \<Rightarrow> 'd client \<times> world \<Rightarrow>
     (error + unit) \<times> 'd client \<times> world" where
  "set_allowed_peers E order sh allow cw =
     and_then (with_store (remember_allowed E order (sc_id (hd_code sh)) allow) cw) (\<lambda>_ (c, w).
       (Inr (), c\<lparr>cl_hub := set_arc (hd_arc sh) (set_allowed allow (hub_arcs (cl_hub c) (hd_arc sh))) (cl_hub c)\<rparr>, w))"

text \<open>Dropping the handle, which \<open>stop\<close> does too.\<close>

definition stop_seed :: "seed_handle \<Rightarrow> 'd client \<Rightarrow> 'd client" where
  "stop_seed sh c = c\<lparr>cl_hub := drop_registration (hd_arc sh) (cl_hub c)\<rparr>"

subsection \<open>Downloading\<close>

record download_options =
  do_dest_dir :: "path option"
  do_allow_peers :: "endpoint_id set option"

definition download_options_default :: download_options where
  "download_options_default = \<lparr>do_dest_dir = None, do_allow_peers = None\<rparr>"

definition download_dest_dir :: "path \<Rightarrow> download_options \<Rightarrow> download_options" where
  "download_dest_dir dir options = options\<lparr>do_dest_dir := Some dir\<rparr>"

definition download_allow_peers :: "endpoint_id list \<Rightarrow> download_options \<Rightarrow> download_options" where
  "download_allow_peers ids options = options\<lparr>do_allow_peers := Some (set ids)\<rparr>"

definition download_with ::
  "blake3 \<Rightarrow> endpoint_id \<Rightarrow> io_error + path \<Rightarrow> share_code \<Rightarrow> download_options \<Rightarrow> 'd client \<Rightarrow> error + download_ctx \<times> path" where
  "download_with h me cwd code options c =
     (let key = Option.bind (cl_cfg c) st_key in
      bind_result (case (key, do_dest_dir options) of
          (Some _, Some _) \<Rightarrow> Inl (Storage ''with encrypted storage, downloads go into the store; pass no dest_dir'')
        | (Some _, None) \<Rightarrow> Inr (download_dir h (the (cl_cfg c)) (sc_id code))
        | (None, dest) \<Rightarrow> absolute_path cwd (case dest of None \<Rightarrow> [CurDir] | Some d \<Rightarrow> d)) (\<lambda>dest.
      Inr (\<lparr>cx_me = me, cx_reseed = cl_reseed c, cx_discovery_timeout = cl_discovery_timeout c, cx_key = key,
            cx_allow = do_allow_peers options\<rparr>, dest)))"

definition client_download ::
  "blake3 \<Rightarrow> endpoint_id \<Rightarrow> io_error + path \<Rightarrow> share_code \<Rightarrow> path option \<Rightarrow> 'd client \<Rightarrow> error + download_ctx \<times> path" where
  "client_download h me cwd code dest_dir c =
     download_with h me cwd code (download_options_default\<lparr>do_dest_dir := dest_dir\<rparr>) c"

text \<open>The task a download runs in, up to the moment the lists of rounds and events end.\<close>

definition download_task ::
  "'d libs \<Rightarrow> (endpoint_id \<Rightarrow> str) \<Rightarrow> (chunker_error \<Rightarrow> str) \<Rightarrow> (endpoint_id set \<Rightarrow> endpoint_id list) \<Rightarrow>
     download_ctx \<times> path \<Rightarrow> share_code \<Rightarrow> arc \<Rightarrow> round list \<Rightarrow> loop_event list \<Rightarrow> 'd client \<times> world \<Rightarrow>
     ((error + outcome) option \<times> 'd client \<times> world) option" where
  "download_task E sp se order started code a rounds events = (\<lambda>(c, w). do {
     (r, store, hub, w1) \<leftarrow> download_run E sp se order (fst started) code (snd started) a rounds events (cl_store c, cl_hub c, w);
     Some (r, c\<lparr>cl_store := store, cl_hub := hub\<rparr>, w1) })"

record finished_download =
  fi_id :: share_id
  fi_path :: "path option"
  fi_seed :: "seed_handle option"

text \<open>
  \<open>finished\<close>, given how the task ended: \<open>None\<close> for a panic. The share of a
  reseeding download is registered under \<open>a\<close>; an error drops the registration.
\<close>

definition finished ::
  "'d libs \<Rightarrow> (path \<Rightarrow> (nat \<times> nat) option) \<Rightarrow> arc \<Rightarrow> bool \<Rightarrow> share_code \<Rightarrow> (error + outcome) option \<Rightarrow> 'd client \<times> world \<Rightarrow>
     (error + finished_download) \<times> 'd client \<times> world" where
  "finished E modified a reseed code ended = (\<lambda>(c, w).
     (case ended of
        None \<Rightarrow> (Inl (Task ''panic''), c, w)
      | Some (Inl e) \<Rightarrow> (Inl e, c, w)
      | Some (Inr out) \<Rightarrow>
          (let path = (if oc_encrypted out then None else Some (oc_path out));
               remember = with_store (remember_seed E modified (oc_share out)) in
           if reseed then
             (case remember (c, w) of
                (Inl e, c1, w1) \<Rightarrow> (Inl e, c1\<lparr>cl_hub := drop_registration a (cl_hub c1)\<rparr>, w1)
              | (Inr _, c1, w1) \<Rightarrow>
                  (Inr \<lparr>fi_id = sc_id code, fi_path = path,
                        fi_seed = Some \<lparr>hd_code = code, hd_known = sc_peers code, hd_arc = a\<rparr>\<rparr>, c1, w1))
           else if oc_encrypted out then
             and_then (remember (c, w)) (\<lambda>_ cw1. (Inr \<lparr>fi_id = sc_id code, fi_path = path, fi_seed = None\<rparr>, cw1))
           else (Inr \<lparr>fi_id = sc_id code, fi_path = path, fi_seed = None\<rparr>, c, w))))"

subsection \<open>Saved transfers\<close>

definition client_saved :: "'d libs \<Rightarrow> 'd client \<Rightarrow> error + saved_transfer list" where
  "client_saved E c = (case cl_store c of None \<Rightarrow> Inr [] | Some st \<Rightarrow> saved_transfers E st)"

definition load_saved ::
  "'d libs \<Rightarrow> (path \<Rightarrow> (nat \<times> nat) option) \<Rightarrow> (path \<Rightarrow> fsnode) \<Rightarrow> (bytes \<Rightarrow> bytes list) \<Rightarrow> share_id \<Rightarrow> 'd client \<times> world \<Rightarrow>
     (error + local_share) \<times> world" where
  "load_saved E modified tree chunks i = (\<lambda>(c, w).
     (case cl_store c of
        None \<Rightarrow> (Inl (Storage ''no data_dir configured''), w)
      | Some st \<Rightarrow>
          (case load_seed E modified tree chunks i (cl_cfg c) st w of
             None \<Rightarrow> (Inl (Task ''panic''), w)
           | Some rw \<Rightarrow> rw)))"

datatype transfer = SeedAgain seed_handle | DownloadAgain "download_ctx \<times> path"

definition resume ::
  "'d libs \<Rightarrow> (path \<Rightarrow> (nat \<times> nat) option) \<Rightarrow> (path \<Rightarrow> fsnode) \<Rightarrow> (bytes \<Rightarrow> bytes list) \<Rightarrow> endpoint_id \<Rightarrow> io_error + path \<Rightarrow>
     arc \<Rightarrow> saved_transfer \<Rightarrow> 'd client \<times> world \<Rightarrow> (error + transfer) \<times> 'd client \<times> world" where
  "resume E modified tree chunks me cwd a saved = (\<lambda>(c, w).
     (case saved of
        SavedSeed i path private \<Rightarrow>
          (case load_saved E modified tree chunks i (c, w) of
             (Inl e, w1) \<Rightarrow> (Inl e, c, w1)
           | (Inr s, w1) \<Rightarrow> and_then (start_seed E modified a s [] (c, w1)) (\<lambda>sh cw. (Inr (SeedAgain sh), cw)))
      | SavedDownload code dest_dir \<Rightarrow>
          (let encrypted = (case cl_cfg c of None \<Rightarrow> False | Some cfg \<Rightarrow> st_key cfg \<noteq> None);
               options = \<lparr>do_dest_dir = (if encrypted then None else Some dest_dir),
                          do_allow_peers = Option.bind (cl_store c) (\<lambda>st. load_allowed E st (sc_id code))\<rparr> in
           (bind_result (download_with (lib_blake E) me cwd code options c) (\<lambda>started. Inr (DownloadAgain started)), c, w))))"

subsection \<open>Using and removing shares\<close>

definition find_share ::
  "'d libs \<Rightarrow> (path \<Rightarrow> (nat \<times> nat) option) \<Rightarrow> (path \<Rightarrow> fsnode) \<Rightarrow> (bytes \<Rightarrow> bytes list) \<Rightarrow> share_id \<Rightarrow> 'd client \<times> world \<Rightarrow>
     (error + local_share) \<times> world" where
  "find_share E modified tree chunks i = (\<lambda>(c, w).
     (case hub_shares (cl_hub c) i of
        Some a \<Rightarrow> (Inr (hub_arcs (cl_hub c) a), w)
      | None \<Rightarrow> load_saved E modified tree chunks i (c, w)))"

definition client_manifest ::
  "'d libs \<Rightarrow> (path \<Rightarrow> (nat \<times> nat) option) \<Rightarrow> (path \<Rightarrow> fsnode) \<Rightarrow> (bytes \<Rightarrow> bytes list) \<Rightarrow> share_id \<Rightarrow> 'd client \<times> world \<Rightarrow>
     (error + manifest) \<times> world" where
  "client_manifest E modified tree chunks i cw =
     (let (r, w) = find_share E modified tree chunks i cw in (bind_result r (\<lambda>s. Inr (ls_manifest s)), w))"

definition client_read_range ::
  "'d libs \<Rightarrow> (path \<Rightarrow> (nat \<times> nat) option) \<Rightarrow> (path \<Rightarrow> fsnode) \<Rightarrow> (bytes \<Rightarrow> bytes list) \<Rightarrow> share_id \<Rightarrow> nat \<Rightarrow> u64 \<Rightarrow> nat \<Rightarrow>
     'd client \<times> world \<Rightarrow> (error + bytes) \<times> world" where
  "client_read_range E modified tree chunks i file offset len cw =
     (case find_share E modified tree chunks i cw of
        (Inl e, w) \<Rightarrow> (Inl e, w)
      | (Inr s, w) \<Rightarrow>
          (case read_range (lib_blake E) (lib_aead E) file offset len s w of
             None \<Rightarrow> (Inl (Task ''panic''), w)
           | Some r \<Rightarrow> (r, w)))"

definition client_export_file ::
  "'d libs \<Rightarrow> (path \<Rightarrow> (nat \<times> nat) option) \<Rightarrow> (path \<Rightarrow> fsnode) \<Rightarrow> (bytes \<Rightarrow> bytes list) \<Rightarrow> share_id \<Rightarrow> nat \<Rightarrow> path \<Rightarrow>
     'd client \<times> world \<Rightarrow> (error + unit) \<times> world" where
  "client_export_file E modified tree chunks i file dest cw =
     (case find_share E modified tree chunks i cw of
        (Inl e, w) \<Rightarrow> (Inl e, w)
      | (Inr s, w) \<Rightarrow>
          (case export_file (lib_blake E) (lib_aead E) file dest s w of
             None \<Rightarrow> (Inl (Task ''panic''), w)
           | Some rw \<Rightarrow> rw))"

definition client_forget :: "'d libs \<Rightarrow> share_id \<Rightarrow> 'd client \<times> world \<Rightarrow> (error + unit) \<times> 'd client \<times> world" where
  "client_forget E i = with_store (forget E i)"

text \<open>The folder inside the store that a share's root is in.\<close>

definition in_store :: "path option \<Rightarrow> store_config option \<Rightarrow> path option" where
  "in_store place cfg = do {
     r \<leftarrow> place;
     cf \<leftarrow> cfg;
     rel \<leftarrow> path_strip_prefix r (st_blobs cf);
     (case rel of [] \<Rightarrow> None | first # _ \<Rightarrow> Some (path_join (st_blobs cf) [first])) }"

definition removed_root :: "'d libs \<Rightarrow> share_id \<Rightarrow> 'd client \<Rightarrow> path option" where
  "removed_root E i c =
     (case fst (unlist i (cl_hub c)) of
        Some a \<Rightarrow> Some (ls_root (hub_arcs (cl_hub c) a))
      | None \<Rightarrow> Option.bind (cl_store c) (seed_root E i))"

definition client_remove :: "'d libs \<Rightarrow> share_id \<Rightarrow> 'd client \<times> world \<Rightarrow> (error + unit) \<times> 'd client \<times> world" where
  "client_remove E i = (\<lambda>(c, w).
     and_then (client_forget E i (c\<lparr>cl_hub := snd (unlist i (cl_hub c))\<rparr>, w)) (\<lambda>_ (c1, w1).
       case in_store (removed_root E i c) (cl_cfg c) of
         None \<Rightarrow> (Inr (), c1, w1)
       | Some dir \<Rightarrow>
           (case remove_dir_all dir w1 of
              Inr w2 \<Rightarrow> (Inr (), c1, w2)
            | Inl e \<Rightarrow> (if e = IoNotFound then Inr () else Inl (Io dir e), c1, w1))))"

end
