(* ===== verification/Client_Safety.thy ===== *)
theory Client_Safety
  imports Client Store_Reload Serving_Safety Manifest_Safety Swarm_Safety
begin

text \<open>
  What the client's operations guarantee across its parts: the registry, the
  database and the files.
\<close>

subsection \<open>Access\<close>

lemma with_store_some:
  assumes "cl_store c = Some st" "with_store f (c, w) = (r, c', w')"
  obtains st' where "f (st, w) = (r, st', w')" "c' = c\<lparr>cl_store := Some st'\<rparr>"
  using assms by (cases "f (st, w)") (auto simp: with_store_def)

text \<open>C12: changing who may download takes effect for the running share and for
  the next start together: when it succeeds both follow the new list, and
  peers not on it are not served; when saving fails neither changes.\<close>

theorem access_changes_together:
  assumes "cl_store c = Some st" and "displays_records E view known (st, w) m"
    and "(ACCESS, share_id_display (lib_blake E) (sc_id (hd_code sh))) \<in> known"
    and "\<forall>ps. allow = Some ps \<longrightarrow> peers_keepable E order (share_id_display (lib_blake E) (sc_id (hd_code sh))) ps"
    and "set_allowed_peers E order sh allow (c, w) = (r, c', w')"
  shows "\<exists>st'. cl_store c' = Some st' \<and>
    (if r = Inr () then
       load_allowed E st' (sc_id (hd_code sh)) = allow \<and>
       ls_allowed (hub_arcs (cl_hub c') (hd_arc sh)) = allow \<and>
       (\<forall>ps remote auth. allow = Some ps \<and> remote \<notin> ps \<and> hub_shares (cl_hub c) (sc_id (hd_code sh)) = Some (hd_arc sh) \<longrightarrow>
          lookup_share (lib_blake E) (cl_hub c') (sc_id (hd_code sh)) remote auth = None)
     else cl_hub c' = cl_hub c \<and> load_allowed E st' (sc_id (hd_code sh)) = load_allowed E st (sc_id (hd_code sh)))"
proof -
  obtain r1 c1 w1 where one: "with_store (remember_allowed E order (sc_id (hd_code sh)) allow) (c, w) = (r1, c1, w1)"
    using prod_cases3 by blast
  obtain st' where st': "remember_allowed E order (sc_id (hd_code sh)) allow (st, w) = (r1, st', w1)" "c1 = c\<lparr>cl_store := Some st'\<rparr>"
    by (rule with_store_some [OF assms(1) one])
  have "load_allowed E st' (sc_id (hd_code sh)) = (if r1 = Inr () then allow else load_allowed E st (sc_id (hd_code sh)))"
    by (rule allowlist_ok [OF assms(2-4) st'(1)])
  then show ?thesis
    using assms(5) one st'(2)
    by (cases r1)
       (auto simp: set_allowed_peers_def and_then_def set_arc_def set_allowed_def lookup_share_def authorized_def)
qed

text \<open>C14: seeding content that is already listed is refused and leaves the running
  share and its access alone. But once the list of the refused seed could be
  saved, and it is always saved first, that list has replaced the running
  share's in the database; only when saving it failed, and that is then the
  error, is the saved list as it was.\<close>

theorem refused_seed:
  assumes "cl_store c = Some st" and "displays_records E view known (st, w) m"
    and "(ACCESS, share_id_display (lib_blake E) (ls_id s)) \<in> known"
    and "\<forall>ps. so_allow_peers options = Some ps \<longrightarrow> peers_keepable E order (share_id_display (lib_blake E) (ls_id s)) ps"
    and "hub_shares (cl_hub c) (ls_id s) \<noteq> None" and "so_join options = None"
    and "finish_seed E modified order a s options (c, w) = (r, c', w')"
  shows "\<exists>e st'. r = Inl e \<and> cl_hub c' = cl_hub c \<and> cl_store c' = Some st' \<and>
    (case fst (remember_allowed E order (ls_id s) (so_allow_peers options) (st, w)) of
       Inr _ \<Rightarrow> e = AlreadySharing \<and> load_allowed E st' (ls_id s) = so_allow_peers options
     | Inl e1 \<Rightarrow> e = e1 \<and> load_allowed E st' (ls_id s) = load_allowed E st (ls_id s))"
proof -
  obtain r1 c1 w1 where one: "with_store (remember_allowed E order (ls_id s) (so_allow_peers options)) (c, w) = (r1, c1, w1)"
    using prod_cases3 by blast
  obtain st' where st': "remember_allowed E order (ls_id s) (so_allow_peers options) (st, w) = (r1, st', w1)" "c1 = c\<lparr>cl_store := Some st'\<rparr>"
    by (rule with_store_some [OF assms(1) one])
  have saved: "load_allowed E st' (ls_id s) = (if r1 = Inr () then so_allow_peers options else load_allowed E st (ls_id s))"
    by (rule allowlist_ok [OF assms(2-4) st'(1)])
  show ?thesis
  proof (cases r1)
    case (Inl e)
    then show ?thesis using assms(6,7) one st' saved by (auto simp: finish_seed_def and_then_def)
  next
    case (Inr u)
    then show ?thesis
      using assms(5-7) one st' saved
      by (auto simp: finish_seed_def and_then_def start_seed_def register_def set_arc_def Let_def set_allowed_def)
  qed
qed

subsection \<open>Removing\<close>

lemma forget_downloads_world: "forget_downloads E prefix rows (st, w) = (r, st', w') \<Longrightarrow> w' = w"
proof (induction rows arbitrary: st)
  case (Cons row rows)
  obtain r1 st1 w1 where one: "remove_records E [DOWNLOADS, PROGRESS] (fst row) (st, w) = (r1, st1, w1)" using prod_cases3 by blast
  moreover have "w1 = w" using one by (auto simp: remove_records_def split: sum.splits)
  ultimately show ?case using Cons by (cases row) (auto simp: and_then_def split: if_splits sum.splits)
qed simp

lemma forget_world:
  assumes "forget E i (st, w) = (r, st', w')"
  shows "w' = w"
proof -
  obtain r1 st1 w1 where one: "remove_records E [SEEDS, ACCESS, KINDS] (share_id_display (lib_blake E) i) (st, w) = (r1, st1, w1)"
    using prod_cases3 by blast
  moreover have "w1 = w" using one by (auto simp: remove_records_def split: sum.splits)
  ultimately show ?thesis
    using assms by (auto simp: forget_def and_then_def Let_def split: sum.splits dest: forget_downloads_world)
qed

text \<open>C13: removing a share takes it, and only it, out of the registry, forgets it,
  so that it cannot be loaded again, and, provided its place in the store is
  not written with \<open>..\<close>, deletes no file but those in its own folder of the
  store: no other share's folder, nothing outside the store and, when the
  share is not in the store, nothing at all. Unless the system refuses, all of
  its folder is gone.\<close>

theorem removed_share:
  assumes "client_remove E i (c, w) = (Inr (), c', w')" and "cl_store c = Some st" and "cl_cfg c = Some cfg"
    and "displays_records E view known (st, w) m"
    and "\<forall>t \<in> {SEEDS, ACCESS, KINDS}. (t, share_id_display (lib_blake E) i) \<in> known"
    and "\<forall>n. (DOWNLOADS, n) \<in> known \<longleftrightarrow> (PROGRESS, n) \<in> known"
    and "\<forall>rest. removed_root E i c \<noteq> Some (st_blobs cfg @ ParentDir # rest)"
    and "\<forall>rest. removed_root E i c \<noteq> Some (st_blobs cfg @ RootDir # rest)"
    and "\<forall>rest. removed_root E i c \<noteq> Some (st_blobs cfg @ CurDir # rest)"
  shows "hub_shares (cl_hub c') = (hub_shares (cl_hub c))(i := None) \<and>
    load_saved E modified tree chunks i (c', w1) = (Inl (NotAvailable (''no saved share '' @ share_id_display (lib_blake E) i)), w1) \<and>
    (\<forall>p. files w' p \<noteq> files w p \<longrightarrow>
      (\<exists>n rest. removed_root E i c = Some (st_blobs cfg @ Normal n # rest) \<and> beneath (st_blobs cfg @ [Normal n]) p)) \<and>
    (\<forall>n rest p. removed_root E i c = Some (st_blobs cfg @ Normal n # rest) \<and> faults w ForWrite (st_blobs cfg @ [Normal n]) = None \<and>
      beneath (st_blobs cfg @ [Normal n]) p \<longrightarrow> files w' p = None)"
proof -
  define c0 where "c0 = c\<lparr>cl_hub := snd (unlist i (cl_hub c))\<rparr>"
  have c0: "cl_store c0 = Some st" "cl_hub c0 = snd (unlist i (cl_hub c))" "cl_cfg c0 = cl_cfg c"
    using assms(2) by (simp_all add: c0_def)
  obtain c1 w2 where one: "with_store (forget E i) (c0, w) = (Inr (), c1, w2)"
    using assms(1) by (auto simp: client_remove_def client_forget_def c0_def and_then_def split: prod.splits sum.splits)
  obtain st' where st': "forget E i (st, w) = (Inr (), st', w2)" "c1 = c0\<lparr>cl_store := Some st'\<rparr>"
    by (rule with_store_some [OF c0(1) one])
  have w2: "w2 = w" by (rule forget_world [OF st'(1)])
  have rest: "(case in_store (removed_root E i c) (cl_cfg c) of
         None \<Rightarrow> (Inr (), c1, w)
       | Some dir \<Rightarrow>
           (case remove_dir_all dir w of
              Inr w2 \<Rightarrow> (Inr (), c1, w2)
            | Inl e \<Rightarrow> (if e = IoNotFound then Inr () else Inl (Io dir e), c1, w))) = (Inr (), c', w')"
    using assms(1) one unfolding c0_def by (simp add: client_remove_def client_forget_def and_then_def w2)
  have c': "c' = c1" using rest by (auto split: option.splits sum.splits)
  have "get_record E st' SEEDS (share_id_display (lib_blake E) i) = Inr None"
    using forget_ok [OF assms(4-6) st'(1), of SEEDS] assms(5) by (simp add: forgotten_def)
  then have gone: "load_saved E modified tree chunks i (c', w1) =
      (Inl (NotAvailable (''no saved share '' @ share_id_display (lib_blake E) i)), w1)"
    by (simp add: load_saved_def c' st'(2) load_seed_def ok_or_def Let_def)
  have dirs: "\<exists>n rest. removed_root E i c = Some (st_blobs cfg @ Normal n # rest) \<and> dir = st_blobs cfg @ [Normal n]"
    if "in_store (removed_root E i c) (cl_cfg c) = Some dir" for dir
  proof -
    from that assms(3) obtain place first rest where r: "removed_root E i c = Some place" "place = st_blobs cfg @ first # rest"
      "dir = path_join (st_blobs cfg) [first]"
      by (auto simp: in_store_def path_strip_prefix_Some split: bind_splits list.splits)
    then obtain n where "first = Normal n" using assms(7-9) by (cases first) auto
    with r show ?thesis by simp
  qed
  have kept: "\<exists>n rest. removed_root E i c = Some (st_blobs cfg @ Normal n # rest) \<and> beneath (st_blobs cfg @ [Normal n]) p"
    if p: "files w' p \<noteq> files w p" for p
  proof (cases "in_store (removed_root E i c) (cl_cfg c)")
    case None
    with rest p show ?thesis by simp
  next
    case (Some dir)
    have "beneath dir p" using rest Some p by (auto simp: remove_dir_all_def split: option.splits if_splits)
    with dirs [OF Some] show ?thesis by auto
  qed
  have deleted: "files w' p = None"
    if "removed_root E i c = Some (st_blobs cfg @ Normal n # rest')" "faults w ForWrite (st_blobs cfg @ [Normal n]) = None"
      "beneath (st_blobs cfg @ [Normal n]) p" for n rest' p
  proof -
    have "in_store (removed_root E i c) (cl_cfg c) = Some (st_blobs cfg @ [Normal n])"
      using that(1) assms(3) by (simp add: in_store_def)
    then show ?thesis using rest that(2,3) by (auto simp: remove_dir_all_def)
  qed
  have "hub_shares (cl_hub c') = (hub_shares (cl_hub c))(i := None)" using st'(2) c0(2) c' by (simp add: unlist_def)
  with gone kept deleted show ?thesis by blast
qed

text \<open>
  With \<open>..\<close>, which \<open>absolute\<close> keeps, the folder deleted is outside: a file
  seeded as \<open>/d/blobs/../x\<close> by a client whose data is in \<open>/d\<close>, when removed,
  takes everything in \<open>/d\<close> along.
\<close>

lemma removing_escapes:
  "in_store (Some [RootDir, Normal ''d'', Normal ''blobs'', ParentDir, Normal ''x''])
     (Some \<lparr>st_blobs = [RootDir, Normal ''d'', Normal ''blobs''], st_key = None\<rparr>) =
     Some [RootDir, Normal ''d'', Normal ''blobs'', ParentDir]"
  "beneath [RootDir, Normal ''d'', Normal ''blobs'', ParentDir] [RootDir, Normal ''d'', Normal ''chorrent.redb'']"
  by (simp_all add: in_store_def path_join_def beneath_def resolve_def)

subsection \<open>A seed can be fetched\<close>

lemma share_from_disk_ok:
  assumes "share_from_disk h A B pc lower modified chunks place node label secret cfg w = Some (Inr s, w')"
  shows "manifest_encode pc (ls_manifest s) = Some (ls_manifest_bytes s)" "ls_id s = id_of h (ls_manifest_bytes s)"
    "validate lower (ls_manifest s) = Inr ()"
proof -
  from assms obtain ingest :: "(file_data, world) ingest" and m hashed w0 w1 r secret' where
    m: "manifest_from_disk lower place node label ingest w0 = (Inr (m, hashed), w1)"
    and s: "assemble h pc modified m hashed secret' r = Some s"
    by (auto simp: share_from_disk_def Let_def split: prod.splits sum.splits bind_splits option.splits)
  from s obtain b where "manifest_encode pc m = Some b" "ls_manifest s = m" "ls_manifest_bytes s = b" "ls_id s = id_of h b"
    by (auto simp: assemble_def from_parts_def Let_def split: bind_splits)
  with from_disk_validates [OF m] show "manifest_encode pc (ls_manifest s) = Some (ls_manifest_bytes s)"
    "ls_id s = id_of h (ls_manifest_bytes s)" "validate lower (ls_manifest s) = Inr ()"
    by simp_all
qed

lemma with_store_hub: "with_store f (c, w) = (r, c', w') \<Longrightarrow> cl_hub c' = cl_hub c"
  by (auto simp: with_store_def split: option.splits prod.splits)

lemma start_seed_ok:
  assumes "start_seed E modified a s known (c, w) = (Inr sh, c', w')"
  shows "hub_arcs (cl_hub c') a = s" "hub_shares (cl_hub c') (ls_id s) = Some a"
    "hd_code sh = \<lparr>sc_id = ls_id s, sc_name = m_name (ls_manifest s), sc_total_size = total_size (ls_manifest s),
       sc_peers = [], sc_secret = ls_secret s\<rparr>"
  using assms
  by (auto simp: start_seed_def register_def set_arc_def Let_def split: if_splits prod.splits sum.splits dest!: with_store_hub)

lemma seed_made_ok:
  assumes "seed_made E modified order a options made (c, w) = (Inr sh, c', w')"
  obtains s w1 c1 w2 known where "made = Some (Inr s, w1)"
    "start_seed E modified a (set_allowed (so_allow_peers options) s) known (c1, w2) = (Inr sh, c', w')"
  using assms
  by (auto simp: seed_made_def finish_seed_def and_then_def split: option.splits prod.splits sum.splits if_splits)

text \<open>C11: what a seed hands out fits what it serves: a downloader that asks the
  seed of a file or folder for the manifest, with the share code the seed
  gives out, accepts the answer, unless the manifest is longer than the
  8 MiB a downloader takes: such a seed starts, but nobody can download it.\<close>

theorem seed_fetchable:
  assumes "seed_with E modified order tree chunks cwd a path options (c, w) = (Inr sh, c', w')"
    and "round_trips (pc_manifest E) (ls_manifest (hub_arcs (cl_hub c') a))"
  shows "\<exists>s. hub_arcs (cl_hub c') a = s \<and> hub_shares (cl_hub c') (sc_id (hd_code sh)) = Some a \<and>
    ls_allowed s = so_allow_peers options \<and>
    fetch_manifest (lib_blake E) (pc_manifest E) (lib_lower E) (seed_share_code me sh) (Inr (RespManifest (ls_manifest_bytes s))) =
      (if length (ls_manifest_bytes s) \<le> MAX_MANIFEST_BYTES then Inr (ls_manifest s, ls_manifest_bytes s)
       else Inl (BadManifest ''peer didn't send it''))"
proof -
  from assms(1) obtain p secret w1 where made: "seed_made E modified order a options
      (share_from_disk (lib_blake E) (lib_aead E) (lib_bao E) (pc_manifest E) (lib_lower E) modified chunks p (tree p)
        (so_name options) secret (if so_in_place options then None else cl_cfg c) w1) (c, w1) = (Inr sh, c', w')"
    by (auto simp: seed_with_def Let_def split: sum.splits prod.splits)
  obtain s w2 c1 w3 known where s: "share_from_disk (lib_blake E) (lib_aead E) (lib_bao E) (pc_manifest E) (lib_lower E) modified chunks p
      (tree p) (so_name options) secret (if so_in_place options then None else cl_cfg c) w1 = Some (Inr s, w2)"
    and start: "start_seed E modified a (set_allowed (so_allow_peers options) s) known (c1, w3) = (Inr sh, c', w')"
    by (rule seed_made_ok [OF made])
  note disk = share_from_disk_ok [OF s] and st = start_seed_ok [OF start]
  have same: "ls_id (set_allowed l s) = ls_id s" "ls_manifest (set_allowed l s) = ls_manifest s"
    "ls_manifest_bytes (set_allowed l s) = ls_manifest_bytes s" "ls_allowed (set_allowed l s) = l" for l
    by (simp_all add: set_allowed_def)
  have trip: "round_trips (pc_manifest E) (ls_manifest s)" using assms(2) st(1) same by simp
  then have "decode_verified (lib_blake E) (pc_manifest E) (lib_lower E) (ls_manifest_bytes s) (ls_id s) = Inr (ls_manifest s)"
    using disk unfolding decode_verified_Inr manifest_encode_def round_trips_def
    by (auto split: bind_splits intro: sym)
  then show ?thesis
    using st same by (auto simp: fetch_manifest_def seed_share_code_def)
qed

subsection \<open>Examples\<close>

definition toy_cfg :: store_config where
  "toy_cfg = \<lparr>st_blobs = [RootDir, Normal ''d'', Normal ''blobs''], st_key = None\<rparr>"

definition kept_share :: local_share where
  "kept_share = seed_share\<lparr>ls_root := [RootDir, Normal ''d'', Normal ''blobs'', Normal ''i'', Normal ''x'']\<rparr>"

definition toy_node :: node where
  "toy_node = node_attach \<lparr>ep_id = [1], ep_addr = \<lparr>ea_id = [1], ea_addrs = []\<rparr>, ep_relays = []\<rparr> False"

definition toy_client :: "toy_db client" where
  "toy_client = \<lparr>cl_node = toy_node, cl_hub = \<lparr>hub_shares = [ShareId [1, 7] \<mapsto> 1], hub_arcs = (\<lambda>_. kept_share)\<rparr>, cl_reseed = True,
     cl_upload_slots = 32, cl_upload_rate = None, cl_download_rate = None, cl_store = Some empty_store, cl_cfg = Some toy_cfg,
     cl_discovery_timeout = 30\<rparr>"

definition toy_handle :: seed_handle where
  "toy_handle = \<lparr>hd_code = \<lparr>sc_id = ShareId [1, 7], sc_name = ''x'', sc_total_size = 70000, sc_peers = [], sc_secret = None\<rparr>,
     hd_known = [], hd_arc = 1\<rparr>"

lemma toy_peers_keepable:
  "peers_keepable seed_libs (\<lambda>_. [[1], [2]]) (share_id_display (lib_blake seed_libs) (ShareId [1, 7])) {[1], [2]}"
  by (simp add: peers_keepable_def keepable_seed_libs const_codec_round_trips seed_name)

lemma toy_remember:
  obtains st' where "remember_allowed seed_libs (\<lambda>_. [[1], [2]]) (ShareId [1, 7]) (Some {[1], [2]}) (empty_store, toy_world) =
      (Inr (), st', toy_world)"
  by (simp add: remember_allowed_def put_empty empty_store_def const_codec_def Let_def)

theorem access_changes_together_witness:
  "\<exists>c' w'. set_allowed_peers seed_libs (\<lambda>_. [[1], [2]]) toy_handle (Some {[1], [2]}) (toy_client, toy_world) = (Inr (), c', w') \<and>
     ls_allowed (hub_arcs (cl_hub c') 1) = Some {[1], [2]}"
proof -
  obtain st' where st': "remember_allowed seed_libs (\<lambda>_. [[1], [2]]) (ShareId [1, 7]) (Some {[1], [2]}) (empty_store, toy_world) =
      (Inr (), st', toy_world)"
    by (rule toy_remember)
  have st: "cl_store toy_client = Some empty_store" by (simp add: toy_client_def)
  obtain c' w' where run: "set_allowed_peers seed_libs (\<lambda>_. [[1], [2]]) toy_handle (Some {[1], [2]}) (toy_client, toy_world) =
      (Inr (), c', w')"
    using st' by (simp add: set_allowed_peers_def with_store_def st and_then_def toy_handle_def)
  show ?thesis
    using access_changes_together [OF st empty_displays _ _ run, of UNIV] toy_peers_keepable run
    by (auto simp: toy_handle_def)
qed

theorem refused_seed_witness:
  "\<exists>c' w'. finish_seed seed_libs seed_modified (\<lambda>_. [[1], [2]]) 2 seed_share
       \<lparr>so_private = False, so_join = None, so_allow_peers = Some {[1], [2]}, so_name = None, so_in_place = False\<rparr> (toy_client, toy_world) =
       (Inl AlreadySharing, c', w') \<and>
     cl_hub c' = cl_hub toy_client \<and> (\<exists>st'. cl_store c' = Some st' \<and> load_allowed seed_libs st' (ls_id seed_share) = Some {[1], [2]})"
proof -
  let ?o = "\<lparr>so_private = False, so_join = None, so_allow_peers = Some {[1], [2]}, so_name = None, so_in_place = False\<rparr>"
  obtain st' where st': "remember_allowed seed_libs (\<lambda>_. [[1], [2]]) (ShareId [1, 7]) (Some {[1], [2]}) (empty_store, toy_world) =
      (Inr (), st', toy_world)"
    by (rule toy_remember)
  have st: "cl_store toy_client = Some empty_store" by (simp add: toy_client_def)
  have listed: "hub_shares (cl_hub toy_client) (ls_id seed_share) \<noteq> None" by (simp add: toy_client_def)
  obtain c' w' where run: "finish_seed seed_libs seed_modified (\<lambda>_. [[1], [2]]) 2 seed_share ?o (toy_client, toy_world) =
      (Inl AlreadySharing, c', w')"
    using st' listed
    by (auto simp: finish_seed_def with_store_def st and_then_def start_seed_def register_def set_arc_def Let_def set_allowed_def)
  show ?thesis
    using refused_seed [OF st empty_displays _ _ listed _ run, of UNIV] toy_peers_keepable run st' by (auto simp: exI [of _ c'])
qed

theorem removed_share_witness:
  "\<exists>c' w'. client_remove seed_libs (ShareId [1, 7]) (toy_client, toy_world) = (Inr (), c', w') \<and>
     hub_shares (cl_hub c') (ShareId [1, 7]) = None"
proof -
  have st: "cl_store toy_client = Some empty_store" "cl_cfg toy_client = Some toy_cfg" by (simp_all add: toy_client_def)
  have place: "removed_root seed_libs (ShareId [1, 7]) toy_client = Some (st_blobs toy_cfg @ [Normal ''i'', Normal ''x''])"
    by (simp add: removed_root_def unlist_def toy_client_def kept_share_def toy_cfg_def)
  have "\<exists>st2. forget seed_libs (ShareId [1, 7]) (empty_store, toy_world) = (Inr (), st2, toy_world)"
    using tables_distinct
    by (simp add: forget_def and_then_def remove_records_def toy_redb_def entries_def stored_name_def Let_def empty_store_def)
  then obtain c' w' where run: "client_remove seed_libs (ShareId [1, 7]) (toy_client, toy_world) = (Inr (), c', w')"
    using place by (auto simp: client_remove_def client_forget_def with_store_def st and_then_def in_store_def remove_dir_all_def toy_world_def)
  show ?thesis
    using removed_share [OF run st empty_displays, of UNIV "\<lambda>_. None" "\<lambda>_. FsOther" "\<lambda>b. [b]" toy_world] place run by simp
qed

definition x_path :: path where
  "x_path = [RootDir, Normal ''x'']"

definition x_world :: world where
  "x_world = \<lparr>files = [x_path \<mapsto> [1, 2, 3]], faults = (\<lambda>_ _. None), tape = (\<lambda>_. 1)\<rparr>"

definition plain_client :: "toy_db client" where
  "plain_client = toy_client\<lparr>cl_hub := wit_hub, cl_store := None, cl_cfg := None\<rparr>"

definition x_options :: seed_options where
  "x_options = \<lparr>so_private = False, so_join = None, so_allow_peers = None, so_name = None, so_in_place = False\<rparr>"

lemma x_from_disk: "manifest_from_disk (\<lambda>s. s) x_path (FsFile [1, 2, 3]) None (ingest_plain toy_bao) x_world =
    (Inr (wit_manifest, [(Plain x_path, \<lparr>ob_root = [1, 2, 3], ob_size = 3, ob_data = []\<rparr>)]), x_world)"
proof -
  have "share_name x_path None = Inr ''x''"
    by (simp add: share_name_def portable_name_def file_name_def x_path_def name_problem_x to_str_def utf8_valid.simps)
  moreover have "hash_file toy_bao x_path x_world = Inr \<lparr>ob_root = [1, 2, 3], ob_size = 3, ob_data = []\<rparr>"
    by (simp add: hash_file_def open_file_def open_options_def access_fault_def x_world_def file_content_def toy_bao_def resized_def set_len_def)
  ultimately show ?thesis
    by (simp add: manifest_from_disk_def ingest_plain_def wit_manifest_def)
qed

theorem seed_fetchable_witness:
  "\<exists>sh c' w'. seed_with wit_libs (\<lambda>_. None) (\<lambda>_. []) (\<lambda>_. FsFile [1, 2, 3]) (\<lambda>b. [b]) (Inr []) 5 x_path x_options (plain_client, x_world) =
       (Inr sh, c', w') \<and> hub_shares (cl_hub c') (sc_id (hd_code sh)) = Some 5"
proof -
  have st: "cl_store plain_client = None" "cl_cfg plain_client = None" "cl_hub plain_client = wit_hub"
    by (simp_all add: plain_client_def)
  have codec: "pc_manifest wit_libs = const_codec wit_manifest" "lib_lower wit_libs = (\<lambda>s. s)"
    by (simp_all add: wit_libs_def toy_libs_def)
  obtain s where s: "share_from_disk plain_blake toy_aead toy_bao (const_codec wit_manifest) (\<lambda>s. s) (\<lambda>_. None) (\<lambda>b. [b]) x_path
      (FsFile [1, 2, 3]) None None None x_world = Some (Inr s, x_world)" "ls_manifest s = wit_manifest"
    using x_from_disk
    by (simp add: share_from_disk_def assemble_def manifest_encode_def const_codec_def Let_def from_parts_def)
  have made: "\<exists>sh c' w'. seed_with wit_libs (\<lambda>_. None) (\<lambda>_. []) (\<lambda>_. FsFile [1, 2, 3]) (\<lambda>b. [b]) (Inr []) 5 x_path x_options (plain_client, x_world) =
      (Inr sh, c', w') \<and> ls_manifest (hub_arcs (cl_hub c') 5) = wit_manifest"
    using s codec
    by (simp add: seed_with_def absolute_path_def x_path_def secret_for_def x_options_def st seed_made_def finish_seed_def and_then_def
        with_store_def start_seed_def register_def set_arc_def wit_hub_def Let_def set_allowed_def)
  then obtain sh c' w' where run: "seed_with wit_libs (\<lambda>_. None) (\<lambda>_. []) (\<lambda>_. FsFile [1, 2, 3]) (\<lambda>b. [b]) (Inr []) 5 x_path x_options
      (plain_client, x_world) = (Inr sh, c', w')" "ls_manifest (hub_arcs (cl_hub c') 5) = wit_manifest"
    by blast
  have "round_trips (pc_manifest wit_libs) (ls_manifest (hub_arcs (cl_hub c') 5))"
    by (simp add: run(2) codec const_codec_round_trips)
  then show ?thesis using seed_fetchable [OF run(1)] run(1) by blast
qed

end
