(* ===== verification/Sharing.thy ===== *)
theory Sharing
  imports Fetching Client_Safety
begin

text \<open>
  From one disk to another: a file or folder shared with \<open>share_from_disk\<close> of
  \<open>local.rs\<close> makes an honest seeder, and what its peer downloads is what was
  shared.
\<close>

subsection \<open>What a share made from disk holds\<close>

text \<open>The tree \<open>node\<close> is what the disk holds below \<open>rt\<close>, and it can be read.\<close>

definition on_disk :: "world \<Rightarrow> path \<Rightarrow> fsnode \<Rightarrow> bool" where
  "on_disk w rt node \<longleftrightarrow> (\<forall>ns c. node_at node ns (FsFile c) \<longrightarrow>
     files w (rt @ map Normal ns) = Some c \<and> no_faults (rt @ map Normal ns) w \<and> length c < 2 ^ 64)"

lemma ingest_all_same:
  assumes "ingest_all ingest n found s = (Inr (es, hashed), s')" and "\<And>i p sz. snd (ingest i p sz s) = s"
  shows "s' = s \<and> list_all2 (\<lambda>h x. \<exists>i. ingest i (fst (snd x)) (word_of_nat (length (snd (snd x)))) s = (Inr h, s)) hashed found"
  using assms
proof (induction ingest n found s arbitrary: es hashed s' rule: ingest_all.induct)
  case (2 ingest n components path content r s)
  from "2.prems"(1) obtain data outboard s1 es' hashed' where
    a: "ingest n path (word_of_nat (length content)) s = (Inr (data, outboard), s1)"
    and b: "ingest_all ingest (n + 1) r s1 = (Inr (es', hashed'), s')"
    and c: "hashed = (data, outboard) # hashed'"
    by (auto split: prod.splits sum.splits)
  have "s1 = s" using "2.prems"(2) [of n path "word_of_nat (length content)"] a by simp
  with "2.IH" [OF a [symmetric] refl refl b] "2.prems"(2) a c show ?case by auto
qed auto

definition shared_file :: "bao \<Rightarrow> (path \<Rightarrow> (nat \<times> nat) option) \<Rightarrow> path \<Rightarrow> bytes \<Rightarrow> local_file" where
  "shared_file B stamp p c = shared_in_place stamp (Plain p) (resized B (bao_create B c))"

lemma shared_files:
  assumes made: "share_from_disk h A B pc lower stamp chunks rt node label secret None w = Some (Inr s, w')"
    and disk: "on_disk w rt node"
  shows "w' = w" "validate lower (ls_manifest s) = Inr ()" "manifest_encode pc (ls_manifest s) = Some (ls_manifest_bytes s)"
    "ls_id s = id_of h (ls_manifest_bytes s)" "ls_layout s = layout_new (ls_manifest s)" "ls_secret s = secret"
    "ls_have s = replicate (total_pieces (ls_layout s)) True"
    "i < length (m_files (ls_manifest s)) \<Longrightarrow> \<exists>ns c. fe_path (m_files (ls_manifest s) ! i) = m_name (ls_manifest s) # ns \<and>
      node_at node ns (FsFile c) \<and> i < length (ls_files s) \<and> ls_files s ! i = shared_file B stamp (rt @ map Normal ns) c \<and>
      fe_root (m_files (ls_manifest s) ! i) = ob_root (bao_create B c) \<and>
      fe_size (m_files (ls_manifest s) ! i) = ob_size (bao_create B c)"
    "node_at node ns (FsFile c) \<Longrightarrow> \<exists>i < length (m_files (ls_manifest s)). fe_path (m_files (ls_manifest s) ! i) = m_name (ls_manifest s) # ns"
proof -
  let ?m = "ls_manifest s"
  from made obtain m hashed where m: "manifest_from_disk lower rt node label (ingest_plain B) w = (Inr (m, hashed), w')"
    and s: "assemble h pc stamp m hashed secret rt = Some s"
    by (auto simp: share_from_disk_def split: prod.splits sum.splits bind_splits)
  from s obtain b where b: "manifest_encode pc m = Some b"
    "s = from_parts h m b (map (\<lambda>(d, ob). shared_in_place stamp d ob) hashed) secret True rt"
    by (auto simp: assemble_def split: bind_splits)
  then have parts: "?m = m" "ls_manifest_bytes s = b" "ls_files s = map (\<lambda>(d, ob). shared_in_place stamp d ob) hashed"
    by (simp_all add: from_parts_def Let_def)
  show "manifest_encode pc ?m = Some (ls_manifest_bytes s)" using b(1) parts by simp
  show "ls_id s = id_of h (ls_manifest_bytes s)" "ls_layout s = layout_new ?m" "ls_secret s = secret"
    "ls_have s = replicate (total_pieces (ls_layout s)) True"
    by (simp_all add: b(2) from_parts_def Let_def)
  show "validate lower ?m = Inr ()" using from_disk_validates [OF m] parts by simp
  from m obtain found where f: "collect rt [m_name m] node = Inr found"
    "ingest_all (ingest_plain B) 0 found w = (Inr (m_files m, hashed), w')"
    by (rule manifest_from_disk_Inr)
  have pure: "snd (ingest_plain B i p sz w) = w" for i p sz by (simp add: ingest_plain_def)
  note same = ingest_all_same [OF f(2) pure]
  then show "w' = w" by blast
  note all = ingest_all_Inr [OF f(2)]
  then have len: "length found = length (m_files m)" "length hashed = length (m_files m)"
    by (metis length_map)+
  {
    fix i assume "i < length (m_files ?m)"
    then have i: "i < length found" "i < length hashed" "i < length (m_files m)" using len parts by simp_all
    obtain c p content where x: "found ! i = (c, p, content)" by (cases "found ! i")
    with i(1) have "(c, p, content) \<in> set found" by (metis nth_mem)
    then obtain ns where ns: "c = m_name m # ns" "p = rt @ map Normal ns" "node_at node ns (FsFile content)"
      unfolding collect_exact(1) [OF f(1)] by auto
    have "files w p = Some content" using disk ns unfolding on_disk_def by blast
    moreover from same i x obtain j where "ingest_plain B j p (word_of_nat (length content)) w = (Inr (hashed ! i), w)"
      by (auto simp: list_all2_conv_all_nth)
    ultimately have "hashed ! i = (Plain p, resized B (bao_create B content))"
      by (auto simp: ingest_plain_def hash_file_def result_simps open_file_def open_options_def file_content_def split: option.splits if_splits)
    moreover have "fe_path (m_files m ! i) = c" "fe_root (m_files m ! i) = ob_root (snd (hashed ! i))"
      "fe_size (m_files m ! i) = ob_size (snd (hashed ! i))"
      using all i x by (auto simp: list_eq_iff_nth_eq)
    ultimately show "\<exists>ns c. fe_path (m_files ?m ! i) = m_name ?m # ns \<and>
      node_at node ns (FsFile c) \<and> i < length (ls_files s) \<and> ls_files s ! i = shared_file B stamp (rt @ map Normal ns) c \<and>
      fe_root (m_files ?m ! i) = ob_root (bao_create B c) \<and> fe_size (m_files ?m ! i) = ob_size (bao_create B c)"
      using ns i parts by (auto simp: shared_file_def resized_def)
  }
  assume "node_at node ns (FsFile c)"
  then have "m_name m # ns \<in> set (map fst found)"
    using collect_exact(1) [OF f(1), of "m_name m # ns" "rt @ map Normal ns" c] by force
  then have "m_name m # ns \<in> fe_path ` set (m_files m)" using all by (metis set_map)
  then show "\<exists>i < length (m_files ?m). fe_path (m_files ?m ! i) = m_name ?m # ns"
    using parts by (auto simp: in_set_conv_nth)
qed

subsection \<open>It is an honest seeder\<close>

text \<open>
  What the tree promises of a file with content \<open>c\<close>: its root is good for that
  content only, its size is recorded, and reading the file true every range
  of it can be encoded, which the decoder accepts.
\<close>

definition bao_honest :: "bao \<Rightarrow> bytes \<Rightarrow> bool" where
  "bao_honest B c \<longleftrightarrow> bao_sound B (ob_root (bao_create B c)) c \<and> bao_accepts B (ob_root (bao_create B c)) (length c) \<and>
     ob_size (bao_create B c) = word_of_nat (length c) \<and>
     (\<forall>rd start stop. serves rd c \<and> start \<le> stop \<and> stop \<le> length c \<longrightarrow>
        (\<exists>b. bao_encode B rd (resized B (bao_create B c)) (round_up_to_chunks B (start, stop)) = Inr b))"

definition encoding :: "'d libs \<Rightarrow> local_share \<Rightarrow> world \<Rightarrow> nat \<Rightarrow> bytes" where
  "encoding E s w p = (case encode_piece (lib_blake E) (lib_aead E) (lib_bao E) p s w of Some (Inr b) \<Rightarrow> b | _ \<Rightarrow> [])"

definition disk_content :: "world \<Rightarrow> path \<Rightarrow> manifest \<Rightarrow> nat \<Rightarrow> bytes" where
  "disk_content w rt m i = file_content (rt @ map Normal (List.tl (fe_path (m_files m ! i)))) w"

lemma shared_encodes:
  assumes "on_disk w rt node" "node_at node ns (FsFile c)" "bao_honest B c" "start \<le> stop" "stop \<le> length c"
  shows "\<exists>b. encode_range h A B (lf_data (shared_file B stamp (rt @ map Normal ns) c))
    (lf_outboard (shared_file B stamp (rt @ map Normal ns) c)) start stop w = Inr b"
proof -
  let ?p = "rt @ map Normal ns" and ?hnd = "PlainHandle \<lparr>fh_path = rt @ map Normal ns, fh_read = True, fh_write = False\<rparr>"
  have disk: "files w ?p = Some c" "no_faults ?p w" using assms(1,2) by (auto simp: on_disk_def)
  then have opened: "open_data h False (Plain ?p) w = Inr ?hnd"
    by (simp add: open_data_def open_with_cases no_faults_access)
  have "handle_readable A ?hnd w" by (simp add: handle_readable_def)
  from handle_serves [OF this] disk(1) have "serves (handle_read_at A ?hnd w) c" by (simp add: handle_view_def file_content_def)
  with assms(3-5) opened show ?thesis
    by (auto simp: bao_honest_def encode_range_def result_simps shared_file_def shared_in_place_def local_file_new_def Let_def)
qed

lemma shared_honest:
  assumes made: "share_from_disk (lib_blake E) (lib_aead E) (lib_bao E) (pc_manifest E) (lib_lower E) stamp chunks rt node label secret
      None w = Some (Inr s, w')"
    and disk: "on_disk w rt node" and bao: "\<And>ns c. node_at node ns (FsFile c) \<Longrightarrow> bao_honest (lib_bao E) c"
    and codec: "round_trips (pc_manifest E) (ls_manifest s)" "length (ls_manifest_bytes s) \<le> MAX_MANIFEST_BYTES"
    and fits: "fits (ls_manifest s)"
  shows "honest_seeder E (disk_content w rt (ls_manifest s)) s w (encoding E s w)"
proof -
  let ?m = "ls_manifest s" and ?B = "lib_bao E" and ?c = "disk_content w rt (ls_manifest s)"
  note parts = shared_files [OF made disk]
  have entry: "ls_files s ! i = shared_file ?B stamp (rt @ map Normal (List.tl (fe_path (m_files ?m ! i)))) (?c i) \<and>
      node_at node (List.tl (fe_path (m_files ?m ! i))) (FsFile (?c i)) \<and> i < length (ls_files s) \<and>
      fe_root (m_files ?m ! i) = ob_root (bao_create ?B (?c i)) \<and>
      length (?c i) = unat (fe_size (m_files ?m ! i)) \<and> bao_honest ?B (?c i)" if i: "i < length (m_files ?m)" for i
  proof -
    obtain ns c where f: "fe_path (m_files ?m ! i) = m_name ?m # ns" "node_at node ns (FsFile c)" "i < length (ls_files s)"
      "ls_files s ! i = shared_file ?B stamp (rt @ map Normal ns) c"
      "fe_root (m_files ?m ! i) = ob_root (bao_create ?B c)" "fe_size (m_files ?m ! i) = ob_size (bao_create ?B c)"
      using parts(8) [OF i] by blast
    have "files w (rt @ map Normal ns) = Some c" "length c < 2 ^ 64" using disk f(2) by (auto simp: on_disk_def)
    moreover from this(1) f(1) have "?c i = c" by (simp add: disk_content_def file_content_def)
    ultimately show ?thesis using f bao [OF f(2)] by (simp add: bao_honest_def unat_of_nat)
  qed
  have "decode_verified (lib_blake E) (pc_manifest E) (lib_lower E) (ls_manifest_bytes s) (ls_id s) = Inr ?m"
    using codec(1) parts(2-4) by (auto simp: round_trips_def manifest_encode_def decode_verified_Inr) metis
  moreover have "contents_ok ?B ?c ?m" "hashes_to ?B ?c ?m"
    using entry by (simp_all add: contents_ok_def hashes_to_def bao_honest_def)
  moreover have "ob_root (lf_outboard (ls_files s ! i)) = fe_root (m_files ?m ! i) \<and>
      bao_accepts ?B (fe_root (m_files ?m ! i)) (unat (fe_size (m_files ?m ! i)))" if "i < length (m_files ?m)" for i
    using entry [OF that] by (auto simp: bao_honest_def shared_file_def shared_in_place_def local_file_new_def resized_def Let_def)
  moreover have "encode_piece (lib_blake E) (lib_aead E) ?B p s w = Some (Inr (encoding E s w p))" if "p < total_pieces (ls_layout s)" for p
  proof -
    obtain f q where f: "f < length (m_files ?m)" "q < file_pieces (m_files ?m ! f)"
      and loc: "locate (layout_new ?m) p = Some \<lparr>loc_file = f, loc_start = word_of_nat (q * BLOCK_SIZE),
        loc_end = word_of_nat (min (q * BLOCK_SIZE + BLOCK_SIZE) (unat (fe_size (m_files ?m ! f))))\<rparr>"
      using locate_piece [OF fits] \<open>p < _\<close> parts(5) by metis
    note bytes = piece_bytes [OF fits f] and e = entry [OF f(1)]
    obtain b where "encode_range (lib_blake E) (lib_aead E) ?B (lf_data (ls_files s ! f)) (lf_outboard (ls_files s ! f))
        (q * BLOCK_SIZE) (min (q * BLOCK_SIZE + BLOCK_SIZE) (unat (fe_size (m_files ?m ! f)))) w = Inr b"
      using shared_encodes [OF disk, of _ "?c f" ?B "q * BLOCK_SIZE" "min (q * BLOCK_SIZE + BLOCK_SIZE) (unat (fe_size (m_files ?m ! f)))"
        "lib_blake E" "lib_aead E" stamp] e bytes(3) by fastforce
    then show ?thesis
      using e loc bytes parts(5) by (simp add: encoding_def encode_piece_def idx_Some del: of_nat_mult of_nat_add)
  qed
  ultimately show ?thesis using codec(2) parts(5,7) by (simp add: honest_seeder_def)
qed

subsection \<open>What is shared arrives\<close>

text \<open>C1: what one node shares, another gets. A file or folder is shared from
  disk, plainly; another node has the share code, reaches the seeder and may
  have the share. Then one exchange for the manifest, one subscription and at
  most one request per piece, all over the network, make a run of the
  download that ends well, and every file below the shared path is in its
  place with its content: as an ordinary file, or encrypted in the store.\<close>

theorem shared_arrives:
  assumes made: "share_from_disk (lib_blake E) (lib_aead E) (lib_bao E) (pc_manifest E) (lib_lower E) stamp chunks rt node label secret
      None w0 = Some (Inr s, w0')"
    and disk: "on_disk w0 rt node" and bao: "\<And>ns c. node_at node ns (FsFile c) \<Longrightarrow> bao_honest (lib_bao E) c"
    and codec: "round_trips (pc_manifest E) (ls_manifest s)" "length (ls_manifest_bytes s) \<le> MAX_MANIFEST_BYTES"
    and code: "code_for code s" and peers: "sc_peers code = addr # rest" "ea_id addr \<noteq> cx_me ctx" "remaining \<noteq> 0"
    and saves: "bao_saves (lib_bao E)" and net: "seeds s sa (fst hl)" "allows s (cx_me ctx)"
    and fit: "frames_fit qc rc (code_auth (lib_blake E) code (cx_me ctx)) s (encoding E s w0)"
    and n: "total_pieces (ls_layout s) \<le> n" "n < 2 ^ 30"
    and places: "places_ok (lib_aead E) w dest (cx_key ctx) (ls_manifest s)"
    and fresh: "cx_reseed ctx \<longrightarrow> hub_shares hub (ls_id s) = None"
  shows "\<exists>answer s1 hub1 w1 events out hub2 w2.
    exchange (node_serves (lib_blake E) (lib_aead E) (lib_bao E) qc rc stamp w0 (cx_me ctx) [] now) qc rc
      (ReqManifest (ls_id s) (code_auth (lib_blake E) code (cx_me ctx))) hl = Some (answer, hl) \<and>
    prepare_download E order (cx_reseed ctx) (cx_key ctx) (cx_allow ctx) code (ls_manifest s) (ls_manifest_bytes s) dest a
      (None, hub, w) = Some (Inr s1, None, hub1, w1) \<and>
    session (engine_exec (lib_blake E) (lib_aead E) (lib_bao E) sp se)
      (\<lambda>req k. exchange (node_serves (lib_blake E) (lib_aead E) (lib_bao E) qc rc stamp w0 (cx_me ctx) [] (time k)) qc rc req)
      (ls_id s) (code_auth (lib_blake E) code (cx_me ctx)) (ea_id addr) n hl (engine_new s1, w1) = Some events \<and>
    download_run E sp se order ctx code dest a [answering_round remaining answer] events (None, hub, w) =
      Some (Some (Inr out), None, hub2, w2) \<and>
    (\<forall>ns c. node_at node ns (FsFile c) \<longrightarrow> (\<exists>i < length (m_files (ls_manifest s)).
      fe_path (m_files (ls_manifest s) ! i) = m_name (ls_manifest s) # ns \<and>
      delivered (lib_blake E) (lib_aead E) w2 (download_data dest (cx_key ctx) i (m_files (ls_manifest s) ! i)) c))"
proof -
  let ?m = "ls_manifest s"
  have fits: "fits ?m" using places by (simp add: places_ok_def)
  have honest: "honest_seeder E (disk_content w0 rt ?m) s w0 (encoding E s w0)"
    by (rule shared_honest [OF made disk _ codec fits]) (rule bao)
  note parts = shared_files [OF made disk]
  obtain answer s1 hub1 w1 events out hub2 w2 where run:
    "exchange (node_serves (lib_blake E) (lib_aead E) (lib_bao E) qc rc stamp w0 (cx_me ctx) [] now) qc rc
      (ReqManifest (ls_id s) (code_auth (lib_blake E) code (cx_me ctx))) hl = Some (answer, hl)"
    "prepare_download E order (cx_reseed ctx) (cx_key ctx) (cx_allow ctx) code ?m (ls_manifest_bytes s) dest a
      (None, hub, w) = Some (Inr s1, None, hub1, w1)"
    "session (engine_exec (lib_blake E) (lib_aead E) (lib_bao E) sp se)
      (\<lambda>req k. exchange (node_serves (lib_blake E) (lib_aead E) (lib_bao E) qc rc stamp w0 (cx_me ctx) [] (time k)) qc rc req)
      (ls_id s) (code_auth (lib_blake E) code (cx_me ctx)) (ea_id addr) n hl (engine_new s1, w1) = Some events"
    "download_run E sp se order ctx code dest a [answering_round remaining answer] events (None, hub, w) =
      Some (Some (Inr out), None, hub2, w2)"
    and files: "\<forall>i < length (m_files ?m). delivered (lib_blake E) (lib_aead E) w2 (download_data dest (cx_key ctx) i (m_files ?m ! i))
      (disk_content w0 rt ?m i)"
    using fetch_succeeds [where sp = sp and se = se and order = order and a = a and stamp = stamp and now = now and time = time,
        OF honest code peers saves net fit n places fresh] by blast
  have "\<exists>i < length (m_files ?m). fe_path (m_files ?m ! i) = m_name ?m # ns \<and>
      delivered (lib_blake E) (lib_aead E) w2 (download_data dest (cx_key ctx) i (m_files ?m ! i)) c"
    if c: "node_at node ns (FsFile c)" for ns c
  proof -
    obtain i where i: "i < length (m_files ?m)" "fe_path (m_files ?m ! i) = m_name ?m # ns" using parts(9) [OF c] by blast
    moreover have "disk_content w0 rt ?m i = c"
      using disk c i(2) by (auto simp: on_disk_def disk_content_def file_content_def)
    ultimately show ?thesis using files by blast
  qed
  with run show ?thesis by blast
qed

text \<open>A share of one file of three bytes, and codecs for messages about it.\<close>

definition x_seed :: local_share where
  "x_seed = from_parts plain_blake wit_manifest [1, 7] [shared_file toy_bao (\<lambda>_. None) x_path [1, 2, 3]] None True x_path"

lemma x_seed_simps: "ls_manifest x_seed = wit_manifest" "ls_manifest_bytes x_seed = [1, 7]" "ls_id x_seed = ShareId [1, 7]"
  "ls_secret x_seed = None" "ls_allowed x_seed = None" "ls_layout x_seed = layout_new wit_manifest"
  "total_pieces (layout_new wit_manifest) = 1" "ls_have x_seed = [True]"
  "ls_files x_seed = [shared_file toy_bao (\<lambda>_. None) x_path [1, 2, 3]]"
  "locate (layout_new wit_manifest) 0 = Some \<lparr>loc_file = 0, loc_start = 0, loc_end = 3\<rparr>"
  by (simp_all add: x_seed_def from_parts_def Let_def id_of_def plain_blake_def layout_new_def wit_manifest_def
      file_pieces_def BLOCK_SIZE_def div_ceil_def locate_def)

lemma x_shared: "share_from_disk plain_blake toy_aead toy_bao (const_codec wit_manifest) (\<lambda>s. s) (\<lambda>_. None) (\<lambda>b. [b]) x_path
    (FsFile [1, 2, 3]) None None None x_world = Some (Inr x_seed, x_world)"
  using x_from_disk
  by (simp add: share_from_disk_def assemble_def manifest_encode_def const_codec_def MANIFEST_VERSION_def Let_def x_seed_def
      shared_file_def resized_def toy_bao_def set_len_def)

lemma x_on_disk: "on_disk x_world x_path (FsFile [1, 2, 3])"
  by (simp add: on_disk_def node_at_simps x_world_def no_faults_def)

lemma toy_bao_honest: "bao_honest toy_bao c"
proof -
  have "\<exists>b. bao_encode toy_bao rd (resized toy_bao (bao_create toy_bao c)) (round_up_to_chunks toy_bao (a, b')) = Inr b"
    if "serves rd c" "a \<le> b'" "b' \<le> length c" for rd a b'
    using that by (simp add: serves_def toy_bao_def resized_def)
  then show ?thesis using toy_bao_sound [of c] toy_bao_accepts [of c] by (auto simp: bao_honest_def toy_bao_def)
qed

definition x_requests :: "request codec" where
  "x_requests =
     \<lparr>to_allocvec = (\<lambda>r. case r of ReqManifest _ _ \<Rightarrow> Some [0] | ReqSubscribe _ _ \<Rightarrow> Some [1] | ReqPiece _ _ i \<Rightarrow> Some (2 # u32_to_le_bytes i)),
      from_bytes = (\<lambda>b. case b of [] \<Rightarrow> None | t # c \<Rightarrow>
        Some (if t = 0 then ReqManifest (ShareId [1, 7]) None else if t = 1 then ReqSubscribe (ShareId [1, 7]) None
          else ReqPiece (ShareId [1, 7]) None (u32_from_le_bytes c)))\<rparr>"

definition x_responses :: "response codec" where
  "x_responses =
     \<lparr>to_allocvec = (\<lambda>r. case r of RespManifest b \<Rightarrow> Some (0 # b) | RespBitfield b \<Rightarrow> Some (1 # b) | RespPiece b \<Rightarrow> Some (2 # b) | _ \<Rightarrow> None),
      from_bytes = (\<lambda>b. case b of [] \<Rightarrow> None | t # c \<Rightarrow>
        Some (if t = 0 then RespManifest c else if t = 1 then RespBitfield c else RespPiece c))\<rparr>"

lemma x_encoding: "encoding wit_libs x_seed x_world 0 = [1, 2, 3]"
proof -
  let ?hnd = "PlainHandle \<lparr>fh_path = x_path, fh_read = True, fh_write = False\<rparr>"
  have opened: "open_data plain_blake False (Plain x_path) x_world = Inr ?hnd"
    by (simp add: open_data_def open_with_cases access_fault_def x_world_def)
  have "handle_readable toy_aead ?hnd x_world" by (simp add: handle_readable_def)
  from handle_serves [OF this] have "serves (handle_read_at toy_aead ?hnd x_world) [1, 2, 3]"
    by (simp add: handle_view_def file_content_def x_world_def)
  then have "read_exact_loop (\<lambda>_. handle_read_at toy_aead ?hnd x_world) () 0 3 = Inr [1, 2, 3]"
    by (simp add: serves_def slice_def)
  then have "bao_encode toy_bao (handle_read_at toy_aead ?hnd x_world) (resized toy_bao (bao_create toy_bao [1, 2, 3])) (0, 3) =
      Inr [1, 2, 3]"
    by (simp add: toy_bao_def resized_def slice_def)
  moreover have "round_up_to_chunks toy_bao r = r" for r by (simp add: toy_bao_def)
  ultimately show ?thesis
    using opened
    by (simp add: encoding_def encode_piece_def x_seed_simps encode_range_def shared_file_def shared_in_place_def local_file_new_def
        Let_def result_simps idx_def)
qed

lemma x_frames: "frames_fit x_requests x_responses None x_seed (encoding wit_libs x_seed x_world)"
proof -
  have "length (packed_bitfield x_seed) < 100"
    using bit_field_round_trip [of "[True]" "[]" 0] by (simp add: packed_bitfield_def x_seed_simps div_ceil_def)
  then show ?thesis
    by (simp add: frames_fit_def sendable_def x_requests_def x_responses_def x_seed_simps x_encoding MAX_FRAME_def piece_request_def)
qed

theorem shared_arrives_witness:
  "\<exists>answer events out hub2 w2.
    download_run wit_libs (\<lambda>_. []) (\<lambda>_. []) (\<lambda>_. []) wit_ctx wit_code [Normal ''d''] 0 [answering_round 30 answer] events
      (None, wit_hub, wit_world) = Some (Some (Inr out), None, hub2, w2) \<and> files w2 wit_path = Some [1, 2, 3]"
proof -
  let ?hub = "\<lparr>hub_shares = [ShareId [1, 7] \<mapsto> 0], hub_arcs = (\<lambda>_. x_seed)\<rparr>"
  have simps: "pc_manifest wit_libs = const_codec wit_manifest" "lib_lower wit_libs = (\<lambda>s. s)"
    by (simp_all add: wit_libs_def toy_libs_def)
  have auth: "code_auth plain_blake wit_code (cx_me wit_ctx) = None" by (simp add: code_auth_def wit_code_def)
  have net: "seeds x_seed 0 (fst (?hub, None))" "allows x_seed (cx_me wit_ctx)"
    by (simp_all add: seeds_def x_seed_simps allows_def exI [of _ "ls_events x_seed"])
  have code: "code_for wit_code x_seed"
    by (simp add: code_for_def wit_code_def x_seed_simps) (simp add: wit_manifest_def total_size_def)
  have cx: "cx_reseed wit_ctx = False" "cx_key wit_ctx = None" by (simp_all add: wit_ctx_def)
  have peers: "sc_peers wit_code = \<lparr>ea_id = [9], ea_addrs = []\<rparr> # []" "ea_id \<lparr>ea_id = [9], ea_addrs = []\<rparr> \<noteq> cx_me wit_ctx"
    by (simp_all add: wit_code_def wit_ctx_def)
  have saves: "bao_saves (lib_bao wit_libs)" by (simp add: bao_saves_def toy_bao_def)
  have codec: "round_trips (pc_manifest wit_libs) (ls_manifest x_seed)" "length (ls_manifest_bytes x_seed) \<le> MAX_MANIFEST_BYTES"
    by (simp_all add: simps x_seed_simps const_codec_round_trips MAX_MANIFEST_BYTES_def)
  have made: "share_from_disk (lib_blake wit_libs) (lib_aead wit_libs) (lib_bao wit_libs) (pc_manifest wit_libs) (lib_lower wit_libs)
      (\<lambda>_. None) (\<lambda>b. [b]) x_path (FsFile [1, 2, 3]) None None None x_world = Some (Inr x_seed, x_world)"
    using x_shared simps by simp
  have bao: "bao_honest (lib_bao wit_libs) c" for c by (simp add: toy_bao_honest)
  have fit: "frames_fit x_requests x_responses (code_auth (lib_blake wit_libs) wit_code (cx_me wit_ctx)) x_seed (encoding wit_libs x_seed x_world)"
    using x_frames auth by simp
  have sized: "total_pieces (ls_layout x_seed) \<le> 1" "(1 :: nat) < 2 ^ 30" by (simp_all add: x_seed_simps)
  have places: "places_ok (lib_aead wit_libs) wit_world [Normal ''d''] (cx_key wit_ctx) (ls_manifest x_seed)"
    using wit_places cx by (simp add: x_seed_simps)
  have fresh: "cx_reseed wit_ctx \<longrightarrow> hub_shares wit_hub (ls_id x_seed) = None" "(30 :: rat) \<noteq> 0" by (simp_all add: cx)
  from shared_arrives [OF made x_on_disk bao codec code peers fresh(2) saves net fit sized places fresh(1),
      where sp = "\<lambda>_. []" and se = "\<lambda>_. []" and order = "\<lambda>_. []" and a = 0 and now = 0 and time = "\<lambda>_. 0"]
  obtain answer events out hub2 w2 where run:
    "download_run wit_libs (\<lambda>_. []) (\<lambda>_. []) (\<lambda>_. []) wit_ctx wit_code [Normal ''d''] 0 [answering_round 30 answer] events
      (None, wit_hub, wit_world) = Some (Some (Inr out), None, hub2, w2)"
    and arrived: "\<forall>ns c. node_at (FsFile [1, 2, 3]) ns (FsFile c) \<longrightarrow> (\<exists>i < length (m_files (ls_manifest x_seed)).
      fe_path (m_files (ls_manifest x_seed) ! i) = m_name (ls_manifest x_seed) # ns \<and>
      delivered (lib_blake wit_libs) (lib_aead wit_libs) w2
        (download_data [Normal ''d''] (cx_key wit_ctx) i (m_files (ls_manifest x_seed) ! i)) c)"
    by (elim exE conjE) (rule that)
  from arrived [THEN spec, of "[]", THEN spec, of "[1, 2, 3]"] have "files w2 wit_path = Some [1, 2, 3]"
    by (simp add: node_at_simps x_seed_simps delivered_def cx wit_manifest_def download_data_def file_entry_path_def)
  with run show ?thesis by blast
qed

end
