(* ===== verification/Cli.thy ===== *)
theory Cli
  imports Client
begin

text \<open>
  The command line program (\<open>src/crates/chorrent-cli/src/main.rs\<close>): its
  arguments, what each command does with a client, and the lines it prints.
  Parsing of flags, terminal progress bars, JSON text and the signal for
  Ctrl+C belong to libraries: a progress bar is its position, message and
  the lines said above it, JSON is a value, Ctrl+C is an input.
\<close>

subsection \<open>Options\<close>

record global_opts =
  go_json :: bool
  go_data_dir :: "path option"
  go_no_state :: bool
  go_upload_limit :: "u64 option"
  go_download_limit :: "u64 option"
  go_max_uploads :: nat
  go_dht :: bool

text \<open>\<open>str::parse::<u64>\<close>: a sign \<open>+\<close> is allowed, overflow is an error.\<close>

definition digit :: "char \<Rightarrow> nat option" where
  "digit c = (let n = of_char c in if 48 \<le> n \<and> n \<le> 57 then Some (n - 48) else None)"

fun digits_value :: "str \<Rightarrow> nat \<Rightarrow> nat option" where
  "digits_value [] acc = Some acc"
| "digits_value (c # cs) acc = do {
     d \<leftarrow> digit c;
     (if acc * 10 + d < 2 ^ 64 then digits_value cs (acc * 10 + d) else None) }"

definition parse_u64 :: "str \<Rightarrow> u64 option" where
  "parse_u64 s = map_option of_nat
     (case s of
        [] \<Rightarrow> None
      | c # rest \<Rightarrow> if c = CHR ''+'' then (if rest = [] then None else digits_value rest 0) else digits_value s 0)"

text \<open>Multiplication where an overflow is a panic (or, without overflow checks, wraps).\<close>

definition checked_mul :: "u64 \<Rightarrow> u64 \<Rightarrow> u64 option" where
  "checked_mul a b = (if unat a * unat b < 2 ^ 64 then Some (a * b) else None)"

definition rate_unit :: "char \<Rightarrow> u64 option" where
  "rate_unit c =
     (if c = CHR ''k'' \<or> c = CHR ''K'' then Some 1024
      else if c = CHR ''m'' \<or> c = CHR ''M'' then Some (1024 * 1024)
      else if c = CHR ''g'' \<or> c = CHR ''G'' then Some (1024 * 1024 * 1024)
      else None)"

definition parse_rate :: "str \<Rightarrow> (str + u64) option" where
  "parse_rate arg =
     (let s = trim arg;
          (digits, mult) = (if s = [] then (s, 1)
            else case rate_unit (last s) of Some u \<Rightarrow> (butlast s, u) | None \<Rightarrow> (s, 1)) in
      case parse_u64 (trim digits) of
        Some n \<Rightarrow> map_option Inr (checked_mul n mult)
      | None \<Rightarrow> Some (Inl '' isn't a rate like 500K or 2M''))"

datatype platform = Windows | MacOs | OtherOs

text \<open>\<open>var\<close> is the environment.\<close>

definition default_data_dir :: "platform \<Rightarrow> (str \<Rightarrow> str option) \<Rightarrow> path option" where
  "default_data_dir os var =
     (let base = (case os of
          Windows \<Rightarrow> map_option path_of (var ''APPDATA'')
        | MacOs \<Rightarrow> map_option (\<lambda>h. path_join (path_of h) (path_of ''Library/Application Support'')) (var ''HOME'')
        | OtherOs \<Rightarrow>
            (case map_option path_of (var ''XDG_DATA_HOME'') of
               Some p \<Rightarrow> Some p
             | None \<Rightarrow> map_option (\<lambda>h. path_join (path_of h) (path_of ''.local/share'')) (var ''HOME''))) in
      map_option (\<lambda>b. path_join b (path_of ''chorrent'')) base)"

subsection \<open>Output and errors\<close>

datatype json = JNull | JBool bool | JNum nat | JStr str | JList "json list" | JObj "(str \<times> json) list" | JEvent event

datatype line = Out str | ErrOut str | Json json

text \<open>Errors with the context added on the way (\<open>anyhow\<close>).\<close>

datatype cli_error = Bail str | Lib error | Context str cli_error

fun with_context :: "str \<Rightarrow> cli_error + 'a \<Rightarrow> cli_error + 'a" where
  "with_context msg (Inl e) = Inl (Context msg e)"
| "with_context msg (Inr x) = Inr x"

text \<open>How values are shown: sizes, share codes, ids, errors and debug output.\<close>

record display =
  human_bytes :: "u64 \<Rightarrow> str"
  show_code :: "share_code \<Rightarrow> str"
  show_id :: "share_id \<Rightarrow> str"
  show_error :: "error \<Rightarrow> str"
  show_saved :: "saved_transfer \<Rightarrow> str"

definition NL :: str where
  "NL = [CHR 0x0A]"

subsection \<open>Making the client\<close>

text \<open>\<open>build\<close> is \<open>client_build\<close> with the libraries and the time of the call.\<close>

definition cli_builder :: "global_opts \<Rightarrow> bool \<Rightarrow> client_builder" where
  "cli_builder opts reseed =
     builder_mainline_dht (go_dht opts)
       (builder_download_limit (go_download_limit opts)
         (builder_upload_limit (go_upload_limit opts)
           (max_concurrent_uploads (go_max_uploads opts)
             (builder_reseed reseed builder_default))))"

definition cli_data_dir :: "platform \<Rightarrow> (str \<Rightarrow> str option) \<Rightarrow> global_opts \<Rightarrow> path option" where
  "cli_data_dir os var opts =
     (if go_no_state opts then None
      else case go_data_dir opts of Some d \<Rightarrow> Some d | None \<Rightarrow> default_data_dir os var)"

definition make_client ::
  "(client_builder \<Rightarrow> 'd \<Rightarrow> world \<Rightarrow> (error + 'd client) \<times> 'd \<times> world) \<Rightarrow> platform \<Rightarrow> (str \<Rightarrow> str option) \<Rightarrow>
     global_opts \<Rightarrow> bool \<Rightarrow> bool \<Rightarrow> 'd \<Rightarrow> world \<Rightarrow> (cli_error + 'd client) \<times> line list \<times> 'd \<times> world" where
  "make_client build os var opts reseed needs_state d w =
     (let builder = cli_builder opts reseed in
      case cli_data_dir os var opts of
        None \<Rightarrow>
          if needs_state then (Inl (Bail ''this command needs saved state; drop --no-state''), [], d, w)
          else (let (r, dw) = build builder d w in (map_err Lib r, [], dw))
      | Some dir \<Rightarrow>
          (case build (builder_data_dir dir builder) d w of
             (Inr client, dw) \<Rightarrow> (Inr client, [], dw)
           | (Inl (DataDirInUse p), d1, w1) \<Rightarrow>
               if needs_state then
                 (Inl (Bail (''another chorrent is using '' @ path_display dir @
                    ''; stop it first, or pass a different --data-dir'')), [], d1, w1)
               else (let (r, dw) = build builder d1 w1 in
                 (map_err Lib r,
                  [ErrOut (''Note: another chorrent is using '' @ path_display dir @ ''; this one runs without saved state.'')],
                  dw))
           | (Inl e, dw) \<Rightarrow> (Inl (Context ''failed to start'' (Lib e)), [], dw)))"

subsection \<open>Pieces of text\<close>

text \<open>Slicing a string panics inside a character; ids are ASCII.\<close>

definition short :: "str \<Rightarrow> str" where
  "short peer = take 10 peer"

definition NO_RELAY_WARNING :: str where
  "NO_RELAY_WARNING = ''WARNING: not connected to a relay server. Devices on other networks'' @ NL @
     ''probably can't reach this one; only devices that can connect to it directly'' @ NL @
     ''(e.g. on the same Wi-Fi) will. Still trying. If this doesn't go away, check'' @ NL @
     ''that a firewall isn't blocking chorrent, or try another network. Run'' @ NL @
     ''`chorrent doctor` for details.''"

definition swarm_line :: "nat \<Rightarrow> str" where
  "swarm_line n =
     (if n = 0 then ''Swarm: not linked to any other peers (normal until others join; retrying)''
      else ''Swarm: linked to '' @ show_nat n @ '' peer(s)'')"

definition print_seed_info :: "display \<Rightarrow> path \<Rightarrow> share_code \<Rightarrow> line list" where
  "print_seed_info v path code =
     [Out (''Sharing: '' @ path_display path), Out (''Size:    '' @ human_bytes v (sc_total_size code))]
     @ (if is_private code then [Out ''Private: only people with this code can find it''] else [])
     @ [Out (''Share id: '' @ show_id v (sc_id code)), Out (NL @ ''Share this code:'' @ NL @ show_code v code @ NL)]"

subsection \<open>Seeding\<close>

text \<open>
  Watching a seed's events: the bytes uploaded so far and in this second, what
  the spinner says, and the lines above it.
\<close>

datatype 'a watched = Event 'a | Lagged | Closed

datatype watch_input = WatchTick | WatchEvent "event watched"

datatype watch_output = Message str | Say str | PrintEvent event

fun watch_event :: "bool \<Rightarrow> event \<Rightarrow> u64 \<times> u64 \<Rightarrow> (u64 \<times> u64) \<times> watch_output list" where
  "watch_event json (Uploaded n) (uploaded, this_second) =
     (if json then ((uploaded, this_second), [PrintEvent (Uploaded n)]) else ((uploaded + n, this_second + n), []))"
| "watch_event json (SwarmPeers n) st =
     (st, if json then [PrintEvent (SwarmPeers n)] else if 0 < n then [Say (swarm_line n)] else [])"
| "watch_event json (SharedFileChanged path) st =
     (st, if json then [PrintEvent (SharedFileChanged path)] else
        [Say (''Warning: '' @ path @ '' changed while being shared, so it can't be sent any more.                      Run `chorrent seed` again to share the new version.'')])"
| "watch_event json e st = (st, if json then [PrintEvent e] else [])"

fun watch_seed :: "display \<Rightarrow> bool \<Rightarrow> watch_input list \<Rightarrow> u64 \<times> u64 \<Rightarrow> watch_output list" where
  "watch_seed v json [] st = []"
| "watch_seed v json (WatchTick # ins) (uploaded, this_second) =
     (if json then watch_seed v json ins (uploaded, this_second)
      else Message (''uploaded '' @ human_bytes v uploaded @ '' ('' @ human_bytes v this_second @ ''/s)'')
        # watch_seed v json ins (uploaded, 0))"
| "watch_seed v json (WatchEvent (Event e) # ins) st =
     (let (st1, out) = watch_event json e st in out @ watch_seed v json ins st1)"
| "watch_seed v json (WatchEvent Lagged # ins) st = watch_seed v json ins st"
| "watch_seed v json (WatchEvent Closed # ins) st = []"

text \<open>
  The relay is looked at every two seconds; each look gives the relay and the
  share code as they are then.
\<close>

fun watch_relay :: "display \<Rightarrow> bool \<Rightarrow> (str option \<times> share_code) list \<Rightarrow> str option \<Rightarrow> line list" where
  "watch_relay v json [] relay = []"
| "watch_relay v json ((now, code) # looks) relay =
     (if now \<noteq> relay then
        (if json then [Json (JObj [(''type'', JStr ''relay_status''), (''connected'', JBool (now \<noteq> None)),
            (''url'', case now of None \<Rightarrow> JNull | Some url \<Rightarrow> JStr url), (''share_code'', JStr (show_code v code))])]
         else case now of
           Some url \<Rightarrow> [Out (''Connected to relay server '' @ url @ '': reachable from any network now.'' @ NL @
              ''Share this updated code (the earlier one may not work from other networks):'' @ NL @ show_code v code @ NL)]
         | None \<Rightarrow> [Out (NO_RELAY_WARNING @ NL)])
      else []) @ watch_relay v json looks now"

definition seed_started :: "display \<Rightarrow> bool \<Rightarrow> str option \<Rightarrow> path \<Rightarrow> share_code \<Rightarrow> line list" where
  "seed_started v json relay path code =
     (if json then
        [Json (JObj [(''type'', JStr ''seed_started''), (''relay'', case relay of None \<Rightarrow> JNull | Some url \<Rightarrow> JStr url),
           (''path'', JStr (path_display path)), (''share_code'', JStr (show_code v code)),
           (''share_id'', JStr (show_id v (sc_id code))), (''private'', JBool (is_private code))])]
      else print_seed_info v path code)
     @ (if relay = None \<and> \<not> json then [Out (NO_RELAY_WARNING @ NL)] else [])
     @ (if json then [] else [Out ''Seeding. Press Ctrl+C to stop.''])"

text \<open>
  The command, up to Ctrl+C: \<open>start\<close> is \<open>make_client\<close> and \<open>seed\<close> is
  \<open>seed_with\<close>, both with everything but the options given; \<open>me\<close> is our
  address when the seed starts, \<open>looks\<close> are the relay and the address later.
\<close>

definition run_seed ::
  "'d libs \<Rightarrow> display \<Rightarrow> (bool \<Rightarrow> bool \<Rightarrow> 'd \<Rightarrow> world \<Rightarrow> (cli_error + 'd client) \<times> line list \<times> 'd \<times> world) \<Rightarrow>
     (path \<Rightarrow> seed_options \<Rightarrow> 'd client \<times> world \<Rightarrow> (error + seed_handle) \<times> 'd client \<times> world) \<Rightarrow>
     bool \<Rightarrow> path \<Rightarrow> bool \<Rightarrow> str option \<Rightarrow> str option \<times> endpoint_addr \<Rightarrow> (str option \<times> endpoint_addr) list \<Rightarrow> 'd \<Rightarrow> world \<Rightarrow>
     (cli_error + 'd client) \<times> line list \<times> world" where
  "run_seed E v start seed json path private join first looks d w =
     (case (case join of
              None \<Rightarrow> Inr (seed_private private seed_options_default)
            | Some text \<Rightarrow> bind_result (with_context ''the --join share code isn't valid''
                (map_err Lib (share_code_from_str (pc_code E) (lib_base64 E) text)))
                (\<lambda>code. Inr (seed_join code (seed_private private seed_options_default)))) of
        Inl e \<Rightarrow> (Inl e, [], w)
      | Inr options \<Rightarrow>
          (case start True False d w of
             (Inl e, out, _, w1) \<Rightarrow> (Inl e, out, w1)
           | (Inr client, out, _, w1) \<Rightarrow>
               (let hashing = (if json then [] else [Out (''Hashing '' @ path_display path @ ''...'')]) in
                case seed path options (client, w1) of
                  (Inl e, _, w2) \<Rightarrow>
                    (Inl (Context (''failed to share '' @ path_display path) (Lib e)), out @ hashing, w2)
                | (Inr sh, client1, w2) \<Rightarrow>
                    (Inr (stop_seed sh client1),
                     out @ hashing @ seed_started v json (fst first) (seed_path sh client1) (seed_share_code (snd first) sh) @
                       watch_relay v json (map (\<lambda>(relay, me). (relay, seed_share_code me sh)) looks) (fst first),
                     w2))))"

subsection \<open>Getting\<close>

fun merge_codes :: "share_code \<Rightarrow> (cli_error + share_code) list \<Rightarrow> cli_error + share_code" where
  "merge_codes code [] = Inr code"
| "merge_codes code (other # others) =
     bind_result other (\<lambda>o1. bind_result (map_err Lib (merge code o1)) (\<lambda>code1. merge_codes code1 others))"

definition parse_code :: "share_code codec \<Rightarrow> base64 \<Rightarrow> str \<Rightarrow> cli_error + share_code" where
  "parse_code pc b text =
     with_context ''a share code you provided isn't valid'' (map_err Lib (share_code_from_str pc b text))"

definition is_code_arg :: "str \<Rightarrow> bool" where
  "is_code_arg a \<longleftrightarrow> starts_with (trim a) ''chr''"

definition split_get_args :: "share_code codec \<Rightarrow> base64 \<Rightarrow> str list \<Rightarrow> cli_error + share_code \<times> path option" where
  "split_get_args pc b args =
     (let (codes, rest) = partition is_code_arg args in
      if 1 < length rest then
        Inl (Bail (''expected share codes and at most one destination folder, got '' @ show_nat (length rest) @ '' other arguments''))
      else
        (case map (parse_code pc b) codes of
           [] \<Rightarrow> Inl (Bail ''no share code given'')
         | code # others \<Rightarrow>
             bind_result code (\<lambda>c. bind_result (merge_codes c others) (\<lambda>merged.
               Inr (merged, (case rest of [] \<Rightarrow> None | dir # _ \<Rightarrow> Some (path_of dir)))))))"

text \<open>
  A download's progress bar: how many peers there are, its length and
  position, its message and the lines said above it. \<open>progress_event\<close> is one
  turn of the loop on an event.
\<close>

record progress =
  pr_peers :: nat
  pr_length :: u64
  pr_position :: u64
  pr_message :: str
  pr_said :: "str list"

definition bar_new :: "u64 \<Rightarrow> progress" where
  "bar_new whole = \<lparr>pr_peers = 0, pr_length = whole, pr_position = 0, pr_message = ''finding peers...'', pr_said = []\<rparr>"

text \<open>Finishing a bar also moves it to its end.\<close>

definition finish_with_message :: "str \<Rightarrow> progress \<Rightarrow> progress" where
  "finish_with_message text p = p\<lparr>pr_position := pr_length p, pr_message := text\<rparr>"

definition say :: "str \<Rightarrow> progress \<Rightarrow> progress" where
  "say text p = p\<lparr>pr_said := pr_said p @ [text]\<rparr>"

definition set_peers :: "nat \<Rightarrow> progress \<Rightarrow> progress" where
  "set_peers n p = p\<lparr>pr_peers := n, pr_message := show_nat n @ '' peer(s)''\<rparr>"

definition inc :: "u64 \<Rightarrow> progress \<Rightarrow> progress" where
  "inc n p = p\<lparr>pr_position := pr_position p + n\<rparr>"

fun progress_event :: "display \<Rightarrow> event \<Rightarrow> progress \<Rightarrow> progress" where
  "progress_event v (ManifestReceived name n whole k) p = p\<lparr>pr_message := show_nat n @ '' file(s)''\<rparr>"
| "progress_event v (Resumed k n) p =
     say (''Resuming: '' @ show_nat k @ '' pieces ('' @ human_bytes v n @ '') already on disk'') (inc n p)"
| "progress_event v (PeerConnected peer k n) p =
     say (''Peer '' @ short peer @ '' connected ('' @ show_nat k @ '' of '' @ show_nat n @ '' pieces)'')
       (set_peers (pr_peers p + 1) p)"
| "progress_event v (PeerPath peer direct rtt) p =
     say (''Peer '' @ short peer @ '': '' @
         (if direct then ''direct connection'' else ''via relay (slower; hole punching didn't work yet)'') @
         '', '' @ show_nat (unat rtt) @ '' ms round trip'') p"
| "progress_event v (PeerDisconnected peer) p =
     say (''Peer '' @ short peer @ '' left'') (set_peers (pr_peers p - 1) p)"
| "progress_event v (SwarmPeers n) p = (if 0 < n then say (swarm_line n) p else p)"
| "progress_event v (PieceVerified i n) p = inc n p"
| "progress_event v (PieceFailed i reason) p = say (''Piece '' @ show_nat i @ '' failed, retrying: '' @ reason) p"
| "progress_event v e p = p"

fun progress_loop :: "display \<Rightarrow> event watched list \<Rightarrow> progress \<Rightarrow> progress" where
  "progress_loop v [] p = p"
| "progress_loop v (Event e # ins) p = progress_loop v ins (progress_event v e p)"
| "progress_loop v (Lagged # ins) p = progress_loop v ins p"
| "progress_loop v (Closed # ins) p = p"

text \<open>With \<open>--json\<close> every event received is printed, those still queued when the download ends included.\<close>

fun json_events :: "event watched list \<Rightarrow> event list" where
  "json_events [] = []"
| "json_events (Event e # ins) = e # json_events ins"
| "json_events (Lagged # ins) = json_events ins"
| "json_events (Closed # ins) = []"

text \<open>
  \<open>whole\<close> is the size in the download's share code, \<open>ins\<close> what is received
  until the download ends, \<open>queued\<close> what is left in the channel then, \<open>result\<close>
  how the download ended.
\<close>

definition drive_download ::
  "display \<Rightarrow> bool \<Rightarrow> u64 \<Rightarrow> event watched list \<Rightarrow> event watched list \<Rightarrow> error + 'f \<Rightarrow> progress \<times> line list" where
  "drive_download v json whole ins queued result =
     (let p = (if json then bar_new whole else progress_loop v ins (bar_new whole)) in
      (case result of Inl _ \<Rightarrow> p | Inr _ \<Rightarrow> finish_with_message ''done, verified'' p,
       if json then map (\<lambda>e. Json (JEvent e)) (json_events ins @ json_events queued) else map Out (pr_said p)))"

text \<open>What can end the wait for a download, or happen in it.\<close>

datatype get_input = Driven "error + finished_download" | CtrlC | RelayCheck "str option"

fun get_loop :: "bool \<Rightarrow> get_input list \<Rightarrow> bool \<Rightarrow> (error + finished_download) option \<times> line list" where
  "get_loop json [] checked = (None, [])"
| "get_loop json (Driven r # _) checked = (Some r, [])"
| "get_loop json (CtrlC # _) checked =
     (None, [if json then Json (JObj [(''type'', JStr ''download_stopped''), (''resumable'', JBool True)])
             else Out (NL @ ''Stopped. Run `chorrent resume` (or the same `get`) to continue.'')])"
| "get_loop json (RelayCheck relay # ins) checked =
     (if checked then get_loop json ins checked
      else (let (r, out) = get_loop json ins True in
        (r, (if relay = None \<and> \<not> json then [Out (NO_RELAY_WARNING @ NL)] else []) @ out)))"

definition get_started :: "display \<Rightarrow> bool \<Rightarrow> share_code \<Rightarrow> line list" where
  "get_started v json code =
     (if json then []
      else [Out (''Downloading '' @ sc_name code @ '' ('' @ human_bytes v (sc_total_size code) @ '')'')]
        @ (if 1 < length (sc_peers code) then [Out (''Starting from '' @ show_nat (length (sc_peers code)) @ '' known seeders'')]
           else []))"

definition get_finished ::
  "display \<Rightarrow> bool \<Rightarrow> bool \<Rightarrow> endpoint_addr \<Rightarrow> finished_download \<Rightarrow> line list" where
  "get_finished v json keep_seeding me f =
     (case fi_path f of
        None \<Rightarrow> []
      | Some p \<Rightarrow> [if json then Json (JObj [(''type'', JStr ''download_saved''), (''path'', JStr (path_display p))])
                  else Out (''Saved to '' @ path_display p)])
     @ (case (keep_seeding, fi_seed f) of
          (True, Some sh) \<Rightarrow>
            (if json then [Json (JObj [(''type'', JStr ''seeding_started''),
                 (''share_code'', JStr (show_code v (seed_share_code me sh)))])]
             else [Out (NL @ ''Seeding it too. Share this code:'' @ NL @ show_code v (seed_share_code me sh) @ NL),
                   Out ''Press Ctrl+C to stop.''])
        | _ \<Rightarrow> [])"

text \<open>
  The command: \<open>start\<close> is \<open>make_client\<close>, \<open>download\<close> is \<open>download_with\<close>
  with the code, \<open>ins\<close> what happens while the download runs. A download
  stopped with Ctrl+C is no failure.
\<close>

definition run_get ::
  "'d libs \<Rightarrow> display \<Rightarrow> (bool \<Rightarrow> bool \<Rightarrow> 'd \<Rightarrow> world \<Rightarrow> (cli_error + 'd client) \<times> line list \<times> 'd \<times> world) \<Rightarrow>
     (share_code \<Rightarrow> path option \<Rightarrow> 'd client \<Rightarrow> error + 's) \<Rightarrow>
     bool \<Rightarrow> str list \<Rightarrow> bool \<Rightarrow> bool \<Rightarrow> get_input list \<Rightarrow> endpoint_addr \<Rightarrow> 'd \<Rightarrow> world \<Rightarrow> (cli_error + unit) \<times> line list" where
  "run_get E v start download json args keep_seeding reseed ins me d w =
     (case split_get_args (pc_code E) (lib_base64 E) args of
        Inl e \<Rightarrow> (Inl e, [])
      | Inr (code, dest_dir) \<Rightarrow>
          (case start reseed False d w of
             (Inl e, out, _) \<Rightarrow> (Inl e, out)
           | (Inr client, out, _) \<Rightarrow>
               (let said = out @ get_started v json code in
                case download code dest_dir client of
                  Inl e \<Rightarrow> (Inl (Context ''failed to start the download'' (Lib e)), said)
                | Inr _ \<Rightarrow>
                    (case get_loop json ins False of
                       (None, after) \<Rightarrow> (Inr (), said @ after)
                     | (Some (Inl e), after) \<Rightarrow> (Inl (Context ''download failed'' (Lib e)), said @ after)
                     | (Some (Inr f), after) \<Rightarrow> (Inr (), said @ after @ get_finished v json keep_seeding me f)))))"

subsection \<open>Diagnosis\<close>

text \<open>
  Waiting for a relay: the status is looked at, with the time since the
  start, until there is one or 15 seconds have passed.
\<close>

fun poll_status :: "rat \<Rightarrow> network_status \<Rightarrow> (rat \<times> network_status) list \<Rightarrow> network_status" where
  "poll_status elapsed status [] = status"
| "poll_status elapsed status ((t, later) # rest) =
     (if ns_relay status = None \<and> elapsed < 15 then poll_status t later rest else status)"

definition check_path :: "peer_check \<Rightarrow> str" where
  "check_path c =
     (case (pc_direct c, pc_rtt_ms c) of
        (Some True, Some rtt) \<Rightarrow> ''direct, '' @ show_nat (unat rtt) @ '' ms''
      | (Some False, Some rtt) \<Rightarrow> ''via relay (slower), '' @ show_nat (unat rtt) @ '' ms''
      | _ \<Rightarrow> ''connected'')"

definition check_lines :: "peer_check \<Rightarrow> line list" where
  "check_lines c =
     (let peer = short (pc_peer c) in
      if \<not> pc_reachable c then
        [Out (''  [FAIL] peer '' @ peer @ '': unreachable ('' @
            (case pc_problem c of Some p \<Rightarrow> p | None \<Rightarrow> ''unknown'') @ '')'')]
        @ (if \<not> pc_listed_relay c then
             [Out ''         Its share code has no relay address: that device wasn't connected to a'',
              Out ''         relay when it made the code. Have it run `chorrent doctor` itself.'']
           else [])
      else if pc_serves_share c then
        [Out (''  [ok]   peer '' @ peer @ '': reachable ('' @ check_path c @ ''), serving this share'')]
      else
        [Out (''  [warn] peer '' @ peer @ '': reachable ('' @ check_path c @ ''), '' @
            (case pc_problem c of Some p \<Rightarrow> p | None \<Rightarrow> ''not serving it''))])"

definition JOIN_COMMA :: "str list \<Rightarrow> str" where
  "JOIN_COMMA xs = concat (case xs of [] \<Rightarrow> [] | x # rest \<Rightarrow> x # map (\<lambda>y. '', '' @ y) rest)"

definition device_lines :: "network_status \<Rightarrow> line list" where
  "device_lines status =
     (case ns_relay status of
        Some url \<Rightarrow> [Out (''  [ok]   relay server: connected to '' @ url)]
      | None \<Rightarrow>
          [Out ''  [FAIL] relay server: couldn't connect within 15 s'',
           Out ''         Devices on other networks probably can't reach this one. Check that a'',
           Out ''         firewall or VPN isn't blocking chorrent, or try another network.''])
     @ (if ns_direct_addresses status = [] then [Out ''  [warn] no direct addresses found'']
        else [Out (''  [info] direct addresses: '' @ JOIN_COMMA (ns_direct_addresses status))])"

fun parse_codes :: "share_code codec \<Rightarrow> base64 \<Rightarrow> str list \<Rightarrow> cli_error + share_code list" where
  "parse_codes pc b [] = Inr []"
| "parse_codes pc b (t # ts) =
     bind_result (parse_code pc b t) (\<lambda>c. bind_result (parse_codes pc b ts) (\<lambda>cs. Inr (c # cs)))"

definition doctor_builder :: "global_opts \<Rightarrow> client_builder" where
  "doctor_builder opts = builder_wait_for_relay 0 (builder_mainline_dht (go_dht opts) builder_default)"

text \<open>
  \<open>build\<close> is \<open>client_build\<close>; \<open>status\<close> the first network status and \<open>later\<close>
  the following ones; \<open>check\<close> is \<open>check_peer\<close> with what the network
  answers, \<open>json_check\<close> and \<open>json_status\<close> the serialization of the results.
\<close>

definition run_doctor ::
  "'d libs \<Rightarrow> (client_builder \<Rightarrow> 'd \<Rightarrow> world \<Rightarrow> (error + 'd client) \<times> 'd \<times> world) \<Rightarrow>
     (share_code \<Rightarrow> endpoint_addr \<Rightarrow> peer_check) \<Rightarrow> (peer_check \<Rightarrow> json) \<Rightarrow> (network_status \<Rightarrow> json) \<Rightarrow>
     global_opts \<Rightarrow> str list \<Rightarrow> bool \<Rightarrow> network_status \<Rightarrow> (rat \<times> network_status) list \<Rightarrow> 'd \<Rightarrow> world \<Rightarrow>
     (cli_error + unit) \<times> line list" where
  "run_doctor E build check json_check json_status opts texts json status later d w =
     (case parse_codes (pc_code E) (lib_base64 E) texts of
        Inl e \<Rightarrow> (Inl e, [])
      | Inr codes \<Rightarrow>
          (case build (doctor_builder opts) d w of
             (Inl e, _) \<Rightarrow> (Inl (Context ''failed to start'' (Lib e)), [])
           | (Inr client, _) \<Rightarrow>
               (let final = poll_status 0 status later in
                (Inr (),
                 if json then
                   [Json (JObj [(''type'', JStr ''doctor''), (''device'', json_status final),
                      (''shares'', JList (map (\<lambda>code. JObj [(''name'', JStr (sc_name code)),
                         (''peer_count'', JNum (length (sc_peers code))),
                         (''peers'', JList (map json_check (client_check_peers (check code) code)))]) codes))])]
                 else
                   [Out ''This device''] @ device_lines final @
                   concat (map (\<lambda>code. Out (NL @ ''Share '' @ [CHR 0x22] @ sc_name code @ [CHR 0x22] @ '' ('' @
                         show_nat (length (sc_peers code)) @ '' peer(s) listed)'')
                       # concat (map check_lines (client_check_peers (check code) code))) codes)))))"

subsection \<open>Saved transfers\<close>

fun saved_json :: "display \<Rightarrow> saved_transfer \<Rightarrow> json" where
  "saved_json v (SavedSeed i path private) =
     JObj [(''type'', JStr ''seed''), (''share_id'', JStr (show_id v i)), (''path'', JStr (path_display path)),
       (''private'', JBool private)]"
| "saved_json v (SavedDownload code dest_dir) =
     JObj [(''type'', JStr ''download''), (''share_id'', JStr (show_id v (sc_id code))), (''name'', JStr (sc_name code)),
       (''destination'', JStr (path_display dest_dir))]"

fun saved_line :: "display \<Rightarrow> saved_transfer \<Rightarrow> line" where
  "saved_line v (SavedSeed i path private) =
     Out (''seed      '' @ show_id v i @ ''  '' @ path_display path @ (if private then '' (private)'' else []))"
| "saved_line v (SavedDownload code dest_dir) =
     Out (''download  '' @ show_id v (sc_id code) @ ''  '' @ sc_name code @ '' -> '' @ path_display dest_dir)"

definition run_list ::
  "'d libs \<Rightarrow> display \<Rightarrow> (bool \<Rightarrow> bool \<Rightarrow> 'd \<Rightarrow> world \<Rightarrow> (cli_error + 'd client) \<times> line list \<times> 'd \<times> world) \<Rightarrow>
     bool \<Rightarrow> 'd \<Rightarrow> world \<Rightarrow> (cli_error + unit) \<times> line list" where
  "run_list E v start json d w =
     (case start True True d w of
        (Inl e, out, _) \<Rightarrow> (Inl e, out)
      | (Inr client, out, _) \<Rightarrow>
          (case client_saved E client of
             Inl e \<Rightarrow> (Inl (Lib e), out)
           | Inr saved \<Rightarrow>
               (Inr (), out @
                 (if json then [Json (JList (map (saved_json v) saved))]
                  else (if saved = [] then [Out ''Nothing saved.''] else []) @ map (saved_line v) saved))))"

record 'd resumed =
  re_client :: "'d client"
  re_world :: world
  re_seeds :: "seed_handle list"
  re_downloads :: "(download_ctx \<times> path) list"
  re_lines :: "line list"

text \<open>
  One saved transfer, with the address its share gets: \<open>again\<close> is
  \<open>resume\<close>. A transfer that cannot be resumed does not stop the others.
\<close>

definition resume_one ::
  "display \<Rightarrow> (arc \<Rightarrow> saved_transfer \<Rightarrow> 'd client \<times> world \<Rightarrow> (error + transfer) \<times> 'd client \<times> world) \<Rightarrow>
     endpoint_addr \<Rightarrow> arc \<times> saved_transfer \<Rightarrow> 'd resumed \<Rightarrow> 'd resumed" where
  "resume_one v again me = (\<lambda>(a, item) r.
     (case again a item (re_client r, re_world r) of
        (Inr (SeedAgain sh), c, w) \<Rightarrow>
          r\<lparr>re_client := c, re_world := w, re_seeds := re_seeds r @ [sh],
            re_lines := re_lines r @ [Out (''Seeding '' @ path_display (seed_path sh c) @ NL @ ''  code: '' @
              show_code v (seed_share_code me sh))]\<rparr>
      | (Inr (DownloadAgain started), c, w) \<Rightarrow>
          r\<lparr>re_client := c, re_world := w, re_downloads := re_downloads r @ [started]\<rparr>
      | (Inl e, c, w) \<Rightarrow>
          r\<lparr>re_client := c, re_world := w,
            re_lines := re_lines r @ [Out (''Couldn't resume '' @ show_saved v item @ '': '' @ show_error v e)]\<rparr>))"

definition run_resume ::
  "'d libs \<Rightarrow> display \<Rightarrow> (bool \<Rightarrow> bool \<Rightarrow> 'd \<Rightarrow> world \<Rightarrow> (cli_error + 'd client) \<times> line list \<times> 'd \<times> world) \<Rightarrow>
     (arc \<Rightarrow> saved_transfer \<Rightarrow> 'd client \<times> world \<Rightarrow> (error + transfer) \<times> 'd client \<times> world) \<Rightarrow>
     endpoint_addr \<Rightarrow> arc list \<Rightarrow> 'd \<Rightarrow> world \<Rightarrow> (cli_error + 'd resumed) \<times> line list" where
  "run_resume E v start again me fresh d w =
     (case start True True d w of
        (Inl e, out, _) \<Rightarrow> (Inl e, out)
      | (Inr client, out, _, w1) \<Rightarrow>
          (case client_saved E client of
             Inl e \<Rightarrow> (Inl (Lib e), out)
           | Inr [] \<Rightarrow> (Inl (Bail ''nothing to resume''), out)
           | Inr saved \<Rightarrow>
               (let r = fold (resume_one v again me) (zip fresh saved)
                      \<lparr>re_client = client, re_world = w1, re_seeds = [], re_downloads = [], re_lines = []\<rparr> in
                (Inr (r\<lparr>re_client := fold stop_seed (re_seeds r) (re_client r)\<rparr>),
                 out @ re_lines r @ [Out ''Press Ctrl+C to stop.'']))))"

definition run_forget ::
  "'d libs \<Rightarrow> (bool \<Rightarrow> bool \<Rightarrow> 'd \<Rightarrow> world \<Rightarrow> (cli_error + 'd client) \<times> line list \<times> 'd \<times> world) \<Rightarrow>
     str \<Rightarrow> 'd \<Rightarrow> world \<Rightarrow> (cli_error + 'd client) \<times> line list \<times> world" where
  "run_forget E start share_id d w =
     (case start True True d w of
        (Inl e, out, _, w1) \<Rightarrow> (Inl e, out, w1)
      | (Inr client, out, _, w1) \<Rightarrow>
          (case share_id_from_str (lib_blake E) share_id of
             Inl e \<Rightarrow> (Inl (Lib e), out, w1)
           | Inr i \<Rightarrow>
               (case client_forget E i (client, w1) of
                  (Inl e, _, w2) \<Rightarrow> (Inl (Lib e), out, w2)
                | (Inr _, client1, w2) \<Rightarrow> (Inr client1, out @ [Out (''Forgot '' @ share_id)], w2))))"

subsection \<open>The program\<close>

datatype command =
    CmdSeed path bool "str option"
  | CmdGet "str list" bool bool
  | CmdList
  | CmdResume
  | CmdForget str
  | CmdDoctor "str list"
  | CmdCompletions str

text \<open>Which command runs, and with what; each is one of the functions above on the options.\<close>

definition main_command ::
  "(path \<Rightarrow> bool \<Rightarrow> str option \<Rightarrow> bool \<Rightarrow> 'r) \<Rightarrow> (str list \<Rightarrow> bool \<Rightarrow> bool \<Rightarrow> bool \<Rightarrow> 'r) \<Rightarrow> (bool \<Rightarrow> 'r) \<Rightarrow> 'r \<Rightarrow> (str \<Rightarrow> 'r) \<Rightarrow>
     (str list \<Rightarrow> bool \<Rightarrow> 'r) \<Rightarrow> (str \<Rightarrow> 'r) \<Rightarrow> global_opts \<Rightarrow> command \<Rightarrow> 'r" where
  "main_command seeding getting listing resuming forgetting checking completing opts cmd =
     (case cmd of
        CmdSeed path private join \<Rightarrow> seeding path private join (go_json opts)
      | CmdGet args keep_seeding no_reseed \<Rightarrow> getting args keep_seeding (\<not> no_reseed) (go_json opts)
      | CmdDoctor codes \<Rightarrow> checking codes (go_json opts)
      | CmdCompletions shell \<Rightarrow> completing shell
      | CmdList \<Rightarrow> listing (go_json opts)
      | CmdResume \<Rightarrow> resuming
      | CmdForget share_id \<Rightarrow> forgetting share_id)"

end
