(* ===== verification/Progress.thy ===== *)
theory Progress
  imports Swarm_Safety
begin

text \<open>
  What a download's events say of its progress: the bytes reported as resumed
  and as verified are, at every moment, those of the pieces the scheduler
  counts as done.
\<close>

subsection \<open>Bytes reported\<close>

fun event_bytes :: "event \<Rightarrow> u64" where
  "event_bytes (Resumed k n) = n"
| "event_bytes (PieceVerified i n) = n"
| "event_bytes _ = 0"

definition reported :: "event list \<Rightarrow> u64" where
  "reported es = sum_list (map event_bytes es)"

lemma reported_simps [simp]:
  "reported [] = 0" "reported (e # es) = event_bytes e + reported es" "reported (es @ fs) = reported es + reported fs"
  by (simp_all add: reported_def)

text \<open>The bytes of a set of pieces.\<close>

definition bytes_in :: "layout \<Rightarrow> nat set \<Rightarrow> u64" where
  "bytes_in l S = (\<Sum>p \<in> S. case locate l p of Some loc \<Rightarrow> loc_end loc - loc_start loc | None \<Rightarrow> 0)"

lemma bytes_in_insert:
  assumes "finite S" "p \<notin> S" "piece_len s p = Some n"
  shows "bytes_in (ls_layout s) (insert p S) = n + bytes_in (ls_layout s) S"
  using assms by (auto simp: bytes_in_def piece_len_def split: bind_splits)

subsection \<open>All pieces\<close>

lemma bytes_in_file:
  assumes "fits m" "f < length (m_files m)" "k \<le> file_pieces (m_files m ! f)"
  shows "bytes_in (layout_new m) ((+) (sum_pieces (take f (m_files m))) ` {..<k}) =
    word_of_nat (min (k * BLOCK_SIZE) (unat (fe_size (m_files m ! f))))"
  using assms(3)
proof (induction k)
  case 0
  show ?case by (simp add: bytes_in_def)
next
  case (Suc k)
  let ?a = "sum_pieces (take f (m_files m))" and ?size = "unat (fe_size (m_files m ! f))"
  have k: "k < file_pieces (m_files m ! f)" using Suc.prems by simp
  have small: "k * BLOCK_SIZE < ?size" using piece_bytes(3) [OF assms(1,2) k] .
  have "bytes_in (layout_new m) (insert (?a + k) ((+) ?a ` {..<k})) =
      word_of_nat (min (k * BLOCK_SIZE + BLOCK_SIZE) ?size) - word_of_nat (k * BLOCK_SIZE)
        + bytes_in (layout_new m) ((+) ?a ` {..<k})"
    by (simp add: bytes_in_def locate_file_piece [OF assms(1,2) k] image_iff)
  also have "\<dots> = word_of_nat (min (k * BLOCK_SIZE + BLOCK_SIZE) ?size)"
    using Suc small by (simp add: min_absorb1)
  finally show ?case by (simp add: lessThan_Suc add.commute)
qed

lemma bytes_in_union:
  "finite S \<Longrightarrow> finite T \<Longrightarrow> S \<inter> T = {} \<Longrightarrow> bytes_in l (S \<union> T) = bytes_in l S + bytes_in l T"
  by (simp add: bytes_in_def sum.union_disjoint)

lemma bytes_in_take:
  assumes "fits m" "f \<le> length (m_files m)"
  shows "bytes_in (layout_new m) {..<sum_pieces (take f (m_files m))} = sum_list (map fe_size (take f (m_files m)))"
  using assms(2)
proof (induction f)
  case 0
  show ?case by (simp add: bytes_in_def)
next
  case (Suc f)
  let ?a = "sum_pieces (take f (m_files m))" and ?n = "file_pieces (m_files m ! f)"
  have f: "f < length (m_files m)" using Suc.prems by simp
  have split: "{..<sum_pieces (take (Suc f) (m_files m))} = {..<?a} \<union> (+) ?a ` {..<?n}"
  proof -
    have "(+) ?a ` {..<?n} = {?a..<?a + ?n}" by (simp add: lessThan_atLeast0 image_add_atLeastLessThan add.commute)
    then show ?thesis by (auto simp: sum_pieces_take_Suc [OF f])
  qed
  have "unat (fe_size (m_files m ! f)) \<le> ?n * BLOCK_SIZE"
    unfolding file_pieces_def by (rule div_ceil_bounds(1)) simp
  then have "bytes_in (layout_new m) ((+) ?a ` {..<?n}) = fe_size (m_files m ! f)"
    using bytes_in_file [OF assms(1) f, of ?n] by (simp add: min_absorb2)
  moreover have "{..<?a} \<inter> (+) ?a ` {..<?n} = {}" by auto
  ultimately show ?case
    unfolding split using Suc f by (simp add: bytes_in_union take_Suc_conv_app_nth)
qed

lemma foldl_sum_list: "foldl (+) a xs = a + sum_list xs" for a :: "'a::monoid_add"
  by (induction xs arbitrary: a) (simp_all add: add.assoc)

lemma bytes_in_all:
  assumes "fits m"
  shows "bytes_in (layout_new m) {..<total_pieces (layout_new m)} = total_size m"
  using bytes_in_take [OF assms order_refl] layout_new_sums(1) [OF assms]
  by (simp add: total_size_def foldl_sum_list)

subsection \<open>What reports nothing\<close>

definition quiet :: "local_share \<Rightarrow> local_share \<Rightarrow> bool" where
  "quiet s s' \<longleftrightarrow> ls_layout s' = ls_layout s \<and> length (ls_have s') = length (ls_have s) \<and> ls_events s' = ls_events s"

lemma quiet_refl [simp]: "quiet s s"
  by (simp add: quiet_def)

lemma quiet_trans: "quiet s s' \<Longrightarrow> quiet s' s'' \<Longrightarrow> quiet s s''"
  by (simp add: quiet_def)

lemma quiet_file [simp]: "quiet s (set_local_file i f' s') = quiet s s'"
  by (simp add: quiet_def set_local_file_def)

lemma quiet_allowed [simp]: "quiet s (set_allowed a s') = quiet s s'"
  by (simp add: quiet_def set_allowed_def)

lemma quiet_mark: "mark_have p s = Some s' \<Longrightarrow> quiet s s'"
  unfolding mark_have_def by (cases "idx (ls_have s) p") (auto simp: quiet_def split: if_splits)

interpretation quiet: share_steps quiet
  by unfold_locales (auto intro: quiet_trans quiet_mark)

subsection \<open>The engine\<close>

text \<open>
  The bytes reported are those of the pieces done; the rest of the invariant is
  what the scheduler's calls need, for \<open>k\<close> more of them.
\<close>

definition counted :: "layout \<Rightarrow> nat \<Rightarrow> engine \<Rightarrow> bool" where
  "counted l k g \<longleftrightarrow> ls_layout (eg_share g) = l \<and> sched_room k (eg_sched g) \<and>
     length (pieces (eg_sched g)) = length (ls_have (eg_share g)) \<and> share_total_pieces (eg_share g) = length (ls_have (eg_share g)) \<and>
     (\<forall>(q, i) \<in> set (eg_requests g). i < length (ls_have (eg_share g))) \<and>
     reported (ls_events (eg_share g)) = bytes_in l (done_set (eg_sched g))"

lemma sched_effect:
  assumes "sched_room (Suc k) s" "op_ok (length (pieces s)) x" "sched_exec x s = Some s'"
  shows "sched_room k s' \<and> length (pieces s') = length (pieces s) \<and> done_set s' = done_set s \<union> done_effect x"
  using sched.exec_ok [OF assms(1,2)] assms(3) by auto

lemma counted_weaken: "counted l (Suc k) g \<Longrightarrow> counted l k g"
  by (auto simp: counted_def sched_room_def)

lemma counted_less: "counted l n g \<Longrightarrow> k \<le> n \<Longrightarrow> counted l k g"
  by (auto simp: counted_def sched_room_def)

lemma counted_quiet:
  assumes "counted l k g" "quiet (eg_share g) s"
  shows "counted l k (g\<lparr>eg_share := s\<rparr>)"
  using assms by (auto simp: counted_def quiet_def share_total_pieces_def)

lemma event_frame [simp]: "ls_layout (emit e s) = ls_layout s" "ls_events (emit e s) = ls_events s @ [e]"
  by (simp_all add: emit_def)

lemma counted_event [simp]: "event_bytes e = 0 \<Longrightarrow> counted l k (send_event e g) = counted l k g"
  by (simp add: counted_def)

lemma counted_fields [simp]:
  "counted l k (g\<lparr>eg_strikes := f\<rparr>) = counted l k g" "counted l k (g\<lparr>eg_connected := c\<rparr>) = counted l k g"
  by (simp_all add: counted_def)

text \<open>A call of the scheduler that completes nothing.\<close>

lemma counted_sched:
  assumes "counted l (Suc k) g" "sched_exec x (eg_sched g) = Some s'" "op_ok (length (ls_have (eg_share g))) x" "done_effect x = {}"
  shows "counted l k (g\<lparr>eg_sched := s'\<rparr>)"
proof -
  have "sched_room k s' \<and> length (pieces s') = length (pieces (eg_sched g)) \<and> done_set s' = done_set (eg_sched g) \<union> done_effect x"
    using assms by (intro sched_effect) (simp_all add: counted_def)
  with assms show ?thesis by (simp add: counted_def)
qed

lemma counted_requests:
  assumes "counted l k g" "set reqs \<subseteq> set (eg_requests g)"
  shows "counted l k (g\<lparr>eg_requests := reqs\<rparr>)"
  using assms by (auto simp: counted_def)

lemma counted_back:
  assumes "counted l (Suc k) g" "give_back i peer b g = Some g'" "i < length (ls_have (eg_share g))"
  shows "counted l k g' \<and> eg_share g' = eg_share g"
  using assms counted_sched [of l k g "Failed i peer b"] by (auto simp: give_back_def split: bind_splits)

lemma done_set_finite: "finite (done_set s)"
  by (simp add: done_set_def)

lemma counted_receive:
  assumes g: "counted l (Suc k) g" and i: "i < length (ls_have (eg_share g))"
    and run: "receive_piece h A B se peer i encoded (g, w) = Some (g', w')"
  shows "counted l k g'"
proof (cases "store_piece h A B i encoded (eg_share g) w")
  case None
  with run obtain g1 where "give_back i peer False g = Some g1" "g' = send_event (PieceFailed i ''task panicked'') g1"
    by (auto simp: receive_piece_def split: bind_splits)
  then show ?thesis using counted_back [OF g _ i] by auto
next
  case (Some a)
  obtain r s1 w1 where a: "a = (r, s1, w1)" by (cases a)
  with Some have stored: "store_piece h A B i encoded (eg_share g) w = Some (r, s1, w1)" by simp
  have q: "quiet (eg_share g) s1" by (rule quiet.store_piece [OF stored])
  have i1: "i < length (ls_have s1)" using q i by (simp add: quiet_def)
  show ?thesis
  proof (cases r)
    case (Inl e)
    let ?g = "strike peer (g\<lparr>eg_share := s1\<rparr>)"
    from run Inl stored obtain g1 where "give_back i peer True ?g = Some g1" "g' = send_event (PieceFailed i (se e)) g1"
      by (auto simp: receive_piece_def split: bind_splits)
    moreover have "counted l (Suc k) ?g" using counted_quiet [OF g q] by (simp add: strike_def)
    ultimately show ?thesis using counted_back [of l k ?g i peer True g1] i1 by (auto simp: strike_def)
  next
    case (Inr b)
    let ?g = "g\<lparr>eg_share := s1, eg_strikes := (eg_strikes g)(peer := 0)\<rparr>"
    have g1: "counted l (Suc k) ?g" using counted_quiet [OF g q] by (simp add: counted_def)
    then have room: "sched_room (Suc k) (eg_sched g)" "length (pieces (eg_sched g)) = length (ls_have s1)" "sched_inv (eg_sched g)"
      by (simp_all add: counted_def sched_room_def)
    have i2: "i < length (pieces (eg_sched g))" using i1 room(2) by simp
    note c = complete_Some(1) [OF room(3) i2]
    have after: "sched_room k (completed i (eg_sched g)) \<and> length (pieces (completed i (eg_sched g))) = length (pieces (eg_sched g)) \<and>
        done_set (completed i (eg_sched g)) = done_set (eg_sched g) \<union> {i}"
      using sched_effect [OF room(1), of "Complete i" "completed i (eg_sched g)"] c i2 by simp
    have mem: "i \<in> done_set (eg_sched g) \<longleftrightarrow> pieces (eg_sched g) ! i = Done" using i2 by (simp add: done_set_def)
    show ?thesis
    proof (cases "pieces (eg_sched g) ! i = Done")
      case True
      with run Inr stored c have "g' = ?g\<lparr>eg_sched := completed i (eg_sched g)\<rparr>"
        by (auto simp: receive_piece_def Let_def split: bind_splits)
      then show ?thesis using g1 after mem True room(2) by (simp add: counted_def insert_absorb)
    next
      case False
      with run Inr stored c obtain n where n: "piece_len s1 i = Some n"
        "g' = send_event (PieceVerified i n) (?g\<lparr>eg_sched := completed i (eg_sched g)\<rparr>)"
        by (auto simp: receive_piece_def Let_def split: bind_splits)
      have "bytes_in (ls_layout s1) (insert i (done_set (eg_sched g))) = n + bytes_in (ls_layout s1) (done_set (eg_sched g))"
        using False mem n(1) by (intro bytes_in_insert done_set_finite) simp_all
      then show ?thesis using g1 after room(2) n(2) by (simp add: counted_def add.commute)
    qed
  qed
qed

lemma counted_answer:
  assumes g: "counted l (Suc k) g" and i: "i < length (ls_have (eg_share g))"
    and run: "answer_worker h A B se peer i answer (g, w) = Some (g', w')"
  shows "counted l k g'"
proof -
  define g0 where "g0 = g\<lparr>eg_requests := remove1 (peer, i) (eg_requests g)\<rparr>"
  have g0: "counted l (Suc k) g0" "i < length (ls_have (eg_share g0))"
    using counted_requests [OF g set_remove1_subset] i by (simp_all add: g0_def)
  have ret: "counted l k g2" if "give_back i peer b (g0\<lparr>eg_strikes := f\<rparr>) = Some g2" for b f g2
    using counted_back [of l k "g0\<lparr>eg_strikes := f\<rparr>", OF _ that] g0 by simp
  have plain: "counted l k g2" if "give_back i peer b g0 = Some g2" for b g2
    using counted_back [OF g0(1) that g0(2)] by blast
  from run show ?thesis
    unfolding answer_worker_def g0_def [symmetric] Let_def split_conv
    by (cases answer; (cases "projr answer")?)
       (auto simp: strike_def split: bind_splits response.splits dest: ret plain counted_receive [OF g0])
qed

lemma op_len: "counted l k g \<Longrightarrow> length (unpack_bits b (share_total_pieces (eg_share g))) = length (ls_have (eg_share g))"
  by (simp add: counted_def unpack_bits_def)

lemma counted_join:
  assumes g: "counted l (Suc k) g" and run: "join_peer sp peer first g = Some (b, g')"
  shows "counted l k g'"
proof (cases "\<exists>bits. first = Inr (RespBitfield bits)")
  case False
  with run show ?thesis using counted_weaken [OF g] by (auto simp: join_peer_def split: sum.splits response.splits)
next
  case True
  then obtain bits where bits: "first = Inr (RespBitfield bits)" by blast
  let ?u = "unpack_bits bits (share_total_pieces (eg_share g))"
  from run bits obtain sched where sched: "add_peer peer ?u (eg_sched g) = Some sched"
    "g' = (send_event (PeerConnected (sp peer) (length (filter id ?u)) (share_total_pieces (eg_share g))) g)
       \<lparr>eg_sched := sched, eg_strikes := (eg_strikes g)(peer := 0)\<rparr>"
    by (auto simp: join_peer_def Let_def split: bind_splits)
  have "counted l k ((send_event (PeerConnected (sp peer) (length (filter id ?u)) (share_total_pieces (eg_share g))) g)\<lparr>eg_sched := sched\<rparr>)"
    by (rule counted_sched [of l k _ "AddPeer peer ?u"]) (use g sched(1) op_len [OF g] in simp_all)
  then show ?thesis unfolding sched(2) by simp
qed

lemma counted_hear:
  assumes g: "counted l (Suc k) g" and run: "hear_peer peer msg g = Some g'"
  shows "counted l k g'"
proof (cases msg)
  case (RespHave piece)
  with run obtain sched where "set_peer_has peer (unat piece) (eg_sched g) = Some sched" "g' = g\<lparr>eg_sched := sched\<rparr>"
    by (auto simp: hear_peer_def split: bind_splits)
  then show ?thesis using counted_sched [OF g, of "PeerHas peer (unat piece)"] by simp
next
  case (RespBitfield bits)
  with run obtain sched where "add_peer peer (unpack_bits bits (share_total_pieces (eg_share g))) (eg_sched g) = Some sched"
    "g' = g\<lparr>eg_sched := sched\<rparr>"
    by (auto simp: hear_peer_def split: bind_splits)
  then show ?thesis
    using counted_sched [OF g, of "AddPeer peer (unpack_bits bits (share_total_pieces (eg_share g)))"] op_len [OF g] by simp
qed (use run counted_weaken [OF g] in \<open>auto simp: hear_peer_def\<close>)

lemma counted_leave:
  assumes g: "counted l (Suc k) g" and run: "leave_peer sp peer used g = Some g'"
  shows "counted l k g'"
proof -
  from run obtain sched where sched: "remove_peer peer (eg_sched g) = Some sched"
    by (auto simp: leave_peer_def split: bind_splits)
  let ?g = "g\<lparr>eg_sched := sched, eg_connected := eg_connected g - {peer},
      eg_requests := filter (\<lambda>(q, _). q \<noteq> peer) (eg_requests g)\<rparr>"
  have "counted l k (g\<lparr>eg_sched := sched\<rparr>)" using counted_sched [OF g, of "RemovePeer peer"] sched by simp
  then have "counted l k ?g" by (auto simp: counted_def)
  moreover have "g' = (if used \<and> \<not> engine_is_done ?g then send_event (PeerDisconnected (sp peer)) ?g else ?g)"
    using run sched by (simp add: leave_peer_def Let_def)
  ultimately show ?thesis by simp
qed

lemma counted_ask:
  assumes g: "counted l (Suc k) g" and run: "ask_peer peer g = Some (r, g')"
  shows "counted l k g'"
proof (cases "engine_is_done g \<or> eg_strikes g peer \<ge> MAX_STRIKES")
  case True
  with run show ?thesis using counted_weaken [OF g] by (auto simp: ask_peer_def)
next
  case False
  with run obtain p sched where sched: "pick peer (eg_sched g) = Some (p, sched)"
    "g' = (case p of None \<Rightarrow> g\<lparr>eg_sched := sched\<rparr> | Some i \<Rightarrow> g\<lparr>eg_sched := sched, eg_requests := (peer, i) # eg_requests g\<rparr>)"
    by (auto simp: ask_peer_def Let_def split: bind_splits option.splits)
  have 1: "counted l k (g\<lparr>eg_sched := sched\<rparr>)" using counted_sched [OF g, of "Pick peer"] sched(1) by simp
  show ?thesis
  proof (cases p)
    case (Some i)
    have inv: "sched_inv (eg_sched g)" using g by (simp add: counted_def sched_room_def)
    obtain bits where bits: "peers (eg_sched g) peer = Some bits"
      using sched(1) Some inv by (cases "peers (eg_sched g) peer") (auto simp: pick_unknown)
    obtain c where "chosen_by (eg_sched g) bits peer c"
      "pick peer (eg_sched g) = Some (c, case c of None \<Rightarrow> eg_sched g | Some i \<Rightarrow> picked peer i (eg_sched g))"
      using pick_Some [OF inv bits] by blast
    then have "i < length (pieces (eg_sched g))" using chosen_by_sound(1) [OF inv] sched(1) Some by fastforce
    then show ?thesis using 1 g sched(2) Some by (auto simp: counted_def)
  qed (use 1 sched(2) in simp)
qed

lemma counted_exec:
  assumes g: "counted l (Suc (Suc k)) g" and run: "engine_exec h A B sp se x (g, w) = Some (g', w')"
  shows "counted l k g'"
proof -
  note g1 = counted_weaken [OF g] and g0 = counted_weaken [OF counted_weaken [OF g]]
  show ?thesis
  proof (cases x)
    case (Connect peer)
    with run g0 show ?thesis by (auto simp: open_peer_def split: if_splits)
  next
    case (Join peer first)
    with run g0 show ?thesis
      by (auto split: if_splits bind_splits prod.splits dest!: counted_join [OF g] dest: counted_leave counted_weaken)
  next
    case (Hear peer msg)
    with run g0 show ?thesis by (auto split: if_splits bind_splits dest: counted_hear [OF g1])
  next
    case (Ask peer)
    with run g0 show ?thesis by (auto split: if_splits bind_splits dest: counted_ask [OF g1])
  next
    case (Answer peer i answer)
    have "i < length (ls_have (eg_share g))" if "(peer, i) \<in> set (eg_requests g)" using g that by (auto simp: counted_def)
    with Answer run g0 show ?thesis by (auto split: if_splits dest: counted_answer [OF g1])
  next
    case (Leave peer)
    with run g0 show ?thesis by (auto split: if_splits bind_splits dest: counted_leave [OF g1])
  next
    case (Detached i encoded)
    with run g0 show ?thesis
      by (auto simp: store_detached_def split: if_splits option.splits prod.splits dest!: quiet.store_piece intro: counted_quiet)
  qed
qed

lemma counted_swarm:
  assumes "counted l (2 * length xs + k) g" and "swarm E sp se dest xs (g, t, store, w) = Some (r, g', store', w')"
  shows "counted l k g'"
  using assms
proof (induction xs arbitrary: g t store w)
  case Nil
  then show ?case by simp
next
  case (Cons x xs)
  have weak: "counted l (2 * length xs + k) g" "counted l k g"
    using counted_less [OF Cons.prems(1)] by simp_all
  show ?case
  proof (cases x)
    case (Work op)
    with Cons.prems obtain g1 w1 where g1: "engine_exec (lib_blake E) (lib_aead E) (lib_bao E) sp se op (g, w) = Some (g1, w1)"
      "swarm E sp se dest xs (g1, t, store, w1) = Some (r, g', store', w')"
      by (auto split: bind_splits)
    have "counted l (2 * length xs + k) g1" using counted_exec [OF _ g1(1), of l "2 * length xs + k"] Cons.prems(1) by simp
    then show ?thesis by (rule Cons.IH [OF _ g1(2)])
  next
    case SaveTick
    obtain st1 w1 where "save_now E dest g (store, w) = (st1, w1)" by fastforce
    with Cons SaveTick weak show ?thesis by (auto simp: Let_def split: if_splits prod.splits)
  qed (use Cons weak in \<open>auto simp: Let_def cancel_download_def split: if_splits prod.splits\<close>)
qed

subsection \<open>From the start to the end of a download\<close>

lemma held_bytes_in:
  "held_bytes s is = Some b \<Longrightarrow> distinct is \<Longrightarrow> bytes_in (ls_layout s) {i \<in> set is. has s i} = b"
proof (induction "is" arbitrary: b)
  case Nil
  then show ?case by (simp add: bytes_in_def)
next
  case (Cons i "is")
  show ?case
  proof (cases "has s i")
    case True
    with Cons.prems obtain n r where n: "piece_len s i = Some n" "held_bytes s is = Some r" "b = n + r"
      by (auto split: bind_splits)
    have "{j \<in> set (i # is). has s j} = insert i {j \<in> set is. has s j}" using True by auto
    then show ?thesis
      using bytes_in_insert [OF _ _ n(1), of "{j \<in> set is. has s j}"] Cons.IH [OF n(2)] Cons.prems(2) n(3) by simp
  next
    case False
    then have "{j \<in> set (i # is). has s j} = {j \<in> set is. has s j}" by auto
    with False Cons show ?thesis by simp
  qed
qed

lemma have_count_0: "have_count s = 0 \<longleftrightarrow> {i. i < length (ls_have s) \<and> ls_have s ! i} = {}"
proof -
  have "filter id (ls_have s) = [] \<longleftrightarrow> (\<forall>b \<in> set (ls_have s). \<not> b)" by (simp add: filter_empty_conv)
  then show ?thesis by (auto simp: have_count_def in_set_conv_nth)
qed

lemma resumed_counted:
  assumes "resumed_event s = Some s'" "ls_events s = []" "share_total_pieces s = length (ls_have s)"
  shows "reported (ls_events s') = bytes_in (ls_layout s') {i. i < length (ls_have s') \<and> ls_have s' ! i}"
    "ls_layout s' = ls_layout s" "ls_have s' = ls_have s"
proof -
  have set: "{i \<in> set [0..<share_total_pieces s]. has s i} = {i. i < length (ls_have s) \<and> ls_have s ! i}"
    using assms(3) by (auto simp: has_idx)
  show "ls_layout s' = ls_layout s" "ls_have s' = ls_have s"
    using assms(1) by (auto simp: resumed_event_def split: if_splits bind_splits)
  show "reported (ls_events s') = bytes_in (ls_layout s') {i. i < length (ls_have s') \<and> ls_have s' ! i}"
  proof (cases "have_count s > 0")
    case True
    with assms(1) obtain b where b: "held_bytes s [0..<share_total_pieces s] = Some b" "s' = emit (Resumed (have_count s) b) s"
      by (auto simp: resumed_event_def split: bind_splits)
    have "bytes_in (ls_layout s) {i. i < length (ls_have s) \<and> ls_have s ! i} = b"
      using held_bytes_in [OF b(1)] unfolding set by simp
    then show ?thesis using b(2) assms(2) by simp
  next
    case False
    then have "{i. i < length (ls_have s) \<and> ls_have s ! i} = {}" "s' = s"
      using assms(1) have_count_0 [of s] by (auto simp: resumed_event_def)
    then show ?thesis using assms(2) by (simp only:) (simp add: bytes_in_def)
  qed
qed

lemma for_download_quiet:
  assumes "for_download h B m b dest key secret w = Some (Inr s, w')"
  shows "ls_layout s = layout_new m" "length (ls_have s) = total_pieces (layout_new m)" "ls_events s = []"
proof -
  let ?root = "case key of Some _ \<Rightarrow> dest | None \<Rightarrow> path_join dest (path_of (m_name m))"
  from assms obtain fs fin where "mark_complete fin (from_parts h m b fs secret False ?root) = Some s"
    by (auto simp: for_download_def split: prod.splits sum.splits bind_splits)
  from quiet.mark_complete [OF this]
  show "ls_layout s = layout_new m" "length (ls_have s) = total_pieces (layout_new m)" "ls_events s = []"
    by (simp_all add: quiet_def from_parts_def Let_def)
qed

lemma restored_share_quiet:
  assumes "restored_share E m b dest key secret store w = Some (Inr s, w')"
  shows "ls_layout s = layout_new m" "length (ls_have s) = total_pieces (layout_new m)" "ls_events s = []"
proof -
  obtain s0 w0 where s0: "for_download (lib_blake E) (lib_bao E) m b dest key secret w = Some (Inr s0, w0)" "quiet s0 s"
    using assms that unfolding restored_share_def restore_progress_def
    by (auto split: option.splits prod.splits sum.splits dest!: quiet.restore_files)
  with for_download_quiet [OF s0(1)]
  show "ls_layout s = layout_new m" "length (ls_have s) = total_pieces (layout_new m)" "ls_events s = []"
    by (simp_all add: quiet_def)
qed

lemma prepare_counted:
  assumes "prepare_download E order reseed key allow code m b dest a (store, hub, w) = Some (Inr s, store', hub', w')"
    and "k < 2 ^ 32"
  shows "counted (layout_new m) k (engine_new s)"
proof -
  from assms(1) obtain s0 s1 w1 where s0: "restored_share E m b dest key (sc_secret code) store w = Some (Inr s0, w1)"
    and s1: "resumed_event (set_allowed allow s0) = Some s1" "s = s1"
    by (auto simp: prepare_download_def split: bind_splits sum.splits if_splits prod.splits)
  note q = restored_share_quiet [OF s0]
  have start: "ls_layout (set_allowed allow s0) = layout_new m" "length (ls_have (set_allowed allow s0)) = total_pieces (layout_new m)"
    "ls_events (set_allowed allow s0) = []"
    using q by (simp_all add: set_allowed_def)
  note r = resumed_counted [OF s1(1) start(3), folded s1(2)]
  have tot: "share_total_pieces (set_allowed allow s0) = length (ls_have (set_allowed allow s0))"
    using start by (simp add: share_total_pieces_def)
  have lay: "ls_layout s = layout_new m" and len: "length (ls_have s) = total_pieces (layout_new m)"
    using r(2,3) [OF tot] start by simp_all
  have "done_set (eg_sched (engine_new s)) = {i. i < length (ls_have s) \<and> ls_have s ! i}"
    by (simp add: engine_new_def done_set_new)
  then show "counted (layout_new m) k (engine_new s)"
    using r(1) [OF tot] lay len assms(2)
    by (simp add: counted_def engine_new_def sched_room_def sched_new_inv share_total_pieces_def)
qed

lemma finish_events: "finish_download E dest g (store, w) = (Inr out, store', w') \<Longrightarrow>
   ls_events (oc_share out) = ls_events (eg_share g) @ [Completed]"
  by (auto simp: finish_download_def Let_def store_mark_complete_def result_simps release_writers_def
      split: sum.splits option.splits prod.splits)

lemma done_engine_bytes:
  assumes "counted (layout_new m) k g" "engine_is_done g" "fits m"
  shows "reported (ls_events (eg_share g)) = total_size m"
proof -
  have inv: "sched_inv (eg_sched g)" using assms(1) by (simp add: counted_def sched_room_def)
  have "done_set (eg_sched g) = {..<length (pieces (eg_sched g))}"
    using is_done_set [OF inv] assms(2) by (simp add: engine_is_done_def)
  moreover have "length (pieces (eg_sched g)) = total_pieces (layout_new m)"
    using assms(1) by (auto simp: counted_def share_total_pieces_def)
  ultimately show ?thesis using assms(1) bytes_in_all [OF assms(3)] by (simp add: counted_def)
qed

text \<open>The bytes a finished download has reported are those of the share.\<close>

lemma download_reports:
  assumes "download_run E sp se order ctx code dest a rounds events (store, hub, w) = Some (Some (Inr out), store', hub', w')"
    and "fits (ls_manifest (oc_share out))" and "2 * length events + 4 < 2 ^ 32"
  shows "reported (ls_events (oc_share out)) = sc_total_size code"
proof -
  from assms(1) obtain m b addr t s store1 hub1 w1 g where
    found: "search_rounds (lib_blake E) (pc_manifest E) (lib_lower E) sp code (cx_discovery_timeout ctx)
        (first_found code rounds) (search_new (cx_me ctx)) = Inl (Inr (m, b, addr, t))"
    and made: "prepare_download E order (cx_reseed ctx) (cx_key ctx) (cx_allow ctx) code m b dest a (store, hub, w) =
        Some (Inr s, store1, hub1, w1)"
    and run: "swarm E sp se dest (Work (Connect (ea_id addr)) # FinishedNotified # events)
        (engine_new s, manifest_received m t, store1, w1) = Some (Some (Inr out), g, store', w')"
    unfolding download_run_def by (auto simp del: swarm.simps split: sum.splits prod.splits bind_splits)
  have "counted (layout_new m) (2 * length (Work (Connect (ea_id addr)) # FinishedNotified # events) + 0) (engine_new s)"
    by (rule prepare_counted [OF made]) (use assms(3) in simp)
  from counted_swarm [OF this run] have g: "counted (layout_new m) 0 g" .
  note same = same_run.swarm [OF run refl refl refl]
  obtain store2 w2 where fin: "finish_download E dest g (store2, w2) = (Inr out, store', w')" and "engine_is_done g"
    using swarm_ended [OF run] by blast
  moreover have m: "ls_manifest (oc_share out) = m"
    using finish_download_ok(2) [OF fin] same prepare_share(1) [OF made] by (simp add: same_share_def engine_new_def)
  moreover have "total_size m = sc_total_size code"
    using search_rounds_found [OF found] fetch_manifest_ok(3) by blast
  ultimately show ?thesis
    using done_engine_bytes [OF g] assms(2) finish_events [OF fin] by simp
qed

end
