(* ===== verification/Cli_Safety.thy ===== *)
theory Cli_Safety
  imports Cli Client_Safety Progress
begin

text \<open>
  What the command line program gets right: rates, the arguments of \<open>get\<close>,
  which state a command runs with, and what a progress bar shows.
\<close>

subsection \<open>Rates\<close>

definition is_digit :: "char \<Rightarrow> bool" where
  "is_digit c \<longleftrightarrow> digit c \<noteq> None"

lemma digit_of_nat: "d < 10 \<Longrightarrow> digit (char_of (48 + d :: nat)) = Some d"
  by (simp add: digit_def)

lemma digits_value_append:
  "digits_value (xs @ ys) acc = Option.bind (digits_value xs acc) (digits_value ys)"
  by (induction xs acc rule: digits_value.induct) (auto split: Option.bind_splits)

lemma digits_value_show: "n < 2 ^ 64 \<Longrightarrow> digits_value (show_nat n) 0 = Some n"
proof (induction n rule: show_nat.induct)
  case (1 n)
  show ?case
  proof (cases "n < 10")
    case True
    then show ?thesis by (subst show_nat.simps) (simp add: digit_of_nat)
  next
    case False
    then have "digits_value (show_nat (n div 10)) 0 = Some (n div 10)" using 1 by simp
    moreover have "n div 10 * 10 + n mod 10 = n" by simp
    ultimately show ?thesis using False 1(2)
      by (subst show_nat.simps) (simp add: digits_value_append digit_of_nat mult.commute)
  qed
qed

lemma show_nat_digits: "show_nat n \<noteq> [] \<and> (\<forall>c \<in> set (show_nat n). is_digit c)"
proof (induction n rule: show_nat.induct)
  case (1 n)
  have eq: "show_nat n = (if n < 10 then [char_of (48 + n)] else show_nat (n div 10) @ [char_of (48 + n mod 10)])"
    by (rule show_nat.simps)
  have "n mod 10 < 10" by simp
  then have "is_digit (char_of (48 + n mod 10))" unfolding is_digit_def by (simp only: digit_of_nat) simp
  moreover have "n < 10 \<Longrightarrow> is_digit (char_of (48 + n))" unfolding is_digit_def by (simp only: digit_of_nat) simp
  ultimately show ?case using 1 unfolding eq by (cases "n < 10") auto
qed

lemma digit_b64: "is_digit c \<Longrightarrow> b64_char c \<and> c \<noteq> CHR ''+'' \<and> rate_unit c = None"
  by (auto simp: is_digit_def digit_def b64_char_def rate_unit_def Let_def split: if_splits)

definition rate_suffixes :: "(str \<times> nat) list" where
  "rate_suffixes = [('''', 1), (''k'', 2 ^ 10), (''K'', 2 ^ 10), (''m'', 2 ^ 20), (''M'', 2 ^ 20), (''g'', 2 ^ 30), (''G'', 2 ^ 30)]"

lemma parse_u64_show:
  assumes "n < 2 ^ 64"
  shows "parse_u64 (show_nat n) = Some (of_nat n)"
proof (cases "show_nat n")
  case Nil
  then show ?thesis using show_nat_digits by blast
next
  case (Cons c rest)
  then have "is_digit c" using show_nat_digits [of n] by simp
  then have "c \<noteq> CHR ''+''" using digit_b64 by blast
  with Cons digits_value_show [OF assms] show ?thesis by (simp add: parse_u64_def)
qed

lemma trim_digits: "\<forall>c \<in> set s. is_digit c \<Longrightarrow> trim s = s"
  using trim_b64 digit_b64 by blast

lemma parse_rate_plain:
  assumes "trim s = s" and "s \<noteq> []" and "case rate_unit (last s) of None \<Rightarrow> u = 1 \<and> t = s | Some v \<Rightarrow> v = u \<and> t = butlast s"
    and "parse_u64 (trim t) = Some n"
  shows "parse_rate s = map_option Inr (checked_mul n u)"
  using assms by (auto simp: parse_rate_def Let_def split: option.splits)

lemma rate_suffix:
  assumes "(suffix, u) \<in> set rate_suffixes"
  shows "suffix = [] \<and> u = 1 \<or>
    suffix = [hd suffix] \<and> rate_unit (hd suffix) = Some (of_nat u) \<and> b64_char (hd suffix) \<and> u < 2 ^ 64"
  using assms unfolding rate_suffixes_def list.set insert_iff empty_iff prod.inject
  by (elim disjE) (simp_all add: rate_unit_def b64_char_def)

text \<open>C27: a rate such as 500K or 2M means what it says: a decimal number, with a
  suffix for 2^10, 2^20 or 2^30 bytes in either case, reads as exactly that many
  bytes per second. When the product needs more than 64 bits the multiplication
  overflows, which is a panic, or a wrong rate without overflow checks; it is
  not reported as an error.\<close>

theorem parse_rate_exact:
  assumes "n < 2 ^ 64" and "(suffix, u) \<in> set rate_suffixes"
  shows "parse_rate (show_nat n @ suffix) = (if n * u < 2 ^ 64 then Some (Inr (of_nat (n * u))) else None)"
proof -
  let ?s = "show_nat n @ suffix"
  note digits = show_nat_digits [of n]
  from rate_suffix [OF assms(2)] consider "suffix = []" "u = 1"
    | c where "suffix = [c]" "rate_unit c = Some (of_nat u)" "b64_char c" "u < 2 ^ 64"
    by blast
  then have "parse_rate ?s = map_option Inr (checked_mul (of_nat n) (of_nat u)) \<and> u < 2 ^ 64"
  proof cases
    case 1
    have "rate_unit (last (show_nat n)) = None" using digits digit_b64 last_in_set by blast
    then show ?thesis
      using parse_rate_plain [of "show_nat n" 1 "show_nat n" "of_nat n"] 1 digits trim_digits parse_u64_show [OF assms(1)] by simp
  next
    case (2 c)
    have "\<forall>x \<in> set ?s. b64_char x" using digits digit_b64 2 by auto
    from trim_b64 [OF this] show ?thesis
      using parse_rate_plain [of ?s "of_nat u" "show_nat n" "of_nat n"] 2 digits trim_digits parse_u64_show [OF assms(1)] by simp
  qed
  with assms(1) show ?thesis by (simp add: checked_mul_def unat_of_nat)
qed

theorem parse_rate_exact_witness:
  "parse_rate ''500K'' = Some (Inr 512000) \<and> parse_rate ''18014398509481984K'' = None"
proof -
  have nums: "show_nat 500 = ''500''" "show_nat 18014398509481984 = ''18014398509481984''"
    by (simp_all add: show_nat.simps char_of_def bit_0 bit_Suc_0_iff)
  have K: "(''K'', 2 ^ 10) \<in> set rate_suffixes" by (simp add: rate_suffixes_def)
  show ?thesis
    using parse_rate_exact [of 500, OF _ K] parse_rate_exact [of 18014398509481984, OF _ K] by (simp add: nums)
qed

subsection \<open>The arguments of get\<close>

definition codes_agree :: "share_code \<Rightarrow> share_code \<Rightarrow> bool" where
  "codes_agree c d \<longleftrightarrow> sc_id d = sc_id c \<and> sc_secret d = sc_secret c"

lemma merge_Inr:
  assumes "merge c d = Inr r"
  shows "codes_agree c d \<and> codes_agree c r \<and> r = c\<lparr>sc_peers := sc_peers r\<rparr> \<and>
    ea_id ` set (sc_peers r) = ea_id ` set (sc_peers c) \<union> ea_id ` set (sc_peers d)"
  using assms merge_peers_ids [of "sc_peers c" "sc_peers d"] by (simp add: merge_def codes_agree_def split: if_splits) auto

lemma merge_Inl: "merge c d = Inl e \<Longrightarrow> \<not> codes_agree c d"
  by (auto simp: merge_def codes_agree_def split: if_splits)

lemma merge_codes_spec:
  "case merge_codes c os of
     Inr r \<Rightarrow> \<exists>cs. os = map Inr cs \<and> (\<forall>d \<in> set cs. codes_agree c d) \<and> r = c\<lparr>sc_peers := sc_peers r\<rparr> \<and>
       ea_id ` set (sc_peers r) = (\<Union>d \<in> set (c # cs). ea_id ` set (sc_peers d))
   | Inl e \<Rightarrow> \<exists>x \<in> set os. case x of Inl _ \<Rightarrow> True | Inr d \<Rightarrow> \<not> codes_agree c d"
proof (induction os arbitrary: c)
  case Nil
  show ?case by simp
next
  case (Cons x os)
  show ?case
  proof (cases x)
    case (Inl e)
    then show ?thesis by simp
  next
    case (Inr d)
    show ?thesis
    proof (cases "merge c d")
      case bad: (Inl e)
      then show ?thesis using Inr merge_Inl [OF bad] by simp
    next
      case good: (Inr r)
      note m = merge_Inr [OF good]
      have same: "codes_agree r y \<longleftrightarrow> codes_agree c y" for y using m by (auto simp: codes_agree_def)
      show ?thesis
      proof (cases "merge_codes r os")
        case (Inl e)
        then show ?thesis using Cons.IH [of r] Inr good same by (simp cong: sum.case_cong)
      next
        case last: (Inr q)
        then obtain cs where cs: "os = map Inr cs" "\<forall>y \<in> set cs. codes_agree r y" "q = r\<lparr>sc_peers := sc_peers q\<rparr>"
          "ea_id ` set (sc_peers q) = (\<Union>y \<in> set (r # cs). ea_id ` set (sc_peers y))"
          using Cons.IH [of r] by auto
        have "x # os = map Inr (d # cs)" "\<forall>y \<in> set (d # cs). codes_agree c y" using cs(1,2) Inr m same by auto
        moreover have "q = c\<lparr>sc_peers := sc_peers q\<rparr>"
        proof -
          have "r\<lparr>sc_peers := sc_peers q\<rparr> = c\<lparr>sc_peers := sc_peers q\<rparr>" using m by (metis share_code.update_convs(4) share_code.select_convs share_code.surjective)
          then show ?thesis using cs(3) by simp
        qed
        moreover have "ea_id ` set (sc_peers q) = (\<Union>y \<in> set (c # d # cs). ea_id ` set (sc_peers y))"
          using cs(4) m by (simp add: Un_assoc)
        moreover have run: "merge_codes c (x # os) = Inr q" using last Inr good by simp
        ultimately show ?thesis unfolding run sum.case by (intro exI [of _ "d # cs"] conjI)
      qed
    qed
  qed
qed

lemma parse_code_Inr: "parse_code pc b t = Inr c \<longleftrightarrow> share_code_from_str pc b t = Inr c"
  by (cases "share_code_from_str pc b t") (simp_all add: parse_code_def)

lemma parsed_codes:
  "map (parse_code pc b) ts = map Inr cs \<longleftrightarrow> map (share_code_from_str pc b) ts = map Inr cs"
proof (induction ts arbitrary: cs)
  case (Cons t ts)
  then show ?case by (cases cs) (simp_all add: parse_code_Inr)
qed simp

text \<open>When the arguments of get are accepted.\<close>

definition get_args_ok :: "share_code codec \<Rightarrow> base64 \<Rightarrow> str list \<Rightarrow> bool" where
  "get_args_ok pc b args \<longleftrightarrow>
     length (filter (\<lambda>a. \<not> is_code_arg a) args) \<le> 1 \<and>
     (\<exists>c cs. map (share_code_from_str pc b) (filter is_code_arg args) = map Inr (c # cs) \<and> (\<forall>d \<in> set cs. codes_agree c d))"

lemma split_get_args_eq:
  "split_get_args pc b args =
     (if 1 < length (filter (\<lambda>a. \<not> is_code_arg a) args) then
        Inl (Bail (''expected share codes and at most one destination folder, got '' @
          show_nat (length (filter (\<lambda>a. \<not> is_code_arg a) args)) @ '' other arguments''))
      else case map (parse_code pc b) (filter is_code_arg args) of
          [] \<Rightarrow> Inl (Bail ''no share code given'')
        | code # others \<Rightarrow> bind_result code (\<lambda>c. bind_result (merge_codes c others) (\<lambda>merged.
            Inr (merged, case filter (\<lambda>a. \<not> is_code_arg a) args of [] \<Rightarrow> None | dir # _ \<Rightarrow> Some (path_of dir)))))"
  by (simp add: split_get_args_def partition_filter_conv comp_def)

text \<open>An argument that looks like a code but has another prefix is refused.\<close>

lemma wrong_prefix:
  assumes "a \<in> set args" and "is_code_arg a" and "\<not> starts_with (trim a) SHARE_CODE_PREFIX"
  shows "\<not> get_args_ok pc b args"
proof
  assume "get_args_ok pc b args"
  then obtain cs where cs: "map (share_code_from_str pc b) (filter is_code_arg args) = map Inr cs"
    unfolding get_args_ok_def by blast
  from assms(1,2) have "share_code_from_str pc b a \<in> set (map (share_code_from_str pc b) (filter is_code_arg args))" by simp
  then show False using assms(3) unfolding cs by (auto simp: share_code_from_str_def strip_prefix_def ok_or_def)
qed

text \<open>C26: get takes for share codes the arguments that start with "chr", spaces
  aside. It accepts them exactly when these are all codes of one share with one
  secret, at least one, and at most one other argument is given, which is the
  folder; the download then starts from the first code with the peers of all
  of them. So whatever starts with "chr" but not with "chr2", such as a folder
  named chroot, is refused and never taken for the folder, though the comment
  on the function says that everything not starting with "chr2" is.\<close>

theorem get_args_exact:
  "case split_get_args pc b args of
     Inl e \<Rightarrow> \<not> get_args_ok pc b args
   | Inr (code, dest) \<Rightarrow> get_args_ok pc b args \<and>
       dest = (case filter (\<lambda>a. \<not> is_code_arg a) args of [] \<Rightarrow> None | dir # _ \<Rightarrow> Some (path_of dir)) \<and>
       (\<exists>c cs. map (share_code_from_str pc b) (filter is_code_arg args) = map Inr (c # cs) \<and>
          code = c\<lparr>sc_peers := sc_peers code\<rparr> \<and>
          ea_id ` set (sc_peers code) = (\<Union>d \<in> set (c # cs). ea_id ` set (sc_peers d))) \<and>
       filter (\<lambda>a. starts_with (trim a) ''chr'' \<and> \<not> starts_with (trim a) ''chr2'') args = []"
proof (cases "1 < length (filter (\<lambda>a. \<not> is_code_arg a) args)")
  case True
  then show ?thesis by (simp add: split_get_args_eq get_args_ok_def)
next
  case few: False
  define codes where "codes = map (parse_code pc b) (filter is_code_arg args)"
  have ok: "get_args_ok pc b args \<longleftrightarrow> (\<exists>c cs. codes = map Inr (c # cs) \<and> (\<forall>d \<in> set cs. codes_agree c d))"
    using few unfolding get_args_ok_def parsed_codes [symmetric] codes_def [symmetric] by auto
  show ?thesis
  proof (cases codes)
    case Nil
    then show ?thesis using few ok by (simp add: split_get_args_eq codes_def [symmetric] del: list.map)
  next
    case (Cons x os)
    show ?thesis
    proof (cases x)
      case (Inl e)
      then show ?thesis using Cons few ok by (simp add: split_get_args_eq codes_def [symmetric] del: list.map) auto
    next
      case (Inr c)
      have split: "split_get_args pc b args = bind_result (merge_codes c os) (\<lambda>merged.
            Inr (merged, case filter (\<lambda>a. \<not> is_code_arg a) args of [] \<Rightarrow> None | dir # _ \<Rightarrow> Some (path_of dir)))"
        using few Cons Inr by (simp add: split_get_args_eq codes_def [symmetric] del: list.map)
      show ?thesis
      proof (cases "merge_codes c os")
        case (Inl e)
        with merge_codes_spec [where c = c and os = os] have "\<not> get_args_ok pc b args"
          unfolding ok Cons Inr \<open>x = Inr c\<close> by (force split: sum.splits)
        then show ?thesis by (simp add: split Inl)
      next
        case done': (Inr r)
        with merge_codes_spec [where c = c and os = os] obtain cs where cs: "os = map Inr cs" "\<forall>d \<in> set cs. codes_agree c d"
          "r = c\<lparr>sc_peers := sc_peers r\<rparr>" "ea_id ` set (sc_peers r) = (\<Union>d \<in> set (c # cs). ea_id ` set (sc_peers d))"
          by auto
        have all: "codes = map Inr (c # cs)" using Cons Inr cs(1) by simp
        then have "get_args_ok pc b args" using ok cs(2) by blast
        moreover have "map (share_code_from_str pc b) (filter is_code_arg args) = map Inr (c # cs)"
          using all unfolding codes_def parsed_codes .
        moreover have "filter (\<lambda>a. starts_with (trim a) ''chr'' \<and> \<not> starts_with (trim a) ''chr2'') args = []"
          using wrong_prefix [of _ args pc b] \<open>get_args_ok pc b args\<close> by (auto simp: is_code_arg_def SHARE_CODE_PREFIX_def filter_empty_conv)
        ultimately show ?thesis unfolding split done' bind_result.simps sum.case prod.case using cs(3,4) by blast
      qed
    qed
  qed
qed

subsection \<open>The state a command runs with\<close>

lemma builder_node_store:
  assumes "builder_node E g bd b (store, w) = (r, store1, w1)"
  shows "(store1 = None) = (store = None)" and "store = None \<Longrightarrow> store1 = None"
  using assms
  by (auto simp: builder_node_def builder_node_key_def and_then_def Let_def split: option.splits sum.splits prod.splits if_splits)

lemma client_build_ok:
  assumes "client_build E g bd now hub0 b d w = (Inr c, d1, w1)"
  shows "(cl_store c = None) = (cb_data_dir b = None)" and "cl_cfg c = builder_cfg b"
    and "cb_data_dir b = None \<Longrightarrow> d1 = d"
    and "cl_reseed c = cb_reseed b" and "cl_upload_slots c = cb_max_uploads b"
    and "cl_upload_rate c = map_option (\<lambda>r. limiter_new r now) (cb_upload_limit b)"
    and "cl_download_rate c = map_option (\<lambda>r. limiter_new r now) (cb_download_limit b)"
  using assms
  by (auto simp: client_build_def Let_def bind_result_Inr dest!: builder_node_store
      split: option.splits sum.splits prod.splits if_splits)

text \<open>What the flags ask of a client.\<close>

definition runs_as_asked :: "global_opts \<Rightarrow> bool \<Rightarrow> rat \<Rightarrow> 'd client \<Rightarrow> bool" where
  "runs_as_asked opts reseed now c \<longleftrightarrow>
     cl_reseed c = reseed \<and> cl_upload_slots c = max (go_max_uploads opts) 1 \<and>
     cl_upload_rate c = map_option (\<lambda>r. limiter_new r now) (go_upload_limit opts) \<and>
     cl_download_rate c = map_option (\<lambda>r. limiter_new r now) (go_download_limit opts)"

lemma cli_builder_fields:
  "cb_data_dir (cli_builder opts reseed) = None" "cb_storage_key (cli_builder opts reseed) = None"
  "cb_reseed (cli_builder opts reseed) = reseed" "cb_max_uploads (cli_builder opts reseed) = max (go_max_uploads opts) 1"
  "cb_upload_limit (cli_builder opts reseed) = go_upload_limit opts"
  "cb_download_limit (cli_builder opts reseed) = go_download_limit opts"
  by (simp_all add: cli_builder_def builder_default_def builder_mainline_dht_def builder_download_limit_def
      builder_upload_limit_def max_concurrent_uploads_def builder_reseed_def)

lemma built_as_asked:
  assumes "client_build E g bd now hub0 (cli_builder opts reseed) d w = (Inr c, d1, w1)"
  shows "runs_as_asked opts reseed now c \<and> cl_store c = None \<and> cl_cfg c = None \<and> d1 = d"
  using client_build_ok [OF assms]
  by (simp add: runs_as_asked_def cli_builder_fields builder_cfg_def)

lemma built_in_dir:
  assumes "client_build E g bd now hub0 (builder_data_dir dir (cli_builder opts reseed)) d w = (Inr c, d1, w1)"
  shows "runs_as_asked opts reseed now c \<and> cl_store c \<noteq> None \<and>
    cl_cfg c = Some \<lparr>st_blobs = path_join dir (path_of ''blobs''), st_key = None\<rparr>"
  using client_build_ok [OF assms]
  by (simp add: runs_as_asked_def cli_builder_fields builder_data_dir_def builder_cfg_def)

lemma made_as_asked:
  assumes "make_client (client_build E g bd now hub0) os var opts reseed needs_state d w = (Inr c, out, d', w')"
  shows "runs_as_asked opts reseed now c \<and> (cl_store c = None \<longleftrightarrow> cl_cfg c = None) \<and>
    (case cl_cfg c of
       Some cfg \<Rightarrow> out = [] \<and> st_key cfg = None \<and> \<not> go_no_state opts \<and>
         map_option (\<lambda>dir. path_join dir (path_of ''blobs'')) (cli_data_dir os var opts) = Some (st_blobs cfg)
     | None \<Rightarrow> \<not> needs_state \<and>
         (case cli_data_dir os var opts of
            None \<Rightarrow> out = [] \<and> d' = d
          | Some dir \<Rightarrow>
              out = [ErrOut (''Note: another chorrent is using '' @ path_display dir @ ''; this one runs without saved state.'')] \<and>
              (\<exists>p d1 w1. client_build E g bd now hub0 (builder_data_dir dir (cli_builder opts reseed)) d w =
                 (Inl (DataDirInUse p), d1, w1) \<and> d' = d1)))"
proof (cases "cli_data_dir os var opts")
  case None
  with assms have "client_build E g bd now hub0 (cli_builder opts reseed) d w = (Inr c, d', w')" "\<not> needs_state" "out = []"
    by (auto simp: make_client_def Let_def split: if_splits prod.splits)
  then show ?thesis using built_as_asked [of E g bd now hub0 opts reseed d w c d' w'] None by simp
next
  case (Some dir)
  then have flag: "\<not> go_no_state opts" by (auto simp: cli_data_dir_def)
  obtain r d1 w1 where first: "client_build E g bd now hub0 (builder_data_dir dir (cli_builder opts reseed)) d w = (r, d1, w1)"
    by (metis prod_cases3)
  show ?thesis
  proof (cases r)
    case (Inr c1)
    with assms Some first have "c1 = c" "out = []" by (auto simp: make_client_def Let_def)
    with Inr first built_in_dir [of E g bd now hub0 dir opts reseed d w c d1 w1] show ?thesis
      using Some flag by auto
  next
    case (Inl e)
    with assms Some first obtain p where "e = DataDirInUse p" "\<not> needs_state"
      "client_build E g bd now hub0 (cli_builder opts reseed) d1 w1 = (Inr c, d', w')"
      "out = [ErrOut (''Note: another chorrent is using '' @ path_display dir @ ''; this one runs without saved state.'')]"
      by (cases e) (auto simp: make_client_def Let_def split: if_splits prod.splits)
    with built_as_asked [of E g bd now hub0 opts reseed d1 w1 c d' w'] Inl first Some show ?thesis by auto
  qed
qed

text \<open>What a command that needs saved state says when it has none.\<close>

definition no_state_reason :: "path option \<Rightarrow> str" where
  "no_state_reason dir = (case dir of
     None \<Rightarrow> ''this command needs saved state; drop --no-state''
   | Some d \<Rightarrow> ''another chorrent is using '' @ path_display d @ ''; stop it first, or pass a different --data-dir'')"

lemma needs_state_none:
  assumes "cli_data_dir os var opts = None \<or> (\<exists>dir p d1 w1. cli_data_dir os var opts = Some dir \<and>
      client_build E g bd now hub0 (builder_data_dir dir (cli_builder opts reseed)) d w = (Inl (DataDirInUse p), d1, w1))"
  shows "\<exists>d1 w1. make_client (client_build E g bd now hub0) os var opts reseed True d w =
    (Inl (Bail (no_state_reason (cli_data_dir os var opts))), [], d1, w1)"
  using assms by (auto simp: make_client_def no_state_reason_def Let_def)

lemma needs_state_some:
  assumes "cli_data_dir os var opts = Some dir"
    and "client_build E g bd now hub0 (builder_data_dir dir (cli_builder opts reseed)) d w = (Inr c, d1, w1)"
  shows "make_client (client_build E g bd now hub0) os var opts reseed ns d w = (Inr c, [], d1, w1)"
  using assms by (simp add: make_client_def Let_def)

lemma stateless_refused:
  "cli_data_dir os var opts = None \<or> (\<exists>dir p d1 w1. cli_data_dir os var opts = Some dir \<and>
      client_build E g bd now hub0 (builder_data_dir dir (cli_builder opts True)) d w = (Inl (DataDirInUse p), d1, w1)) \<longrightarrow>
    run_list E v (make_client (client_build E g bd now hub0) os var opts) json d w =
      (Inl (Bail (no_state_reason (cli_data_dir os var opts))), []) \<and>
    run_resume E v (make_client (client_build E g bd now hub0) os var opts) again me fresh d w =
      (Inl (Bail (no_state_reason (cli_data_dir os var opts))), []) \<and>
    (\<exists>w1. run_forget E (make_client (client_build E g bd now hub0) os var opts) text d w =
      (Inl (Bail (no_state_reason (cli_data_dir os var opts))), [], w1))"
  using needs_state_none [of os var opts E g bd now hub0 True d w]
  by (auto simp: run_list_def run_resume_def run_forget_def)

lemma stateful_runs:
  "\<forall>dir c d1 w1. cli_data_dir os var opts = Some dir \<and>
      client_build E g bd now hub0 (builder_data_dir dir (cli_builder opts True)) d w = (Inr c, d1, w1) \<longrightarrow>
    cl_store c \<noteq> None \<and>
    run_list E v (make_client (client_build E g bd now hub0) os var opts) json d w =
      run_list E v (\<lambda>_ _ _ _. (Inr c, [], d1, w1)) json d w \<and>
    run_resume E v (make_client (client_build E g bd now hub0) os var opts) again me fresh d w =
      run_resume E v (\<lambda>_ _ _ _. (Inr c, [], d1, w1)) again me fresh d w \<and>
    run_forget E (make_client (client_build E g bd now hub0) os var opts) text d w =
      run_forget E (\<lambda>_ _ _ _. (Inr c, [], d1, w1)) text d w"
  using built_in_dir [of E g bd now hub0 _ opts True d w]
  by (auto simp: needs_state_some run_list_def run_resume_def run_forget_def)

text \<open>C25: a command gets the client its flags ask for. A command told to keep no
  state leaves the database alone, and one runs without state only when no
  data folder is known, or when another program has it open, which it then
  says. List, resume and forget, in that case, do nothing but say so, and else
  run on a client with the state of the data folder. The client is never
  encrypted, and its limits, its number of uploads (at least one) and whether
  it reseeds are those of the flags.\<close>

theorem right_client:
  assumes "start = make_client (client_build E g bd now hub0) os var opts"
  shows "(\<forall>reseed needs_state c out d' w'. start reseed needs_state d w = (Inr c, out, d', w') \<longrightarrow>
    runs_as_asked opts reseed now c \<and> (cl_store c = None \<longleftrightarrow> cl_cfg c = None) \<and>
    (case cl_cfg c of
       Some cfg \<Rightarrow> out = [] \<and> st_key cfg = None \<and> \<not> go_no_state opts \<and>
         map_option (\<lambda>dir. path_join dir (path_of ''blobs'')) (cli_data_dir os var opts) = Some (st_blobs cfg)
     | None \<Rightarrow> \<not> needs_state \<and>
         (case cli_data_dir os var opts of
            None \<Rightarrow> out = [] \<and> d' = d
          | Some dir \<Rightarrow>
              out = [ErrOut (''Note: another chorrent is using '' @ path_display dir @ ''; this one runs without saved state.'')] \<and>
              (\<exists>p d1 w1. client_build E g bd now hub0 (builder_data_dir dir (cli_builder opts reseed)) d w =
                 (Inl (DataDirInUse p), d1, w1) \<and> d' = d1)))) \<and>
    (cli_data_dir os var opts = None \<or> (\<exists>dir p d1 w1. cli_data_dir os var opts = Some dir \<and>
        client_build E g bd now hub0 (builder_data_dir dir (cli_builder opts True)) d w = (Inl (DataDirInUse p), d1, w1)) \<longrightarrow>
      run_list E v start json d w = (Inl (Bail (no_state_reason (cli_data_dir os var opts))), []) \<and>
      run_resume E v start again me fresh d w = (Inl (Bail (no_state_reason (cli_data_dir os var opts))), []) \<and>
      (\<exists>w1. run_forget E start text d w = (Inl (Bail (no_state_reason (cli_data_dir os var opts))), [], w1))) \<and>
    (\<forall>dir c d1 w1. cli_data_dir os var opts = Some dir \<and>
        client_build E g bd now hub0 (builder_data_dir dir (cli_builder opts True)) d w = (Inr c, d1, w1) \<longrightarrow>
      cl_store c \<noteq> None \<and>
      run_list E v start json d w = run_list E v (\<lambda>_ _ _ _. (Inr c, [], d1, w1)) json d w \<and>
      run_resume E v start again me fresh d w = run_resume E v (\<lambda>_ _ _ _. (Inr c, [], d1, w1)) again me fresh d w \<and>
      run_forget E start text d w = run_forget E (\<lambda>_ _ _ _. (Inr c, [], d1, w1)) text d w)"
  unfolding assms by (intro conjI stateless_refused stateful_runs) (intro allI impI, rule made_as_asked)

definition wit_opts :: global_opts where
  "wit_opts = \<lparr>go_json = False, go_data_dir = None, go_no_state = True, go_upload_limit = Some 1024, go_download_limit = None,
     go_max_uploads = 0, go_dht = False\<rparr>"

definition wit_display :: display where
  "wit_display = \<lparr>human_bytes = (\<lambda>n. show_nat (unat n)), show_code = sc_name, show_id = (\<lambda>_. []), show_error = (\<lambda>_. []),
     show_saved = (\<lambda>_. [])\<rparr>"

theorem right_client_witness:
  "\<exists>c out d' w'. make_client (client_build wit_libs [9] (\<lambda>_ _. Inr (nd_endpoint toy_node)) 0 wit_hub) OtherOs (\<lambda>_. None)
      wit_opts True False (\<lambda>_. []) x_world = (Inr c, out, d', w') \<and> cl_upload_slots c = 1 \<and> cl_cfg c = None \<and> d' = (\<lambda>_. []) \<and>
    run_list wit_libs wit_display (make_client (client_build wit_libs [9] (\<lambda>_ _. Inr (nd_endpoint toy_node)) 0 wit_hub) OtherOs (\<lambda>_. None)
      wit_opts) False (\<lambda>_. []) x_world = (Inl (Bail ''this command needs saved state; drop --no-state''), [])"
proof -
  have dir: "cli_data_dir OtherOs (\<lambda>_. None) wit_opts = None" by (simp add: cli_data_dir_def wit_opts_def)
  obtain c out d' w' where run: "make_client (client_build wit_libs [9] (\<lambda>_ _. Inr (nd_endpoint toy_node)) 0 wit_hub) OtherOs (\<lambda>_. None)
      wit_opts True False (\<lambda>_. []) x_world = (Inr c, out, d', w')"
    unfolding make_client_def dir
    by (simp add: Let_def client_build_def cli_builder_fields builder_node_def builder_node_key_def and_then_def node_bind_def
        cli_builder_def builder_default_def builder_mainline_dht_def builder_download_limit_def
        builder_upload_limit_def max_concurrent_uploads_def builder_reseed_def split_beta)
  from right_client [OF refl, THEN conjunct1, rule_format, OF run] dir have "cl_cfg c = None \<and> d' = (\<lambda>_. []) \<and> cl_upload_slots c = 1"
    by (cases "cl_cfg c") (simp_all add: runs_as_asked_def wit_opts_def)
  moreover have "run_list wit_libs wit_display (make_client (client_build wit_libs [9] (\<lambda>_ _. Inr (nd_endpoint toy_node)) 0 wit_hub) OtherOs
      (\<lambda>_. None) wit_opts) False (\<lambda>_. []) x_world = (Inl (Bail ''this command needs saved state; drop --no-state''), [])"
    by (rule right_client [OF refl, THEN conjunct2, THEN conjunct1, rule_format, OF disjI1 [OF dir], THEN conjunct1, unfolded dir no_state_reason_def option.case])
  ultimately show ?thesis using run by blast
qed

subsection \<open>The progress bar\<close>

lemma progress_event_position: "pr_position (progress_event v e p) = pr_position p + event_bytes e"
  by (cases e) (simp_all add: say_def set_peers_def inc_def)

lemma progress_loop_position:
  "pr_position (progress_loop v (map Event es) p) = pr_position p + reported es"
  by (induction es arbitrary: p) (simp_all add: progress_event_position add.assoc)

fun tells_bytes :: "event \<Rightarrow> bool" where
  "tells_bytes (Resumed k n) = True"
| "tells_bytes (PieceVerified i n) = True"
| "tells_bytes _ = False"

lemma reported_filter: "reported (filter tells_bytes es) = reported es"
proof (induction es)
  case (Cons e es)
  then show ?case by (cases e) simp_all
qed simp

lemma progress_event_length: "pr_length (progress_event v e p) = pr_length p"
  by (cases e) (simp_all add: say_def set_peers_def inc_def)

lemma progress_loop_length: "pr_length (progress_loop v ins p) = pr_length p"
  by (induction v ins p rule: progress_loop.induct) (simp_all add: progress_event_length)

text \<open>C22: when a download ends well and none of the events that tell of bytes was
  missed, the events alone have moved the bar exactly to the size the share
  code gave, whatever was resumed, stored twice or failed on the way, and
  however other events come in between. Missed events (the channel lags, or
  the download ends while some are queued) leave it where it is until then;
  the end of the download puts it at that size in any case.\<close>

theorem bar_fills:
  assumes "download_run E sp se order ctx code dest a rounds events (store, hub, w) = Some (Some (Inr out), store', hub', w')"
    and "fits (ls_manifest (oc_share out))" and "2 * length events + 4 < 2 ^ 32"
    and "filter tells_bytes es = filter tells_bytes (ls_events (oc_share out))"
  shows "pr_position (progress_loop v (map Event es) (bar_new (sc_total_size code))) = sc_total_size code \<and>
    pr_position (fst (drive_download v json (sc_total_size code) ins queued (Inr ended :: error + 'f))) = sc_total_size code"
proof
  have "reported es = sc_total_size code"
    using download_reports [OF assms(1-3)] reported_filter [of es] reported_filter [of "ls_events (oc_share out)"] assms(4) by simp
  then show "pr_position (progress_loop v (map Event es) (bar_new (sc_total_size code))) = sc_total_size code"
    by (simp add: progress_loop_position bar_new_def)
  show "pr_position (fst (drive_download v json (sc_total_size code) ins queued (Inr ended :: error + 'f))) = sc_total_size code"
    by (simp add: drive_download_def finish_with_message_def progress_loop_length Let_def) (simp add: bar_new_def)
qed

theorem bar_fills_witness:
  "\<exists>out. download_run wit_libs (\<lambda>_. []) (\<lambda>_. []) (\<lambda>_. []) wit_ctx wit_code [Normal ''d''] 0 [wit_round] wit_events
     (None, wit_hub, wit_world) = Some (Some (Inr out), None, wit_hub, put_file wit_path [1, 2, 3] wit_world1) \<and>
   pr_position (progress_loop wit_display (map Event (SwarmPeers 1 # ls_events (oc_share out))) (bar_new 3)) = 3 \<and>
   pr_position (fst (drive_download wit_display False 3 [Lagged] [] (Inr ()))) = 3"
proof -
  obtain out where run: "download_run wit_libs (\<lambda>_. []) (\<lambda>_. []) (\<lambda>_. []) wit_ctx wit_code [Normal ''d''] 0 [wit_round] wit_events
     (None, wit_hub, wit_world) = Some (Some (Inr out), None, wit_hub, put_file wit_path [1, 2, 3] wit_world1)"
    and m: "ls_manifest (oc_share out) = wit_manifest"
    using wit_run by blast
  have fits: "fits (ls_manifest (oc_share out))"
    by (simp add: m wit_manifest_def fits_def sum_pieces_def file_pieces_def div_ceil_def BLOCK_SIZE_def)
  show ?thesis
    using bar_fills [OF run fits, of "SwarmPeers 1 # ls_events (oc_share out)" wit_display False "[Lagged]" "[]" "()"] run
    by (simp add: wit_events_def wit_code_def)
qed

end
