(* ===== verification/Spec2Isabelle.thy ===== *)
theory Spec2Isabelle
  imports Scheduler_Contract Manifest_Safety Layout Wire Share_Code Storage_Contract Share_Reading
    Store_Format Store_Reload Rate_Limit Serving_Safety Resuming Sharing Cli_Safety
begin

text \<open>
  A verification library for Chorrent, a peer-to-peer file transfer program:
  the library crate \<open>src/crates/chorrent/src\<close> and the command line program
  \<open>src/crates/chorrent-cli/src/main.rs\<close>.

  \<^bold>\<open>The program.\<close> A \<^emph>\<open>seeder\<close> hashes a file or folder into a manifest (the list of
  its files with their sizes and BLAKE3 roots); the hash of the manifest's
  encoding is the share's id. It registers the share and hands out a share
  code: id, name, size, the secret of a private share, and peers. A
  \<^emph>\<open>downloader\<close> finds peers through the code and a gossip swarm, gets the
  manifest, checks it against the id, and fetches pieces of 64 KiB, each with
  the hashes that prove it, from many peers at once; pieces go straight to
  their place on disk, or encrypted into a store. It may serve what it has
  while it downloads. A database keeps seeds, downloads, their progress and
  who may download what between runs; with a storage key everything in it is
  sealed.

  \<^bold>\<open>Theories and sources.\<close>
  \<^item> \<open>Chorrent_Prelude\<close>, \<open>Rust_Text\<close>: machine integers, indexing and checked
    arithmetic, sequences of operations that may panic; strings as UTF-8
    bytes and paths as their components.
  \<^item> \<open>Chorrent_Error\<close>: \<open>error.rs\<close> and \<open>event.rs\<close>. \<open>Externals\<close>: the libraries.
  \<^item> \<open>Manifest\<close>, \<open>Manifest_Safety\<close>, \<open>Layout\<close>: \<open>manifest.rs\<close>, that is names,
    encoding and verification, building from disk, and the piece layout.
  \<^item> \<open>Wire\<close>: \<open>protocol.rs\<close>. \<open>Share_Code\<close>: \<open>share.rs\<close>.
  \<^item> \<open>Scheduler\<close>, \<open>Scheduler_Inv\<close>, \<open>Scheduler_Contract\<close>: \<open>scheduler.rs\<close>, its
    invariant, and what it promises the engine.
  \<^item> \<open>Disk\<close>: files of the machine. \<open>Storage\<close>, \<open>Storage_Contract\<close>: \<open>storage.rs\<close>,
    plain and encrypted files behind one interface (locale \<open>positioned\<close>).
  \<^item> \<open>Chunker\<close>: \<open>chunker.rs\<close>. \<open>Local_Share\<close>, \<open>Share_Safety\<close>, \<open>Share_Reading\<close>:
    \<open>local.rs\<close>, a share on disk with the pieces held. \<open>Share_Steps\<close>,
    \<open>Engine_Steps\<close>: the contracts \<open>share_steps\<close> and \<open>engine_steps\<close>. A relation
    between a share and a later one that holds for marking a piece and for the
    progress of one file holds for every operation of \<open>local.rs\<close>; one that
    holds for storing a piece and sending an event holds for every task of the
    engine and the whole loop.
  \<^item> \<open>Store\<close>, \<open>Store_Contract\<close>, \<open>Store_Format\<close>, \<open>Store_Reload\<close>: \<open>store.rs\<close>, the
    database, sealed or plain, seen as a map.
  \<^item> \<open>Rate_Limit\<close>: \<open>limits.rs\<close>. \<open>Serving\<close>, \<open>Serving_Safety\<close>: \<open>handler.rs\<close> and
    \<open>registration.rs\<close>.
  \<^item> \<open>Download\<close>, \<open>Engine\<close>, \<open>Engine_Safety\<close>, \<open>Swarm\<close>, \<open>Swarm_Safety\<close>, \<open>Progress\<close>:
    \<open>download.rs\<close>, that is the search for the manifest, the peers and workers
    of the engine, the whole download, and what it reports. \<open>Preparing\<close>: the
    files made ready before it. \<open>Confinement\<close>: the files it can change.
    \<open>Saved_Trees\<close>, \<open>Resuming\<close>: the progress it saves and taking it up again.
  \<^item> \<open>Subscription\<close>, \<open>Liveness\<close>: the two ends together, \<open>handler.rs\<close> and
    \<open>download.rs\<close> over one stream: what a downloader learns of a peer, and that
    one honest seeder is enough to finish. \<open>Fetching\<close>, \<open>Sharing\<close>: a whole run
    against such a seeder, from a disk to another.
  \<^item> \<open>Node\<close>: \<open>node.rs\<close>. \<open>Discovery\<close>: \<open>discovery.rs\<close>.
  \<^item> \<open>Client\<close>, \<open>Client_Safety\<close>: \<open>client.rs\<close>. \<open>Cli\<close>, \<open>Cli_Safety\<close>: \<open>main.rs\<close>.

  \<^bold>\<open>How the code is read.\<close> A \<open>u32\<close> or \<open>u64\<close> is a word; a \<open>usize\<close> is a natural
  number, with its wrap-around written out where a count could reach it. An
  operation that may panic gives an option, \<open>None\<close> for the panic; so do sums
  and products that overflow, which wrap without overflow checks: what is
  proved not to give \<open>None\<close> holds in both builds. A \<open>Result\<close> is a sum with
  the error on the left. State is passed along: the machine is the record
  \<open>world\<close> (file contents, the faults the file system has, a tape of random
  bytes), the database a state of the library's, a share behind an \<open>Arc\<close> an
  address in the registry's \<open>hub\<close>. A section under a lock is one step; tasks
  interleave as lists of steps, and the theorems hold for every list.
  Events, timers, answers of peers and signals are inputs. Hash maps and sets
  that are listed come with the order they list in. The \<open>f64\<close> arithmetic of
  the rate limiter and of the number of requests per peer is exact.

  \<^bold>\<open>Parameters.\<close> postcard, BLAKE3 (hash, keyed hash, key derivation), the
  bao tree, XChaCha20-Poly1305, redb, base64, Unicode lower case, iroh and
  iroh-gossip, the terminal and JSON. What a theorem relies on is a
  hypothesis in its statement: that values of a type round-trip, that the tree
  accepts only true content for a root and keeps what was proved, that the cipher decrypts what it
  encrypted, that the database is a map whose failed writes
  change nothing. Each has a concrete instance, which the examples use.

  \<^bold>\<open>What is proved.\<close>
  \<^item> The download, end to end: what one node shares arrives at another; a
    download that ends well leaves the true content and changes no other file,
    nor does one that fails; it starts in the invariant of its engine, which
    keeps a record of true pieces under any interleaving of any peers; what
    it reports adds up to the size of the share; cancelling keeps progress, and
    a later run holds again every piece whose progress was saved;
    with an honest seeder at the other end of the network it ends after one
    request per missing piece; a downloader believes of a peer what it was told.
  \<^item> Serving: only peers that may have a share learn that it exists; the
    registry lists exactly the shares registered and since neither dropped
    nor unlisted; rates are kept in any period. A swarm keeper reports its
    true neighbours and rejoins when it has none, and only then.
  \<^item> State: the database behaves as a map whether sealed or not and is never
    half sealed; seeds, allowlists and progress load again; forgetting takes
    a share's records and no others (progress with no download record stays),
    removing deletes no file outside the share's own folder of the store.
  \<^item> Files: manifests from peers stay inside their folder, pieces tile the
    files exactly, what is written through a handle reads back, reading and
    exporting give the true bytes.
  \<^item> The scheduler never panics, picks a piece exactly when there is one to
    ask for, in order in the urgent window and else rarest first.
  \<^item> The client and the command line: a started seed can be fetched, access
    changes on disk and in force together, a refused seed and what it leaves
    behind, rates and arguments are read as written, the progress bar ends
    at the size of the share, and commands run with the state their flags ask
    for; those about saved state never run without it.
  \<^item> Texts and messages: frames, share codes and rates round-trip.

  \<^bold>\<open>Fuel and bounds.\<close> All loops are structural recursions on their data or
  their inputs, or have a termination proof; no definition runs on fuel. The
  engine's theorems bound the number of its steps by \<open>2 ^ 31\<close>, since the
  scheduler counts holders of a piece in a \<open>u32\<close>. \<open>Layout.fits\<close> bounds a
  manifest: fewer than \<open>2 ^ 64\<close> pieces, and no file within a block of \<open>2 ^ 64\<close>
  bytes, where the code wraps (\<open>Layout.locate_wraps\<close>).

  \<^bold>\<open>Not modelled.\<close> Faults of the disk after a file was opened: the faults of
  \<open>Disk.world\<close> are those of opening, by path and access, so a write to an open
  file writes all of it, copying in \<open>export_file\<close> fails on reading only, and
  preallocating a file either succeeds or leaves the disk as it was; a disk
  that is full is therefore not modelled, nor is what a crash leaves of a
  write. The texts of errors (\<open>Display\<close>), the argument quoted in the message
  of \<open>parse_rate\<close> among them; the accept loop, hole
  punching and relays of iroh; the bandwidth limit of downloads, which only
  delays; panics of a mutex poisoned by an earlier panic; symbolic links and
  file permissions; the shell completions of the command line; \<open>lib.rs\<close>, which
  re-exports; the examples and the tests.
\<close>

end
